(* ===== verification/Prelude.thy ===== *)
theory Prelude
  imports Main "HOL-Library.AList" "HOL-Library.Word"
begin

text \<open>
  Shared vocabulary of the development: the Go types and library calls that every
  component uses, and the lemmas about them that the component proofs rest on.

  \<^item> Instants (\<open>time.Time\<close>) are nanoseconds since Go's zero time (1 January of year 1, UTC),
    so \<open>IsZero\<close> is equality with \<open>0\<close>; durations are nanoseconds, and \<open>Time.Sub\<close>
    saturates at the bounds of an \<open>int64\<close> as the library documents.
  \<^item> A Go map is an association list with distinct keys (\<open>gomap\<close>): its order stands for one
    iteration order, reading, writing and deleting a key are \<open>map_of\<close>, \<open>AList.update\<close> and
    \<open>AList.delete\<close>.
  \<^item> A fallible function returns \<open>'e + 'a\<close>, \<open>Inl\<close> being the error.
  \<^item> The regular expressions the program matches identifiers with are character-class
    predicates.
\<close>

section \<open>Collections of facts\<close>

named_theorems journal_simps \<open>what each journal operation does to the snapshot\<close>
named_theorems inv_intros \<open>operations that keep their component's invariant\<close>

section \<open>Time\<close>

type_synonym gotime = int
type_synonym duration = int

definition second :: duration where "second = 1000000000"
definition millisecond :: duration where "millisecond = 1000000"
definition minute :: duration where "minute = 60 * second"
definition hour :: duration where "hour = 60 * minute"

lemmas time_units = second_def millisecond_def minute_def hour_def

definition IsZero :: "gotime \<Rightarrow> bool" where "IsZero t \<longleftrightarrow> t = 0"
definition After :: "gotime \<Rightarrow> gotime \<Rightarrow> bool" where "After t u \<longleftrightarrow> u < t"
definition Before :: "gotime \<Rightarrow> gotime \<Rightarrow> bool" where "Before t u \<longleftrightarrow> t < u"

definition maxDuration :: duration where "maxDuration = 2 ^ 63 - 1"
definition minDuration :: duration where "minDuration = - (2 ^ 63)"

definition Sub :: "gotime \<Rightarrow> gotime \<Rightarrow> duration" where
  "Sub t u = max minDuration (min maxDuration (t - u))"

lemmas time_defs = IsZero_def After_def Before_def

lemma Sub_gt_iff: "d < maxDuration \<Longrightarrow> minDuration \<le> d \<Longrightarrow> Sub t u > d \<longleftrightarrow> t - u > d"
  by (auto simp: Sub_def)

lemma Sub_ge_iff: "d \<le> maxDuration \<Longrightarrow> minDuration < d \<Longrightarrow> Sub t u \<ge> d \<longleftrightarrow> t - u \<ge> d"
  by (auto simp: Sub_def)

lemma Sub_le_iff: "d < maxDuration \<Longrightarrow> minDuration \<le> d \<Longrightarrow> Sub t u \<le> d \<longleftrightarrow> t - u \<le> d"
  by (auto simp: Sub_def)

lemma Sub_bounds: "minDuration \<le> Sub t u" "Sub t u \<le> maxDuration"
  by (auto simp: Sub_def minDuration_def maxDuration_def)

section \<open>Go maps\<close>

type_synonym ('k, 'v) gomap = "('k \<times> 'v) list"

abbreviation gm_keys :: "('k, 'v) gomap \<Rightarrow> 'k list" where
  "gm_keys m \<equiv> map fst m"

definition gm_ok :: "('k, 'v) gomap \<Rightarrow> bool" where
  "gm_ok m \<longleftrightarrow> distinct (gm_keys m)"

definition gm_has :: "('k, 'v) gomap \<Rightarrow> 'k \<Rightarrow> bool" where
  "gm_has m k \<longleftrightarrow> map_of m k \<noteq> None"

definition gm_get :: "'v \<Rightarrow> ('k, 'v) gomap \<Rightarrow> 'k \<Rightarrow> 'v" where
  "gm_get zero m k = (case map_of m k of None \<Rightarrow> zero | Some v \<Rightarrow> v)"

lemma gm_ok_Nil [simp]: "gm_ok []"
  by (simp add: gm_ok_def)

lemma gm_ok_update [simp, intro]: "gm_ok m \<Longrightarrow> gm_ok (AList.update k v m)"
  by (simp add: gm_ok_def distinct_update)

lemma gm_ok_delete [simp, intro]: "gm_ok m \<Longrightarrow> gm_ok (AList.delete k m)"
  by (simp add: gm_ok_def distinct_delete)

lemma gm_ok_filter [simp, intro]: "gm_ok m \<Longrightarrow> gm_ok (filter P m)"
  by (simp add: gm_ok_def distinct_map_filter)

lemma gm_ok_map_snd [simp]: "gm_ok (map (\<lambda>(k, v). (k, f k v)) m) = gm_ok m"
proof -
  have "map (fst \<circ> (\<lambda>(k, v). (k, f k v))) m = map fst m"
    by (induction m) auto
  then show ?thesis by (simp only: gm_ok_def map_map)
qed

lemma gm_in_set: "gm_ok m \<Longrightarrow> (k, v) \<in> set m \<longleftrightarrow> map_of m k = Some v"
  by (simp add: gm_ok_def)

lemma gm_has_iff: "gm_has m k \<longleftrightarrow> k \<in> set (gm_keys m)"
  by (simp add: gm_has_def map_of_eq_None_iff)

lemma update_new: "k \<notin> set (gm_keys m) \<Longrightarrow> AList.update k v m = m @ [(k, v)]"
  by (induction m) auto

lemma set_update_gm:
  "gm_ok m \<Longrightarrow> set (AList.update k v m) = insert (k, v) {x \<in> set m. fst x \<noteq> k}"
  by (induction m) (auto simp: gm_ok_def rev_image_eqI)

lemma set_delete_gm [simp]: "set (AList.delete k m) = {x \<in> set m. fst x \<noteq> k}"
  by (auto simp: AList.delete_eq)

lemma map_of_delete_gm: "map_of (AList.delete k m) = (map_of m)(k := None)"
  by (rule ext) (simp add: AList.delete_conv)

lemma map_of_update_gm: "map_of (AList.update k v m) = (map_of m)(k \<mapsto> v)"
  by (rule ext) (simp add: AList.update_conv)

lemma map_of_filter_key: "map_of (filter (\<lambda>(k, v). P k) m) k = (if P k then map_of m k else None)"
  by (induction m) auto

lemma map_of_map_snd: "map_of (map (\<lambda>(k, v). (k, f k v)) m) k = map_option (f k) (map_of m k)"
  by (induction m) auto

lemmas gm_simps = map_of_delete_gm map_of_update_gm

section \<open>Strings\<close>

definition lower :: string where "lower = ''abcdefghijklmnopqrstuvwxyz''"
definition upper :: string where "upper = ''ABCDEFGHIJKLMNOPQRSTUVWXYZ''"
definition digits :: string where "digits = ''0123456789''"
definition hexits :: string where "hexits = ''0123456789abcdef''"

lemmas char_classes = lower_def upper_def digits_def hexits_def

definition HasPrefix :: "string \<Rightarrow> string \<Rightarrow> bool" where
  "HasPrefix s p \<longleftrightarrow> take (length p) s = p"

definition HasSuffix :: "string \<Rightarrow> string \<Rightarrow> bool" where
  "HasSuffix s p \<longleftrightarrow> HasPrefix (rev s) (rev p)"

definition TrimPrefix :: "string \<Rightarrow> string \<Rightarrow> string" where
  "TrimPrefix s p = (if HasPrefix s p then drop (length p) s else s)"

definition TrimSuffix :: "string \<Rightarrow> string \<Rightarrow> string" where
  "TrimSuffix s p = (if HasSuffix s p then take (length s - length p) s else s)"

lemma HasPrefix_append [simp]: "HasPrefix (p @ s) p"
  by (simp add: HasPrefix_def)

lemma HasPrefixE: "HasPrefix s p \<Longrightarrow> \<exists>r. s = p @ r"
  by (metis HasPrefix_def append_take_drop_id)

text \<open>\<open>strings.Cut\<close>: the text before and after the first occurrence of a separator.\<close>

fun Cut :: "string \<Rightarrow> string \<Rightarrow> (string \<times> string) option" where
  "Cut sep [] = (if sep = [] then Some ([], []) else None)"
| "Cut sep (c # cs) =
     (if HasPrefix (c # cs) sep then Some ([], drop (length sep) (c # cs))
      else map_option (\<lambda>(a, b). (c # a, b)) (Cut sep cs))"

lemma Cut_Some: "Cut sep s = Some (a, b) \<Longrightarrow> s = a @ sep @ b"
proof (induction s arbitrary: a)
  case Nil
  then show ?case by (auto split: if_splits)
next
  case (Cons c cs)
  show ?case
  proof (cases "HasPrefix (c # cs) sep")
    case True
    with Cons.prems show ?thesis
      by (auto simp: HasPrefix_def) (metis append_take_drop_id)
  next
    case False
    with Cons show ?thesis by auto
  qed
qed

text \<open>\<open>^[a-z0-9][a-z0-9._-]{0,n}$\<close>\<close>

definition stableToken :: "nat \<Rightarrow> string \<Rightarrow> bool" where
  "stableToken n s = (case s of [] \<Rightarrow> False
     | c # cs \<Rightarrow> c \<in> set (lower @ digits) \<and> length cs \<le> n \<and>
         list_all (\<lambda>d. d \<in> set (lower @ digits @ ''._-'')) cs)"

text \<open>The canonical UUID pattern, one character class per position.\<close>

definition uuidPattern :: "string list" where
  "uuidPattern = replicate 8 hexits @ [''-''] @ replicate 4 hexits @ [''-''] @
     [''12345''] @ replicate 3 hexits @ [''-''] @ [''89ab''] @ replicate 3 hexits @ [''-''] @
     replicate 12 hexits"

definition ValidUUID :: "string \<Rightarrow> bool" where
  "ValidUUID s = list_all2 (\<lambda>c cls. c \<in> set cls) s uuidPattern"

lemma ValidUUID_length: "ValidUUID s \<Longrightarrow> length s = 36"
  by (drule list_all2_lengthD [OF iffD1 [OF ValidUUID_def]]) (simp add: uuidPattern_def)

section \<open>Lists\<close>

lemma distinct_map_inj_on_eq:
  "distinct (map f xs) \<Longrightarrow> x \<in> set xs \<Longrightarrow> y \<in> set xs \<Longrightarrow> f x = f y \<Longrightarrow> x = y"
  by (metis distinct_map inj_onD)

lemma set_drop_last_subset: "set (drop n xs) \<subseteq> set xs"
  by (rule set_drop_subset)

text \<open>\<open>xs[len(xs)-n:]\<close>, the last \<open>n\<close> elements.\<close>

definition lastn :: "nat \<Rightarrow> 'a list \<Rightarrow> 'a list" where
  "lastn n xs = drop (length xs - n) xs"

lemma length_lastn [simp]: "length (lastn n xs) = min n (length xs)"
  by (simp add: lastn_def)

lemma set_lastn: "set (lastn n xs) \<subseteq> set xs"
  by (simp add: lastn_def set_drop_subset)

lemma lastn_snoc: "0 < n \<Longrightarrow> x \<in> set (lastn n (xs @ [x]))"
  by (cases n) (auto simp: lastn_def)

lemma distinct_lastn: "distinct (map f xs) \<Longrightarrow> distinct (map f (lastn n xs))"
  by (metis distinct_drop drop_map lastn_def)

end
