(* ===== verification/Lifecycle.thy ===== *)
theory Lifecycle
  imports Prelude "HOL-Library.Multiset"
begin

text \<open>
  The process-wide gate of \<open>src/internal/lifecycle/gate.go\<close>: command execution takes
  operation leases, the updater takes the one update lease, and the two exclude each other.
  The leases handed out so far are kept beside the gate, so that what a \<open>Release\<close> does the
  first time and every later time (\<open>sync.Once\<close>) can be stated.
\<close>

section \<open>The gate and its leases\<close>

record Gate =
  updating :: bool
  operations :: int

datatype lease_kind = OperationLease | UpdateLease

record Lease =
  kind :: lease_kind
  released :: bool

text \<open>The gate with every lease it has handed out, by the order they were taken; a lease is
  named by its position.\<close>

record gate_sys =
  gate :: Gate
  leases :: "Lease list"

definition New :: Gate where
  "New = \<lparr>updating = False, operations = 0\<rparr>"

definition new_sys :: gate_sys where
  "new_sys = \<lparr>gate = New, leases = []\<rparr>"

section \<open>TryOperation, TryUpdate, Release\<close>

definition TryOperation :: "gate_sys \<Rightarrow> nat option \<times> gate_sys" where
  "TryOperation s =
     (if updating (gate s) then (None, s)
      else (Some (length (leases s)),
            s\<lparr>gate := (gate s)\<lparr>operations := operations (gate s) + 1\<rparr>,
              leases := leases s @ [\<lparr>kind = OperationLease, released = False\<rparr>]\<rparr>))"

definition TryUpdate :: "gate_sys \<Rightarrow> nat option \<times> gate_sys" where
  "TryUpdate s =
     (if updating (gate s) \<or> operations (gate s) \<noteq> 0 then (None, s)
      else (Some (length (leases s)),
            s\<lparr>gate := (gate s)\<lparr>updating := True\<rparr>,
              leases := leases s @ [\<lparr>kind = UpdateLease, released = False\<rparr>]\<rparr>))"

text \<open>What the lease's closure does, once.\<close>

definition release_fn :: "lease_kind \<Rightarrow> Gate \<Rightarrow> Gate" where
  "release_fn k g = (case k of
      OperationLease \<Rightarrow> g\<lparr>operations := operations g - 1\<rparr>
    | UpdateLease \<Rightarrow> g\<lparr>updating := False\<rparr>)"

text \<open>\<open>Release\<close> of a nil lease (\<open>None\<close>) or of one released before does nothing.\<close>

definition Release :: "nat option \<Rightarrow> gate_sys \<Rightarrow> gate_sys" where
  "Release l s = (case l of None \<Rightarrow> s
     | Some i \<Rightarrow>
         if i < length (leases s) \<and> \<not> released (leases s ! i)
         then s\<lparr>gate := release_fn (kind (leases s ! i)) (gate s),
                leases := (leases s)[i := (leases s ! i)\<lparr>released := True\<rparr>]\<rparr>
         else s)"

datatype gate_event = EvOperation | EvUpdate | EvRelease "nat option"

fun gate_step :: "gate_event \<Rightarrow> gate_sys \<Rightarrow> gate_sys" where
  "gate_step EvOperation s = snd (TryOperation s)"
| "gate_step EvUpdate s = snd (TryUpdate s)"
| "gate_step (EvRelease l) s = Release l s"

section \<open>Counting the leases in force\<close>

definition held :: "lease_kind \<Rightarrow> gate_sys \<Rightarrow> nat" where
  "held k s = length (filter (\<lambda>l. kind l = k \<and> \<not> released l) (leases s))"

lemma length_filter_update:
  "i < length xs \<Longrightarrow> int (length (filter P (xs[i := y]))) =
     int (length (filter P xs)) - (if P (xs ! i) then 1 else 0) + (if P y then 1 else 0)"
proof (induction xs arbitrary: i)
  case Nil
  then show ?case by simp
next
  case (Cons x xs)
  show ?case
  proof (cases i)
    case 0
    then show ?thesis by simp
  next
    case (Suc j)
    with Cons.IH [of j] Cons.prems show ?thesis by (auto split: if_splits)
  qed
qed

lemma held_Release:
  assumes "i < length (leases s)" "\<not> released (leases s ! i)"
  shows "int (held k (Release (Some i) s)) =
     int (held k s) - (if kind (leases s ! i) = k then 1 else 0)"
  using assms by (simp add: held_def Release_def length_filter_update)

lemma held_snoc:
  "held k (s\<lparr>gate := g, leases := leases s @ [\<lparr>kind = k', released = False\<rparr>]\<rparr>) =
     held k s + (if k' = k then 1 else 0)"
  by (simp add: held_def)

text \<open>The gate's two fields are exactly the leases in force, and never both kinds.\<close>

definition gate_inv :: "gate_sys \<Rightarrow> bool" where
  "gate_inv s \<longleftrightarrow>
     operations (gate s) = int (held OperationLease s) \<and>
     held UpdateLease s = (if updating (gate s) then 1 else 0) \<and>
     (updating (gate s) \<longrightarrow> held OperationLease s = 0)"

lemma gate_inv_new: "gate_inv new_sys"
  by (simp add: gate_inv_def new_sys_def New_def held_def)

lemma gate_inv_TryOperation [inv_intros]: "gate_inv s \<Longrightarrow> gate_inv (snd (TryOperation s))"
  by (auto simp: gate_inv_def TryOperation_def held_snoc)

lemma gate_inv_TryUpdate [inv_intros]: "gate_inv s \<Longrightarrow> gate_inv (snd (TryUpdate s))"
  by (auto simp: gate_inv_def TryUpdate_def held_snoc)

lemma held_positive:
  "i < length (leases s) \<Longrightarrow> \<not> released (leases s ! i) \<Longrightarrow> 0 < held (kind (leases s ! i)) s"
  by (auto simp: held_def filter_empty_conv intro!: nth_mem)

lemma gate_inv_Release [inv_intros]:
  assumes inv: "gate_inv s" shows "gate_inv (Release l s)"
proof (cases "\<exists>i. l = Some i \<and> i < length (leases s) \<and> \<not> released (leases s ! i)")
  case True
  then obtain i where l: "l = Some i" and i: "i < length (leases s)" "\<not> released (leases s ! i)"
    by blast
  have held: "int (held k (Release l s)) = int (held k s) - (if kind (leases s ! i) = k then 1 else 0)" for k
    unfolding l by (rule held_Release [OF i])
  have gate: "gate (Release l s) = release_fn (kind (leases s ! i)) (gate s)"
    using i by (simp add: l Release_def)
  show ?thesis
    using inv held [of OperationLease] held [of UpdateLease] held_positive [OF i]
    by (cases "kind (leases s ! i)") (auto simp: gate_inv_def gate release_fn_def split: if_splits)
next
  case False
  then have "Release l s = s" by (auto simp: Release_def split: option.split)
  with inv show ?thesis by simp
qed

lemma gate_inv_step: "gate_inv s \<Longrightarrow> gate_inv (gate_step ev s)"
  by (cases ev) (auto intro: inv_intros)

lemma gate_inv_run: "gate_inv s \<Longrightarrow> gate_inv (fold gate_step evs s)"
  by (induction evs arbitrary: s) (auto intro: gate_inv_step)

lemma Release_idem: "Release l (Release l s) = Release l s"
  by (auto simp: Release_def split: option.split)

text \<open>
  Whatever sequence of lease requests and releases (repeated releases and releases of nil
  leases included) the process makes, commands and an update never overlap: while an update
  lease is in force no operation lease is, at most one update lease is in force, and the
  gate's own counter is exactly the number of operation leases in force.
\<close>

theorem gate_excludes:
  "(held UpdateLease (fold gate_step evs new_sys) > 0 \<longrightarrow> held OperationLease (fold gate_step evs new_sys) = 0) \<and>
   held UpdateLease (fold gate_step evs new_sys) \<le> 1 \<and>
   operations (gate (fold gate_step evs new_sys)) = int (held OperationLease (fold gate_step evs new_sys))"
  using gate_inv_run [OF gate_inv_new, of evs] by (auto simp: gate_inv_def split: if_splits)

theorem gate_excludes_witness:
  "held UpdateLease (fold gate_step [EvOperation, EvRelease (Some 0), EvRelease (Some 0), EvUpdate, EvOperation] new_sys) = 1 \<and>
   held OperationLease (fold gate_step [EvOperation, EvRelease (Some 0), EvRelease (Some 0), EvUpdate, EvOperation] new_sys) = 0"
proof -
  have "held UpdateLease (fold gate_step [EvOperation, EvRelease (Some 0), EvRelease (Some 0), EvUpdate, EvOperation] new_sys) = 1"
    by (simp add: held_def new_sys_def New_def TryOperation_def TryUpdate_def Release_def release_fn_def)
  then show ?thesis
    using gate_excludes [of "[EvOperation, EvRelease (Some 0), EvRelease (Some 0), EvUpdate, EvOperation]"]
    by simp
qed

section \<open>The leases in force by name\<close>

definition live :: "lease_kind \<Rightarrow> gate_sys \<Rightarrow> nat list" where
  "live k s = filter (\<lambda>i. kind (leases s ! i) = k \<and> \<not> released (leases s ! i)) [0..<length (leases s)]"

lemma length_live: "length (live k s) = held k s"
proof -
  have "map (\<lambda>i. leases s ! i) [0..<length (leases s)] = leases s" by (rule map_nth)
  then have "held k s = length (filter (\<lambda>l. kind l = k \<and> \<not> released l) (map (\<lambda>i. leases s ! i) [0..<length (leases s)]))"
    by (simp only: held_def)
  then show ?thesis by (simp add: live_def filter_map comp_def)
qed

lemma live_iff: "i \<in> set (live k s) \<longleftrightarrow> i < length (leases s) \<and> kind (leases s ! i) = k \<and> \<not> released (leases s ! i)"
  by (auto simp: live_def)

lemma live_new [simp]: "live k new_sys = []"
  by (simp add: live_def new_sys_def)

lemma distinct_live: "distinct (live k s)"
  by (simp add: live_def)

lemma live_snoc:
  "live k (s\<lparr>gate := g, leases := leases s @ [\<lparr>kind = k', released = False\<rparr>]\<rparr>) =
     live k s @ (if k' = k then [length (leases s)] else [])"
  by (auto simp: live_def nth_append intro!: filter_cong)

lemma live_TryOperation:
  "TryOperation s = (Some l, t) \<Longrightarrow> live OperationLease t = live OperationLease s @ [l] \<and> live UpdateLease t = live UpdateLease s"
  by (auto simp: TryOperation_def live_snoc split: if_splits)

lemma live_TryUpdate:
  "TryUpdate s = (Some l, t) \<Longrightarrow> live UpdateLease t = live UpdateLease s @ [l] \<and> live OperationLease t = live OperationLease s"
  by (auto simp: TryUpdate_def live_snoc split: if_splits)

lemma live_Release: "live k (Release (Some l) s) = filter (\<lambda>i. i \<noteq> l) (live k s)"
proof (cases "l < length (leases s) \<and> \<not> released (leases s ! l)")
  case True
  then show ?thesis
    by (auto simp: live_def Release_def nth_list_update intro!: filter_cong)
next
  case False
  then have "Release (Some l) s = s" by (auto simp: Release_def)
  moreover have "filter (\<lambda>i. i \<noteq> l) (live k s) = live k s"
    using False by (intro filter_True) (auto simp: live_iff)
  ultimately show ?thesis by simp
qed

lemma mset_live_Release: "mset (live k (Release (Some l) s)) = mset (live k s) - (if l \<in> set (live k s) then {#l#} else {#})"
proof (cases "l \<in> set (live k s)")
  case True
  have "filter (\<lambda>i. i \<noteq> l) (live k s) = remove1 l (live k s)"
    by (simp add: distinct_remove1_removeAll [OF distinct_live] removeAll_filter_not_eq eq_commute [of l])
  with True show ?thesis by (simp add: live_Release)
next
  case False
  then have "filter (\<lambda>i. i \<noteq> l) (live k s) = live k s" by (intro filter_True) auto
  with False show ?thesis by (simp add: live_Release)
qed

section \<open>The interface the control connection and the updater rely on\<close>

text \<open>
  A lease manager: what taking and releasing a lease does to the number of leases of each kind
  in force. The clients' facts are proved from these laws alone.
\<close>

locale lease_gate =
  fixes acquire :: "'s \<Rightarrow> 'l option \<times> 's"
    and release :: "'l option \<Rightarrow> 's \<Rightarrow> 's"
    and count :: "'s \<Rightarrow> nat"
    and blocked :: "'s \<Rightarrow> bool"
    and ok :: "'s \<Rightarrow> bool"
  assumes acquire_refused: "ok s \<Longrightarrow> fst (acquire s) = None \<longleftrightarrow> blocked s"
    and acquire_none: "fst (acquire s) = None \<Longrightarrow> snd (acquire s) = s"
    and acquire_count: "fst (acquire s) = Some i \<Longrightarrow> count (snd (acquire s)) = Suc (count s)"
    and acquire_ok: "ok s \<Longrightarrow> ok (snd (acquire s))"
    and release_ok: "ok s \<Longrightarrow> ok (release l s)"
    and release_le: "count (release l s) \<le> count s"
    and release_twice: "release l (release l s) = release l s"
begin

lemma release_all_ok: "ok s \<Longrightarrow> ok (fold release ls s)"
  by (induction ls arbitrary: s) (auto intro: release_ok)

lemma release_all_le: "count (fold release ls s) \<le> count s"
proof (induction ls arbitrary: s)
  case Nil
  then show ?case by simp
next
  case (Cons l ls)
  from Cons.IH [of "release l s"] release_le [of l s] show ?case by simp
qed

lemma acquired_then_released:
  "ok s \<Longrightarrow> \<not> blocked s \<Longrightarrow> count (release l (snd (acquire s))) \<le> Suc (count s)"
  using acquire_count [of s] acquire_refused [of s] release_le [of l "snd (acquire s)"]
  by (cases "fst (acquire s)") auto

end

lemma held_Release_le: "held k (Release l s) \<le> held k s"
proof (cases "\<exists>i. l = Some i \<and> i < length (leases s) \<and> \<not> released (leases s ! i)")
  case True
  then obtain i where "l = Some i" "i < length (leases s)" "\<not> released (leases s ! i)" by blast
  then show ?thesis using held_Release [of i s k] by (simp split: if_splits)
next
  case False
  then have "Release l s = s" by (auto simp: Release_def split: option.split)
  then show ?thesis by simp
qed

lemma TryOperation_laws:
  "fst (TryOperation s) = None \<longleftrightarrow> updating (gate s)"
  "fst (TryOperation s) = None \<Longrightarrow> snd (TryOperation s) = s"
  "fst (TryOperation s) = Some i \<Longrightarrow> held OperationLease (snd (TryOperation s)) = Suc (held OperationLease s)"
  by (auto simp: TryOperation_def held_snoc split: if_splits)

lemma TryUpdate_laws:
  "gate_inv s \<Longrightarrow> fst (TryUpdate s) = None \<longleftrightarrow> updating (gate s) \<or> held OperationLease s > 0"
  "fst (TryUpdate s) = None \<Longrightarrow> snd (TryUpdate s) = s"
  "fst (TryUpdate s) = Some i \<Longrightarrow> held UpdateLease (snd (TryUpdate s)) = Suc (held UpdateLease s)"
  by (auto simp: TryUpdate_def held_snoc gate_inv_def split: if_splits)

interpretation op_lease: lease_gate TryOperation Release "held OperationLease" "\<lambda>s. updating (gate s)" gate_inv
  by unfold_locales
    (simp_all add: TryOperation_laws gate_inv_TryOperation gate_inv_Release held_Release_le Release_idem)

interpretation update_lease: lease_gate TryUpdate Release "held UpdateLease"
  "\<lambda>s. updating (gate s) \<or> held OperationLease s > 0" gate_inv
  by unfold_locales
    (simp_all add: TryUpdate_laws gate_inv_TryUpdate gate_inv_Release held_Release_le Release_idem)

end
