(* ===== verification/Strconv.thy ===== *)
theory Strconv
  imports Prelude
begin

text \<open>
  The parts of Go's \<open>strconv\<close>, \<open>strings\<close> and \<open>bytes\<close> packages the program reads and writes text
  with: decimal and hexadecimal numbers, trimming, splitting and searching. Strings are byte
  strings; the number readers return \<open>None\<close> where the library returns an error.
\<close>

section \<open>Numbers\<close>

definition digit_of :: "nat \<Rightarrow> char" where
  "digit_of d = hexits ! d"

definition digit_val :: "char \<Rightarrow> nat option" where
  "digit_val c = (if c \<in> set hexits then Some (length (takeWhile (\<lambda>d. d \<noteq> c) hexits)) else None)"

fun nat_text :: "nat \<Rightarrow> string" where
  "nat_text n = (if n < 10 then [digit_of n] else nat_text (n div 10) @ [digit_of (n mod 10)])"

declare nat_text.simps [simp del]

definition Itoa :: "int \<Rightarrow> string" where
  "Itoa i = (if i < 0 then ''-'' @ nat_text (nat (- i)) else nat_text (nat i))"

fun read_digits :: "nat \<Rightarrow> nat \<Rightarrow> string \<Rightarrow> nat option" where
  "read_digits base acc [] = Some acc"
| "read_digits base acc (c # cs) =
     (case digit_val c of None \<Rightarrow> None
      | Some d \<Rightarrow> if d < base then read_digits base (base * acc + d) cs else None)"

text \<open>\<open>strconv.ParseUint(s, base, bits)\<close> for the bases 10 and 16 the program uses; hexadecimal
  digits may be of either case.\<close>

definition lower_hex :: "char \<Rightarrow> char" where
  "lower_hex c = (case map_of (zip ''ABCDEF'' ''abcdef'') c of Some d \<Rightarrow> d | None \<Rightarrow> c)"

definition ParseUint :: "nat \<Rightarrow> nat \<Rightarrow> string \<Rightarrow> nat option" where
  "ParseUint base bits s = (if s = [] then None else
     case read_digits base 0 (map lower_hex s) of None \<Rightarrow> None
     | Some n \<Rightarrow> if n < 2 ^ bits then Some n else None)"

text \<open>\<open>strconv.ParseInt(s, 10, 64)\<close> and \<open>strconv.Atoi\<close> on a 64-bit platform.\<close>

definition Atoi :: "string \<Rightarrow> int option" where
  "Atoi s =
     (let body = (case s of c # cs \<Rightarrow> if c = CHR ''-'' \<or> c = CHR ''+'' then cs else s | [] \<Rightarrow> s);
          neg = (case s of c # cs \<Rightarrow> c = CHR ''-'' | [] \<Rightarrow> False)
      in if body = [] then None else
        case read_digits 10 0 body of None \<Rightarrow> None
        | Some n \<Rightarrow>
            let i = (if neg then - int n else int n)
            in if - (2 ^ 63) \<le> i \<and> i < 2 ^ 63 then Some i else None)"

lemma less_ten: "(d::nat) < 10 \<Longrightarrow> d \<in> set [0, 1, 2, 3, 4, 5, 6, 7, 8, 9]"
  by simp presburger

lemma digit_val_digit_of: "d < 10 \<Longrightarrow> digit_val (digit_of d) = Some d"
  by (drule less_ten) (auto simp: digit_val_def digit_of_def hexits_def)

lemma digit_of_in_digits: "d < 10 \<Longrightarrow> digit_of d \<in> set digits"
  by (drule less_ten) (auto simp: digit_of_def hexits_def digits_def)

lemma read_digits_append:
  "read_digits b acc (xs @ ys) = (case read_digits b acc xs of None \<Rightarrow> None | Some n \<Rightarrow> read_digits b n ys)"
  by (induction xs arbitrary: acc) (auto split: option.split)

lemma read_digits_nat_text: "read_digits 10 0 (nat_text n) = Some n"
proof (induction n rule: nat_text.induct)
  case (1 n)
  show ?case
  proof (cases "n < 10")
    case True
    then show ?thesis by (subst nat_text.simps) (simp add: digit_val_digit_of)
  next
    case False
    with "1.IH" have "read_digits 10 0 (nat_text (n div 10)) = Some (n div 10)" by simp
    moreover have "n mod 10 < 10" by simp
    ultimately show ?thesis using False
      by (subst nat_text.simps) (simp add: read_digits_append digit_val_digit_of)
  qed
qed

lemma nat_text_nonempty: "nat_text n \<noteq> []"
  by (subst nat_text.simps) simp

lemma nat_text_digits: "set (nat_text n) \<subseteq> set digits"
proof (induction n rule: nat_text.induct)
  case (1 n)
  then show ?case
    by (subst nat_text.simps) (auto intro!: digit_of_in_digits)
qed

lemma nat_text_hd: "\<exists>c cs. nat_text n = c # cs \<and> c \<noteq> CHR ''-'' \<and> c \<noteq> CHR ''+''"
proof -
  obtain c cs where t: "nat_text n = c # cs"
    using nat_text_nonempty [of n] by (cases "nat_text n") auto
  then have "c \<in> set digits" using nat_text_digits [of n] by auto
  then show ?thesis using t by (auto simp: digits_def)
qed

text \<open>Reading back a printed number gives the number.\<close>

lemma Atoi_Itoa: "- (2 ^ 63) \<le> i \<Longrightarrow> i < 2 ^ 63 \<Longrightarrow> Atoi (Itoa i) = Some i"
proof -
  assume r: "- (2 ^ 63) \<le> i" "i < 2 ^ 63"
  obtain c cs where t: "nat_text (nat \<bar>i\<bar>) = c # cs" "c \<noteq> CHR ''-''" "c \<noteq> CHR ''+''"
    using nat_text_hd by blast
  have d: "read_digits 10 0 (c # cs) = Some (nat \<bar>i\<bar>)"
    using read_digits_nat_text [of "nat \<bar>i\<bar>"] t by simp
  show ?thesis
  proof (cases "i < 0")
    case True
    with t(1) have "Itoa i = CHR ''-'' # c # cs" by (simp add: Itoa_def)
    with d True r show ?thesis by (simp add: Atoi_def Let_def del: read_digits.simps)
  next
    case False
    with t(1) have "Itoa i = c # cs" by (simp add: Itoa_def)
    with d False r t show ?thesis by (simp add: Atoi_def Let_def del: read_digits.simps)
  qed
qed

lemma Itoa_inject: "- (2 ^ 63) \<le> i \<Longrightarrow> i < 2 ^ 63 \<Longrightarrow> - (2 ^ 63) \<le> j \<Longrightarrow> j < 2 ^ 63 \<Longrightarrow> Itoa i = Itoa j \<Longrightarrow> i = j"
  by (metis Atoi_Itoa option.inject)

section \<open>Trimming, splitting and searching\<close>

definition is_space :: "char \<Rightarrow> bool" where
  "is_space c \<longleftrightarrow> c \<in> set [CHR 0x09, CHR 0x0A, CHR 0x0B, CHR 0x0C, CHR 0x0D, CHR '' '']"

text \<open>\<open>strings.TrimSpace\<close> also takes the white space of Unicode, here in UTF-8.\<close>

definition white_spaces :: "string list" where
  "white_spaces = map (\<lambda>c. [c]) [CHR 0x09, CHR 0x0A, CHR 0x0B, CHR 0x0C, CHR 0x0D, CHR '' ''] @
     [[CHR 0xC2, CHR 0x85], [CHR 0xC2, CHR 0xA0], [CHR 0xE1, CHR 0x9A, CHR 0x80], [CHR 0xE2, CHR 0x81, CHR 0x9F], [CHR 0xE3, CHR 0x80, CHR 0x80]] @
     map (\<lambda>c. [CHR 0xE2, CHR 0x80, c]) [CHR 0x80, CHR 0x81, CHR 0x82, CHR 0x83, CHR 0x84, CHR 0x85, CHR 0x86, CHR 0x87, CHR 0x88,
       CHR 0x89, CHR 0x8A, CHR 0xA8, CHR 0xA9, CHR 0xAF]"

function trim_start :: "string list \<Rightarrow> string \<Rightarrow> string" where
  "trim_start sps s = (case find (\<lambda>p. p \<noteq> [] \<and> HasPrefix s p) sps of None \<Rightarrow> s | Some p \<Rightarrow> trim_start sps (drop (length p) s))"
  by pat_completeness auto
termination
proof (relation "measure (\<lambda>(sps, s). length s)")
  fix sps p and s :: string
  assume "find (\<lambda>p. p \<noteq> [] \<and> HasPrefix s p) sps = Some p"
  then have "p \<noteq> []" "HasPrefix s p" by (auto simp: find_Some_iff)
  then obtain r where "s = p @ r" using HasPrefixE by blast
  with \<open>p \<noteq> []\<close> show "((sps, drop (length p) s), sps, s) \<in> measure (\<lambda>(sps, s). length s)" by simp
qed simp

declare trim_start.simps [simp del]

definition TrimSpace :: "string \<Rightarrow> string" where
  "TrimSpace s = rev (trim_start (map rev white_spaces) (rev (trim_start white_spaces s)))"

text \<open>\<open>strings.Split\<close> at one separator byte.\<close>

fun Split :: "char \<Rightarrow> string \<Rightarrow> string list" where
  "Split sep [] = [[]]"
| "Split sep (c # cs) =
     (if c = sep then [] # Split sep cs
      else (case Split sep cs of [] \<Rightarrow> [[c]] | w # ws \<Rightarrow> (c # w) # ws))"

fun Join :: "string \<Rightarrow> string list \<Rightarrow> string" where
  "Join sep [] = []"
| "Join sep [x] = x"
| "Join sep (x # y # ys) = x @ sep @ Join sep (y # ys)"

definition Contains :: "string \<Rightarrow> string \<Rightarrow> bool" where
  "Contains s sub \<longleftrightarrow> Cut sub s \<noteq> None"

definition ContainsAny :: "string \<Rightarrow> string \<Rightarrow> bool" where
  "ContainsAny s cs \<longleftrightarrow> list_ex (\<lambda>c. c \<in> set cs) s"

text \<open>The text before and after the \<^emph>\<open>last\<close> occurrence of a separator.\<close>

definition CutLast :: "string \<Rightarrow> string \<Rightarrow> (string \<times> string) option" where
  "CutLast sep s = map_option (\<lambda>(a, b). (rev b, rev a)) (Cut (rev sep) (rev s))"

lemma CutLast_Some: "CutLast sep s = Some (a, b) \<Longrightarrow> s = a @ sep @ b"
proof -
  assume "CutLast sep s = Some (a, b)"
  then obtain a' b' where "Cut (rev sep) (rev s) = Some (a', b')" "a = rev b'" "b = rev a'"
    by (auto simp: CutLast_def)
  from Cut_Some [OF this(1)] have "rev (rev s) = rev (a' @ rev sep @ b')" by simp
  with \<open>a = rev b'\<close> \<open>b = rev a'\<close> show ?thesis by simp
qed

lemma Split_nonempty: "Split sep s \<noteq> []"
  by (induction s) (auto split: list.split)

lemma Join_Split: "Join [sep] (Split sep s) = s"
proof (induction s)
  case Nil
  then show ?case by simp
next
  case (Cons c cs)
  obtain w ws where "Split sep cs = w # ws" using Split_nonempty by (metis list.exhaust)
  with Cons show ?case by (cases ws) auto
qed

lemma Split_no_sep: "sep \<notin> set p \<Longrightarrow> Split sep p = [p]"
  by (induction p) auto

lemma Split_append_sep: "sep \<notin> set p \<Longrightarrow> Split sep (p @ sep # s) = p # Split sep s"
  by (induction p) auto

lemma Split_Join: "ps \<noteq> [] \<Longrightarrow> \<forall>p \<in> set ps. sep \<notin> set p \<Longrightarrow> Split sep (Join [sep] ps) = ps"
proof (induction ps rule: induct_list012)
  case (3 x y ys)
  then show ?case by (simp add: Split_append_sep)
qed (simp_all add: Split_no_sep)

lemma digit_of_zero_iff: "d < 10 \<Longrightarrow> digit_of d = CHR ''0'' \<longleftrightarrow> d = 0"
  by (drule less_ten) (auto simp: digit_of_def hexits_def)

lemma nat_text_no_leading_zero: "0 < n \<Longrightarrow> hd (nat_text n) \<noteq> CHR ''0''"
proof (induction n rule: nat_text.induct)
  case (1 n)
  show ?case
  proof (cases "n < 10")
    case True
    with 1 show ?thesis by (subst nat_text.simps) (simp add: digit_of_zero_iff)
  next
    case False
    with 1 have "hd (nat_text (n div 10)) \<noteq> CHR ''0''" by simp
    with False show ?thesis by (subst nat_text.simps) (simp add: nat_text_nonempty)
  qed
qed

lemma Join_append: "xs \<noteq> [] \<Longrightarrow> ys \<noteq> [] \<Longrightarrow> Join sep (xs @ ys) = Join sep xs @ sep @ Join sep ys"
proof (induction xs rule: induct_list012)
  case (2 x)
  then show ?case by (cases ys) simp_all
next
  case (3 x y zs)
  then show ?case by simp
qed simp

lemma Split_Join_append:
  "ps \<noteq> [] \<Longrightarrow> \<forall>p \<in> set ps. sep \<notin> set p \<Longrightarrow> Split sep (Join [sep] ps @ sep # s) = ps @ Split sep s"
proof (induction ps rule: induct_list012)
  case (3 x y zs)
  then show ?case using Split_append_sep [of sep x] by simp
qed (simp_all add: Split_append_sep)

lemma Split_parts: "p \<in> set (Split sep s) \<Longrightarrow> sep \<notin> set p"
proof (induction s arbitrary: p)
  case (Cons c cs)
  obtain w ws where w: "Split sep cs = w # ws" using Split_nonempty by (metis list.exhaust)
  with Cons show ?case by (auto split: if_splits)
qed simp

text \<open>A joined list of parts starts with other parts exactly when its text does, up to a separator.\<close>

lemma Join_prefix:
  assumes "ps \<noteq> []" "rs \<noteq> []" "\<forall>p \<in> set ps. sep \<notin> set p" "\<forall>r \<in> set rs. sep \<notin> set r"
  shows "(Join [sep] ps = Join [sep] rs \<or> HasPrefix (Join [sep] ps) (Join [sep] rs @ [sep])) \<longleftrightarrow> (\<exists>rest. ps = rs @ rest)"
proof
  assume "Join [sep] ps = Join [sep] rs \<or> HasPrefix (Join [sep] ps) (Join [sep] rs @ [sep])"
  then show "\<exists>rest. ps = rs @ rest"
  proof
    assume "Join [sep] ps = Join [sep] rs"
    then have "ps = rs" using Split_Join [OF assms(1,3)] Split_Join [OF assms(2,4)] by metis
    then show ?thesis by simp
  next
    assume "HasPrefix (Join [sep] ps) (Join [sep] rs @ [sep])"
    then obtain x where "Join [sep] ps = (Join [sep] rs @ [sep]) @ x" by (auto dest: HasPrefixE)
    then have "Split sep (Join [sep] ps) = Split sep (Join [sep] rs @ sep # x)" by simp
    then have "ps = rs @ Split sep x" unfolding Split_Join [OF assms(1,3)] Split_Join_append [OF assms(2,4)] .
    then show ?thesis by simp
  qed
next
  assume "\<exists>rest. ps = rs @ rest"
  then obtain rest where r: "ps = rs @ rest" ..
  show "Join [sep] ps = Join [sep] rs \<or> HasPrefix (Join [sep] ps) (Join [sep] rs @ [sep])"
  proof (cases rest)
    case (Cons y ys)
    then have "Join [sep] ps = (Join [sep] rs @ [sep]) @ Join [sep] rest" using assms(2) by (simp add: r Join_append)
    then show ?thesis by (metis HasPrefix_append)
  qed (simp add: r)
qed

end
