(* ===== verification/Json.thy ===== *)
theory Json
  imports Strconv
begin

text \<open>
  JSON documents as the Agent handles them (\<open>encoding/json\<close> and the decoding helpers of
  \<open>src/internal/protocol/protocol.go\<close>). A \<open>json.RawMessage\<close> is no bytes, bytes that are not a
  JSON value, or a value in compact form; an object keeps its members in order, a key given
  twice counting once with its last value, as Go decodes it. Numbers keep their literal.
\<close>

section \<open>Values and messages\<close>

datatype json = JNull | JBool bool | JNum string | JStr string
  | JArr "json list" | JObj "(string \<times> json) list"

datatype raw = NoRaw | BadRaw string | Doc json

definition obj_get :: "(string \<times> json) list \<Rightarrow> string \<Rightarrow> json option" where
  "obj_get kvs k = map_of (rev kvs) k"

definition obj_size :: "(string \<times> json) list \<Rightarrow> nat" where
  "obj_size kvs = length (remdups (map fst kvs))"

text \<open>A field of a Go struct takes the value of every key that equals its name up to the case of
  ASCII letters, so the last such key decides.\<close>

definition fold_char :: "char \<Rightarrow> char" where
  "fold_char c = (case map_of (zip upper lower) c of Some d \<Rightarrow> d | None \<Rightarrow> c)"

definition fold_key :: "string \<Rightarrow> string" where
  "fold_key k = map fold_char k"

definition struct_get :: "(string \<times> json) list \<Rightarrow> string \<Rightarrow> json option" where
  "struct_get kvs k = obj_get (map (\<lambda>(k, v). (fold_key k, v)) kvs) (fold_key k)"

lemmas struct_get_simps = struct_get_def obj_get_def fold_key_def fold_char_def upper_def lower_def

fun as_string :: "json \<Rightarrow> string option" where
  "as_string (JStr s) = Some s"
| "as_string _ = None"

fun as_bool :: "json \<Rightarrow> bool option" where
  "as_bool (JBool b) = Some b"
| "as_bool _ = None"

fun as_int :: "json \<Rightarrow> int option" where
  "as_int (JNum lit) = Atoi lit"
| "as_int _ = None"

fun as_array :: "json \<Rightarrow> json list option" where
  "as_array (JArr xs) = Some xs"
| "as_array _ = None"

text \<open>The text \<open>json.Marshal\<close> writes for valid UTF-8: compact, with \<open><\<close>, \<open>>\<close>, \<open>&\<close> and the line
  separators U+2028 and U+2029 escaped.\<close>

definition hex4 :: "nat \<Rightarrow> string" where
  "hex4 n = [digit_of (n div 4096 mod 16), digit_of (n div 256 mod 16),
             digit_of (n div 16 mod 16), digit_of (n mod 16)]"

definition escape_char :: "char \<Rightarrow> string" where
  "escape_char c =
     (let n = of_char c :: nat in
      if c = CHR 0x22 then [CHR 0x5C, CHR 0x22]
      else if c = CHR 0x5C then [CHR 0x5C, CHR 0x5C]
      else if n = 8 then [CHR 0x5C, CHR ''b'']
      else if n = 9 then [CHR 0x5C, CHR ''t'']
      else if n = 10 then [CHR 0x5C, CHR ''n'']
      else if n = 12 then [CHR 0x5C, CHR ''f'']
      else if n = 13 then [CHR 0x5C, CHR ''r'']
      else if n < 32 \<or> c = CHR ''<'' \<or> c = CHR ''>'' \<or> c = CHR ''&''
      then [CHR 0x5C, CHR ''u''] @ hex4 n
      else [c])"

fun escape_text :: "string \<Rightarrow> string" where
  "escape_text [] = []"
| "escape_text (c # cs) =
     (if c = CHR 0xE2 \<and> take 2 cs = [CHR 0x80, CHR 0xA8] then [CHR 0x5C] @ ''u2028'' @ escape_text (drop 2 cs)
      else if c = CHR 0xE2 \<and> take 2 cs = [CHR 0x80, CHR 0xA9] then [CHR 0x5C] @ ''u2029'' @ escape_text (drop 2 cs)
      else escape_char c @ escape_text cs)"

definition json_string :: "string \<Rightarrow> string" where
  "json_string s = [CHR 0x22] @ escape_text s @ [CHR 0x22]"

fun json_text :: "json \<Rightarrow> string" where
  "json_text JNull = ''null''"
| "json_text (JBool b) = (if b then ''true'' else ''false'')"
| "json_text (JNum lit) = lit"
| "json_text (JStr s) = json_string s"
| "json_text (JArr xs) = ''['' @ Join '','' (map json_text xs) @ '']''"
| "json_text (JObj kvs) =
     ''{'' @ Join '','' (map (\<lambda>(k, v). json_string k @ '':'' @ json_text v) kvs) @ ''}''"

fun raw_len :: "raw \<Rightarrow> nat" where
  "raw_len NoRaw = 0"
| "raw_len (BadRaw s) = length s"
| "raw_len (Doc j) = length (json_text j)"

definition json_Valid :: "raw \<Rightarrow> bool" where
  "json_Valid r = (case r of Doc _ \<Rightarrow> True | _ \<Rightarrow> False)"

text \<open>The message is an object: its first byte is an opening brace.\<close>

definition raw_object :: "raw \<Rightarrow> bool" where
  "raw_object r = (case r of Doc (JObj _) \<Rightarrow> True | BadRaw (c # _) \<Rightarrow> c = CHR ''{'' | _ \<Rightarrow> False)"

section \<open>Decoding with required fields\<close>

text \<open>
  \<open>decodeRequiredJSON\<close>: an object with exactly the named fields, none of them null; the rest is
  the typed decoder of the target type.
\<close>

definition decodeRequiredJSON :: "((string \<Rightarrow> json option) \<Rightarrow> 'a option) \<Rightarrow> raw \<Rightarrow> string list \<Rightarrow> 'a option" where
  "decodeRequiredJSON typed r fields = (case r of
      Doc (JObj kvs) \<Rightarrow>
        if obj_size kvs \<noteq> length fields then None
        else if \<not> list_all (\<lambda>f. \<exists>v \<in> set_option (obj_get kvs f). v \<noteq> JNull) fields then None
        else typed (obj_get kvs)
    | _ \<Rightarrow> None)"

abbreviation DecodeStrict :: "((string \<Rightarrow> json option) \<Rightarrow> 'a option) \<Rightarrow> raw \<Rightarrow> string list \<Rightarrow> 'a option" where
  "DecodeStrict \<equiv> decodeRequiredJSON"

lemma obj_get_dom: "obj_get kvs k = None \<longleftrightarrow> k \<notin> set (map fst kvs)"
  by (simp add: obj_get_def map_of_eq_None_iff)

text \<open>A strict decode succeeds only on an object whose keys are exactly the fields.\<close>

lemma decodeRequiredJSON_exact:
  assumes "decodeRequiredJSON typed r fields = Some a" and "distinct fields"
  shows "\<exists>kvs. r = Doc (JObj kvs) \<and> set (map fst kvs) = set fields \<and> typed (obj_get kvs) = Some a"
proof -
  from assms(1) obtain kvs where r: "r = Doc (JObj kvs)"
    and size: "obj_size kvs = length fields"
    and all: "list_all (\<lambda>f. \<exists>v \<in> set_option (obj_get kvs f). v \<noteq> JNull) fields"
    and typed: "typed (obj_get kvs) = Some a"
    by (auto simp: decodeRequiredJSON_def split: raw.splits json.splits if_splits)
  have "set fields \<subseteq> set (map fst kvs)"
  proof
    fix f assume "f \<in> set fields"
    with all have "obj_get kvs f \<noteq> None" by (auto simp: list_all_iff)
    then show "f \<in> set (map fst kvs)" by (simp add: obj_get_dom)
  qed
  moreover have "card (set (map fst kvs)) = card (set fields)"
    using size assms(2) by (simp add: obj_size_def length_remdups_card_conv distinct_card)
  ultimately have "set fields = set (map fst kvs)" by (intro card_subset_eq) auto
  with r typed show ?thesis by auto
qed

lemma decodeRequiredJSON_reject [simp]:
  "decodeRequiredJSON typed NoRaw fields = None"
  "decodeRequiredJSON typed (BadRaw s) fields = None"
  by (simp_all add: decodeRequiredJSON_def)

text \<open>\<open>jsonObject\<close> of the protocol package.\<close>

definition jsonObject :: "raw \<Rightarrow> bool" where
  "jsonObject r = (case r of Doc (JObj _) \<Rightarrow> True | _ \<Rightarrow> False)"

end
