(* ===== verification/Json_File.thy ===== *)
theory Json_File
  imports Prelude
begin

text \<open>
  The atomic JSON state file of \<open>src/internal/state/json_file.go\<close>: every durable record of the
  Agent (operation journal, ChangeIP reconciliation, xui resets, update attempts) goes
  through it. A file is the sequence of values a JSON decoder reads from it; each system call
  of \<open>Save\<close> may fail, and \<open>save_env\<close> says which ones do.
\<close>

section \<open>The file and what can go wrong\<close>

datatype 'a decoded = Value 'a | Garbage

datatype 'a contents = NoFile | Unopenable | Contents "'a decoded list"

datatype file_error =
    OpenError | DecodeError | MultipleValues | TrailingData
  | MkdirError | CreateTempError | ChmodError | EncodeError | SyncError | CloseError
  | RenameError | DirOpenError | DirSyncError | DirCloseError | RemoveError

text \<open>The state directory as the file's owner sees it: the file itself and how many
  temporary files earlier saves left beside it.\<close>

record 'a JSONFile =
  contents :: "'a contents"
  temporaries :: nat

record dir_env =
  dir_open :: bool
  dir_sync :: bool
  dir_close :: bool

record save_env =
  env_mkdir :: bool
  env_create :: bool
  env_chmod :: bool
  env_encode :: bool
  env_sync :: bool
  env_close :: bool
  env_rename :: bool
  env_remove :: bool
  env_dir :: dir_env

section \<open>Load, Save, Remove\<close>

fun Load :: "'a JSONFile \<Rightarrow> file_error + 'a option" where
  "Load f = (case contents f of
      NoFile \<Rightarrow> Inr None
    | Unopenable \<Rightarrow> Inl OpenError
    | Contents (Value v # rest) \<Rightarrow>
        (case rest of [] \<Rightarrow> Inr (Some v)
         | Value _ # _ \<Rightarrow> Inl MultipleValues
         | Garbage # _ \<Rightarrow> Inl TrailingData)
    | Contents _ \<Rightarrow> Inl DecodeError)"

declare Load.simps [simp del]

definition syncDirectory :: "dir_env \<Rightarrow> file_error option" where
  "syncDirectory d =
     (if \<not> dir_open d then Some DirOpenError
      else if \<not> dir_sync d then Some DirSyncError
      else if \<not> dir_close d then Some DirCloseError
      else None)"

text \<open>The deferred removal of the temporary file, run on every return before the rename.\<close>

definition dropTemporary :: "save_env \<Rightarrow> 'a JSONFile \<Rightarrow> 'a JSONFile" where
  "dropTemporary e f = (if env_remove e then f\<lparr>temporaries := temporaries f - 1\<rparr> else f)"

definition Save :: "save_env \<Rightarrow> 'a \<Rightarrow> 'a JSONFile \<Rightarrow> file_error option \<times> 'a JSONFile" where
  "Save e value f =
     (if \<not> env_mkdir e then (Some MkdirError, f)
      else if \<not> env_create e then (Some CreateTempError, f)
      else
        (let g = f\<lparr>temporaries := temporaries f + 1\<rparr> in
         if \<not> env_chmod e then (Some ChmodError, dropTemporary e g)
         else if \<not> env_encode e then (Some EncodeError, dropTemporary e g)
         else if \<not> env_sync e then (Some SyncError, dropTemporary e g)
         else if \<not> env_close e then (Some CloseError, dropTemporary e g)
         else if \<not> env_rename e then (Some RenameError, dropTemporary e g)
         else (syncDirectory (env_dir e),
               g\<lparr>contents := Contents [Value value], temporaries := temporaries g - 1\<rparr>)))"

definition Remove :: "save_env \<Rightarrow> 'a JSONFile \<Rightarrow> file_error option \<times> 'a JSONFile" where
  "Remove e f =
     (if \<not> env_remove e \<or> contents f = NoFile then (Some RemoveError, f)
      else (syncDirectory (env_dir e), f\<lparr>contents := NoFile\<rparr>))"

text \<open>An environment in which every system call succeeds.\<close>

definition all_ok :: save_env where
  "all_ok = \<lparr>env_mkdir = True, env_create = True, env_chmod = True, env_encode = True,
     env_sync = True, env_close = True, env_rename = True, env_remove = True,
     env_dir = \<lparr>dir_open = True, dir_sync = True, dir_close = True\<rparr>\<rparr>"

lemma env_remove_all_ok [simp]: "env_remove all_ok"
  by (simp add: all_ok_def)

section \<open>A save replaces the file whole or not at all\<close>

lemma Save_contents:
  "contents (snd (Save e v f)) = contents f \<or> contents (snd (Save e v f)) = Contents [Value v]"
  by (simp add: Save_def dropTemporary_def Let_def)

lemma Save_success: "fst (Save e v f) = None \<Longrightarrow> contents (snd (Save e v f)) = Contents [Value v]"
  by (simp add: Save_def dropTemporary_def Let_def split: if_splits)

lemma Save_all_ok [simp]:
  "Save all_ok v f = (None, f\<lparr>contents := Contents [Value v]\<rparr>)"
  by (cases f) (simp add: Save_def all_ok_def syncDirectory_def Let_def)

lemma Save_temporaries:
  "env_remove e \<Longrightarrow> temporaries (snd (Save e v f)) = temporaries f"
  by (simp add: Save_def dropTemporary_def Let_def)

lemma Load_one: "contents f = Contents [Value v] \<Longrightarrow> Load f = Inr (Some v)"
  by (simp add: Load.simps)

lemma Load_missing: "contents f = NoFile \<Longrightarrow> Load f = Inr None"
  by (simp add: Load.simps)

lemma Load_cong: "contents f = contents g \<Longrightarrow> Load f = Load g"
  by (simp add: Load.simps)

lemma Save_then_Load: "fst (Save e v f) = None \<Longrightarrow> Load (snd (Save e v f)) = Inr (Some v)"
  by (rule Load_one) (rule Save_success)

lemma Save_Load_cases:
  "Load (snd (Save e v f)) = Load f \<or> Load (snd (Save e v f)) = Inr (Some v)"
  using Save_contents [of e v f] by (auto intro: Load_one Load_cong)



section \<open>The interface the durable components rely on\<close>

text \<open>
  What a component may assume of its store: a save either leaves what a load returns or makes
  it the saved value, the latter whenever it reports no error.
\<close>

locale atomic_store =
  fixes load :: "'f \<Rightarrow> 'err + 'a option"
    and save :: "'env \<Rightarrow> 'a \<Rightarrow> 'f \<Rightarrow> 'err option \<times> 'f"
  assumes save_cases: "load (snd (save e v f)) = load f \<or> load (snd (save e v f)) = Inr (Some v)"
    and save_ok: "fst (save e v f) = None \<Longrightarrow> load (snd (save e v f)) = Inr (Some v)"
begin

text \<open>A property of the stored value survives a save of a value that has it.\<close>

lemma save_keeps:
  assumes "\<And>w. load f = Inr (Some w) \<Longrightarrow> P w" and "P v"
    and "load (snd (save e v f)) = Inr (Some w)"
  shows "P w"
  using save_cases [of e v f] assms by auto

text \<open>A file that loads still loads after any save.\<close>

lemma save_loadable:
  "load f = Inr r \<Longrightarrow> \<exists>r'. load (snd (save e v f)) = Inr r'"
  using save_cases [of e v f] by auto

end

interpretation jsonfile: atomic_store Load Save
  by unfold_locales (rule Save_Load_cases, erule Save_then_Load)

end
