(* ===== verification/Journal.thy ===== *)
theory Journal
  imports Json Json_File
begin

text \<open>
  The operation journal of \<open>src/internal/operation/engine.go\<close>. It keeps one running record per
  exclusive group (\<open>Active\<close>) and the last \<open>recentLimit\<close> finished ones (\<open>Recent\<close>), and saves the
  whole snapshot before it changes its memory. The file holds a document whose two
  collections may be missing (\<open>None\<close> for Go's nil), which only a load can produce.
\<close>

section \<open>State\<close>

definition StateSchemaVersion :: int where "StateSchemaVersion = 1"

definition StatusRunning :: string where "StatusRunning = ''running''"
definition StatusSucceeded :: string where "StatusSucceeded = ''succeeded''"
definition StatusFailed :: string where "StatusFailed = ''failed''"
definition StatusCancelled :: string where "StatusCancelled = ''cancelled''"

lemmas status_defs = StatusRunning_def StatusSucceeded_def StatusFailed_def StatusCancelled_def

record Record =
  OperationID :: string
  Kind :: string
  ExclusiveGroup :: string
  Status :: string
  StartedAt :: gotime
  FinishedAt :: "gotime option"
  TerminalCode :: string
  TerminalResult :: raw

record Snapshot =
  SchemaVersion :: int
  Active :: "(string, Record) gomap"
  Recent :: "Record list"

record stored_snapshot =
  doc_schema :: int
  doc_active :: "(string, Record) gomap option"
  doc_recent :: "Record list option"

definition stored :: "Snapshot \<Rightarrow> stored_snapshot" where
  "stored s = \<lparr>doc_schema = SchemaVersion s, doc_active = Some (Active s), doc_recent = Some (Recent s)\<rparr>"

definition loaded :: "stored_snapshot \<Rightarrow> Snapshot" where
  "loaded d = \<lparr>SchemaVersion = doc_schema d,
     Active = (case doc_active d of None \<Rightarrow> [] | Some m \<Rightarrow> m),
     Recent = (case doc_recent d of None \<Rightarrow> [] | Some l \<Rightarrow> l)\<rparr>"

lemma loaded_stored [simp]: "loaded (stored s) = s"
  by (simp add: loaded_def stored_def)

record Engine =
  jfile :: "stored_snapshot JSONFile"
  recentLimit :: nat
  snapshot :: Snapshot

datatype engine_error =
    StateFileRequired | RecentLimitInvalid | FileError file_error
  | BadOperationID | BadKind | BadGroup
  | ErrConflict string | ErrDuplicate string | ErrNotFound string
  | BadStatus | BadTerminalCode | BadTerminalResult | TerminalResultNotObject
  | BadSchema | MissingCollections | InvalidActive string | InvalidRecentStatus string
  | InvalidRecentTerminal string | InvalidRecentResult string | InvalidToken string
  | NoStartTime string | DuplicateID string

text \<open>\<open>^[a-z0-9][a-z0-9._-]{0,127}$\<close>\<close>

abbreviation token :: "string \<Rightarrow> bool" where
  "token \<equiv> stableToken 127"

section \<open>Validation of a loaded file\<close>

definition validateRecordTokens :: "Record \<Rightarrow> engine_error option" where
  "validateRecordTokens r =
     (if \<not> token (OperationID r) \<or> \<not> token (Kind r) \<or> \<not> token (ExclusiveGroup r)
      then Some (InvalidToken (OperationID r))
      else if IsZero (StartedAt r) then Some (NoStartTime (OperationID r))
      else None)"

fun validateActive :: "string list \<Rightarrow> (string \<times> Record) list \<Rightarrow> engine_error + string list" where
  "validateActive seen [] = Inr seen"
| "validateActive seen ((g, r) # rest) =
     (if ExclusiveGroup r \<noteq> g \<or> Status r \<noteq> StatusRunning \<or> FinishedAt r \<noteq> None \<or> TerminalCode r \<noteq> []
      then Inl (InvalidActive (OperationID r))
      else case validateRecordTokens r of Some e \<Rightarrow> Inl e
      | None \<Rightarrow> if OperationID r \<in> set seen then Inl (DuplicateID (OperationID r))
               else validateActive (OperationID r # seen) rest)"

definition finishedStatus :: "string \<Rightarrow> bool" where
  "finishedStatus st \<longleftrightarrow> st = StatusSucceeded \<or> st = StatusFailed \<or> st = StatusCancelled"

fun validateRecent :: "string list \<Rightarrow> Record list \<Rightarrow> engine_error option" where
  "validateRecent seen [] = None"
| "validateRecent seen (r # rest) =
     (if \<not> finishedStatus (Status r) then Some (InvalidRecentStatus (OperationID r))
      else if FinishedAt r = None \<or> \<not> token (TerminalCode r) then Some (InvalidRecentTerminal (OperationID r))
      else if raw_len (TerminalResult r) > 8192 \<or>
              (raw_len (TerminalResult r) > 0 \<and> (\<not> json_Valid (TerminalResult r) \<or> \<not> raw_object (TerminalResult r)))
      then Some (InvalidRecentResult (OperationID r))
      else case validateRecordTokens r of Some e \<Rightarrow> Some e
      | None \<Rightarrow> if OperationID r \<in> set seen then Some (DuplicateID (OperationID r))
               else validateRecent (OperationID r # seen) rest)"

definition validateSnapshot :: "stored_snapshot \<Rightarrow> engine_error option" where
  "validateSnapshot d =
     (if doc_schema d \<noteq> StateSchemaVersion then Some BadSchema
      else case doc_active d of None \<Rightarrow> Some MissingCollections
      | Some active \<Rightarrow> (case doc_recent d of None \<Rightarrow> Some MissingCollections
        | Some recent \<Rightarrow> (case validateActive [] active of Inl e \<Rightarrow> Some e
          | Inr seen \<Rightarrow> validateRecent seen recent)))"

section \<open>Operations\<close>

definition emptySnapshot :: Snapshot where
  "emptySnapshot = \<lparr>SchemaVersion = StateSchemaVersion, Active = [], Recent = []\<rparr>"

definition Open :: "string \<Rightarrow> int \<Rightarrow> stored_snapshot JSONFile \<Rightarrow> engine_error + Engine" where
  "Open stateFile limit f =
     (if stateFile = [] then Inl StateFileRequired
      else if limit < 1 then Inl RecentLimitInvalid
      else case Load f of Inl e \<Rightarrow> Inl (FileError e)
      | Inr None \<Rightarrow> Inr \<lparr>jfile = f, recentLimit = nat limit, snapshot = emptySnapshot\<rparr>
      | Inr (Some d) \<Rightarrow> (case validateSnapshot d of Some e \<Rightarrow> Inl e
        | None \<Rightarrow> Inr \<lparr>jfile = f, recentLimit = nat limit, snapshot = loaded d\<rparr>))"

definition containsOperationID :: "Snapshot \<Rightarrow> string \<Rightarrow> bool" where
  "containsOperationID s i \<longleftrightarrow>
     list_ex (\<lambda>(g, r). OperationID r = i) (Active s) \<or> list_ex (\<lambda>r. OperationID r = i) (Recent s)"

definition findActive :: "Snapshot \<Rightarrow> string \<Rightarrow> (string \<times> Record) option" where
  "findActive s i = find (\<lambda>(g, r). OperationID r = i) (Active s)"

text \<open>The end of every change: save the next snapshot, then make it the one in memory.\<close>

definition commit :: "save_env \<Rightarrow> Snapshot \<Rightarrow> Engine \<Rightarrow> file_error option \<times> Engine" where
  "commit env next e =
     (let (err, f) = Save env (stored next) (jfile e)
      in case err of Some er \<Rightarrow> (Some er, e\<lparr>jfile := f\<rparr>)
         | None \<Rightarrow> (None, e\<lparr>jfile := f, snapshot := next\<rparr>))"

definition Begin :: "save_env \<Rightarrow> gotime \<Rightarrow> string \<Rightarrow> string \<Rightarrow> string \<Rightarrow> Engine \<Rightarrow> (engine_error + Record) \<times> Engine" where
  "Begin env now i k g e =
     (if \<not> token i then (Inl BadOperationID, e)
      else if \<not> token k then (Inl BadKind, e)
      else if \<not> token g then (Inl BadGroup, e)
      else if gm_has (Active (snapshot e)) g then (Inl (ErrConflict g), e)
      else if containsOperationID (snapshot e) i then (Inl (ErrDuplicate i), e)
      else
        (let r = \<lparr>OperationID = i, Kind = k, ExclusiveGroup = g, Status = StatusRunning,
                  StartedAt = now, FinishedAt = None, TerminalCode = [], TerminalResult = NoRaw\<rparr>;
             next = (snapshot e)\<lparr>Active := AList.update g r (Active (snapshot e))\<rparr>;
             (err, e') = commit env next e
         in case err of Some er \<Rightarrow> (Inl (FileError er), e') | None \<Rightarrow> (Inr r, e')))"

text \<open>\<open>append\<close> to the recent records, keeping the last \<open>recentLimit\<close>.\<close>

definition pushRecent :: "nat \<Rightarrow> Record \<Rightarrow> Record list \<Rightarrow> Record list" where
  "pushRecent limit r rs = (if length (rs @ [r]) > limit then lastn limit (rs @ [r]) else rs @ [r])"

definition FinishWithResult ::
  "save_env \<Rightarrow> gotime \<Rightarrow> string \<Rightarrow> string \<Rightarrow> string \<Rightarrow> raw \<Rightarrow> Engine \<Rightarrow> (engine_error + Record) \<times> Engine" where
  "FinishWithResult env now i status code result e =
     (if \<not> finishedStatus status then (Inl BadStatus, e)
      else if \<not> token code then (Inl BadTerminalCode, e)
      else if raw_len result > 8192 \<or> (raw_len result > 0 \<and> \<not> json_Valid result) then (Inl BadTerminalResult, e)
      else if raw_len result > 0 \<and> \<not> raw_object result then (Inl TerminalResultNotObject, e)
      else case findActive (snapshot e) i of None \<Rightarrow> (Inl (ErrNotFound i), e)
      | Some (g, r) \<Rightarrow>
          let r' = r\<lparr>Status := status, FinishedAt := Some now, TerminalCode := code, TerminalResult := result\<rparr>;
              next = (snapshot e)\<lparr>Active := AList.delete g (Active (snapshot e)),
                                  Recent := pushRecent (recentLimit e) r' (Recent (snapshot e))\<rparr>;
              (err, e') = commit env next e
          in (case err of Some er \<Rightarrow> (Inl (FileError er), e') | None \<Rightarrow> (Inr r', e')))"

definition Finish :: "save_env \<Rightarrow> gotime \<Rightarrow> string \<Rightarrow> string \<Rightarrow> string \<Rightarrow> Engine \<Rightarrow> (engine_error + Record) \<times> Engine" where
  "Finish env now i status code e = FinishWithResult env now i status code NoRaw e"

text \<open>The methods \<open>Recent\<close> (the newest finished record of an operation) and \<open>Active\<close>.\<close>

definition recent :: "Engine \<Rightarrow> string \<Rightarrow> Record option" where
  "recent e i = find (\<lambda>r. OperationID r = i) (rev (Recent (snapshot e)))"

definition active :: "Engine \<Rightarrow> string \<Rightarrow> Record option" where
  "active e i = map_option snd (findActive (snapshot e) i)"

section \<open>The invariant\<close>

definition active_ids :: "Snapshot \<Rightarrow> string list" where
  "active_ids s = map (\<lambda>(g, r). OperationID r) (Active s)"

definition recent_ids :: "Snapshot \<Rightarrow> string list" where
  "recent_ids s = map OperationID (Recent s)"

definition journaled :: "Snapshot \<Rightarrow> string set" where
  "journaled s = set (active_ids s) \<union> set (recent_ids s)"

text \<open>A record as each collection may hold it.\<close>

definition record_ok :: "Record \<Rightarrow> bool" where
  "record_ok r \<longleftrightarrow> token (OperationID r) \<and> token (Kind r) \<and> token (ExclusiveGroup r) \<and> StartedAt r \<noteq> 0"

definition active_ok :: "string \<times> Record \<Rightarrow> bool" where
  "active_ok = (\<lambda>(g, r). ExclusiveGroup r = g \<and> Status r = StatusRunning \<and> FinishedAt r = None \<and>
     TerminalCode r = [] \<and> record_ok r)"

definition result_ok :: "raw \<Rightarrow> bool" where
  "result_ok v \<longleftrightarrow> raw_len v \<le> 8192 \<and> (raw_len v > 0 \<longrightarrow> json_Valid v \<and> raw_object v)"

definition recent_ok :: "Record \<Rightarrow> bool" where
  "recent_ok r \<longleftrightarrow> finishedStatus (Status r) \<and> FinishedAt r \<noteq> None \<and> token (TerminalCode r) \<and>
     result_ok (TerminalResult r) \<and> record_ok r"

definition snapshot_ok :: "Snapshot \<Rightarrow> bool" where
  "snapshot_ok s \<longleftrightarrow> SchemaVersion s = StateSchemaVersion \<and> gm_ok (Active s) \<and>
     list_all active_ok (Active s) \<and> list_all recent_ok (Recent s) \<and>
     distinct (active_ids s @ recent_ids s)"

text \<open>The check of a loaded file is exactly this invariant (the keys of a decoded map are
  distinct by construction).\<close>

lemma validateRecordTokens_iff: "validateRecordTokens r = None \<longleftrightarrow> record_ok r"
  by (auto simp: validateRecordTokens_def record_ok_def time_defs)

lemma validateActive_iff:
  "(\<exists>seen'. validateActive seen as = Inr seen') \<longleftrightarrow>
     list_all active_ok as \<and> distinct (map (\<lambda>(g, r). OperationID r) as) \<and>
     set (map (\<lambda>(g, r). OperationID r) as) \<inter> set seen = {}"
proof (induction seen as rule: validateActive.induct)
  case (1 seen)
  then show ?case by simp
next
  case (2 seen g r rest)
  show ?case
  proof (cases "active_ok (g, r) \<and> OperationID r \<notin> set seen")
    case True
    then have "validateRecordTokens r = None" by (simp add: active_ok_def validateRecordTokens_iff)
    with True "2.IH" show ?thesis by (auto simp: active_ok_def)
  next
    case False
    then show ?thesis
      by (auto simp: active_ok_def validateRecordTokens_iff [symmetric] split: option.splits)
  qed
qed

lemma validateActive_seen:
  "validateActive seen as = Inr seen' \<Longrightarrow> set seen' = set (map (\<lambda>(g, r). OperationID r) as) \<union> set seen"
  by (induction seen as arbitrary: seen' rule: validateActive.induct)
     (auto split: if_splits option.splits)

lemma validateRecent_iff:
  "validateRecent seen rs = None \<longleftrightarrow>
     list_all recent_ok rs \<and> distinct (map OperationID rs) \<and> set (map OperationID rs) \<inter> set seen = {}"
proof (induction seen rs rule: validateRecent.induct)
  case (1 seen)
  then show ?case by simp
next
  case (2 seen r rest)
  show ?case
  proof (cases "recent_ok r \<and> OperationID r \<notin> set seen")
    case True
    then have "validateRecordTokens r = None" by (simp add: recent_ok_def validateRecordTokens_iff)
    with True "2.IH" show ?thesis by (auto simp: recent_ok_def result_ok_def)
  next
    case False
    then show ?thesis
      by (auto simp: recent_ok_def result_ok_def validateRecordTokens_iff [symmetric] split: option.splits)
  qed
qed

lemma validateSnapshot_stored: "gm_ok (Active s) \<Longrightarrow> validateSnapshot (stored s) = None \<longleftrightarrow> snapshot_ok s"
proof -
  assume gm: "gm_ok (Active s)"
  show ?thesis
  proof (cases "validateActive [] (Active s)")
    case (Inl e)
    with validateActive_iff [of "[]" "Active s"] show ?thesis
      by (auto simp: validateSnapshot_def stored_def snapshot_ok_def active_ids_def)
  next
    case (Inr seen)
    then have "list_all active_ok (Active s)" "distinct (active_ids s)" "set seen = set (active_ids s)"
      using validateActive_iff [of "[]" "Active s"] validateActive_seen [OF Inr]
      by (auto simp: active_ids_def)
    with Inr gm show ?thesis
      by (auto simp: validateSnapshot_def stored_def snapshot_ok_def validateRecent_iff recent_ids_def)
  qed
qed

section \<open>What the operations do\<close>

definition disk_snapshot :: "stored_snapshot JSONFile \<Rightarrow> Snapshot" where
  "disk_snapshot f = (case Load f of Inr (Some d) \<Rightarrow> loaded d | _ \<Rightarrow> emptySnapshot)"

text \<open>A file the journal can be opened from: missing, or one valid document.\<close>

definition disk_ok :: "stored_snapshot JSONFile \<Rightarrow> bool" where
  "disk_ok f \<longleftrightarrow> (case Load f of Inl _ \<Rightarrow> False | Inr None \<Rightarrow> True
     | Inr (Some d) \<Rightarrow> d = stored (loaded d) \<and> snapshot_ok (loaded d))"

definition engine_ok :: "Engine \<Rightarrow> bool" where
  "engine_ok e \<longleftrightarrow> 1 \<le> recentLimit e \<and> snapshot_ok (snapshot e) \<and> disk_ok (jfile e)"

definition new_record :: "gotime \<Rightarrow> string \<Rightarrow> string \<Rightarrow> string \<Rightarrow> Record" where
  "new_record now i k g = \<lparr>OperationID = i, Kind = k, ExclusiveGroup = g, Status = StatusRunning,
     StartedAt = now, FinishedAt = None, TerminalCode = [], TerminalResult = NoRaw\<rparr>"

definition begun :: "Record \<Rightarrow> Snapshot \<Rightarrow> Snapshot" where
  "begun r s = s\<lparr>Active := AList.update (ExclusiveGroup r) r (Active s)\<rparr>"

definition finished :: "nat \<Rightarrow> string \<Rightarrow> Record \<Rightarrow> Snapshot \<Rightarrow> Snapshot" where
  "finished limit g r s = s\<lparr>Active := AList.delete g (Active s), Recent := pushRecent limit r (Recent s)\<rparr>"

lemma disk_snapshot_stored: "Load f = Inr (Some (stored s)) \<Longrightarrow> disk_snapshot f = s"
  by (simp add: disk_snapshot_def)

lemma disk_ok_stored: "Load f = Inr (Some (stored s)) \<Longrightarrow> snapshot_ok s \<Longrightarrow> disk_ok f"
  by (simp add: disk_ok_def)

lemma disk_ok_cong: "Load f = Load f' \<Longrightarrow> disk_ok f = disk_ok f'"
  by (simp add: disk_ok_def)

lemma disk_snapshot_cong: "Load f = Load f' \<Longrightarrow> disk_snapshot f = disk_snapshot f'"
  by (simp add: disk_snapshot_def)

lemma snapshot_ok_empty: "snapshot_ok emptySnapshot"
  by (simp add: snapshot_ok_def emptySnapshot_def active_ids_def recent_ids_def)

lemma disk_snapshot_ok: "disk_ok f \<Longrightarrow> snapshot_ok (disk_snapshot f)"
  by (auto simp: disk_ok_def disk_snapshot_def snapshot_ok_empty split: sum.splits option.splits)

text \<open>Reopening a good file always succeeds and gives what the file holds.\<close>

lemma Open_disk:
  assumes "disk_ok f" "stateFile \<noteq> []" "1 \<le> limit"
  shows "Open stateFile limit f = Inr \<lparr>jfile = f, recentLimit = nat limit, snapshot = disk_snapshot f\<rparr>"
proof (cases "Load f")
  case (Inl e)
  with assms show ?thesis by (simp add: disk_ok_def)
next
  case (Inr r)
  show ?thesis
  proof (cases r)
    case None
    with Inr assms show ?thesis by (simp add: Open_def disk_snapshot_def)
  next
    case (Some d)
    with Inr assms have d: "d = stored (loaded d)" "snapshot_ok (loaded d)" by (auto simp: disk_ok_def)
    then have "validateSnapshot d = None"
      using validateSnapshot_stored [of "loaded d"] by (simp add: snapshot_ok_def)
    with Inr Some assms show ?thesis by (simp add: Open_def disk_snapshot_def)
  qed
qed

lemma Open_ok:
  assumes "Open stateFile limit f = Inr e" and "\<And>d. Load f = Inr (Some d) \<Longrightarrow> gm_ok (Active (loaded d))"
  shows "engine_ok e"
proof -
  have v: "d = stored (loaded d)" "snapshot_ok (loaded d)"
    if "Load f = Inr (Some d)" "validateSnapshot d = None" for d
  proof -
    from that(2) show d: "d = stored (loaded d)"
      by (auto simp: validateSnapshot_def stored_def loaded_def split: if_splits option.splits sum.splits)
    then show "snapshot_ok (loaded d)"
      using that validateSnapshot_stored [of "loaded d"] assms(2) [OF that(1)] by simp
  qed
  show ?thesis using assms(1) v
    by (auto simp: Open_def engine_ok_def disk_ok_def snapshot_ok_empty split: if_splits sum.splits option.splits)
qed

lemma commit_None:
  "commit env n e = (None, e') \<Longrightarrow> snapshot e' = n \<and> recentLimit e' = recentLimit e \<and>
     Load (jfile e') = Inr (Some (stored n))"
  using Save_then_Load [of env "stored n" "jfile e"]
  by (auto simp: commit_def split: prod.splits option.splits)

lemma commit_Some:
  "commit env n e = (Some er, e') \<Longrightarrow> snapshot e' = snapshot e \<and> recentLimit e' = recentLimit e \<and>
     (Load (jfile e') = Load (jfile e) \<or> Load (jfile e') = Inr (Some (stored n)))"
  using Save_Load_cases [of env "stored n" "jfile e"]
  by (auto simp: commit_def split: prod.splits option.splits)

text \<open>What \<open>Begin\<close> requires of its arguments and the journal.\<close>

definition can_begin :: "string \<Rightarrow> string \<Rightarrow> string \<Rightarrow> Snapshot \<Rightarrow> bool" where
  "can_begin i k g s \<longleftrightarrow> token i \<and> token k \<and> token g \<and> g \<notin> set (gm_keys (Active s)) \<and> i \<notin> journaled s"

lemma containsOperationID_iff: "containsOperationID s i \<longleftrightarrow> i \<in> journaled s"
  by (auto simp: containsOperationID_def journaled_def active_ids_def recent_ids_def list_ex_iff)

lemma Begin_unfold:
  "Begin env now i k g e =
     (if can_begin i k g (snapshot e)
      then (case commit env (begun (new_record now i k g) (snapshot e)) e of
              (Some er, e') \<Rightarrow> (Inl (FileError er), e') | (None, e') \<Rightarrow> (Inr (new_record now i k g), e'))
      else (Inl (if \<not> token i then BadOperationID else if \<not> token k then BadKind else if \<not> token g then BadGroup
                 else if gm_has (Active (snapshot e)) g then ErrConflict g else ErrDuplicate i), e))"
  by (simp add: Begin_def can_begin_def containsOperationID_iff gm_has_iff begun_def new_record_def Let_def
      split: prod.split option.split)

lemma Begin_Inr:
  assumes "Begin env now i k g e = (Inr r, e')"
  shows "can_begin i k g (snapshot e) \<and> r = new_record now i k g \<and>
     snapshot e' = begun r (snapshot e) \<and> recentLimit e' = recentLimit e \<and>
     Load (jfile e') = Inr (Some (stored (snapshot e')))"
  using assms
  by (auto simp: Begin_unfold dest: commit_None split: if_splits prod.splits option.splits)

lemma Begin_Inl:
  assumes "Begin env now i k g e = (Inl er, e')"
  shows "snapshot e' = snapshot e \<and> recentLimit e' = recentLimit e \<and>
     (Load (jfile e') = Load (jfile e) \<or>
      (can_begin i k g (snapshot e) \<and>
       Load (jfile e') = Inr (Some (stored (begun (new_record now i k g) (snapshot e))))))"
  using assms
  by (auto simp: Begin_unfold dest: commit_Some split: if_splits prod.splits option.splits)

lemma findActive_Some:
  "findActive s i = Some (g, r) \<Longrightarrow> (g, r) \<in> set (Active s) \<and> OperationID r = i"
  by (auto simp: findActive_def find_Some_iff) (metis nth_mem)

lemma findActive_None: "findActive s i = None \<longleftrightarrow> i \<notin> set (active_ids s)"
  by (auto simp: findActive_def find_None_iff active_ids_def)

definition finish_record :: "gotime \<Rightarrow> string \<Rightarrow> string \<Rightarrow> raw \<Rightarrow> Record \<Rightarrow> Record" where
  "finish_record now status code result r =
     r\<lparr>Status := status, FinishedAt := Some now, TerminalCode := code, TerminalResult := result\<rparr>"

definition can_finish :: "string \<Rightarrow> string \<Rightarrow> raw \<Rightarrow> bool" where
  "can_finish status code result \<longleftrightarrow> finishedStatus status \<and> token code \<and> result_ok result"

lemma Finish_refused:
  "\<not> can_finish status code result \<Longrightarrow>
     \<exists>er. FinishWithResult env now i status code result e = (Inl er, e)"
  by (auto simp: FinishWithResult_def can_finish_def result_ok_def)

lemma Finish_unfold:
  "can_finish status code result \<Longrightarrow> FinishWithResult env now i status code result e =
     (case findActive (snapshot e) i of None \<Rightarrow> (Inl (ErrNotFound i), e)
      | Some (g, r) \<Rightarrow>
          (case commit env (finished (recentLimit e) g (finish_record now status code result r) (snapshot e)) e of
             (Some er, e') \<Rightarrow> (Inl (FileError er), e')
           | (None, e') \<Rightarrow> (Inr (finish_record now status code result r), e')))"
  by (auto simp: FinishWithResult_def can_finish_def result_ok_def finished_def finish_record_def Let_def
      split: prod.split option.split)

lemma Finish_Inr:
  assumes "FinishWithResult env now i status code result e = (Inr r', e')"
  shows "can_finish status code result \<and>
     (\<exists>g r. findActive (snapshot e) i = Some (g, r) \<and> r' = finish_record now status code result r \<and>
       snapshot e' = finished (recentLimit e) g r' (snapshot e)) \<and> recentLimit e' = recentLimit e \<and>
     Load (jfile e') = Inr (Some (stored (snapshot e')))"
proof -
  have cf: "can_finish status code result"
    using assms Finish_refused [of status code result env now i e] by auto
  with assms show ?thesis
    by (auto simp: Finish_unfold [OF cf] dest: commit_None split: prod.splits option.splits)
qed

lemma Finish_Inl:
  assumes "FinishWithResult env now i status code result e = (Inl er, e')"
  shows "snapshot e' = snapshot e \<and> recentLimit e' = recentLimit e \<and>
     (Load (jfile e') = Load (jfile e) \<or>
      (can_finish status code result \<and>
       (\<exists>g r. findActive (snapshot e) i = Some (g, r) \<and>
        Load (jfile e') = Inr (Some (stored (finished (recentLimit e) g (finish_record now status code result r) (snapshot e)))))))"
proof (cases "can_finish status code result")
  case True
  with assms show ?thesis
    by (auto simp: Finish_unfold [OF True] dest: commit_Some split: prod.splits option.splits)
next
  case False
  with assms Finish_refused [OF False, of env now i e] show ?thesis by auto
qed

section \<open>The invariant is kept\<close>

lemma snapshot_ok_begun:
  assumes ok: "snapshot_ok s" and can: "can_begin i k g s" and now: "now \<noteq> 0"
  shows "snapshot_ok (begun (new_record now i k g) s)"
proof -
  have up: "AList.update g (new_record now i k g) (Active s) = Active s @ [(g, new_record now i k g)]"
    using can by (simp add: update_new can_begin_def)
  show ?thesis using ok can now
    by (auto simp: snapshot_ok_def begun_def new_record_def up [unfolded new_record_def] active_ok_def record_ok_def
        active_ids_def recent_ids_def journaled_def gm_ok_def can_begin_def)
qed

lemma pushRecent_eq: "pushRecent limit r rs = lastn limit (rs @ [r])"
  by (simp add: pushRecent_def lastn_def)

lemma set_pushRecent: "set (pushRecent limit r rs) \<subseteq> insert r (set rs)"
  using set_lastn [of limit "rs @ [r]"] by (auto simp: pushRecent_eq)

lemma length_pushRecent: "length (pushRecent limit r rs) \<le> limit"
  by (simp add: pushRecent_eq)

text \<open>The operations that finishing one more drops from the recent records: none until the
  history is full, then the oldest.\<close>

definition evicted :: "nat \<Rightarrow> Snapshot \<Rightarrow> string set" where
  "evicted limit s = set (take (Suc (length (Recent s)) - limit) (recent_ids s))"

lemma evicted_not_full: "length (Recent s) < limit \<Longrightarrow> evicted limit s = {}"
  by (simp add: evicted_def)

lemma pushRecent_ids:
  assumes "1 \<le> limit"
  shows "set (map OperationID (pushRecent limit r (Recent s))) \<union> evicted limit s =
     insert (OperationID r) (set (recent_ids s))"
proof -
  define n where "n = Suc (length (Recent s)) - limit"
  have n: "n \<le> length (Recent s)" using assms by (simp add: n_def)
  have "pushRecent limit r (Recent s) = drop n (Recent s) @ [r]"
    using n by (simp add: pushRecent_eq lastn_def n_def)
  moreover have "set (recent_ids s) = OperationID ` set (take n (Recent s)) \<union> OperationID ` set (drop n (Recent s))"
    unfolding recent_ids_def by (metis append_take_drop_id image_Un list.set_map set_append)
  moreover have "evicted limit s = OperationID ` set (take n (Recent s))"
    by (simp add: evicted_def recent_ids_def n_def take_map)
  ultimately show ?thesis by auto
qed

lemma active_ids_delete:
  assumes "snapshot_ok s" "(g, r) \<in> set (Active s)"
  shows "set (active_ids (s\<lparr>Active := AList.delete g (Active s), Recent := rs\<rparr>)) = set (active_ids s) - {OperationID r}"
proof -
  have "OperationID r' \<noteq> OperationID r" if "(g', r') \<in> set (Active s)" "g' \<noteq> g" for g' r'
  proof
    assume "OperationID r' = OperationID r"
    moreover have "distinct (map (\<lambda>(g, r). OperationID r) (Active s))"
      using assms(1) by (simp add: snapshot_ok_def active_ids_def)
    ultimately have "(g', r') = (g, r)"
      using that(1) assms(2) distinct_map_inj_on_eq [of "\<lambda>(g, r). OperationID r" "Active s" "(g', r')" "(g, r)"]
      by simp
    with that(2) show False by simp
  qed
  moreover have "r' = r" if "(g, r') \<in> set (Active s)" for r'
    using that assms by (simp add: gm_in_set snapshot_ok_def)
  ultimately show ?thesis by (force simp: active_ids_def)
qed

lemma snapshot_ok_finished:
  assumes ok: "snapshot_ok s" and fa: "findActive s i = Some (g, r)" and can: "can_finish status code result"
  shows "snapshot_ok (finished limit g (finish_record now status code result r) s)"
proof -
  let ?r = "finish_record now status code result r"
  from findActive_Some [OF fa] have mem: "(g, r) \<in> set (Active s)" and i: "OperationID r = i" by auto
  have rok: "recent_ok ?r"
    using ok mem can
    by (auto simp: snapshot_ok_def list_all_iff active_ok_def recent_ok_def record_ok_def finish_record_def can_finish_def)
  have ids: "set (active_ids (finished limit g ?r s)) = set (active_ids s) - {i}"
    using active_ids_delete [OF ok mem] i by (simp add: finished_def)
  have "distinct (active_ids (finished limit g ?r s))"
    using ok by (auto simp: snapshot_ok_def active_ids_def finished_def AList.delete_eq distinct_map_filter)
  moreover have "distinct (recent_ids (finished limit g ?r s))"
  proof -
    have "distinct (map OperationID (Recent s @ [?r]))"
      using ok mem i
      by (auto simp: snapshot_ok_def recent_ids_def active_ids_def finish_record_def)
    then show ?thesis
      unfolding recent_ids_def finished_def by (simp add: pushRecent_eq distinct_lastn)
  qed
  moreover have "set (recent_ids (finished limit g ?r s)) \<subseteq> insert i (set (recent_ids s))"
    using set_pushRecent [of limit ?r "Recent s"] i
    by (auto simp: recent_ids_def finished_def finish_record_def)
  moreover have "list_all recent_ok (pushRecent limit ?r (Recent s))"
    using ok rok set_pushRecent [of limit ?r "Recent s"] by (auto simp: snapshot_ok_def list_all_iff)
  moreover have "list_all active_ok (AList.delete g (Active s))"
    using ok by (auto simp: snapshot_ok_def list_all_iff)
  ultimately show ?thesis
    using ok ids by (auto simp: snapshot_ok_def finished_def)
qed

lemma engine_ok_Begin [inv_intros]:
  assumes "engine_ok e" "now \<noteq> 0"
  shows "engine_ok (snd (Begin env now i k g e))"
proof (cases "Begin env now i k g e")
  case (Pair res e')
  show ?thesis
  proof (cases res)
    case (Inl er)
    with Begin_Inl [of env now i k g e er e'] Pair assms show ?thesis
      by (auto simp: engine_ok_def intro: disk_ok_stored snapshot_ok_begun dest: disk_ok_cong)
  next
    case (Inr r)
    with Begin_Inr [of env now i k g e r e'] Pair assms show ?thesis
      by (auto simp: engine_ok_def intro: disk_ok_stored snapshot_ok_begun)
  qed
qed

lemma engine_ok_Finish [inv_intros]:
  assumes "engine_ok e"
  shows "engine_ok (snd (FinishWithResult env now i status code result e))"
proof (cases "FinishWithResult env now i status code result e")
  case (Pair res e')
  show ?thesis
  proof (cases res)
    case (Inl er)
    with Finish_Inl [of env now i status code result e er e'] Pair assms show ?thesis
      by (auto simp: engine_ok_def intro: disk_ok_stored snapshot_ok_finished dest: disk_ok_cong)
  next
    case (Inr r)
    with Finish_Inr [of env now i status code result e r e'] Pair assms show ?thesis
      by (auto simp: engine_ok_def intro: disk_ok_stored snapshot_ok_finished)
  qed
qed

section \<open>Which operations the journal remembers\<close>

lemma journaled_begun:
  "can_begin i k g s \<Longrightarrow> journaled (begun (new_record now i k g) s) = insert i (journaled s)"
  by (auto simp: journaled_def begun_def new_record_def can_begin_def update_new active_ids_def recent_ids_def)

lemma journaled_finished:
  assumes "snapshot_ok s" "findActive s i = Some (g, r)" "1 \<le> limit"
  shows "journaled (finished limit g (finish_record now status code result r) s) \<union> evicted limit s = journaled s"
    and "i \<in> set (recent_ids (finished limit g (finish_record now status code result r) s))"
proof -
  let ?r = "finish_record now status code result r"
  from findActive_Some [OF assms(2)] have mem: "(g, r) \<in> set (Active s)" and i: "OperationID r = i" by auto
  then have i_in: "i \<in> set (active_ids s)" by (force simp: active_ids_def)
  have id: "OperationID ?r = i" using i by (simp add: finish_record_def)
  have rec: "set (recent_ids (finished limit g ?r s)) \<union> evicted limit s = insert i (set (recent_ids s))"
    using pushRecent_ids [OF assms(3), of ?r s] id by (simp add: recent_ids_def finished_def)
  have act: "set (active_ids (finished limit g ?r s)) = set (active_ids s) - {i}"
    using active_ids_delete [OF assms(1) mem] i by (simp add: finished_def)
  show "journaled (finished limit g ?r s) \<union> evicted limit s = journaled s"
    using rec act i_in by (auto simp: journaled_def)
  have "?r \<in> set (pushRecent limit ?r (Recent s))"
    unfolding pushRecent_eq using assms(3) by (intro lastn_snoc) simp
  then show "i \<in> set (recent_ids (finished limit g ?r s))"
    using id by (force simp: recent_ids_def finished_def)
qed


text \<open>A first journal: no file yet, the limit the runtime uses.\<close>

definition first_journal :: Engine where
  "first_journal = \<lparr>jfile = \<lparr>contents = NoFile, temporaries = 0\<rparr>, recentLimit = 64, snapshot = emptySnapshot\<rparr>"

lemma Open_first: "Open ''state.json'' 64 \<lparr>contents = NoFile, temporaries = 0\<rparr> = Inr first_journal"
  by (simp add: Open_def Load.simps first_journal_def)

lemma engine_ok_first: "engine_ok first_journal"
  by (rule Open_ok [OF Open_first]) (simp add: Load.simps)

lemma token_examples: "token ''op-1''" "token ''changeip.execute''" "token ''target-network''" "token ''change_triggered''"
  by (simp_all add: stableToken_def lower_def digits_def)

lemma Begin_first:
  "Begin all_ok 5 ''op-1'' ''changeip.execute'' ''target-network'' first_journal =
     (Inr (new_record 5 ''op-1'' ''changeip.execute'' ''target-network''),
      \<lparr>jfile = \<lparr>contents = Contents [Value (stored (begun (new_record 5 ''op-1'' ''changeip.execute'' ''target-network'') emptySnapshot))], temporaries = 0\<rparr>,
       recentLimit = 64, snapshot = begun (new_record 5 ''op-1'' ''changeip.execute'' ''target-network'') emptySnapshot\<rparr>)"
  by (simp add: Begin_unfold can_begin_def token_examples first_journal_def emptySnapshot_def journaled_def
      active_ids_def recent_ids_def commit_def)




end
