(* ===== verification/Base64.thy ===== *)
theory Base64
  imports Strconv
begin

text \<open>
  \<open>encoding/base64\<close> as the Agent uses it: the unpadded URL alphabet for challenge nonces and
  signatures, and the padded standard alphabet for Shadowsocks 2022 keys. Bytes are natural
  numbers below 256; both decoders skip carriage returns and newlines, as the library does, and
  ignore the unused bits of a last group.
\<close>

section \<open>Encoding and decoding\<close>

definition b64_std :: string where "b64_std = upper @ lower @ digits @ ''+/''"
definition b64_url :: string where "b64_url = upper @ lower @ digits @ ''-_''"

fun b64_groups :: "nat list \<Rightarrow> nat list" where
  "b64_groups [] = []"
| "b64_groups [a] = [a div 4, (a mod 4) * 16]"
| "b64_groups [a, b] = [a div 4, (a mod 4) * 16 + b div 16, (b mod 16) * 4]"
| "b64_groups (a # b # c # rest) =
     a div 4 # ((a mod 4) * 16 + b div 16) # ((b mod 16) * 4 + c div 64) # (c mod 64) # b64_groups rest"

definition RawURLEncode :: "nat list \<Rightarrow> string" where
  "RawURLEncode bs = map (\<lambda>i. b64_url ! i) (b64_groups bs)"

fun b64_bytes :: "nat list \<Rightarrow> nat list option" where
  "b64_bytes [] = Some []"
| "b64_bytes [w] = None"
| "b64_bytes [w, x] = Some [w * 4 + x div 16]"
| "b64_bytes [w, x, y] = Some [w * 4 + x div 16, (x mod 16) * 16 + y div 4]"
| "b64_bytes (w # x # y # z # rest) =
     map_option (\<lambda>bs. (w * 4 + x div 16) # ((x mod 16) * 16 + y div 4) # ((y mod 4) * 64 + z) # bs) (b64_bytes rest)"

definition b64_value :: "string \<Rightarrow> char \<Rightarrow> nat" where
  "b64_value alphabet c = length (takeWhile (\<lambda>d. d \<noteq> c) alphabet)"

definition b64_decode :: "string \<Rightarrow> string \<Rightarrow> nat list option" where
  "b64_decode alphabet s =
     (if list_all (\<lambda>c. c \<in> set alphabet) s then b64_bytes (map (b64_value alphabet) s) else None)"

definition without_newlines :: "string \<Rightarrow> string" where
  "without_newlines s = filter (\<lambda>c. c \<noteq> CHR 0x0A \<and> c \<noteq> CHR 0x0D) s"

definition RawURLDecode :: "string \<Rightarrow> nat list option" where
  "RawURLDecode s = b64_decode b64_url (without_newlines s)"

text \<open>The padded decoder: full groups of four, the last one filled up with one or two signs.\<close>

definition StdDecode :: "string \<Rightarrow> nat list option" where
  "StdDecode s =
     (let t = without_newlines s; body = takeWhile (\<lambda>c. c \<noteq> CHR ''='') t; pad = drop (length body) t in
      if length t mod 4 \<noteq> 0 \<or> 2 < length pad \<or> list_ex (\<lambda>c. c \<noteq> CHR ''='') pad then None
      else b64_decode b64_std body)"

section \<open>Round trip\<close>

lemma b64_bytes_groups: "list_all (\<lambda>b. b < 256) bs \<Longrightarrow> b64_bytes (b64_groups bs) = Some bs"
proof (induction bs rule: b64_groups.induct)
  case (3 a b)
  then have "b div 16 < 16" by (simp add: less_mult_imp_div_less)
  then show ?case by simp
next
  case (4 a b c rest)
  then have "b div 16 < 16" "c div 64 < 4" by (simp_all add: less_mult_imp_div_less)
  with 4 show ?case by simp
qed simp_all

lemma b64_groups_bound: "list_all (\<lambda>b. b < 256) bs \<Longrightarrow> list_all (\<lambda>i. i < 64) (b64_groups bs)"
proof (induction bs rule: b64_groups.induct)
  case (4 a b c rest)
  then have "a < 256" "b < 256" "c < 256" "list_all (\<lambda>i. i < 64) (b64_groups rest)" by simp_all
  then show ?case by simp linarith
qed (simp_all, linarith)

lemma b64_url_alphabet: "length b64_url = 64" "distinct b64_url"
  by (simp_all add: b64_url_def char_classes)

lemma takeWhile_nth_distinct: "distinct xs \<Longrightarrow> i < length xs \<Longrightarrow> takeWhile (\<lambda>d. d \<noteq> xs ! i) xs = take i xs"
proof (induction xs arbitrary: i)
  case (Cons x xs)
  show ?case
  proof (cases i)
    case (Suc j)
    with Cons have "x \<noteq> xs ! j" by (auto simp: nth_mem)
    with Suc Cons show ?thesis by simp
  qed simp
qed simp

lemma b64_value_nth: "i < 64 \<Longrightarrow> b64_value b64_url (b64_url ! i) = i"
  by (simp add: b64_value_def takeWhile_nth_distinct b64_url_alphabet)

lemma b64_url_no_newline: "c \<in> set b64_url \<Longrightarrow> c \<noteq> CHR 0x0A \<and> c \<noteq> CHR 0x0D"
  by (auto simp: b64_url_def char_classes)

lemma RawURLEncode_chars: "list_all (\<lambda>b. b < 256) bs \<Longrightarrow> set (RawURLEncode bs) \<subseteq> set b64_url"
  by (drule b64_groups_bound) (auto simp: RawURLEncode_def b64_url_alphabet list_all_iff)

lemma b64_bytes_bound: "list_all (\<lambda>i. i < 64) vs \<Longrightarrow> b64_bytes vs = Some bs \<Longrightarrow> list_all (\<lambda>b. b < 256) bs"
proof (induction vs arbitrary: bs rule: b64_bytes.induct)
  case (5 w x y z rest)
  then obtain cs where cs: "bs = (w * 4 + x div 16) # ((x mod 16) * 16 + y div 4) # ((y mod 4) * 64 + z) # cs"
    "list_all (\<lambda>b. b < 256) cs" by auto
  have "x div 16 < 4" "y div 4 < 16" "x mod 16 \<le> 15" "y mod 4 \<le> 3" using "5.prems"(1)
    by (simp_all add: less_mult_imp_div_less less_Suc_eq_le [symmetric])
  with "5.prems"(1) cs show ?case by simp
next
  case (4 w x y)
  have "x div 16 < 4" "y div 4 < 16" "x mod 16 \<le> 15" using "4.prems"(1)
    by (simp_all add: less_mult_imp_div_less less_Suc_eq_le [symmetric])
  with 4 show ?case by auto
next
  case (3 w x)
  then have "x div 16 < 4" by (simp add: less_mult_imp_div_less)
  with 3 show ?case by auto
qed auto

lemma b64_value_bound: "c \<in> set b64_url \<Longrightarrow> b64_value b64_url c < 64"
  by (metis b64_url_alphabet(1) b64_value_nth in_set_conv_nth)

lemma RawURLDecode_bytes: "RawURLDecode s = Some bs \<Longrightarrow> list_all (\<lambda>b. b < 256) bs"
  by (rule b64_bytes_bound) (auto simp: RawURLDecode_def b64_decode_def list_all_iff b64_value_bound split: if_splits)

lemma RawURLDecode_Encode:
  assumes "list_all (\<lambda>b. b < 256) bs"
  shows "RawURLDecode (RawURLEncode bs) = Some bs"
proof -
  have b: "\<forall>i \<in> set (b64_groups bs). i < 64" using b64_groups_bound [OF assms] by (simp add: list_all_iff)
  have mem: "\<forall>c \<in> set (RawURLEncode bs). c \<in> set b64_url" using RawURLEncode_chars [OF assms] by blast
  then have "without_newlines (RawURLEncode bs) = RawURLEncode bs"
    unfolding without_newlines_def by (intro filter_True) (blast dest: b64_url_no_newline)
  moreover have "map (b64_value b64_url) (RawURLEncode bs) = b64_groups bs"
    using b by (simp add: RawURLEncode_def map_idI b64_value_nth)
  ultimately show ?thesis
    using mem b64_bytes_groups [OF assms] by (simp add: RawURLDecode_def b64_decode_def list_all_iff)
qed

end
