(* ===== verification/Protocol.thy ===== *)
theory Protocol
  imports Json Base64
begin

text \<open>
  The message bodies and decoders of \<open>src/internal/protocol/protocol.go\<close> that the rest of the
  Agent works with: operation offers and results, target states, reports. A message body
  arrives as a \<open>json.RawMessage\<close>; every decoder is strict (exactly the named fields, none null).
\<close>

section \<open>Bodies\<close>

record Envelope =
  env_Protocol :: string
  env_MessageID :: string
  env_Type :: string
  env_SentAt :: gotime
  env_Body :: raw

record AuthChallenge =
  ChallengeID :: string
  challenge_AgentID :: string
  Nonce :: string
  IssuedAt :: string
  challenge_ExpiresAt :: string

record OperationOffer =
  CommandID :: string
  CommandType :: string
  PayloadVersion :: int
  Payload :: raw
  NotBefore :: gotime
  ExpiresAt :: gotime

text \<open>\<open>Result\<close> is a Go map, \<open>None\<close> for nil.\<close>

record ExecutionResult =
  Outcome :: string
  Code :: string
  Result :: "(string \<times> json) list option"

record StatePut =
  put_Module :: string
  put_Key :: string
  put_Version :: int
  put_State :: raw

record StateKeys =
  keys_Module :: string
  keys_Keys :: "string list"

record StateStatus =
  status_Module :: string
  status_Key :: string
  status_Version :: int
  status_ErrorCode :: string

record AcceptedAckBody =
  ack_CommandID :: string
  ack_Accepted :: bool

record ResultAckBody =
  rack_CommandID :: string
  rack_Persisted :: bool

section \<open>Results as JSON\<close>

text \<open>\<open>json.Marshal\<close> and \<open>json.Unmarshal\<close> of an \<open>ExecutionResult\<close>; a missing or null field
  leaves the zero value.\<close>

definition marshalResult :: "ExecutionResult \<Rightarrow> raw" where
  "marshalResult r = Doc (JObj [(''outcome'', JStr (Outcome r)), (''code'', JStr (Code r)),
     (''result'', case Result r of None \<Rightarrow> JNull | Some m \<Rightarrow> JObj m)])"

definition field :: "'a \<Rightarrow> (json \<Rightarrow> 'a option) \<Rightarrow> (string \<times> json) list \<Rightarrow> string \<Rightarrow> 'a option" where
  "field zero conv kvs k = (case struct_get kvs k of None \<Rightarrow> Some zero
     | Some j \<Rightarrow> if j = JNull then Some zero else conv j)"

fun as_object :: "json \<Rightarrow> (string \<times> json) list option" where
  "as_object (JObj m) = Some m"
| "as_object _ = None"

definition unmarshalResult :: "raw \<Rightarrow> ExecutionResult option" where
  "unmarshalResult v = (case v of
      Doc (JObj kvs) \<Rightarrow>
        (case (field [] as_string kvs ''outcome'', field [] as_string kvs ''code'',
               field None (map_option Some \<circ> as_object) kvs ''result'') of
           (Some out, Some c, Some m) \<Rightarrow> Some \<lparr>Outcome = out, Code = c, Result = m\<rparr>
         | _ \<Rightarrow> None)
    | Doc JNull \<Rightarrow> Some \<lparr>Outcome = [], Code = [], Result = None\<rparr>
    | _ \<Rightarrow> None)"

lemma unmarshal_marshal: "unmarshalResult (marshalResult r) = Some r"
  by (cases r; cases "Result r")
     (auto simp: unmarshalResult_def marshalResult_def field_def struct_get_simps)

lemma marshal_object [simp]:
  "json_Valid (marshalResult r)" "raw_object (marshalResult r)" "0 < raw_len (marshalResult r)"
  by (simp_all add: marshalResult_def json_Valid_def raw_object_def)

section \<open>Decoding\<close>

text \<open>\<open>^[a-z][a-z0-9_]{0,31}$\<close> and \<open>^[A-Za-z0-9_.-]{1,128}$\<close>\<close>

definition moduleName :: "string \<Rightarrow> bool" where
  "moduleName s = (case s of [] \<Rightarrow> False
     | c # cs \<Rightarrow> c \<in> set lower \<and> length cs \<le> 31 \<and> list_all (\<lambda>d. d \<in> set (lower @ digits @ ''_'')) cs)"

definition stateKey :: "string \<Rightarrow> bool" where
  "stateKey s \<longleftrightarrow> 1 \<le> length s \<and> length s \<le> 128 \<and>
     list_all (\<lambda>d. d \<in> set (upper @ lower @ digits @ ''_.-'')) s"

definition maxStateVersion :: int where "maxStateVersion = 2 ^ 53 - 1"

text \<open>Timestamps are read from RFC 3339 text by \<open>time.Time\<close>'s own decoder, a parameter here.\<close>

definition DecodeOperationOffer :: "(string \<Rightarrow> gotime option) \<Rightarrow> Envelope \<Rightarrow> OperationOffer option" where
  "DecodeOperationOffer parseTime e =
     (case decodeRequiredJSON
        (\<lambda>get. case (Option.bind (get ''command_id'') as_string, Option.bind (get ''command_type'') as_string,
                     Option.bind (get ''payload_version'') as_int, get ''payload'',
                     Option.bind (Option.bind (get ''not_before'') as_string) parseTime,
                     Option.bind (Option.bind (get ''expires_at'') as_string) parseTime) of
           (Some cid, Some ct, Some pv, Some p, Some nb, Some ex) \<Rightarrow>
             Some \<lparr>CommandID = cid, CommandType = ct, PayloadVersion = pv, Payload = Doc p, NotBefore = nb, ExpiresAt = ex\<rparr>
         | _ \<Rightarrow> None)
        (env_Body e)
        [''command_id'', ''command_type'', ''payload_version'', ''payload'', ''not_before'', ''expires_at''] of
       None \<Rightarrow> None
     | Some b \<Rightarrow>
         if \<not> ValidUUID (CommandID b) \<or> PayloadVersion b \<noteq> 1 \<or> IsZero (NotBefore b) \<or> IsZero (ExpiresAt b) \<or>
            \<not> After (ExpiresAt b) (NotBefore b) \<or> raw_len (Payload b) = 0 then None
         else if \<not> stableToken 63 (CommandType b) then None
         else Some b)"

definition DecodeStatePut :: "Envelope \<Rightarrow> StatePut option" where
  "DecodeStatePut e =
     (case decodeRequiredJSON
        (\<lambda>get. case (Option.bind (get ''module'') as_string, Option.bind (get ''key'') as_string,
                     Option.bind (get ''version'') as_int, get ''state'') of
           (Some m, Some k, Some v, Some st) \<Rightarrow>
             Some \<lparr>put_Module = m, put_Key = k, put_Version = v, put_State = Doc st\<rparr>
         | _ \<Rightarrow> None)
        (env_Body e) [''module'', ''key'', ''version'', ''state''] of
       None \<Rightarrow> None
     | Some b \<Rightarrow>
         if \<not> moduleName (put_Module b) \<or> \<not> stateKey (put_Key b) \<or> put_Version b < 1 \<or>
            put_Version b > maxStateVersion \<or> \<not> jsonObject (put_State b) then None
         else Some b)"

text \<open>Strings of a JSON array; Go leaves a null element as the empty string.\<close>

fun as_strings :: "json list \<Rightarrow> string list option" where
  "as_strings [] = Some []"
| "as_strings (j # js) = (case (if j = JNull then Some [] else as_string j, as_strings js) of
     (Some s, Some ss) \<Rightarrow> Some (s # ss) | _ \<Rightarrow> None)"

fun checkKeys :: "string list \<Rightarrow> string list \<Rightarrow> bool" where
  "checkKeys seen [] = True"
| "checkKeys seen (k # ks) = (if \<not> stateKey k \<or> k \<in> set seen then False else checkKeys (k # seen) ks)"

definition DecodeStateKeys :: "Envelope \<Rightarrow> StateKeys option" where
  "DecodeStateKeys e =
     (case decodeRequiredJSON
        (\<lambda>get. case (Option.bind (get ''module'') as_string, Option.bind (Option.bind (get ''keys'') as_array) as_strings) of
           (Some m, Some ks) \<Rightarrow> Some \<lparr>keys_Module = m, keys_Keys = ks\<rparr>
         | _ \<Rightarrow> None)
        (env_Body e) [''module'', ''keys''] of
       None \<Rightarrow> None
     | Some b \<Rightarrow> if \<not> moduleName (keys_Module b) then None
                else if checkKeys [] (keys_Keys b) then Some b else None)"

text \<open>The bodies of the acknowledgements and of the handshake, each with \<open>DecodeBody\<close>'s strict fields.\<close>

definition DecodeAcceptedAck :: "Envelope \<Rightarrow> AcceptedAckBody option" where
  "DecodeAcceptedAck e = decodeRequiredJSON
     (\<lambda>get. case (Option.bind (get ''command_id'') as_string, Option.bind (get ''accepted'') as_bool) of
        (Some c, Some a) \<Rightarrow> Some \<lparr>ack_CommandID = c, ack_Accepted = a\<rparr> | _ \<Rightarrow> None)
     (env_Body e) [''command_id'', ''accepted'']"

definition DecodeResultAck :: "Envelope \<Rightarrow> ResultAckBody option" where
  "DecodeResultAck e = decodeRequiredJSON
     (\<lambda>get. case (Option.bind (get ''command_id'') as_string, Option.bind (get ''persisted'') as_bool) of
        (Some c, Some p) \<Rightarrow> Some \<lparr>rack_CommandID = c, rack_Persisted = p\<rparr> | _ \<Rightarrow> None)
     (env_Body e) [''command_id'', ''persisted'']"

definition DecodeReportAck :: "Envelope \<Rightarrow> string option" where
  "DecodeReportAck e = decodeRequiredJSON (\<lambda>get. Option.bind (get ''report_id'') as_string) (env_Body e) [''report_id'']"

definition DecodeAgentID :: "Envelope \<Rightarrow> string option" where
  "DecodeAgentID e = decodeRequiredJSON (\<lambda>get. Option.bind (get ''agent_id'') as_string) (env_Body e) [''agent_id'']"

definition DecodeChallenge :: "Envelope \<Rightarrow> AuthChallenge option" where
  "DecodeChallenge e = decodeRequiredJSON
     (\<lambda>get. case (Option.bind (get ''challenge_id'') as_string, Option.bind (get ''agent_id'') as_string,
                  Option.bind (get ''nonce'') as_string, Option.bind (get ''issued_at'') as_string,
                  Option.bind (get ''expires_at'') as_string) of
        (Some c, Some a, Some n, Some i, Some x) \<Rightarrow>
          Some \<lparr>ChallengeID = c, challenge_AgentID = a, Nonce = n, IssuedAt = i, challenge_ExpiresAt = x\<rparr>
      | _ \<Rightarrow> None)
     (env_Body e) [''challenge_id'', ''agent_id'', ''nonce'', ''issued_at'', ''expires_at'']"

section \<open>Envelopes\<close>

definition Version :: string where "Version = ''2026-11-01.v12''"
definition AuthContext :: string where "AuthContext = ''akastr-agent-auth-v1''"
definition MaxMessage :: nat where "MaxMessage = 2 ^ 20"

text \<open>
  \<open>Decode\<close> of a message of \<open>n\<close> bytes whose only JSON value is \<open>r\<close>. The envelope may leave
  fields out (they keep their zero value and fail the checks) but not add any.
\<close>

definition envelopeFields :: "string list" where
  "envelopeFields = [''protocol'', ''message_id'', ''type'', ''sent_at'', ''body'']"

definition Decode :: "(string \<Rightarrow> gotime option) \<Rightarrow> nat \<Rightarrow> raw \<Rightarrow> Envelope option" where
  "Decode parseTime n r =
     (if n < 2 \<or> MaxMessage < n then None
      else case r of
        Doc (JObj kvs) \<Rightarrow>
          if \<not> list_all (\<lambda>k. fold_key k \<in> set envelopeFields) (map fst kvs) then None
          else (case (field [] as_string kvs ''protocol'', field [] as_string kvs ''message_id'', field [] as_string kvs ''type'',
                      field 0 (\<lambda>j. Option.bind (as_string j) parseTime) kvs ''sent_at'') of
              (Some p, Some m, Some t, Some at) \<Rightarrow>
                let body = (case struct_get kvs ''body'' of None \<Rightarrow> NoRaw | Some j \<Rightarrow> Doc j) in
                if p \<noteq> Version then None
                else if \<not> ValidUUID m \<or> t = [] \<or> IsZero at \<or> raw_len body = 0 then None
                else Some \<lparr>env_Protocol = p, env_MessageID = m, env_Type = t, env_SentAt = at, env_Body = body\<rparr>
            | _ \<Rightarrow> None)
      | _ \<Rightarrow> None)"

text \<open>The text a node signs to prove who it is.\<close>

definition AuthSigningText :: "(string \<Rightarrow> gotime option) \<Rightarrow> AuthChallenge \<Rightarrow> string option" where
  "AuthSigningText parseTime ch =
     (if \<not> ValidUUID (challenge_AgentID ch) \<or> \<not> ValidUUID (ChallengeID ch) then None
      else case RawURLDecode (Nonce ch) of None \<Rightarrow> None
      | Some nonce \<Rightarrow>
          if length nonce \<noteq> 32 \<or> RawURLEncode nonce \<noteq> Nonce ch then None
          else case (parseTime (IssuedAt ch), parseTime (challenge_ExpiresAt ch)) of
            (Some i, Some x) \<Rightarrow>
              if \<not> After x i then None
              else Some (Join [CHR 0x0A] [AuthContext, challenge_AgentID ch, ChallengeID ch, Nonce ch, IssuedAt ch, challenge_ExpiresAt ch])
          | _ \<Rightarrow> None)"

lemma checkKeys_iff: "checkKeys seen ks \<longleftrightarrow> distinct ks \<and> set ks \<inter> set seen = {} \<and> list_all stateKey ks"
  by (induction ks arbitrary: seen) auto

lemma Decode_ok:
  "Decode pt n r = Some e \<Longrightarrow> n \<le> MaxMessage \<and> env_Protocol e = Version \<and> ValidUUID (env_MessageID e) \<and>
     env_Type e \<noteq> [] \<and> env_SentAt e \<noteq> 0 \<and> raw_len (env_Body e) \<noteq> 0"
  by (auto simp: Decode_def time_defs Let_def split: if_splits raw.splits json.splits option.splits)

lemma DecodeStatePut_ok:
  "DecodeStatePut e = Some p \<Longrightarrow> moduleName (put_Module p) \<and> stateKey (put_Key p) \<and>
     1 \<le> put_Version p \<and> put_Version p \<le> maxStateVersion \<and> jsonObject (put_State p)"
  by (auto simp: DecodeStatePut_def split: option.splits if_splits)

lemma DecodeStateKeys_ok:
  "DecodeStateKeys e = Some k \<Longrightarrow> moduleName (keys_Module k) \<and> distinct (keys_Keys k) \<and> list_all stateKey (keys_Keys k)"
  by (auto simp: DecodeStateKeys_def checkKeys_iff split: option.splits if_splits)

lemma DecodeOperationOffer_ok:
  "DecodeOperationOffer pt e = Some off \<Longrightarrow> ValidUUID (CommandID off) \<and> stableToken 63 (CommandType off) \<and>
     PayloadVersion off = 1 \<and> NotBefore off < ExpiresAt off"
  by (auto simp: DecodeOperationOffer_def time_defs split: option.splits if_splits)

text \<open>Every command identifier Cloud may send is a token of the journal.\<close>

lemma stableToken_mono: "stableToken n s \<Longrightarrow> n \<le> m \<Longrightarrow> stableToken m s"
  by (auto simp: stableToken_def split: list.splits)

lemma list_all2_set_classes:
  "list_all2 (\<lambda>c cls. c \<in> set cls) s ps \<Longrightarrow> (\<And>cls. cls \<in> set ps \<Longrightarrow> set cls \<subseteq> A) \<Longrightarrow> set s \<subseteq> A"
  by (induction rule: list_all2_induct) auto

lemma ValidUUID_token: "ValidUUID s \<Longrightarrow> stableToken 127 s"
proof -
  assume v: "ValidUUID s"
  then have s: "list_all2 (\<lambda>c cls. c \<in> set cls) s uuidPattern" by (simp add: ValidUUID_def)
  have "set s \<subseteq> set (lower @ digits @ ''._-'')"
    by (rule list_all2_set_classes [OF s]) (auto simp: uuidPattern_def hexits_def lower_def digits_def)
  moreover have "length s = 36" using v by (rule ValidUUID_length)
  moreover have "s ! 0 \<in> set (lower @ digits)"
  proof -
    have "s ! 0 \<in> set (uuidPattern ! 0)"
      using list_all2_nthD [OF s, of 0] \<open>length s = 36\<close> by simp
    moreover have "uuidPattern ! 0 = hexits" by (simp add: uuidPattern_def nth_append)
    ultimately show ?thesis by (auto simp: hexits_def lower_def digits_def)
  qed
  ultimately show ?thesis
    by (cases s) (auto simp: stableToken_def list_all_iff)
qed

section \<open>The signed text\<close>

lemma ValidUUID_no_newline: "ValidUUID s \<Longrightarrow> CHR 0x0A \<notin> set s"
proof -
  assume "ValidUUID s"
  then have s: "list_all2 (\<lambda>c cls. c \<in> set cls) s uuidPattern" by (simp add: ValidUUID_def)
  have "set s \<subseteq> set (hexits @ ''-'')"
    by (rule list_all2_set_classes [OF s]) (auto simp: uuidPattern_def hexits_def)
  then show ?thesis by (auto simp: hexits_def)
qed

lemma nonce_no_newline:
  "RawURLDecode s = Some bs \<Longrightarrow> RawURLEncode bs = s \<Longrightarrow> CHR 0x0A \<notin> set s"
  using RawURLEncode_chars [OF RawURLDecode_bytes] b64_url_no_newline by blast

definition signed_parts :: "AuthChallenge \<Rightarrow> string list" where
  "signed_parts ch = [AuthContext, challenge_AgentID ch, ChallengeID ch, Nonce ch, IssuedAt ch, challenge_ExpiresAt ch]"

lemma AuthSigningText_parts:
  assumes "AuthSigningText pt ch = Some t" and "\<And>x at. pt x = Some at \<Longrightarrow> CHR 0x0A \<notin> set x"
  shows "t = Join [CHR 0x0A] (signed_parts ch)" "\<forall>p \<in> set (signed_parts ch). CHR 0x0A \<notin> set p"
proof -
  from assms(1) obtain nonce i x where f: "ValidUUID (challenge_AgentID ch)" "ValidUUID (ChallengeID ch)"
    "RawURLDecode (Nonce ch) = Some nonce" "RawURLEncode nonce = Nonce ch"
    "pt (IssuedAt ch) = Some i" "pt (challenge_ExpiresAt ch) = Some x" and t: "t = Join [CHR 0x0A] (signed_parts ch)"
    by (auto simp: AuthSigningText_def signed_parts_def split: if_splits option.splits)
  show "t = Join [CHR 0x0A] (signed_parts ch)" by (rule t)
  have "CHR 0x0A \<notin> set AuthContext" by (simp add: AuthContext_def)
  with ValidUUID_no_newline [OF f(1)] ValidUUID_no_newline [OF f(2)] nonce_no_newline [OF f(3,4)] assms(2) [OF f(5)] assms(2) [OF f(6)]
  show "\<forall>p \<in> set (signed_parts ch). CHR 0x0A \<notin> set p" by (simp add: signed_parts_def)
qed

text \<open>
  The text a node signs determines the challenge it answers: if the time reader accepts no
  text with a newline (RFC 3339 has none), two challenges with the same signing text are equal,
  and every signing text starts with the authentication context, so a signature made for one
  challenge, or for another purpose, answers no other.
\<close>

theorem signing_text_injective:
  assumes "AuthSigningText pt a = Some t" "AuthSigningText pt b = Some t"
    and "\<And>x at. pt x = Some at \<Longrightarrow> CHR 0x0A \<notin> set x"
  shows "a = b \<and> HasPrefix t (AuthContext @ [CHR 0x0A])"
proof -
  note pa = AuthSigningText_parts [OF assms(1,3)] and pb = AuthSigningText_parts [OF assms(2,3)]
  have "signed_parts a = signed_parts b"
  proof -
    have ne: "signed_parts ch \<noteq> []" for ch by (simp add: signed_parts_def)
    have "Split (CHR 0x0A) t = signed_parts a" using Split_Join [OF ne pa(2)] by (simp only: pa(1))
    moreover have "Split (CHR 0x0A) t = signed_parts b" using Split_Join [OF ne pb(2)] by (simp only: pb(1))
    ultimately show ?thesis by simp
  qed
  moreover have "HasPrefix t (AuthContext @ [CHR 0x0A])"
    by (simp add: pa(1) HasPrefix_def signed_parts_def)
  ultimately show ?thesis by (cases a; cases b) (simp add: signed_parts_def)
qed

definition ex_time :: "string \<Rightarrow> gotime option" where
  "ex_time s = (if s = ''2026-11-01T00:00:00Z'' then Some 1 else if s = ''2026-11-01T00:00:30Z'' then Some 2 else None)"

definition ex_challenge :: AuthChallenge where
  "ex_challenge = \<lparr>ChallengeID = ''0f8fad5b-d9cb-469f-a165-70867728950e'', challenge_AgentID = ''7c9e6679-7425-40de-944b-e07fc1f90ae7'',
     Nonce = replicate 43 CHR ''A'', IssuedAt = ''2026-11-01T00:00:00Z'', challenge_ExpiresAt = ''2026-11-01T00:00:30Z''\<rparr>"

lemma ex_challenge_text: "AuthSigningText ex_time ex_challenge = Some (Join [CHR 0x0A] (signed_parts ex_challenge))"
proof -
  have "RawURLDecode (Nonce ex_challenge) = Some (replicate 32 0)" "RawURLEncode (replicate 32 0) = Nonce ex_challenge" by code_simp+
  moreover have "ValidUUID (challenge_AgentID ex_challenge)" "ValidUUID (ChallengeID ex_challenge)" by code_simp+
  ultimately show ?thesis
    by (simp add: AuthSigningText_def signed_parts_def) (simp add: ex_challenge_def ex_time_def After_def)
qed

theorem signing_text_injective_witness:
  "HasPrefix (Join [CHR 0x0A] (signed_parts ex_challenge)) (AuthContext @ [CHR 0x0A])"
proof -
  have h: "\<And>x at. ex_time x = Some at \<Longrightarrow> CHR 0x0A \<notin> set x"
    by (auto simp: ex_time_def split: if_splits)
  show ?thesis using signing_text_injective [OF ex_challenge_text ex_challenge_text] h by blast
qed

end
