(* ===== verification/Executor.thy ===== *)
theory Executor
  imports Journal Protocol
begin

text \<open>
  The single owner of command execution, \<open>src/internal/operation/executor.go\<close>. \<open>execute\<close>,
  \<open>finishLeftover\<close>, \<open>finish\<close> and \<open>replay\<close> are the methods of the same names, run by one caller;
  \<open>xstep\<close> interleaves the same journal calls of any number of executions with each other, with
  failing saves and with the process stopping at any point and a new one reopening the file.
\<close>

section \<open>The executor as one caller runs it\<close>

datatype exec_error =
    ResultMissing | ResultUndecodable | BeginFailed engine_error | PersistFailed engine_error

record Handler =
  Run :: "OperationOffer \<Rightarrow> ExecutionResult"
  Recover :: "OperationOffer \<Rightarrow> ExecutionResult"
  Failed :: "OperationOffer \<Rightarrow> string \<Rightarrow> ExecutionResult"

datatype call = CallRun string | CallRecover string | CallFailed string

text \<open>The journal, the identifiers of live executions, and the handler calls made so far.\<close>

record Executor =
  engine :: Engine
  running :: "string list"
  calls :: "call list"

text \<open>What one journal call meets: the outcome of its system calls and the clock.\<close>

type_synonym io = "save_env \<times> gotime"

definition replay :: "Engine \<Rightarrow> string \<Rightarrow> exec_error + ExecutionResult" where
  "replay e i = (case recent e i of None \<Rightarrow> Inl ResultMissing
     | Some r \<Rightarrow> if raw_len (TerminalResult r) = 0 then Inl ResultMissing
                else case unmarshalResult (TerminalResult r) of None \<Rightarrow> Inl ResultUndecodable
                | Some res \<Rightarrow> Inr res)"

definition outcome_status :: "ExecutionResult \<Rightarrow> string" where
  "outcome_status r = (if Outcome r = ''succeeded'' then StatusSucceeded
     else if Outcome r = ''cancelled'' then StatusCancelled else StatusFailed)"

definition finish :: "io \<Rightarrow> string \<Rightarrow> ExecutionResult \<Rightarrow> Engine \<Rightarrow> exec_error option \<times> Engine" where
  "finish w i r e =
     (case FinishWithResult (fst w) (snd w) i (outcome_status r) (Code r) (marshalResult r) e of
        (Inl er, e') \<Rightarrow> (Some (PersistFailed er), e')
      | (Inr _, e') \<Rightarrow> (None, e'))"

text \<open>The offer a leftover is recovered with carries only its identifier and kind.\<close>

definition leftover_offer :: "Record \<Rightarrow> OperationOffer" where
  "leftover_offer r = \<lparr>CommandID = OperationID r, CommandType = Kind r, PayloadVersion = 0,
     Payload = NoRaw, NotBefore = 0, ExpiresAt = 0\<rparr>"

text \<open>The record of an earlier process that holds the group, if nobody runs it here.\<close>

definition leftover :: "string list \<Rightarrow> OperationOffer \<Rightarrow> string \<Rightarrow> Engine \<Rightarrow> Record option" where
  "leftover live off g e = (case map_of (Active (snapshot e)) g of None \<Rightarrow> None
     | Some r \<Rightarrow> if OperationID r \<in> set live \<or> Kind r \<noteq> CommandType off then None else Some r)"

definition finishLeftover :: "io \<Rightarrow> string list \<Rightarrow> OperationOffer \<Rightarrow> string \<Rightarrow> Handler \<Rightarrow> Engine \<Rightarrow> bool \<times> Engine" where
  "finishLeftover w live off g h e = (case leftover live off g e of None \<Rightarrow> (False, e)
     | Some r \<Rightarrow> (let (err, e') = finish w (OperationID r) (Recover h (leftover_offer r)) e
                in (err = None, e')))"

text \<open>\<open>Begin\<close>, and once more after finishing a leftover of the group.\<close>

definition begin_twice :: "io \<Rightarrow> io \<Rightarrow> io \<Rightarrow> OperationOffer \<Rightarrow> string \<Rightarrow> Handler \<Rightarrow> Executor \<Rightarrow>
    engine_error option \<times> Executor" where
  "begin_twice w1 w2 w3 off g h x =
     (case Begin (fst w1) (snd w1) (CommandID off) (CommandType off) g (engine x) of
        (Inr _, e1) \<Rightarrow> (None, x\<lparr>engine := e1\<rparr>)
      | (Inl er, e1) \<Rightarrow>
          (case er of
             ErrConflict _ \<Rightarrow>
               (let (free, e2) = finishLeftover w2 (running x) off g h e1;
                    recovered = (case leftover (running x) off g e1 of None \<Rightarrow> []
                                 | Some r \<Rightarrow> [CallRecover (OperationID r)]);
                    x2 = x\<lparr>engine := e2, calls := calls x @ recovered\<rparr>
                in if free then
                     (case Begin (fst w3) (snd w3) (CommandID off) (CommandType off) g e2 of
                        (Inr _, e3) \<Rightarrow> (None, x2\<lparr>engine := e3\<rparr>)
                      | (Inl er3, e3) \<Rightarrow> (Some er3, x2\<lparr>engine := e3\<rparr>))
                   else (Some er, x2))
           | _ \<Rightarrow> (Some er, x\<lparr>engine := e1\<rparr>)))"

definition is_conflict :: "engine_error \<Rightarrow> bool" where
  "is_conflict er = (case er of ErrConflict _ \<Rightarrow> True | _ \<Rightarrow> False)"

definition persist :: "io \<Rightarrow> string \<Rightarrow> ExecutionResult \<Rightarrow> Executor \<Rightarrow> (exec_error + ExecutionResult) \<times> Executor" where
  "persist w i r x = (let (err, e') = finish w i r (engine x)
     in (case err of Some er \<Rightarrow> Inl er | None \<Rightarrow> Inr r, x\<lparr>engine := e'\<rparr>))"

definition execute :: "io \<Rightarrow> io \<Rightarrow> io \<Rightarrow> io \<Rightarrow> OperationOffer \<Rightarrow> string \<Rightarrow> Handler \<Rightarrow> Executor \<Rightarrow>
    (exec_error + ExecutionResult) \<times> Executor" where
  "execute w1 w2 w3 w4 off g h x =
     (if recent (engine x) (CommandID off) \<noteq> None then (replay (engine x) (CommandID off), x)
      else
        (let (err, x1) = begin_twice w1 w2 w3 off g h x in
         case err of
           None \<Rightarrow> persist w4 (CommandID off) (Run h off) (x1\<lparr>calls := calls x1 @ [CallRun (CommandID off)]\<rparr>)
         | Some er \<Rightarrow>
             (case active (engine x1) (CommandID off) of
                None \<Rightarrow>
                  if is_conflict er
                  then (Inr (Failed h off ''operation_busy''), x1\<lparr>calls := calls x1 @ [CallFailed (CommandID off)]\<rparr>)
                  else (Inl (BeginFailed er), x1)
              | Some r \<Rightarrow>
                  if Kind r \<noteq> CommandType off \<or> ExclusiveGroup r \<noteq> g then (Inl (BeginFailed er), x1)
                  else persist w4 (CommandID off) (Recover h off) (x1\<lparr>calls := calls x1 @ [CallRecover (CommandID off)]\<rparr>))))"

text \<open>\<open>Execute\<close> when nobody runs the command: it is registered for the time of the execution.\<close>

definition Execute :: "io \<Rightarrow> io \<Rightarrow> io \<Rightarrow> io \<Rightarrow> OperationOffer \<Rightarrow> string \<Rightarrow> Handler \<Rightarrow> Executor \<Rightarrow>
    (exec_error + ExecutionResult) \<times> Executor" where
  "Execute w1 w2 w3 w4 off g h x =
     (let (res, x') = execute w1 w2 w3 w4 off g h (x\<lparr>running := CommandID off # running x\<rparr>)
      in (res, x'\<lparr>running := removeAll (CommandID off) (running x')\<rparr>))"

text \<open>A caller that found the command running waits for it, then returns its error or replays.\<close>

definition join :: "exec_error option \<Rightarrow> string \<Rightarrow> Engine \<Rightarrow> exec_error + ExecutionResult" where
  "join err i e = (case err of Some er \<Rightarrow> Inl er | None \<Rightarrow> replay e i)"

section \<open>A finished command is answered from the journal\<close>

lemma recent_eq:
  assumes "snapshot_ok (snapshot e)" "r \<in> set (Recent (snapshot e))"
  shows "recent e (OperationID r) = Some r"
proof -
  have "distinct (map OperationID (Recent (snapshot e)))"
    using assms(1) by (simp add: snapshot_ok_def recent_ids_def)
  then have d: "x = r" if "x \<in> set (Recent (snapshot e))" "OperationID x = OperationID r" for x
    using that assms(2) distinct_map_inj_on_eq by metis
  have "recent e (OperationID r) \<noteq> None"
    using assms(2) by (auto simp: recent_def find_None_iff)
  then obtain x where x: "recent e (OperationID r) = Some x" by auto
  then have "x \<in> set (Recent (snapshot e))" "OperationID x = OperationID r"
    by (auto simp: recent_def find_Some_iff) (metis in_set_conv_nth length_rev set_rev)
  with d x show ?thesis by simp
qed

lemma recent_None_iff: "recent e i = None \<longleftrightarrow> i \<notin> set (recent_ids (snapshot e))"
  by (auto simp: recent_def find_None_iff recent_ids_def)

lemma finish_None:
  assumes "finish w i r e = (None, e')"
  shows "\<exists>rec. FinishWithResult (fst w) (snd w) i (outcome_status r) (Code r) (marshalResult r) e = (Inr rec, e')"
  using assms by (auto simp: finish_def split: prod.splits sum.splits)

lemma finish_Some:
  assumes "finish w i r e = (Some er, e')"
  shows "\<exists>er'. FinishWithResult (fst w) (snd w) i (outcome_status r) (Code r) (marshalResult r) e = (Inl er', e')"
  using assms by (auto simp: finish_def split: prod.splits sum.splits)

lemma engine_ok_finish: "engine_ok e \<Longrightarrow> engine_ok (snd (finish w i r e))"
  using engine_ok_Finish [of e "fst w" "snd w" i "outcome_status r" "Code r" "marshalResult r"]
  by (auto simp: finish_def split: prod.splits sum.splits)

lemma engine_ok_finishLeftover: "engine_ok e \<Longrightarrow> engine_ok (snd (finishLeftover w live off g h e))"
proof -
  assume ok: "engine_ok e"
  show ?thesis
  proof (cases "leftover live off g e")
    case None
    with ok show ?thesis by (simp add: finishLeftover_def)
  next
    case (Some r)
    with engine_ok_finish [OF ok, of w "OperationID r" "Recover h (leftover_offer r)"] show ?thesis
      by (auto simp: finishLeftover_def split: prod.splits)
  qed
qed

lemma finish_replay:
  assumes ok: "engine_ok e" and f: "finish w i r e = (None, e')"
  shows "recent e' i \<noteq> None \<and> replay e' i = Inr r"
proof -
  from finish_None [OF f] obtain rec where F:
    "FinishWithResult (fst w) (snd w) i (outcome_status r) (Code r) (marshalResult r) e = (Inr rec, e')" by blast
  from Finish_Inr [OF F] obtain g rec0 where fa: "findActive (snapshot e) i = Some (g, rec0)"
    and rec: "rec = finish_record (snd w) (outcome_status r) (Code r) (marshalResult r) rec0"
    and s: "snapshot e' = finished (recentLimit e) g rec (snapshot e)" by blast
  have ok': "snapshot_ok (snapshot e')"
    using engine_ok_finish [OF ok, of w i r] f by (simp add: engine_ok_def)
  have "rec \<in> set (Recent (snapshot e'))"
    using ok by (simp add: s finished_def pushRecent_eq engine_ok_def lastn_snoc)
  moreover have "OperationID rec = i" using findActive_Some [OF fa] by (simp add: rec finish_record_def)
  ultimately have "recent e' i = Some rec" using recent_eq [OF ok', of rec] by simp
  moreover have "TerminalResult rec = marshalResult r" by (simp add: rec finish_record_def)
  ultimately show ?thesis by (simp add: replay_def unmarshal_marshal)
qed

lemma engine_ok_begin_twice:
  assumes "engine_ok (engine x)" "snd w1 \<noteq> 0" "snd w3 \<noteq> 0"
  shows "engine_ok (engine (snd (begin_twice w1 w2 w3 off g h x)))"
proof -
  obtain res1 e1 where B1: "Begin (fst w1) (snd w1) (CommandID off) (CommandType off) g (engine x) = (res1, e1)"
    by (cases "Begin (fst w1) (snd w1) (CommandID off) (CommandType off) g (engine x)")
  obtain free e2 where L: "finishLeftover w2 (running x) off g h e1 = (free, e2)"
    by (cases "finishLeftover w2 (running x) off g h e1")
  have e1: "engine_ok e1"
    using engine_ok_Begin [OF assms(1,2), of "fst w1" "CommandID off" "CommandType off" g] B1 by simp
  then have e2: "engine_ok e2" using engine_ok_finishLeftover [OF e1, of w2 "running x" off g h] L by simp
  then have e3: "engine_ok (snd (Begin (fst w3) (snd w3) (CommandID off) (CommandType off) g e2))"
    by (rule engine_ok_Begin [OF _ assms(3)])
  show ?thesis
    using e1 e2 e3 by (auto simp: begin_twice_def B1 L Let_def split: sum.splits engine_error.splits prod.splits)
qed

lemma Execute_recent:
  assumes "recent (engine x) (CommandID off) \<noteq> None" "CommandID off \<notin> set (running x)"
  shows "Execute w1 w2 w3 w4 off g h x = (replay (engine x) (CommandID off), x)"
  using assms by (simp add: Execute_def execute_def)

lemma persist_Inr:
  assumes ok: "engine_ok (engine x)" and p: "persist w i r x = (Inr r', x')"
  shows "r' = r \<and> recent (engine x') i \<noteq> None \<and> replay (engine x') i = Inr r"
proof -
  from p obtain e' where "finish w i r (engine x) = (None, e')" "x' = x\<lparr>engine := e'\<rparr>" "r' = r"
    by (auto simp: persist_def Let_def split: prod.splits option.splits)
  with finish_replay [OF ok] show ?thesis by simp
qed

lemma execute_result:
  assumes ok: "engine_ok (engine x)" and clock: "snd w1 \<noteq> 0" "snd w3 \<noteq> 0"
    and ex: "execute w1 w2 w3 w4 off g h x = (Inr r, x')"
  shows "(recent (engine x') (CommandID off) \<noteq> None \<and> replay (engine x') (CommandID off) = Inr r) \<or>
    r = Failed h off ''operation_busy''"
proof (cases "recent (engine x) (CommandID off)")
  case (Some rec)
  with ex show ?thesis by (auto simp: execute_def)
next
  case None
  obtain err x1 where b: "begin_twice w1 w2 w3 off g h x = (err, x1)"
    by (cases "begin_twice w1 w2 w3 off g h x")
  have ok1: "engine_ok (engine x1)" using engine_ok_begin_twice [OF ok clock, of w2 off g h] b by simp
  then have p: "persist w4 (CommandID off) r0 (x1\<lparr>calls := cs\<rparr>) = (Inr r, x') \<Longrightarrow>
      recent (engine x') (CommandID off) \<noteq> None \<and> replay (engine x') (CommandID off) = Inr r" for r0 cs
    using persist_Inr [of "x1\<lparr>calls := cs\<rparr>" w4 "CommandID off" r0 r x'] by simp
  from ex None b p show ?thesis
    by (auto simp: execute_def split: option.splits if_splits)
qed

text \<open>
  Once a command has a result, every later offer of it is answered with that same result
  from the journal: no handler runs again and nothing changes, whatever payload, group or
  handler the repeated offer comes with. The one result that is not kept is the refusal of a
  command whose group was busy, which never ran.
\<close>

theorem execute_idempotent:
  assumes "engine_ok (engine x)" "snd w1 \<noteq> 0" "snd w3 \<noteq> 0" "CommandID off \<notin> set (running x)"
    and "Execute w1 w2 w3 w4 off g h x = (Inr r, x')"
    and "r \<noteq> Failed h off ''operation_busy''"
    and "CommandID off' = CommandID off"
  shows "Execute v1 v2 v3 v4 off' g' h' x' = (Inr r, x')"
proof -
  let ?x = "x\<lparr>running := CommandID off # running x\<rparr>"
  from assms(5) obtain x1 where ex: "execute w1 w2 w3 w4 off g h ?x = (Inr r, x1)"
    and x': "x' = x1\<lparr>running := removeAll (CommandID off) (running x1)\<rparr>"
    by (auto simp: Execute_def split: prod.splits)
  have "recent (engine x1) (CommandID off) \<noteq> None \<and> replay (engine x1) (CommandID off) = Inr r"
    using execute_result [OF _ assms(2,3) ex] assms(1,6) by simp
  then show ?thesis using Execute_recent [of x' off'] assms(7) by (simp add: x')
qed

definition example_result :: ExecutionResult where
  "example_result = \<lparr>Outcome = ''succeeded'', Code = ''change_triggered'', Result = None\<rparr>"

definition example_handler :: Handler where
  "example_handler = \<lparr>Run = (\<lambda>_. example_result), Recover = (\<lambda>_. example_result),
     Failed = (\<lambda>_ c. \<lparr>Outcome = ''failed'', Code = c, Result = None\<rparr>)\<rparr>"

definition example_offer :: OperationOffer where
  "example_offer = \<lparr>CommandID = ''op-1'', CommandType = ''changeip.execute'', PayloadVersion = 1,
     Payload = Doc (JObj []), NotBefore = 1, ExpiresAt = 9\<rparr>"

definition example_executor :: Executor where
  "example_executor = \<lparr>engine = first_journal, running = [], calls = []\<rparr>"

lemma example_finish:
  assumes "snapshot e = begun (new_record 5 ''op-1'' ''changeip.execute'' ''target-network'') emptySnapshot"
  shows "\<exists>e'. finish (all_ok, 6) ''op-1'' example_result e = (None, e')"
proof -
  have can: "can_finish (outcome_status example_result) (Code example_result) (marshalResult example_result)"
    by (simp add: can_finish_def outcome_status_def finishedStatus_def example_result_def token_examples
        result_ok_def marshalResult_def raw_object_def json_Valid_def json_string_def escape_char_def)
  have fa: "findActive (snapshot e) ''op-1'' =
      Some (''target-network'', new_record 5 ''op-1'' ''changeip.execute'' ''target-network'')"
    by (simp add: assms findActive_def begun_def new_record_def emptySnapshot_def)
  show ?thesis by (simp add: finish_def Finish_unfold [OF can] fa commit_def)
qed

lemma example_run:
  "\<exists>x'. Execute (all_ok, 5) (all_ok, 5) (all_ok, 5) (all_ok, 6) example_offer ''target-network'' example_handler
     example_executor = (Inr example_result, x') \<and> calls x' = [CallRun ''op-1'']"
proof -
  let ?r = "new_record 5 ''op-1'' ''changeip.execute'' ''target-network''"
  let ?x = "\<lparr>engine = first_journal, running = [''op-1''], calls = []\<rparr>"
  obtain e where B: "Begin all_ok 5 ''op-1'' ''changeip.execute'' ''target-network'' first_journal = (Inr ?r, e)"
    and e: "snapshot e = begun ?r emptySnapshot" by (rule that [OF Begin_first]) simp
  obtain e' where F: "finish (all_ok, 6) ''op-1'' example_result e = (None, e')" using example_finish [OF e] by blast
  have o: "CommandID example_offer = ''op-1''" "CommandType example_offer = ''changeip.execute''"
    by (simp_all add: example_offer_def)
  have h: "Run example_handler example_offer = example_result" by (simp add: example_handler_def)
  have t: "begin_twice (all_ok, 5) (all_ok, 5) (all_ok, 5) example_offer ''target-network'' example_handler ?x =
      (None, ?x\<lparr>engine := e\<rparr>)" by (simp add: begin_twice_def o B)
  have n: "recent first_journal ''op-1'' = None" by (simp add: recent_def first_journal_def emptySnapshot_def)
  show ?thesis by (simp add: Execute_def execute_def example_executor_def o n t h persist_def F del: o(2))
qed

theorem execute_idempotent_witness:
  "\<exists>x'. calls x' = [CallRun ''op-1''] \<and>
     Execute (all_ok, 7) (all_ok, 7) (all_ok, 7) (all_ok, 8) (example_offer\<lparr>PayloadVersion := 2\<rparr>) ''other''
       example_handler x' = (Inr example_result, x')"
proof -
  obtain x' where x': "Execute (all_ok, 5) (all_ok, 5) (all_ok, 5) (all_ok, 6) example_offer ''target-network''
      example_handler example_executor = (Inr example_result, x')" "calls x' = [CallRun ''op-1'']"
    using example_run by blast
  have h: "engine_ok (engine example_executor)" "snd (all_ok, 5::gotime) \<noteq> 0" "snd (all_ok, 5::gotime) \<noteq> 0"
    "CommandID example_offer \<notin> set (running example_executor)"
    by (simp_all add: example_executor_def engine_ok_first)
  have n: "example_result \<noteq> Failed example_handler example_offer ''operation_busy''"
    by (simp add: example_result_def example_handler_def)
  have c: "CommandID (example_offer\<lparr>PayloadVersion := 2\<rparr>) = CommandID example_offer" by simp
  from execute_idempotent [OF h x'(1) n c] x'(2) show ?thesis by blast
qed

section \<open>Interleaved executions, failing saves and restarts\<close>

text \<open>Where the execution registered for one command identifier is.\<close>

datatype phase =
    Out | Entered OperationOffer string | Checked OperationOffer string
  | Conflicted OperationOffer string | Freed OperationOffer string
  | Refused OperationOffer string engine_error
  | Running OperationOffer string | Recovering OperationOffer string
  | HasResult OperationOffer ExecutionResult

text \<open>
  The journal, every live execution, the identifiers \<open>Run\<close> was called for (across processes),
  the operations the journal has forgotten, and how many finishes were attempted.
\<close>

record xstate =
  xeng :: Engine
  phase :: "string \<Rightarrow> phase"
  ran :: "string list"
  forgot :: "string set"
  finishes :: nat

text \<open>Operations remembered before a journal call and no longer remembered, in memory or on disk,
  after it.\<close>

definition forgotten :: "Engine \<Rightarrow> Engine \<Rightarrow> string set" where
  "forgotten e e' = {i \<in> journaled (snapshot e). i \<notin> journaled (snapshot e') \<or> i \<notin> journaled (disk_snapshot (jfile e'))}"

definition journal_to :: "Engine \<Rightarrow> xstate \<Rightarrow> xstate" where
  "journal_to e s = s\<lparr>xeng := e, forgot := forgot s \<union> forgotten (xeng s) e\<rparr>"

definition move :: "string \<Rightarrow> phase \<Rightarrow> xstate \<Rightarrow> xstate" where
  "move i p s = s\<lparr>phase := (phase s)(i := p)\<rparr>"

definition attempted :: "xstate \<Rightarrow> xstate" where
  "attempted s = s\<lparr>finishes := Suc (finishes s)\<rparr>"

definition live :: "xstate \<Rightarrow> string \<Rightarrow> bool" where
  "live s i \<longleftrightarrow> phase s i \<noteq> Out"

inductive xstep :: "xstate \<Rightarrow> xstate \<Rightarrow> bool" where
  enter: "phase s (CommandID off) = Out \<Longrightarrow> xstep s (move (CommandID off) (Entered off g) s)"
| replayed: "phase s i = Entered off g \<Longrightarrow> recent (xeng s) i \<noteq> None \<Longrightarrow> xstep s (move i Out s)"
| fresh: "phase s i = Entered off g \<Longrightarrow> recent (xeng s) i = None \<Longrightarrow> xstep s (move i (Checked off g) s)"
| begins: "phase s i = Checked off g \<or> phase s i = Freed off g \<Longrightarrow> now \<noteq> 0 \<Longrightarrow>
    Begin env now i (CommandType off) g (xeng s) = (Inr r, e) \<Longrightarrow>
    xstep s (move i (Running off g) (journal_to e (s\<lparr>ran := ran s @ [i]\<rparr>)))"
| conflicts: "phase s i = Checked off g \<Longrightarrow> now \<noteq> 0 \<Longrightarrow>
    Begin env now i (CommandType off) g (xeng s) = (Inl (ErrConflict g'), e) \<Longrightarrow>
    xstep s (move i (Conflicted off g) (journal_to e s))"
| refuses: "phase s i = Checked off g \<and> \<not> is_conflict er \<or> phase s i = Freed off g \<Longrightarrow> now \<noteq> 0 \<Longrightarrow>
    Begin env now i (CommandType off) g (xeng s) = (Inl er, e) \<Longrightarrow>
    xstep s (move i (Refused off g er) (journal_to e s))"
| no_leftover: "phase s i = Conflicted off g \<Longrightarrow> (\<And>j. j \<in> set ids \<longleftrightarrow> live s j) \<Longrightarrow>
    leftover ids off g (xeng s) = None \<Longrightarrow>
    xstep s (move i (Refused off g (ErrConflict g)) s)"
| finishes_leftover: "phase s i = Conflicted off g \<Longrightarrow> (\<And>j. j \<in> set ids \<longleftrightarrow> live s j) \<Longrightarrow>
    leftover ids off g (xeng s) = Some r \<Longrightarrow>
    finish w (OperationID r) res (xeng s) = (err, e) \<Longrightarrow>
    xstep s (move i (if err = None then Freed off g else Refused off g (ErrConflict g)) (attempted (journal_to e s)))"
| gives_up: "phase s i = Refused off g er \<Longrightarrow>
    (case active (xeng s) i of None \<Rightarrow> True | Some r \<Rightarrow> Kind r \<noteq> CommandType off \<or> ExclusiveGroup r \<noteq> g) \<Longrightarrow>
    xstep s (move i Out s)"
| recovers: "phase s i = Refused off g er \<Longrightarrow> active (xeng s) i = Some r \<Longrightarrow>
    Kind r = CommandType off \<Longrightarrow> ExclusiveGroup r = g \<Longrightarrow> xstep s (move i (Recovering off g) s)"
| handler_done: "phase s i = Running off g \<or> phase s i = Recovering off g \<Longrightarrow>
    xstep s (move i (HasResult off res) s)"
| finishes_own: "phase s i = HasResult off res \<Longrightarrow> finish w i res (xeng s) = (err, e) \<Longrightarrow>
    xstep s (move i Out (attempted (journal_to e s)))"
| restarts: "Open path (int (recentLimit (xeng s))) (jfile (xeng s)) = Inr e \<Longrightarrow>
    xstep s ((journal_to e s)\<lparr>phase := (\<lambda>_. Out)\<rparr>)"

text \<open>The first process starts with no state file.\<close>

definition xinit :: xstate where
  "xinit = \<lparr>xeng = first_journal, phase = (\<lambda>_. Out), ran = [], forgot = {}, finishes = 0\<rparr>"

inductive xreach :: "xstate \<Rightarrow> bool" where
  start: "xreach xinit"
| more: "xreach s \<Longrightarrow> xstep s t \<Longrightarrow> xreach t"

section \<open>How one journal call can change what is remembered\<close>

definition history :: "Engine \<Rightarrow> nat" where
  "history e = max (length (Recent (snapshot e))) (length (Recent (disk_snapshot (jfile e))))"

text \<open>A change by a call that finishes \<open>n\<close> operations: the invariant is kept, memory and file
  agree unless memory stayed as it was, the history grows by at most \<open>n\<close>, and while it has
  room nothing is forgotten.\<close>

definition jchange :: "nat \<Rightarrow> Engine \<Rightarrow> Engine \<Rightarrow> bool" where
  "jchange n e e' \<longleftrightarrow> engine_ok e' \<and> recentLimit e' = recentLimit e \<and>
     (snapshot e' = snapshot e \<or> disk_snapshot (jfile e') = snapshot e') \<and>
     history e' \<le> history e + n \<and>
     (journaled (snapshot e) \<subseteq> journaled (disk_snapshot (jfile e)) \<longrightarrow>
      history e + n \<le> recentLimit e \<longrightarrow> forgotten e e' = {})"

lemma jchange_refl: "engine_ok e \<Longrightarrow> jchange n e e"
  by (auto simp: jchange_def forgotten_def)

lemma Recent_begun [simp]: "Recent (begun r s) = Recent s"
  by (simp add: begun_def)

lemma Begin_jchange:
  assumes ok: "engine_ok e" and now: "now \<noteq> 0" and B: "Begin env now i k g e = (res, e')"
  shows "jchange 0 e e'"
proof -
  have ok': "engine_ok e'" using engine_ok_Begin [OF ok now, of env i k g] B by simp
  show ?thesis
  proof (cases res)
    case (Inr r)
    from Begin_Inr [OF B [unfolded Inr]] have can: "can_begin i k g (snapshot e)"
      and s: "snapshot e' = begun (new_record now i k g) (snapshot e)" "recentLimit e' = recentLimit e"
      and disk: "disk_snapshot (jfile e') = snapshot e'" by (auto simp: disk_snapshot_stored)
    have "forgotten e e' = {}" using journaled_begun [OF can] by (auto simp: forgotten_def disk s)
    with ok' s disk show ?thesis by (simp add: jchange_def history_def)
  next
    case (Inl er)
    from Begin_Inl [OF B [unfolded Inl]] have s: "snapshot e' = snapshot e" "recentLimit e' = recentLimit e"
      and disk: "disk_snapshot (jfile e') = disk_snapshot (jfile e) \<or>
        (can_begin i k g (snapshot e) \<and> disk_snapshot (jfile e') = begun (new_record now i k g) (snapshot e))"
      by (auto simp: disk_snapshot_stored dest: disk_snapshot_cong)
    have "forgotten e e' = {}" if "journaled (snapshot e) \<subseteq> journaled (disk_snapshot (jfile e))"
      using disk that journaled_begun [of i k g "snapshot e" now] by (auto simp: forgotten_def s)
    with ok' s disk show ?thesis by (auto simp: jchange_def history_def)
  qed
qed

lemma Recent_finished_length: "length (Recent (finished limit g r s)) \<le> Suc (length (Recent s))"
  by (simp add: finished_def pushRecent_eq)

lemma finish_jchange:
  assumes ok: "engine_ok e" and f: "finish w i r e = (err, e')"
  shows "jchange 1 e e'"
proof -
  have ok': "engine_ok e'" using engine_ok_finish [OF ok, of w i r] f by simp
  have forget: "forgotten e e' = {}"
    if "snapshot e' = snapshot e \<or> snapshot e' = n" and "disk_snapshot (jfile e') = n"
      and "findActive (snapshot e) i = Some (g, rec)"
      and "n = finished (recentLimit e) g (finish_record now st c v rec) (snapshot e)"
      and "history e + 1 \<le> recentLimit e" for n g rec now st c v
  proof -
    have "evicted (recentLimit e) (snapshot e) = {}"
      using that(5) by (intro evicted_not_full) (simp add: history_def)
    then have "journaled n = journaled (snapshot e)"
      using journaled_finished(1) [of "snapshot e" i g rec "recentLimit e" now st c v] that ok
      by (simp add: engine_ok_def)
    with that show ?thesis by (auto simp: forgotten_def)
  qed
  show ?thesis
  proof (cases err)
    case None
    from finish_None [OF f [unfolded None]] Finish_Inr obtain g rec r' where
      fa: "findActive (snapshot e) i = Some (g, rec)"
      and r': "r' = finish_record (snd w) (outcome_status r) (Code r) (marshalResult r) rec"
      and s: "snapshot e' = finished (recentLimit e) g r' (snapshot e)" "recentLimit e' = recentLimit e"
      and disk: "disk_snapshot (jfile e') = snapshot e'"
      by (metis disk_snapshot_stored)
    have "history e' \<le> history e + 1"
      using Recent_finished_length [of "recentLimit e" g r' "snapshot e"] by (simp add: history_def disk s)
    with ok' s disk forget [OF _ _ fa] r' show ?thesis unfolding jchange_def by blast
  next
    case (Some er)
    from finish_Some [OF f [unfolded Some]] obtain er' where
      F: "FinishWithResult (fst w) (snd w) i (outcome_status r) (Code r) (marshalResult r) e = (Inl er', e')" by blast
    from Finish_Inl [OF F] have s: "snapshot e' = snapshot e" "recentLimit e' = recentLimit e" by auto
    show ?thesis
    proof (cases "Load (jfile e') = Load (jfile e)")
      case True
      then have "disk_snapshot (jfile e') = disk_snapshot (jfile e)" by (rule disk_snapshot_cong)
      with ok' s show ?thesis by (auto simp: jchange_def forgotten_def history_def)
    next
      case False
      with Finish_Inl [OF F] obtain g rec where fa: "findActive (snapshot e) i = Some (g, rec)"
        and disk: "disk_snapshot (jfile e') = finished (recentLimit e) g
          (finish_record (snd w) (outcome_status r) (Code r) (marshalResult r) rec) (snapshot e)"
        by (auto simp: disk_snapshot_stored)
      have "history e' \<le> history e + 1"
        using Recent_finished_length [of "recentLimit e" g
            "finish_record (snd w) (outcome_status r) (Code r) (marshalResult r) rec" "snapshot e"]
        unfolding history_def disk s by linarith
      with ok' s disk forget [OF _ _ fa] show ?thesis unfolding jchange_def by blast
    qed
  qed
qed

lemma restart_jchange:
  assumes ok: "engine_ok e" and o: "Open path (int (recentLimit e)) (jfile e) = Inr e'"
  shows "jchange 0 e e'"
proof -
  have "path \<noteq> []" using o by (auto simp: Open_def)
  with ok o have e': "e' = \<lparr>jfile = jfile e, recentLimit = recentLimit e, snapshot = disk_snapshot (jfile e)\<rparr>"
    using Open_disk [of "jfile e" path "int (recentLimit e)"] by (simp add: engine_ok_def)
  have "engine_ok e'" using ok by (simp add: e' engine_ok_def disk_snapshot_ok)
  then show ?thesis by (auto simp: jchange_def e' history_def forgotten_def)
qed

section \<open>What every reachable state satisfies\<close>

text \<open>The journal part: what memory knows the file knows too, every command that ran is
  remembered and ran once, as long as it was not forgotten; and nothing is forgotten before
  the history is full.\<close>

definition remembers :: "xstate \<Rightarrow> bool" where
  "remembers s \<longleftrightarrow> engine_ok (xeng s) \<and> recentLimit (xeng s) = 64 \<and> history (xeng s) \<le> finishes s \<and>
     (finishes s \<le> 64 \<longrightarrow> forgot s = {}) \<and>
     journaled (snapshot (xeng s)) \<subseteq> journaled (disk_snapshot (jfile (xeng s))) \<union> forgot s \<and>
     set (ran s) \<subseteq> journaled (snapshot (xeng s)) \<union> forgot s \<and>
     (\<forall>i. i \<notin> forgot s \<longrightarrow> count_list (ran s) i \<le> 1)"

text \<open>The running record of a group.\<close>

definition holds :: "Snapshot \<Rightarrow> string \<Rightarrow> string \<Rightarrow> string \<Rightarrow> bool" where
  "holds s g i k \<longleftrightarrow> (\<exists>r. map_of (Active s) g = Some r \<and> OperationID r = i \<and> Kind r = k)"

definition phase_ok :: "xstate \<Rightarrow> bool" where
  "phase_ok s \<longleftrightarrow> (\<forall>i off g.
     (phase s i = Running off g \<longrightarrow> holds (snapshot (xeng s)) g i (CommandType off) \<and>
        holds (disk_snapshot (jfile (xeng s))) g i (CommandType off)) \<and>
     (phase s i = Recovering off g \<longrightarrow> holds (snapshot (xeng s)) g i (CommandType off)))"

lemma phase_okD:
  assumes "phase_ok s"
  shows "phase s i = Running off g \<Longrightarrow> holds (snapshot (xeng s)) g i (CommandType off)"
    and "phase s i = Running off g \<Longrightarrow> holds (disk_snapshot (jfile (xeng s))) g i (CommandType off)"
    and "phase s i = Recovering off g \<Longrightarrow> holds (snapshot (xeng s)) g i (CommandType off)"
  using assms by (auto simp: phase_ok_def)

lemma xstate_proj [simp]:
  "xeng (move i p s) = xeng s" "ran (move i p s) = ran s" "forgot (move i p s) = forgot s"
  "finishes (move i p s) = finishes s" "phase (move i p s) = (phase s)(i := p)"
  "xeng (journal_to e s) = e" "ran (journal_to e s) = ran s" "finishes (journal_to e s) = finishes s"
  "forgot (journal_to e s) = forgot s \<union> forgotten (xeng s) e" "phase (journal_to e s) = phase s"
  "xeng (attempted s) = xeng s" "ran (attempted s) = ran s" "forgot (attempted s) = forgot s"
  "finishes (attempted s) = Suc (finishes s)" "phase (attempted s) = phase s"
  by (simp_all add: move_def journal_to_def attempted_def)

lemma remembers_cong:
  "xeng s = xeng t \<Longrightarrow> ran s = ran t \<Longrightarrow> forgot s = forgot t \<Longrightarrow> finishes s = finishes t \<Longrightarrow>
   remembers s = remembers t"
  by (simp add: remembers_def)

lemma remembers_journal:
  assumes s: "remembers s" and j: "jchange n (xeng s) e"
    and t: "xeng t = e" "ran t = ran s" "forgot t = forgot s \<union> forgotten (xeng s) e" "finishes t = finishes s + n"
  shows "remembers t"
proof -
  have "forgotten (xeng s) e = {}" if le: "finishes s + n \<le> 64"
  proof -
    have "journaled (snapshot (xeng s)) \<subseteq> journaled (disk_snapshot (jfile (xeng s)))"
      "history (xeng s) + n \<le> recentLimit (xeng s)" using s le by (auto simp: remembers_def)
    with j show ?thesis by (simp add: jchange_def)
  qed
  then have f: "finishes t \<le> 64 \<longrightarrow> forgot t = {}" using s t by (auto simp: remembers_def)
  have "journaled (snapshot e) \<subseteq> journaled (disk_snapshot (jfile e)) \<union> forgot t"
  proof
    fix i assume "i \<in> journaled (snapshot e)"
    moreover have "snapshot e = snapshot (xeng s) \<or> disk_snapshot (jfile e) = snapshot e"
      using j by (simp add: jchange_def)
    ultimately show "i \<in> journaled (disk_snapshot (jfile e)) \<union> forgot t"
      unfolding t forgotten_def by force
  qed
  moreover have "set (ran t) \<subseteq> journaled (snapshot e) \<union> forgot t"
    using s t by (auto simp: remembers_def forgotten_def)
  moreover have "history e \<le> finishes t" using s j t by (simp add: remembers_def jchange_def)
  moreover have "engine_ok e" "recentLimit e = 64" using s j by (simp_all add: remembers_def jchange_def)
  moreover have "\<forall>i. i \<notin> forgot t \<longrightarrow> count_list (ran t) i \<le> 1" using s t by (simp add: remembers_def)
  ultimately show ?thesis using f unfolding remembers_def t(1) by blast
qed

lemma remembers_begins:
  assumes s: "remembers s" and now: "now \<noteq> 0" and B: "Begin env now i k g (xeng s) = (Inr r, e)"
  shows "remembers (journal_to e (s\<lparr>ran := ran s @ [i]\<rparr>))"
proof -
  have t: "remembers (journal_to e s)"
    using remembers_journal [OF s Begin_jchange [OF _ now B], of "journal_to e s"] s by (simp add: remembers_def)
  have can: "can_begin i k g (snapshot (xeng s))" and r: "r = new_record now i k g"
    and e: "snapshot e = begun r (snapshot (xeng s))" using Begin_Inr [OF B] by auto
  have "i \<notin> journaled (snapshot (xeng s))" using can by (simp add: can_begin_def)
  then have "count_list (ran s) i = 0" if "i \<notin> forgot s"
    using s that by (auto simp: remembers_def count_list_0_iff)
  moreover have "i \<in> journaled (snapshot e)" using journaled_begun [OF can] by (simp add: e r)
  ultimately show ?thesis using t by (auto simp: remembers_def journal_to_def)
qed

section \<open>Running records stay where they are\<close>

lemma holds_begun: "can_begin j k' h s \<Longrightarrow> holds s g i k \<Longrightarrow> holds (begun (new_record now j k' h) s) g i k"
proof -
  assume can: "can_begin j k' h s" and "holds s g i k"
  then obtain r where r: "map_of (Active s) g = Some r" "OperationID r = i" "Kind r = k" by (auto simp: holds_def)
  then have "g \<noteq> h" using can by (auto simp: can_begin_def map_of_eq_None_iff [symmetric])
  with r show ?thesis by (simp add: holds_def begun_def new_record_def map_of_update_gm)
qed

lemma holds_finished:
  assumes ok: "snapshot_ok s" and fa: "findActive s j = Some (h, r')" and "holds s g i k" "i \<noteq> j"
  shows "holds (finished limit h r'' s) g i k"
proof -
  from assms obtain r where r: "map_of (Active s) g = Some r" "OperationID r = i" "Kind r = k" by (auto simp: holds_def)
  have "map_of (Active s) h = Some r'" "OperationID r' = j"
    using findActive_Some [OF fa] ok by (auto simp: snapshot_ok_def gm_in_set)
  then have "g \<noteq> h" using r assms by auto
  with r show ?thesis by (simp add: holds_def finished_def map_of_delete_gm)
qed

lemma Begin_keeps:
  assumes B: "Begin env now j k' h e = (res, e')" and h: "holds (snapshot e) g i k"
  shows "holds (snapshot e') g i k \<and>
    (holds (disk_snapshot (jfile e)) g i k \<longrightarrow> holds (disk_snapshot (jfile e')) g i k)"
proof (cases res)
  case (Inr r)
  from Begin_Inr [OF B [unfolded Inr]] holds_begun [OF _ h] show ?thesis by (auto simp: disk_snapshot_stored)
next
  case (Inl er)
  from Begin_Inl [OF B [unfolded Inl]] holds_begun [OF _ h] h show ?thesis
    by (auto simp: disk_snapshot_stored dest: disk_snapshot_cong)
qed

lemma finish_keeps:
  assumes ok: "engine_ok e" and f: "finish w j res e = (err, e')" and h: "holds (snapshot e) g i k" and "i \<noteq> j"
  shows "holds (snapshot e') g i k \<and>
    (holds (disk_snapshot (jfile e)) g i k \<longrightarrow> holds (disk_snapshot (jfile e')) g i k)"
proof -
  have s: "snapshot_ok (snapshot e)" using ok by (simp add: engine_ok_def)
  show ?thesis
  proof (cases err)
    case None
    from finish_None [OF f [unfolded None]] obtain rec where
      "FinishWithResult (fst w) (snd w) j (outcome_status res) (Code res) (marshalResult res) e = (Inr rec, e')" by blast
    from Finish_Inr [OF this] holds_finished [OF s _ h assms(4)] show ?thesis by (auto simp: disk_snapshot_stored)
  next
    case (Some er)
    from finish_Some [OF f [unfolded Some]] obtain er' where
      "FinishWithResult (fst w) (snd w) j (outcome_status res) (Code res) (marshalResult res) e = (Inl er', e')" by blast
    from Finish_Inl [OF this] holds_finished [OF s _ h assms(4)] h show ?thesis
      by (auto simp: disk_snapshot_stored dest: disk_snapshot_cong)
  qed
qed

section \<open>The invariant of every reachable state\<close>

definition xinv :: "xstate \<Rightarrow> bool" where
  "xinv s \<longleftrightarrow> remembers s \<and> phase_ok s"

lemma phase_ok_move:
  assumes "phase_ok s" "\<And>off g. p \<noteq> Running off g" "\<And>off g. p \<noteq> Recovering off g"
  shows "phase_ok (move i p s)"
  using assms by (auto simp: phase_ok_def)

lemma phase_ok_Begin:
  assumes s: "phase_ok s" and B: "Begin env now j k h (xeng s) = (res, e)"
    and t: "xeng t = e" "phase t = phase s"
  shows "phase_ok t"
  unfolding phase_ok_def t using phase_okD [OF s] Begin_keeps [OF B] by blast

lemma phase_ok_begins:
  assumes s: "phase_ok s" and B: "Begin env now i (CommandType off) g (xeng s) = (Inr r, e)"
  shows "phase_ok (move i (Running off g) (journal_to e (s\<lparr>ran := l\<rparr>)))"
proof -
  from Begin_Inr [OF B] have e: "snapshot e = begun (new_record now i (CommandType off) g) (snapshot (xeng s))"
    and d: "disk_snapshot (jfile e) = snapshot e" by (auto simp: disk_snapshot_stored)
  have "holds (snapshot e) g i (CommandType off)"
    by (simp add: e holds_def begun_def new_record_def map_of_update_gm)
  moreover have "phase_ok (journal_to e (s\<lparr>ran := l\<rparr>))" by (rule phase_ok_Begin [OF s B]) simp_all
  ultimately show ?thesis using d by (auto simp: phase_ok_def)
qed

lemma phase_ok_finish:
  assumes s: "phase_ok s" and ok: "engine_ok (xeng s)" and f: "finish w j res (xeng s) = (err, e)"
    and t: "xeng t = e" "phase t = (phase s)(i := p)"
    and j: "\<And>off g. phase s j \<noteq> Running off g \<and> phase s j \<noteq> Recovering off g"
    and p: "\<And>off g. p \<noteq> Running off g \<and> p \<noteq> Recovering off g"
  shows "phase_ok t"
proof -
  have "a \<noteq> j" if "phase t a = Running off g \<or> phase t a = Recovering off g" for a off g
    using that j p by (auto simp: t split: if_splits)
  moreover have "phase s a = phase t a" if "phase t a = Running off g \<or> phase t a = Recovering off g" for a off g
    using that p by (auto simp: t split: if_splits)
  ultimately show ?thesis
    unfolding phase_ok_def t(1) using phase_okD [OF s] finish_keeps [OF ok f] by metis
qed

lemma xinv_finish:
  assumes s: "xinv s" and f: "finish w j res (xeng s) = (err, e)"
    and j: "\<And>off g. phase s j \<noteq> Running off g \<and> phase s j \<noteq> Recovering off g"
    and p: "\<And>off g. p \<noteq> Running off g \<and> p \<noteq> Recovering off g"
  shows "xinv (move i p (attempted (journal_to e s)))"
proof -
  have ok: "engine_ok (xeng s)" using s by (simp add: xinv_def remembers_def)
  have "remembers (move i p (attempted (journal_to e s)))"
    by (rule remembers_journal [OF _ finish_jchange [OF ok f]]) (use s in \<open>simp_all add: xinv_def\<close>)
  moreover have "phase_ok (move i p (attempted (journal_to e s)))"
    by (rule phase_ok_finish [OF _ ok f _ _ j p]) (use s in \<open>simp_all add: xinv_def\<close>)
  ultimately show ?thesis by (simp add: xinv_def)
qed

lemma xinv_Begin_Inl:
  assumes s: "xinv s" and now: "now \<noteq> 0" and B: "Begin env now j k h (xeng s) = (Inl er, e)"
    and p: "\<And>off g. p \<noteq> Running off g" "\<And>off g. p \<noteq> Recovering off g"
  shows "xinv (move i p (journal_to e s))"
proof -
  have ok: "engine_ok (xeng s)" using s by (simp add: xinv_def remembers_def)
  have "remembers (move i p (journal_to e s))"
    by (rule remembers_journal [OF _ Begin_jchange [OF ok now B]]) (use s in \<open>simp_all add: xinv_def\<close>)
  moreover have "phase_ok (move i p (journal_to e s))"
    using s by (intro phase_ok_move [OF phase_ok_Begin [OF _ B] p]) (simp_all add: xinv_def)
  ultimately show ?thesis by (simp add: xinv_def)
qed

lemma xinv_move:
  assumes "xinv s" "\<And>off g. p \<noteq> Running off g" "\<And>off g. p \<noteq> Recovering off g"
  shows "xinv (move i p s)"
proof -
  have "remembers (move i p s)" using assms(1) remembers_cong [of "move i p s" s] by (simp add: xinv_def)
  then show ?thesis using assms by (simp add: xinv_def phase_ok_move)
qed

lemma leftover_not_live:
  "leftover ids off g e = Some r \<Longrightarrow> OperationID r \<notin> set ids"
  by (auto simp: leftover_def split: option.splits if_splits)

lemma xinv_recovers:
  assumes s: "xinv s" and a: "active (xeng s) i = Some r" "Kind r = CommandType off" "ExclusiveGroup r = g"
  shows "xinv (move i (Recovering off g) s)"
proof -
  have ok: "snapshot_ok (snapshot (xeng s))" using s by (simp add: xinv_def remembers_def engine_ok_def)
  from a(1) obtain g' where fa: "findActive (snapshot (xeng s)) i = Some (g', r)" by (auto simp: active_def)
  from findActive_Some [OF fa] have m: "(g', r) \<in> set (Active (snapshot (xeng s)))" and i: "OperationID r = i" by auto
  then have "g' = g" using ok a(3) by (auto simp: snapshot_ok_def list_all_iff active_ok_def)
  then have "holds (snapshot (xeng s)) g i (CommandType off)"
    using m i a(2) ok by (auto simp: holds_def snapshot_ok_def gm_in_set)
  moreover have "remembers (move i (Recovering off g) s)"
    using s remembers_cong [of "move i (Recovering off g) s" s] by (simp add: xinv_def)
  ultimately show ?thesis using s by (auto simp: xinv_def phase_ok_def)
qed

lemma xinv_restarts:
  assumes s: "xinv s" and o: "Open path (int (recentLimit (xeng s))) (jfile (xeng s)) = Inr e"
  shows "xinv ((journal_to e s)\<lparr>phase := (\<lambda>_. Out)\<rparr>)"
proof -
  have "remembers ((journal_to e s)\<lparr>phase := (\<lambda>_. Out)\<rparr>)"
    by (rule remembers_journal [OF _ restart_jchange [OF _ o]]) (use s in \<open>simp_all add: xinv_def remembers_def\<close>)
  then show ?thesis by (simp add: xinv_def phase_ok_def)
qed

lemma xinv_step: "xstep s t \<Longrightarrow> xinv s \<Longrightarrow> xinv t"
proof (induction rule: xstep.induct)
  case (begins s i off g now env r e)
  then have "remembers (journal_to e (s\<lparr>ran := ran s @ [i]\<rparr>))"
    by (intro remembers_begins) (simp_all add: xinv_def)
  moreover have "phase_ok (move i (Running off g) (journal_to e (s\<lparr>ran := ran s @ [i]\<rparr>)))"
    using begins by (intro phase_ok_begins) (simp_all add: xinv_def)
  ultimately show ?case
    using remembers_cong [of "move i (Running off g) (journal_to e (s\<lparr>ran := ran s @ [i]\<rparr>))"
        "journal_to e (s\<lparr>ran := ran s @ [i]\<rparr>)"] by (simp add: xinv_def)
next
  case (finishes_leftover s i off g ids r w res err e)
  have "\<not> live s (OperationID r)" using finishes_leftover leftover_not_live by blast
  then show ?case
    by (intro xinv_finish [OF finishes_leftover(5,4)]) (auto simp: live_def)
next
  case (finishes_own s i off res w err e)
  show ?case by (intro xinv_finish [OF finishes_own(3,2)]) (auto simp: finishes_own(1))
next
  case (conflicts s i off g now env g' e)
  show ?case by (rule xinv_Begin_Inl [OF conflicts(4,2,3)]) simp_all
next
  case (refuses s i off g er now env e)
  show ?case by (rule xinv_Begin_Inl [OF refuses(4,2,3)]) simp_all
next
  case (recovers s i off g er r)
  then show ?case by (intro xinv_recovers)
next
  case (restarts path s e)
  then show ?case by (intro xinv_restarts)
qed (simp_all add: xinv_move)

lemma xinv_init: "xinv xinit"
  by (auto simp: xinv_def xinit_def remembers_def phase_ok_def engine_ok_first history_def)
    (simp_all add: first_journal_def disk_snapshot_def emptySnapshot_def Load.simps)

lemma xinv_reach: "xreach s \<Longrightarrow> xinv s"
  by (induction rule: xreach.induct) (auto intro: xinv_init xinv_step)

section \<open>Main properties\<close>

lemma count_list_distinct: "(\<forall>i. count_list xs i \<le> 1) \<Longrightarrow> distinct xs"
proof (induction xs)
  case (Cons x xs)
  have "count_list xs i \<le> 1" for i using Cons.prems [rule_format, of i] by (simp split: if_splits)
  moreover have "count_list xs x = 0" using Cons.prems [rule_format, of x] by simp
  ultimately show ?case using Cons.IH by (simp add: count_list_0_iff)
qed simp

text \<open>
  C1. At most once: however executions of any commands interleave, whatever save fails and
  however often the process stops and a new one reopens the journal, the handler's \<open>Run\<close> is
  called at most once for a command the journal has not forgotten. Up to 64 finishes it has
  forgotten none, so no command at all runs twice.
\<close>

theorem runs_at_most_once:
  assumes "xreach s"
  shows "(\<forall>i. i \<notin> forgot s \<longrightarrow> count_list (ran s) i \<le> 1) \<and> (finishes s \<le> 64 \<longrightarrow> distinct (ran s))"
  using xinv_reach [OF assms] count_list_distinct [of "ran s"]
  by (auto simp: xinv_def remembers_def)

lemma holds_unique: "holds s g i k \<Longrightarrow> holds s g j k' \<Longrightarrow> i = j"
  by (auto simp: holds_def)

text \<open>
  C2. Exclusion and write-ahead: no two commands of one exclusive group are being run or
  recovered at the same time, and while a command runs the journal file already names it as
  the running command of its group, so a process that stops now leaves it to be recovered.
\<close>

theorem groups_exclusive:
  assumes "xreach s" "phase s i = Running off g \<or> phase s i = Recovering off g"
  shows "(\<forall>j off'. phase s j = Running off' g \<or> phase s j = Recovering off' g \<longrightarrow> j = i) \<and>
    (phase s i = Running off g \<longrightarrow> (\<exists>r. map_of (Active (disk_snapshot (jfile (xeng s)))) g = Some r \<and>
       OperationID r = i \<and> Kind r = CommandType off \<and> Status r = StatusRunning))"
proof -
  have p: "phase_ok s" and e: "engine_ok (xeng s)"
    using xinv_reach [OF assms(1)] by (simp_all add: xinv_def remembers_def)
  have d: "snapshot_ok (disk_snapshot (jfile (xeng s)))"
    using e by (simp add: engine_ok_def disk_snapshot_ok)
  have one: "\<forall>j off'. phase s j = Running off' g \<or> phase s j = Recovering off' g \<longrightarrow> j = i"
    using phase_okD [OF p] holds_unique assms(2) by metis
  have "\<exists>r. map_of (Active (disk_snapshot (jfile (xeng s)))) g = Some r \<and>
       OperationID r = i \<and> Kind r = CommandType off \<and> Status r = StatusRunning" if "phase s i = Running off g"
    using phase_okD(2) [OF p that] d
    by (fastforce simp: holds_def snapshot_ok_def list_all_iff active_ok_def dest: map_of_SomeD)
  with one show ?thesis by blast
qed

text \<open>A reachable state in which one command runs.\<close>

definition example_running :: xstate where
  "example_running = move ''op-1'' (Running example_offer ''target-network'')
     (journal_to (snd (Begin all_ok 5 ''op-1'' ''changeip.execute'' ''target-network'' first_journal))
       ((move ''op-1'' (Checked example_offer ''target-network'')
          (move ''op-1'' (Entered example_offer ''target-network'') xinit))\<lparr>ran := [''op-1'']\<rparr>))"

lemma xreach_running: "xreach example_running"
proof -
  let ?o = example_offer and ?g = "''target-network''"
  let ?a = "move ''op-1'' (Entered ?o ?g) xinit"
  let ?b = "move ''op-1'' (Checked ?o ?g) ?a"
  have a: "xreach ?a"
    using xreach.more [OF xreach.start xstep.enter [of xinit ?o ?g]] by (simp add: example_offer_def xinit_def)
  have "recent (xeng ?a) ''op-1'' = None"
    by (simp add: xinit_def recent_def first_journal_def emptySnapshot_def)
  then have b: "xreach ?b" by (intro xreach.more [OF a xstep.fresh [of ?a _ ?o ?g]]) simp_all
  obtain r e where B: "Begin all_ok 5 ''op-1'' (CommandType ?o) ?g (xeng ?b) = (Inr r, e)"
    and e: "e = snd (Begin all_ok 5 ''op-1'' ''changeip.execute'' ?g first_journal)"
    using Begin_first by (simp add: example_offer_def xinit_def)
  have "xstep ?b (move ''op-1'' (Running ?o ?g) (journal_to e (?b\<lparr>ran := ran ?b @ [''op-1'']\<rparr>)))"
    by (rule xstep.begins [OF _ _ B]) simp_all
  with b show ?thesis using xreach.more by (simp add: example_running_def e xinit_def)
qed

lemma example_running_proj:
  "phase example_running ''op-1'' = Running example_offer ''target-network''"
  "ran example_running = [''op-1'']" "finishes example_running = 0"
  by (simp_all add: example_running_def xinit_def)

theorem runs_at_most_once_witness: "ran example_running = [''op-1''] \<and> distinct (ran example_running)"
  using runs_at_most_once [OF xreach_running] by (simp add: example_running_proj)

theorem groups_exclusive_witness:
  "\<exists>r. map_of (Active (disk_snapshot (jfile (xeng example_running)))) ''target-network'' = Some r \<and> OperationID r = ''op-1''"
  using groups_exclusive [OF xreach_running, of "''op-1''" example_offer "''target-network''"]
  by (auto simp: example_running_proj)

end
