(* ===== verification/Desired.thy ===== *)
theory Desired
  imports Protocol
begin

text \<open>
  The engine of Desired modules, \<open>src/internal/desired/engine.go\<close>. \<open>Put\<close>, \<open>Keys\<close> and
  \<open>ControlReady\<close> are the methods of the engine. One pass of a module is split where the code
  drops its lock: \<open>dstep\<close> interleaves the parts of a pass with everything Cloud sends while the
  module applies or a status is on its way. The module's own \<open>Validate\<close> and \<open>Apply\<close> are
  parameters.
\<close>

section \<open>State\<close>

record target =
  tversion :: int
  tstate :: raw

record status =
  sversion :: int
  scode :: string

text \<open>\<open>type unit struct\<close>; \<open>wake\<close> says whether its channel of one holds a signal.\<close>

record dunit =
  wake :: bool
  targets :: "(string, target) gomap"
  invalid :: "(string, int) gomap"
  complete :: bool
  sent :: "(string, status) gomap"

type_synonym desired_engine = "(string, dunit) gomap"

datatype desired_error = NotEnabled string

definition new_unit :: dunit where
  "new_unit = \<lparr>wake = False, targets = [], invalid = [], complete = False, sent = []\<rparr>"

definition Add :: "string \<Rightarrow> desired_engine \<Rightarrow> desired_engine" where
  "Add name e = AList.update name new_unit e"

definition find_unit :: "desired_engine \<Rightarrow> string \<Rightarrow> desired_error + dunit" where
  "find_unit e name = (case map_of e name of None \<Rightarrow> Inl (NotEnabled name) | Some u \<Rightarrow> Inr u)"

definition signal :: "dunit \<Rightarrow> dunit" where
  "signal u = u\<lparr>wake := True\<rparr>"

section \<open>What Cloud sends\<close>

definition put_unit :: "(string \<Rightarrow> raw \<Rightarrow> bool) \<Rightarrow> string \<Rightarrow> int \<Rightarrow> raw \<Rightarrow> dunit \<Rightarrow> dunit" where
  "put_unit valid k v s u = signal
     (if valid k s then u\<lparr>targets := AList.update k \<lparr>tversion = v, tstate = s\<rparr> (targets u), invalid := AList.delete k (invalid u)\<rparr>
      else u\<lparr>invalid := AList.update k v (invalid u)\<rparr>)"

definition Put :: "(string \<Rightarrow> string \<Rightarrow> raw \<Rightarrow> bool) \<Rightarrow> StatePut \<Rightarrow> desired_engine \<Rightarrow> desired_error + desired_engine" where
  "Put valid p e = (case find_unit e (put_Module p) of Inl er \<Rightarrow> Inl er
     | Inr u \<Rightarrow> Inr (AList.update (put_Module p) (put_unit (valid (put_Module p)) (put_Key p) (put_Version p) (put_State p) u) e))"

text \<open>A map restricted to the keys Cloud named.\<close>

definition retain :: "string list \<Rightarrow> (string, 'v) gomap \<Rightarrow> (string, 'v) gomap" where
  "retain named m = filter (\<lambda>(k, v). k \<in> set named) m"

definition keys_unit :: "string list \<Rightarrow> dunit \<Rightarrow> dunit" where
  "keys_unit named u = signal
     (u\<lparr>targets := retain named (targets u), invalid := retain named (invalid u), sent := retain named (sent u),
        complete := True\<rparr>)"

definition Keys :: "StateKeys \<Rightarrow> desired_engine \<Rightarrow> desired_error + desired_engine" where
  "Keys ks e = (case find_unit e (keys_Module ks) of Inl er \<Rightarrow> Inl er
     | Inr u \<Rightarrow> Inr (AList.update (keys_Module ks) (keys_unit (keys_Keys ks) u) e))"

definition forget_sent :: "dunit \<Rightarrow> dunit" where
  "forget_sent u = u\<lparr>sent := []\<rparr>"

definition ControlReady :: "desired_engine \<Rightarrow> desired_engine" where
  "ControlReady e = map (\<lambda>(name, u). (name, forget_sent u)) e"

section \<open>One pass\<close>

definition invalidCode :: string where "invalidCode = ''target_invalid''"

definition named :: "dunit \<Rightarrow> string \<Rightarrow> bool" where
  "named u k \<longleftrightarrow> gm_has (targets u) k \<or> gm_has (invalid u) k"

text \<open>What \<open>Apply\<close> is called with: nil (\<open>None\<close>) for a key that has only an invalid target.\<close>

definition pass_states :: "dunit \<Rightarrow> (string, raw option) gomap" where
  "pass_states u = map (\<lambda>(k, t). (k, Some (tstate t))) (targets u) @
     map (\<lambda>(k, v). (k, None)) (filter (\<lambda>(k, v). \<not> gm_has (targets u) k) (invalid u))"

definition pass_results :: "dunit \<Rightarrow> (string, status) gomap" where
  "pass_results u = map (\<lambda>(k, t). (k, \<lparr>sversion = tversion t, scode = []\<rparr>)) (targets u)"

definition with_codes :: "(string, string) gomap \<Rightarrow> (string, status) gomap \<Rightarrow> (string, status) gomap" where
  "with_codes codes rs = map (\<lambda>(k, r). (k, if gm_get [] codes k \<noteq> [] then r\<lparr>scode := gm_get [] codes k\<rparr> else r)) rs"

definition with_invalid :: "(string, int) gomap \<Rightarrow> (string, status) gomap \<Rightarrow> (string, status) gomap" where
  "with_invalid bad rs = fold (\<lambda>(k, v). AList.update k \<lparr>sversion = v, scode = invalidCode\<rparr>) bad rs"

text \<open>Whether a later attempt may help: \<open>Apply\<close> failed, or gave some key a code.\<close>

definition pass_failed :: "bool \<Rightarrow> (string, string) gomap \<Rightarrow> (string, status) gomap \<Rightarrow> bool" where
  "pass_failed err codes rs \<longleftrightarrow> err \<or> list_ex (\<lambda>(k, r). gm_get [] codes k \<noteq> []) rs"

definition zero_status :: status where "zero_status = \<lparr>sversion = 0, scode = []\<rparr>"

definition reportable :: "dunit \<Rightarrow> string \<Rightarrow> status \<Rightarrow> bool" where
  "reportable u k r \<longleftrightarrow> named u k \<and> gm_get zero_status (sent u) k \<noteq> r"

definition mark_sent :: "string \<Rightarrow> status \<Rightarrow> dunit \<Rightarrow> dunit" where
  "mark_sent k r u = (if named u k then u\<lparr>sent := AList.update k r (sent u)\<rparr> else u)"

section \<open>When the next pass runs\<close>

definition settleDelay :: duration where "settleDelay = 2 * second"
definition recheckDelay :: duration where "recheckDelay = 5 * minute"
definition firstRetry :: duration where "firstRetry = 30 * second"

text \<open>The end of one round of \<open>run\<close>: the new backoff and the delay the timer is set to.\<close>

definition next_delay :: "bool \<Rightarrow> duration \<Rightarrow> duration \<times> duration" where
  "next_delay failed backoff =
     (if failed then (let b = min (max firstRetry (2 * backoff)) recheckDelay in (b, b)) else (0, recheckDelay))"

fun delays :: "bool list \<Rightarrow> duration \<Rightarrow> duration list" where
  "delays [] b = []"
| "delays (f # fs) b = (let (b', d) = next_delay f b in d # delays fs b')"

section \<open>What the targets are, from what Cloud sent\<close>

datatype event = EvPut string int raw | EvKeys "string list"

fun receive :: "(string \<Rightarrow> raw \<Rightarrow> bool) \<Rightarrow> event \<Rightarrow> dunit \<Rightarrow> dunit" where
  "receive valid (EvPut k v s) u = put_unit valid k v s u"
| "receive valid (EvKeys ks) u = keys_unit ks u"

text \<open>The specification reads the messages backwards: those about a key since the last key list
  that does not name it. Its target is the newest valid one of them, and it is invalid when the
  newest one is.\<close>

fun puts :: "string \<Rightarrow> event list \<Rightarrow> (int \<times> raw) list" where
  "puts k [] = []"
| "puts k (EvPut k' v s # older) = (if k' = k then (v, s) # puts k older else puts k older)"
| "puts k (EvKeys ks # older) = (if k \<in> set ks then puts k older else [])"

definition wanted :: "(string \<Rightarrow> raw \<Rightarrow> bool) \<Rightarrow> event list \<Rightarrow> string \<Rightarrow> target option" where
  "wanted valid evs k = map_option (\<lambda>(v, s). \<lparr>tversion = v, tstate = s\<rparr>) (find (\<lambda>(v, s). valid k s) (puts k evs))"

definition rejected :: "(string \<Rightarrow> raw \<Rightarrow> bool) \<Rightarrow> event list \<Rightarrow> string \<Rightarrow> int option" where
  "rejected valid evs k = (case puts k evs of [] \<Rightarrow> None | (v, s) # _ \<Rightarrow> if valid k s then None else Some v)"

definition unit_ok :: "dunit \<Rightarrow> bool" where
  "unit_ok u \<longleftrightarrow> gm_ok (targets u) \<and> gm_ok (invalid u) \<and> gm_ok (sent u)"

text \<open>The newest message first.\<close>

definition history_of :: "(string \<Rightarrow> raw \<Rightarrow> bool) \<Rightarrow> event list \<Rightarrow> dunit" where
  "history_of valid evs = foldr (receive valid) evs new_unit"

lemma map_of_retain: "map_of (retain ks m) k = (if k \<in> set ks then map_of m k else None)"
  unfolding retain_def by (rule map_of_filter_key)

lemma gm_ok_retain [simp]: "gm_ok m \<Longrightarrow> gm_ok (retain ks m)"
  by (simp add: retain_def gm_ok_filter)

lemma unit_proj [simp]:
  "targets (signal u) = targets u" "invalid (signal u) = invalid u" "complete (signal u) = complete u"
  "sent (signal u) = sent u" "complete (put_unit valid k v s u) = complete u" "complete (keys_unit ks u)"
  "sent (put_unit valid k v s u) = sent u" "sent (keys_unit ks u) = retain ks (sent u)"
  by (simp_all add: signal_def put_unit_def keys_unit_def)

lemma receive_targets:
  "map_of (targets (receive valid ev u)) k =
     (case ev of EvPut k' v s \<Rightarrow> if k' = k \<and> valid k s then Some \<lparr>tversion = v, tstate = s\<rparr> else map_of (targets u) k
      | EvKeys ks \<Rightarrow> if k \<in> set ks then map_of (targets u) k else None)"
  by (cases ev) (auto simp: put_unit_def keys_unit_def signal_def map_of_update_gm map_of_retain)

lemma receive_invalid:
  "map_of (invalid (receive valid ev u)) k =
     (case ev of EvPut k' v s \<Rightarrow> if k' = k then (if valid k s then None else Some v) else map_of (invalid u) k
      | EvKeys ks \<Rightarrow> if k \<in> set ks then map_of (invalid u) k else None)"
  by (cases ev) (auto simp: put_unit_def keys_unit_def signal_def gm_simps map_of_retain)

lemma unit_ok_receive: "unit_ok u \<Longrightarrow> unit_ok (receive valid ev u)"
  by (cases ev) (auto simp: unit_ok_def put_unit_def keys_unit_def signal_def)

lemma wanted_Cons:
  "wanted valid (ev # evs) k =
     (case ev of EvPut k' v s \<Rightarrow> if k' = k \<and> valid k s then Some \<lparr>tversion = v, tstate = s\<rparr> else wanted valid evs k
      | EvKeys ks \<Rightarrow> if k \<in> set ks then wanted valid evs k else None)"
  by (cases ev) (simp_all add: wanted_def)

lemma rejected_Cons:
  "rejected valid (ev # evs) k =
     (case ev of EvPut k' v s \<Rightarrow> if k' = k then (if valid k s then None else Some v) else rejected valid evs k
      | EvKeys ks \<Rightarrow> if k \<in> set ks then rejected valid evs k else None)"
  by (cases ev) (simp_all add: rejected_def)

text \<open>
  Whatever Cloud sends, in whatever order, a module's targets are exactly what the messages
  say: a key has the newest valid target received since a key list last omitted it, it is
  marked invalid exactly when its newest target is, and the module may be applied exactly when
  a key list has arrived.
\<close>

lemma targets_refine:
  "map_of (targets (history_of valid evs)) k = wanted valid evs k \<and>
   map_of (invalid (history_of valid evs)) k = rejected valid evs k \<and>
   (complete (history_of valid evs) \<longleftrightarrow> (\<exists>ks. EvKeys ks \<in> set evs))"
proof (induction evs)
  case Nil
  then show ?case by (simp add: history_of_def new_unit_def wanted_def rejected_def)
next
  case (Cons ev evs)
  then have r: "map_of (targets (history_of valid evs)) k = wanted valid evs k"
    "map_of (invalid (history_of valid evs)) k = rejected valid evs k" by auto
  have h: "history_of valid (ev # evs) = receive valid ev (history_of valid evs)" by (simp add: history_of_def)
  have "complete (receive valid ev (history_of valid evs)) \<longleftrightarrow> (\<exists>ks. EvKeys ks \<in> set (ev # evs))"
    using Cons by (cases ev) auto
  with r show ?case
    by (simp add: h receive_targets receive_invalid wanted_Cons rejected_Cons split: event.split)
qed

section \<open>Passes interleaved with Cloud\<close>

text \<open>Where \<open>pass\<close> is: the module's \<open>Apply\<close> runs without the lock, and so does each \<open>send\<close>;
  the results are ranged over in any order.\<close>

datatype dphase =
    Waiting
  | Applying "(string, raw option) gomap" "(string, status) gomap" "(string, int) gomap"
  | Reporting "(string, status) gomap"
  | Sending string status "(string, status) gomap"
  | Marking string status "(string, status) gomap"

text \<open>With the messages received (newest first), the calls of \<open>Apply\<close> with what they returned, and
  every status delivered with the session it was delivered on.\<close>

record dstate =
  du :: dunit
  dphase :: dphase
  events :: "event list"
  applied :: "((string, raw option) gomap \<times> (string, string) gomap \<times> bool) list"
  told :: "(nat \<times> string \<times> status) list"
  session :: nat

inductive dstep :: "(string \<Rightarrow> raw \<Rightarrow> bool) \<Rightarrow> dstate \<Rightarrow> dstate \<Rightarrow> bool" for valid where
  receives: "dstep valid s (s\<lparr>du := receive valid ev (du s), events := ev # events s\<rparr>)"
| ready: "dstep valid s (s\<lparr>du := forget_sent (du s), session := Suc (session s)\<rparr>)"
| starts: "dphase s = Waiting \<Longrightarrow> complete (du s) \<Longrightarrow>
    dstep valid s (s\<lparr>dphase := Applying (pass_states (du s)) (pass_results (du s)) (invalid (du s))\<rparr>)"
| applies: "dphase s = Applying st rs bad \<Longrightarrow>
    dstep valid s (s\<lparr>dphase := Reporting (with_invalid bad (with_codes codes rs)), applied := (st, codes, err) # applied s\<rparr>)"
| checks: "dphase s = Reporting rs \<Longrightarrow> (k, r) \<in> set rs \<Longrightarrow> reportable (du s) k r \<Longrightarrow>
    dstep valid s (s\<lparr>dphase := Sending k r (AList.delete k rs)\<rparr>)"
| skips: "dphase s = Reporting rs \<Longrightarrow> (k, r) \<in> set rs \<Longrightarrow> \<not> reportable (du s) k r \<Longrightarrow>
    dstep valid s (s\<lparr>dphase := Reporting (AList.delete k rs)\<rparr>)"
| send_fails: "dphase s = Sending k r rs \<Longrightarrow> dstep valid s (s\<lparr>dphase := Reporting rs\<rparr>)"
| sends: "dphase s = Sending k r rs \<Longrightarrow>
    dstep valid s (s\<lparr>dphase := Marking k r rs, told := (session s, k, r) # told s\<rparr>)"
| marks: "dphase s = Marking k r rs \<Longrightarrow>
    dstep valid s (s\<lparr>dphase := Reporting rs, du := mark_sent k r (du s)\<rparr>)"
| ends: "dphase s = Reporting [] \<Longrightarrow> dstep valid s (s\<lparr>dphase := Waiting\<rparr>)"

definition dinit :: dstate where
  "dinit = \<lparr>du = new_unit, dphase = Waiting, events = [], applied = [], told = [], session = 0\<rparr>"

inductive dreach :: "(string \<Rightarrow> raw \<Rightarrow> bool) \<Rightarrow> dstate \<Rightarrow> bool" for valid where
  dstart: "dreach valid dinit"
| dmore: "dreach valid s \<Longrightarrow> dstep valid s t \<Longrightarrow> dreach valid t"

section \<open>Invariants\<close>

definition follows :: "(string \<Rightarrow> raw \<Rightarrow> bool) \<Rightarrow> dstate \<Rightarrow> bool" where
  "follows valid s \<longleftrightarrow> (\<forall>k. map_of (targets (du s)) k = wanted valid (events s) k \<and>
     map_of (invalid (du s)) k = rejected valid (events s) k) \<and>
     (complete (du s) \<longleftrightarrow> (\<exists>ks. EvKeys ks \<in> set (events s))) \<and> unit_ok (du s)"

lemma follows_receives:
  assumes "follows valid s"
  shows "follows valid (s\<lparr>du := receive valid ev (du s), events := ev # events s\<rparr>)"
proof -
  have "complete (receive valid ev (du s)) \<longleftrightarrow> (\<exists>ks. EvKeys ks \<in> set (ev # events s))"
    using assms by (cases ev) (auto simp: follows_def)
  with assms show ?thesis
    by (simp add: follows_def receive_targets receive_invalid wanted_Cons rejected_Cons unit_ok_receive split: event.split)
qed

lemma follows_sent:
  assumes "follows valid s" "targets u = targets (du s)" "invalid u = invalid (du s)" "complete u = complete (du s)"
    "gm_ok (sent u)" "du t = u" "events t = events s"
  shows "follows valid t"
  using assms by (simp add: follows_def unit_ok_def)

lemma follows_step: "dstep valid s t \<Longrightarrow> follows valid s \<Longrightarrow> follows valid t"
proof (induction rule: dstep.induct)
  case (receives s ev)
  then show ?case by (rule follows_receives)
next
  case (ready s)
  then show ?case by (intro follows_sent [OF ready]) (simp_all add: forget_sent_def)
next
  case (marks s k r rs)
  then show ?case
    by (intro follows_sent [OF marks(2)]) (auto simp: mark_sent_def follows_def unit_ok_def)
qed (simp_all add: follows_def)

lemma follows_reach: "dreach valid s \<Longrightarrow> follows valid s"
proof (induction rule: dreach.induct)
  case dstart
  show ?case by (simp add: follows_def dinit_def new_unit_def wanted_def rejected_def unit_ok_def)
qed (rule follows_step)

lemma map_of_pass_states:
  "map_of (pass_states u) k = (case map_of (targets u) k of Some t \<Rightarrow> Some (Some (tstate t))
     | None \<Rightarrow> if map_of (invalid u) k = None then None else Some None)"
proof -
  have t: "map_of (map (\<lambda>(k, t). (k, Some (tstate t))) (targets u)) k = map_option (\<lambda>t. Some (tstate t)) (map_of (targets u) k)"
    by (rule map_of_map_snd)
  have "map_of (map (\<lambda>(k, v). (k, None)) (filter (\<lambda>(k, v). \<not> gm_has (targets u) k) (invalid u))) k =
      map_option (\<lambda>_. None) (map_of (filter (\<lambda>(k, v). \<not> gm_has (targets u) k) (invalid u)) k)"
    by (rule map_of_map_snd)
  also have "\<dots> = (if gm_has (targets u) k then None else map_option (\<lambda>_. None) (map_of (invalid u) k))"
    by (simp add: map_of_filter_key)
  finally show ?thesis
    by (auto simp: pass_states_def map_add_def t gm_has_def split: option.split)
qed

text \<open>
  C12. \<open>Apply\<close> is never called with a partial set. A pass starts only after Cloud's first key
  list, and calls \<open>Apply\<close> with exactly the keys Cloud names at that moment: each with its newest
  valid target, or with nil when it never had a valid one, so that what the key covers is kept.
\<close>

theorem applies_whole_set:
  assumes "dreach valid s" "dstep valid s t" "dphase s = Waiting" "dphase t = Applying st rs bad"
  shows "(\<exists>ks. EvKeys ks \<in> set (events s)) \<and>
    (\<forall>k. map_of st k = (case wanted valid (events s) k of Some g \<Rightarrow> Some (Some (tstate g))
       | None \<Rightarrow> if rejected valid (events s) k = None then None else Some None))"
proof -
  have "follows valid s" using assms(1) by (rule follows_reach)
  moreover have "complete (du s)" "st = pass_states (du s)"
    using assms(2-4) by (cases; simp)+
  ultimately show ?thesis by (auto simp: follows_def map_of_pass_states split: option.split)
qed

section \<open>Statuses\<close>

text \<open>A status is honest when it is an error, or the target of its version was valid and handed to
  \<open>Apply\<close>, which returned no code for the key.\<close>

definition honest :: "(string \<Rightarrow> raw \<Rightarrow> bool) \<Rightarrow> dstate \<Rightarrow> string \<Rightarrow> status \<Rightarrow> bool" where
  "honest valid s k r \<longleftrightarrow> scode r \<noteq> [] \<or>
     (\<exists>st codes err x. (st, codes, err) \<in> set (applied s) \<and> map_of st k = Some (Some x) \<and>
        gm_get [] codes k = [] \<and> EvPut k (sversion r) x \<in> set (events s) \<and> valid k x)"

text \<open>What \<open>Applying\<close> carries: the target of each result is among the states.\<close>

definition grounded :: "(string \<Rightarrow> raw \<Rightarrow> bool) \<Rightarrow> event list \<Rightarrow> (string, raw option) gomap \<Rightarrow> string \<Rightarrow> status \<Rightarrow> bool" where
  "grounded valid evs st k r \<longleftrightarrow> (\<exists>x. map_of st k = Some (Some x) \<and> EvPut k (sversion r) x \<in> set evs \<and> valid k x)"

definition dphase_ok :: "(string \<Rightarrow> raw \<Rightarrow> bool) \<Rightarrow> dstate \<Rightarrow> bool" where
  "dphase_ok valid s \<longleftrightarrow> (case dphase s of Waiting \<Rightarrow> True
     | Applying st rs bad \<Rightarrow> gm_ok rs \<and> (\<forall>(k, r) \<in> set rs. grounded valid (events s) st k r)
     | Reporting rs \<Rightarrow> gm_ok rs \<and> (\<forall>(k, r) \<in> set rs. honest valid s k r)
     | Sending k r rs \<Rightarrow> honest valid s k r \<and> gm_ok rs \<and> (\<forall>(k, r) \<in> set rs. honest valid s k r)
     | Marking k r rs \<Rightarrow> honest valid s k r \<and> gm_ok rs \<and> (\<forall>(k, r) \<in> set rs. honest valid s k r)) \<and>
   (\<forall>(n, k, r) \<in> set (told s). honest valid s k r)"

lemma honest_mono:
  "honest valid s k r \<Longrightarrow> set (applied s) \<subseteq> set (applied t) \<Longrightarrow> set (events s) \<subseteq> set (events t) \<Longrightarrow> honest valid t k r"
  unfolding honest_def by blast

lemma honest_cong [simp]:
  "honest valid (s\<lparr>dphase := p\<rparr>) k r = honest valid s k r"
  "honest valid (s\<lparr>du := u\<rparr>) k r = honest valid s k r"
  "honest valid (s\<lparr>told := l\<rparr>) k r = honest valid s k r"
  "honest valid (s\<lparr>session := n\<rparr>) k r = honest valid s k r"
  by (simp_all add: honest_def)

lemma puts_event: "(v, x) \<in> set (puts k evs) \<Longrightarrow> EvPut k v x \<in> set evs"
  by (induction k evs rule: puts.induct) (auto split: if_splits)

lemma wanted_event: "wanted valid evs k = Some g \<Longrightarrow> EvPut k (tversion g) (tstate g) \<in> set evs \<and> valid k (tstate g)"
  by (auto simp: wanted_def find_Some_iff) (metis nth_mem puts_event)

lemma gm_ok_with_codes [simp]: "gm_ok rs \<Longrightarrow> gm_ok (with_codes codes rs)"
  by (simp add: with_codes_def gm_ok_map_snd [of "\<lambda>k r. if gm_get [] codes k \<noteq> [] then r\<lparr>scode := gm_get [] codes k\<rparr> else r", simplified])

lemma set_with_invalid:
  assumes "gm_ok rs" "(k, r) \<in> set (with_invalid bad rs)"
  shows "(k, r) \<in> set rs \<or> scode r = invalidCode"
  using assms unfolding with_invalid_def
proof (induction bad arbitrary: rs)
  case (Cons a bad)
  obtain k' v where a: "a = (k', v)" by force
  have "(k, r) \<in> set (AList.update k' \<lparr>sversion = v, scode = invalidCode\<rparr> rs) \<or> scode r = invalidCode"
    using Cons.prems by (intro Cons.IH) (auto simp: a)
  with Cons.prems(1) show ?case by (auto simp: set_update_gm)
qed simp

lemma gm_ok_with_invalid [simp]: "gm_ok rs \<Longrightarrow> gm_ok (with_invalid bad rs)"
  unfolding with_invalid_def by (induction bad arbitrary: rs) auto

lemma starts_grounded:
  assumes "follows valid s" "(k, r) \<in> set (pass_results (du s))"
  shows "grounded valid (events s) (pass_states (du s)) k r"
proof -
  from assms obtain g where g: "(k, g) \<in> set (targets (du s))" "sversion r = tversion g"
    by (auto simp: pass_results_def)
  then have "map_of (targets (du s)) k = Some g" using assms(1) by (simp add: follows_def unit_ok_def gm_in_set)
  moreover from this have "wanted valid (events s) k = Some g" using assms(1) by (simp add: follows_def)
  ultimately show ?thesis using wanted_event g(2) by (fastforce simp: grounded_def map_of_pass_states)
qed

lemma applies_honest:
  assumes "gm_ok rs" "\<forall>(k, r) \<in> set rs. grounded valid (events s) st k r"
    "(k, r) \<in> set (with_invalid bad (with_codes codes rs))" "(st, codes, err) \<in> set (applied t)" "events t = events s"
  shows "honest valid t k r"
proof (cases "scode r = []")
  case True
  then have "(k, r) \<in> set (with_codes codes rs)"
    using set_with_invalid [OF _ assms(3)] assms(1) by (auto simp: invalidCode_def)
  then obtain r0 where r0: "(k, r0) \<in> set rs"
    "r = (if gm_get [] codes k \<noteq> [] then r0\<lparr>scode := gm_get [] codes k\<rparr> else r0)"
    by (auto simp: with_codes_def)
  with True have "gm_get [] codes k = []" "sversion r = sversion r0" by (auto split: if_splits)
  moreover have "grounded valid (events s) st k r0" using assms(2) r0(1) by auto
  ultimately show ?thesis using assms(4,5) by (auto simp: honest_def grounded_def)
qed (simp add: honest_def)

lemma dphase_ok_receives:
  assumes "dphase_ok valid s"
  shows "dphase_ok valid (s\<lparr>du := u, events := ev # events s\<rparr>)"
proof -
  let ?t = "s\<lparr>du := u, events := ev # events s\<rparr>"
  have h: "honest valid s k r \<Longrightarrow> honest valid ?t k r" for k r by (rule honest_mono [of valid s]) auto
  have g: "grounded valid (events s) st k r \<Longrightarrow> grounded valid (ev # events s) st k r" for st k r
    by (auto simp: grounded_def)
  show ?thesis using assms h g by (force simp: dphase_ok_def split: dphase.splits)
qed

lemma dphase_ok_step: "dstep valid s t \<Longrightarrow> follows valid s \<Longrightarrow> dphase_ok valid s \<Longrightarrow> dphase_ok valid t"
proof (induction rule: dstep.induct)
  case (receives s ev)
  then show ?case by (intro dphase_ok_receives)
next
  case (starts s)
  then have "gm_ok (pass_results (du s))"
    by (simp add: pass_results_def follows_def unit_ok_def gm_ok_map_snd [of "\<lambda>k t. \<lparr>sversion = tversion t, scode = []\<rparr>"])
  with starts show ?case using starts_grounded [OF starts(3)] by (auto simp: dphase_ok_def)
next
  case (applies s st rs bad codes err)
  let ?t = "s\<lparr>dphase := Reporting (with_invalid bad (with_codes codes rs)), applied := (st, codes, err) # applied s\<rparr>"
  from applies have rs: "gm_ok rs" "\<forall>(k, r) \<in> set rs. grounded valid (events s) st k r"
    by (auto simp: dphase_ok_def)
  have "honest valid s k r \<Longrightarrow> honest valid ?t k r" for k r by (rule honest_mono [of valid s]) auto
  moreover have "honest valid ?t k r" if "(k, r) \<in> set (with_invalid bad (with_codes codes rs))" for k r
    by (rule applies_honest [OF rs that, of err]) simp_all
  ultimately show ?case using applies rs(1) by (auto simp: dphase_ok_def)
next
  case (ready s)
  then show ?case by (cases "dphase s") (auto simp: dphase_ok_def)
qed (auto simp: dphase_ok_def)

lemma dphase_ok_reach: "dreach valid s \<Longrightarrow> dphase_ok valid s"
proof (induction rule: dreach.induct)
  case dstart
  show ?case by (simp add: dphase_ok_def dinit_def)
next
  case (dmore s t)
  then show ?case by (meson dphase_ok_step follows_reach)
qed

text \<open>
  C13. A success is never reported for a target that was not applied: whatever Cloud sends while
  a pass runs, every status delivered without an error code names the version of a valid target
  that was handed to \<open>Apply\<close>, which returned no code for its key.
\<close>

theorem success_was_applied:
  assumes "dreach valid s" "(n, k, \<lparr>sversion = v, scode = []\<rparr>) \<in> set (told s)"
  shows "\<exists>st codes err x. (st, codes, err) \<in> set (applied s) \<and> map_of st k = Some (Some x) \<and>
    gm_get [] codes k = [] \<and> EvPut k v x \<in> set (events s) \<and> valid k x"
proof -
  have "honest valid s k \<lparr>sversion = v, scode = []\<rparr>"
    using dphase_ok_reach [OF assms(1)] assms(2) by (auto simp: dphase_ok_def)
  then show ?thesis by (simp add: honest_def)
qed

text \<open>A run in which one target is received, applied and reported.\<close>

definition any_valid :: "string \<Rightarrow> raw \<Rightarrow> bool" where
  "any_valid k x \<longleftrightarrow> json_Valid x"

definition ex_doc :: raw where "ex_doc = Doc (JObj [])"

definition ex_received :: dstate where
  "ex_received = dinit\<lparr>du := receive any_valid (EvKeys [''k'']) (receive any_valid (EvPut ''k'' 7 ex_doc) new_unit),
     events := [EvKeys [''k''], EvPut ''k'' 7 ex_doc]\<rparr>"

definition ex_told :: dstate where
  "ex_told = ex_received\<lparr>applied := [([(''k'', Some ex_doc)], [], False)],
     dphase := Marking ''k'' \<lparr>sversion = 7, scode = []\<rparr> [], told := [(0, ''k'', \<lparr>sversion = 7, scode = []\<rparr>)]\<rparr>"

lemma ex_unit: "du ex_received = \<lparr>wake = True, targets = [(''k'', \<lparr>tversion = 7, tstate = ex_doc\<rparr>)], invalid = [],
    complete = True, sent = []\<rparr>"
  by (simp add: ex_received_def dinit_def new_unit_def put_unit_def keys_unit_def signal_def any_valid_def ex_doc_def
      json_Valid_def retain_def)

lemma ex_received_reach: "dreach any_valid ex_received"
proof -
  have "dreach any_valid (dinit\<lparr>du := receive any_valid (EvPut ''k'' 7 ex_doc) (du dinit), events := EvPut ''k'' 7 ex_doc # events dinit\<rparr>)"
    by (rule dreach.dmore [OF dreach.dstart dstep.receives])
  from dreach.dmore [OF this dstep.receives [where ev = "EvKeys [''k'']"]] show ?thesis
    by (simp add: ex_received_def dinit_def)
qed

lemma ex_starts:
  "dstep any_valid ex_received (ex_received\<lparr>dphase := Applying [(''k'', Some ex_doc)] [(''k'', \<lparr>sversion = 7, scode = []\<rparr>)] []\<rparr>)"
  using dstep.starts [of ex_received any_valid] ex_unit
  by (simp add: pass_states_def pass_results_def) (simp add: ex_received_def dinit_def)

lemma ex_told_reach: "dreach any_valid ex_told"
proof -
  let ?r = "\<lparr>sversion = 7, scode = []\<rparr>"
  let ?a = "ex_received\<lparr>dphase := Applying [(''k'', Some ex_doc)] [(''k'', ?r)] []\<rparr>"
  let ?b = "ex_received\<lparr>dphase := Reporting [(''k'', ?r)], applied := [([(''k'', Some ex_doc)], [], False)]\<rparr>"
  let ?c = "?b\<lparr>dphase := Sending ''k'' ?r []\<rparr>"
  have e: "applied ex_received = []" "told ex_received = []" "session ex_received = 0"
    by (simp_all add: ex_received_def dinit_def)
  have a: "dreach any_valid ?a" by (rule dreach.dmore [OF ex_received_reach ex_starts])
  have "dstep any_valid ?a ?b"
    using dstep.applies [of ?a "[(''k'', Some ex_doc)]" "[(''k'', ?r)]" "[]" any_valid "[]" False] e
    by (simp add: with_invalid_def with_codes_def gm_get_def)
  then have b: "dreach any_valid ?b" by (rule dreach.dmore [OF a])
  have "dstep any_valid ?b ?c"
    using dstep.checks [of ?b "[(''k'', ?r)]" "''k''" ?r any_valid]
    by (simp add: reportable_def named_def gm_has_def gm_get_def zero_status_def ex_unit)
  then have c: "dreach any_valid ?c" by (rule dreach.dmore [OF b])
  show ?thesis
    using dreach.dmore [OF c dstep.sends [of ?c "''k''" ?r "[]"]] e by (simp add: ex_told_def)
qed

theorem applies_whole_set_witness:
  "\<exists>t st. dstep any_valid ex_received t \<and> dphase t = Applying st [(''k'', \<lparr>sversion = 7, scode = []\<rparr>)] [] \<and>
     (\<exists>ks. EvKeys ks \<in> set (events ex_received)) \<and>
     (\<forall>k. map_of st k = (case wanted any_valid (events ex_received) k of Some g \<Rightarrow> Some (Some (tstate g))
       | None \<Rightarrow> if rejected any_valid (events ex_received) k = None then None else Some None))"
proof -
  let ?t = "ex_received\<lparr>dphase := Applying [(''k'', Some ex_doc)] [(''k'', \<lparr>sversion = 7, scode = []\<rparr>)] []\<rparr>"
  have w: "dphase ex_received = Waiting" by (simp add: ex_received_def dinit_def)
  have p: "dphase ?t = Applying [(''k'', Some ex_doc)] [(''k'', \<lparr>sversion = 7, scode = []\<rparr>)] []" by simp
  from applies_whole_set [OF ex_received_reach ex_starts w p] ex_starts p show ?thesis by blast
qed

theorem success_was_applied_witness:
  "\<exists>st codes err x. (st, codes, err) \<in> set (applied ex_told) \<and> map_of st ''k'' = Some (Some x) \<and>
    gm_get [] codes ''k'' = [] \<and> EvPut ''k'' 7 x \<in> set (events ex_told) \<and> any_valid ''k'' x"
proof -
  have "(0, ''k'', \<lparr>sversion = 7, scode = []\<rparr>) \<in> set (told ex_told)" by (simp add: ex_told_def)
  from success_was_applied [OF ex_told_reach this] show ?thesis .
qed

text \<open>What is marked as sent was delivered, on some session. It need not be the present one: a
  session that becomes ready between a delivery and its mark finds the mark set, although the
  new session was never told.\<close>

lemma sent_was_told:
  "dreach valid s \<Longrightarrow> (\<forall>k r. map_of (sent (du s)) k = Some r \<longrightarrow> (\<exists>n. (n, k, r) \<in> set (told s))) \<and>
     (\<forall>k r rs. dphase s = Marking k r rs \<longrightarrow> (\<exists>n. (n, k, r) \<in> set (told s)))"
proof (induction rule: dreach.induct)
  case dstart
  then show ?case by (simp add: dinit_def new_unit_def)
next
  case (dmore s t)
  from dmore(2) dmore(3) show ?case
  proof (induction rule: dstep.induct)
    case (receives s ev)
    then show ?case by (cases ev) (auto simp: map_of_retain)
  next
    case (marks s k r rs)
    then show ?case by (auto simp: mark_sent_def map_of_update_gm)
  qed (auto simp: forget_sent_def)
qed

text \<open>
  C39. The engine does not tell every new session every key again. Statuses are delivered and
  marked without the lock in between: a session that becomes ready after the delivery and before
  the mark clears the marks first and then finds this one set, so the key counts as reported
  although the current session was never told about it. The comment of \<open>ControlReady\<close> says the
  next pass reports every key again.
\<close>

theorem new_session_not_told:
  "\<exists>s k r. dreach any_valid s \<and> named (du s) k \<and> map_of (sent (du s)) k = Some r \<and> (session s, k, r) \<notin> set (told s)"
proof -
  let ?a = "ex_told\<lparr>du := forget_sent (du ex_told), session := Suc (session ex_told)\<rparr>"
  have a: "dreach any_valid ?a" by (rule dreach.dmore [OF ex_told_reach dstep.ready])
  have "dphase ?a = Marking ''k'' \<lparr>sversion = 7, scode = []\<rparr> []" by (simp add: ex_told_def)
  from dreach.dmore [OF a dstep.marks [OF this]]
  have "dreach any_valid (?a\<lparr>dphase := Reporting [], du := mark_sent ''k'' \<lparr>sversion = 7, scode = []\<rparr> (du ?a)\<rparr>)" .
  moreover have "du ex_told = du ex_received" "session ex_told = 0" "told ex_told = [(0, ''k'', \<lparr>sversion = 7, scode = []\<rparr>)]"
    by (simp_all add: ex_told_def) (simp add: ex_received_def dinit_def)
  ultimately show ?thesis
    by (intro exI [of _ "?a\<lparr>dphase := Reporting [], du := mark_sent ''k'' \<lparr>sversion = 7, scode = []\<rparr> (du ?a)\<rparr>"]
        exI [of _ "''k''"] exI [of _ "\<lparr>sversion = 7, scode = []\<rparr>"])
      (simp add: ex_unit forget_sent_def mark_sent_def named_def gm_has_def)
qed

section \<open>Backoff\<close>

lemma delays_append:
  "delays (fs @ False # gs) b = delays (fs @ [False]) b @ delays gs 0"
  by (induction fs arbitrary: b) (simp_all add: next_delay_def Let_def split: prod.split)

lemma delays_failing:
  "delays (replicate n True) (min (firstRetry * 2 ^ m) recheckDelay) =
     map (\<lambda>i. min (firstRetry * 2 ^ (m + Suc i)) recheckDelay) [0..<n]"
proof (induction n arbitrary: m)
  case (Suc n)
  have b: "min (max firstRetry (2 * min (firstRetry * 2 ^ m) recheckDelay)) recheckDelay =
      min (firstRetry * 2 ^ Suc m) recheckDelay"
  proof -
    define p :: int where "p = 2 ^ m"
    have "1 \<le> p" by (simp add: p_def)
    then show ?thesis
      unfolding firstRetry_def recheckDelay_def second_def minute_def power_Suc p_def [symmetric]
      by (simp add: min_def max_def)
  qed
  have "delays (replicate (Suc n) True) (min (firstRetry * 2 ^ m) recheckDelay) =
      min (firstRetry * 2 ^ Suc m) recheckDelay # delays (replicate n True) (min (firstRetry * 2 ^ Suc m) recheckDelay)"
    using b by (simp add: next_delay_def Let_def)
  also have "\<dots> = map (\<lambda>i. min (firstRetry * 2 ^ (m + Suc i)) recheckDelay) (0 # map Suc [0..<n])"
    using Suc [of "Suc m"] by simp
  also have "0 # map Suc [0..<n] = [0..<Suc n]" by (simp only: map_Suc_upt upt_conv_Cons [of 0 "Suc n"] zero_less_Suc)
  finally show ?case .
qed simp

lemma delays_bounds:
  "0 \<le> b \<Longrightarrow> list_all (\<lambda>d. firstRetry \<le> d \<and> d \<le> recheckDelay) (delays fs b)"
proof (induction fs arbitrary: b)
  case (Cons f fs)
  have "0 \<le> fst (next_delay f b)" "firstRetry \<le> snd (next_delay f b)" "snd (next_delay f b) \<le> recheckDelay"
    using Cons.prems
    by (auto simp: next_delay_def Let_def firstRetry_def recheckDelay_def second_def minute_def)
  with Cons.IH show ?case by (auto split: prod.split)
qed simp

text \<open>
  The time to the next pass never leaves 30 seconds to 5 minutes, whatever the passes did;
  the n-th failure in a row waits 30 seconds doubled n times, at most 5 minutes, and one success
  starts the series anew.
\<close>

theorem retry_backoff:
  "list_all (\<lambda>d. firstRetry \<le> d \<and> d \<le> recheckDelay) (delays fs 0) \<and>
   delays (replicate n True) 0 = map (\<lambda>i. min (firstRetry * 2 ^ i) recheckDelay) [0..<n] \<and>
   delays (fs @ False # gs) 0 = delays (fs @ [False]) 0 @ delays gs 0"
proof -
  have "delays (replicate n True) 0 = map (\<lambda>i. min (firstRetry * 2 ^ i) recheckDelay) [0..<n]"
  proof (cases n)
    case (Suc k)
    have first: "next_delay True 0 = (min (firstRetry * 2 ^ 0) recheckDelay, min (firstRetry * 2 ^ 0) recheckDelay)"
      by (simp add: next_delay_def firstRetry_def second_def Let_def)
    have "delays (replicate (Suc k) True) 0 = map (\<lambda>i. min (firstRetry * 2 ^ i) recheckDelay) (0 # map Suc [0..<k])"
      using delays_failing [of k 0] by (simp add: first)
    also have "0 # map Suc [0..<k] = [0..<Suc k]" by (simp only: map_Suc_upt upt_conv_Cons [of 0 "Suc k"] zero_less_Suc)
    finally show ?thesis by (simp only: Suc)
  qed simp
  then show ?thesis using delays_bounds [of 0 fs] delays_append [of fs gs 0] by simp
qed

end
