(* ===== verification/Net_Policy.thy ===== *)
theory Net_Policy
  imports Strconv "HOL-Library.Word"
begin

unbundle bit_operations_syntax

text \<open>
  Addresses as the standard library's \<open>netip\<close> reads and prints them, and the rules for which of
  them are public: \<open>src/internal/netpolicy/public_ipv4.go\<close> and \<open>PublicIPv4\<close> of
  \<open>src/internal/protocol/protocol.go\<close>. An IPv4 address is a 32-bit word, an IPv6 address a
  128-bit word with a zone.
\<close>

section \<open>netip.Addr\<close>

datatype Addr = V4 "32 word" | V6 "128 word" string

definition parse_octet :: "string \<Rightarrow> nat option" where
  "parse_octet s = (if s = [] \<or> \<not> list_all (\<lambda>c. c \<in> set digits) s \<or> (length s > 1 \<and> hd s = CHR ''0'') then None
     else case read_digits 10 0 s of None \<Rightarrow> None | Some n \<Rightarrow> if n \<le> 255 then Some n else None)"

definition ipv4 :: "nat \<Rightarrow> nat \<Rightarrow> nat \<Rightarrow> nat \<Rightarrow> nat" where
  "ipv4 a b c d = ((a * 256 + b) * 256 + c) * 256 + d"

definition parseIPv4 :: "string \<Rightarrow> 32 word option" where
  "parseIPv4 s = (case map parse_octet (Split (CHR ''.'') s) of
     [Some a, Some b, Some c, Some d] \<Rightarrow> Some (word_of_nat (ipv4 a b c d)) | _ \<Rightarrow> None)"

definition parse_group :: "string \<Rightarrow> nat option" where
  "parse_group s = (if length s > 4 then None else ParseUint 16 16 s)"

text \<open>The groups after the ellipsis, or all of them; the last may be an embedded IPv4 address.\<close>

fun groups6 :: "string list \<Rightarrow> nat list option" where
  "groups6 [] = Some []"
| "groups6 [g] = (if CHR ''.'' \<in> set g
     then map_option (\<lambda>a. [unat a div 65536, unat a mod 65536]) (parseIPv4 g)
     else map_option (\<lambda>n. [n]) (parse_group g))"
| "groups6 (g # g' # gs) = (case parse_group g of None \<Rightarrow> None | Some n \<Rightarrow> map_option (Cons n) (groups6 (g' # gs)))"

fun groups_before :: "string list \<Rightarrow> nat list option" where
  "groups_before [] = Some []"
| "groups_before (g # gs) = (case parse_group g of None \<Rightarrow> None | Some n \<Rightarrow> map_option (Cons n) (groups_before gs))"

definition split_groups :: "string \<Rightarrow> string list" where
  "split_groups s = (if s = [] then [] else Split (CHR '':'') s)"

definition word_of_groups :: "nat list \<Rightarrow> 128 word" where
  "word_of_groups gs = word_of_nat (foldl (\<lambda>acc g. acc * 65536 + g) 0 gs)"

definition parseIPv6_body :: "string \<Rightarrow> 128 word option" where
  "parseIPv6_body s = (case Cut ''::'' s of
     None \<Rightarrow> (case groups6 (Split (CHR '':'') s) of None \<Rightarrow> None
              | Some gs \<Rightarrow> if length gs = 8 then Some (word_of_groups gs) else None)
   | Some (l, r) \<Rightarrow> (case groups_before (split_groups l) of None \<Rightarrow> None | Some ls \<Rightarrow>
       (case groups6 (split_groups r) of None \<Rightarrow> None | Some rs \<Rightarrow>
         if length ls + length rs \<le> 7
         then Some (word_of_groups (ls @ replicate (8 - length ls - length rs) 0 @ rs)) else None)))"

definition parseIPv6 :: "string \<Rightarrow> Addr option" where
  "parseIPv6 s = (case Cut ''%'' s of None \<Rightarrow> map_option (\<lambda>w. V6 w []) (parseIPv6_body s)
     | Some (body, zone) \<Rightarrow> if zone = [] then None else map_option (\<lambda>w. V6 w zone) (parseIPv6_body body))"

definition ParseAddr :: "string \<Rightarrow> Addr option" where
  "ParseAddr s = (case find (\<lambda>c. c = CHR ''.'' \<or> c = CHR '':'' \<or> c = CHR ''%'') s of
       None \<Rightarrow> None
     | Some c \<Rightarrow> if c = CHR ''.'' then map_option V4 (parseIPv4 s) else if c = CHR '':'' then parseIPv6 s else None)"

definition octets :: "32 word \<Rightarrow> nat list" where
  "octets a = [unat a div 16777216, unat a div 65536 mod 256, unat a div 256 mod 256, unat a mod 256]"

definition String4 :: "32 word \<Rightarrow> string" where
  "String4 a = Join ''.'' (map nat_text (octets a))"

definition Is4 :: "Addr \<Rightarrow> bool" where
  "Is4 a = (case a of V4 _ \<Rightarrow> True | V6 _ _ \<Rightarrow> False)"

definition Is6 :: "Addr \<Rightarrow> bool" where
  "Is6 a \<longleftrightarrow> \<not> Is4 a"

definition mapped4 :: "128 word \<Rightarrow> bool" where
  "mapped4 w \<longleftrightarrow> drop_bit 32 w = 0xFFFF"

definition Is4In6 :: "Addr \<Rightarrow> bool" where
  "Is4In6 a = (case a of V4 _ \<Rightarrow> False | V6 w z \<Rightarrow> mapped4 w)"

definition Unmap :: "Addr \<Rightarrow> Addr" where
  "Unmap a = (case a of V4 _ \<Rightarrow> a | V6 w z \<Rightarrow> if mapped4 w then V4 (ucast w) else a)"

fun hex_text :: "nat \<Rightarrow> string" where
  "hex_text n = (if n < 16 then [digit_of n] else hex_text (n div 16) @ [digit_of (n mod 16)])"

declare hex_text.simps [simp del]

definition groups_of :: "128 word \<Rightarrow> nat list" where
  "groups_of w = map (\<lambda>i. unat w div 65536 ^ (7 - i) mod 65536) [0..<8]"

text \<open>The longest run of two or more zero groups that the ellipsis stands for, the first of them.\<close>

definition zero_run :: "nat list \<Rightarrow> nat \<Rightarrow> nat" where
  "zero_run gs i = length (takeWhile (\<lambda>g. g = 0) (drop i gs))"

definition ellipsis :: "nat list \<Rightarrow> (nat \<times> nat) option" where
  "ellipsis gs = fold (\<lambda>i best. let l = zero_run gs i in
     if 2 \<le> l \<and> (case best of None \<Rightarrow> True | Some (_, n) \<Rightarrow> n < l) then Some (i, l) else best) [0..<8] None"

definition String6 :: "128 word \<Rightarrow> string" where
  "String6 w = (if mapped4 w then ''::ffff:'' @ String4 (ucast w) else
     (let gs = groups_of w in case ellipsis gs of
        None \<Rightarrow> Join '':'' (map hex_text gs)
      | Some (i, l) \<Rightarrow> Join '':'' (map hex_text (take i gs)) @ ''::'' @ Join '':'' (map hex_text (drop (i + l) gs))))"

definition Addr_String :: "Addr \<Rightarrow> string" where
  "Addr_String a = (case a of V4 w \<Rightarrow> String4 w
     | V6 w z \<Rightarrow> String6 w @ (if z = [] then [] else ''%'' @ z))"

section \<open>Prefixes\<close>

text \<open>\<open>Prefix.Contains\<close>: the leading bits agree; an address with a zone is in no prefix.\<close>

definition contains4 :: "nat \<times> nat \<Rightarrow> 32 word \<Rightarrow> bool" where
  "contains4 = (\<lambda>(p, bits) a. drop_bit (32 - bits) (a XOR word_of_nat p) = 0)"

definition contains6 :: "nat list \<times> nat \<Rightarrow> Addr \<Rightarrow> bool" where
  "contains6 = (\<lambda>(gs, bits) a. case a of V4 _ \<Rightarrow> False
     | V6 w z \<Rightarrow> z = [] \<and> drop_bit (128 - bits) (w XOR word_of_groups gs) = 0)"

definition nonPublicIPv4 :: "(nat \<times> nat) list" where
  "nonPublicIPv4 = [(ipv4 0 0 0 0, 8), (ipv4 10 0 0 0, 8), (ipv4 100 64 0 0, 10), (ipv4 127 0 0 0, 8),
     (ipv4 169 254 0 0, 16), (ipv4 172 16 0 0, 12), (ipv4 192 0 0 0, 24), (ipv4 192 0 2 0, 24),
     (ipv4 192 88 99 0, 24), (ipv4 192 168 0 0, 16), (ipv4 198 18 0 0, 15), (ipv4 198 51 100 0, 24),
     (ipv4 203 0 113 0, 24), (ipv4 224 0 0 0, 4), (ipv4 240 0 0 0, 4)]"

definition specialPurposeIPv6 :: "((nat list \<times> nat) \<times> bool) list" where
  "specialPurposeIPv6 = [
     (([0x2001, 1, 0, 0, 0, 0, 0, 1], 128), True), (([0x2001, 1, 0, 0, 0, 0, 0, 2], 128), True),
     (([0x2001, 1, 0, 0, 0, 0, 0, 3], 128), True), (([0x2001, 3, 0, 0, 0, 0, 0, 0], 32), True),
     (([0x2001, 4, 0x112, 0, 0, 0, 0, 0], 48), True), (([0x2001, 0x20, 0, 0, 0, 0, 0, 0], 28), True),
     (([0x2001, 0x30, 0, 0, 0, 0, 0, 0], 28), True), (([0x64, 0xFF9B, 1, 0, 0, 0, 0, 0], 48), False),
     (([0x100, 0, 0, 0, 0, 0, 0, 0], 64), False), (([0x100, 0, 0, 1, 0, 0, 0, 0], 64), False),
     (([0x2001, 0, 0, 0, 0, 0, 0, 0], 23), False), (([0x2001, 0xDB8, 0, 0, 0, 0, 0, 0], 32), False),
     (([0x2002, 0, 0, 0, 0, 0, 0, 0], 16), False), (([0x3FFF, 0, 0, 0, 0, 0, 0, 0], 20), False),
     (([0x5F00, 0, 0, 0, 0, 0, 0, 0], 16), False)]"

section \<open>The rules\<close>

definition IsPublicIPv4 :: "Addr \<Rightarrow> bool" where
  "IsPublicIPv4 a = (case Unmap a of V6 _ _ \<Rightarrow> False | V4 w \<Rightarrow> \<not> list_ex (\<lambda>p. contains4 p w) nonPublicIPv4)"

text \<open>The predicates of \<open>netip\<close> on an IPv6 address that is not an embedded IPv4 one.\<close>

definition leading :: "nat \<Rightarrow> 128 word \<Rightarrow> nat" where
  "leading bits w = unat w div 2 ^ (128 - bits)"

definition IsLoopback6 :: "128 word \<Rightarrow> bool" where "IsLoopback6 w \<longleftrightarrow> w = 1"
definition IsMulticast6 :: "128 word \<Rightarrow> bool" where "IsMulticast6 w \<longleftrightarrow> leading 8 w = 0xFF"
definition IsLinkLocalUnicast6 :: "128 word \<Rightarrow> bool" where "IsLinkLocalUnicast6 w \<longleftrightarrow> leading 10 w = 0x3FA"
definition IsPrivate6 :: "128 word \<Rightarrow> bool" where "IsPrivate6 w \<longleftrightarrow> leading 7 w = 0x7E"
definition IsGlobalUnicast6 :: "128 word \<Rightarrow> string \<Rightarrow> bool" where
  "IsGlobalUnicast6 w z \<longleftrightarrow> \<not> (w = 0 \<and> z = []) \<and> \<not> IsLoopback6 w \<and> \<not> IsMulticast6 w \<and> \<not> IsLinkLocalUnicast6 w"

definition IsPublicIPv6 :: "Addr \<Rightarrow> bool" where
  "IsPublicIPv6 a = (case a of V4 _ \<Rightarrow> False | V6 w z \<Rightarrow>
     if mapped4 w \<or> \<not> IsGlobalUnicast6 w z \<or> IsPrivate6 w \<or> IsLoopback6 w \<or> IsLinkLocalUnicast6 w then False
     else case find (\<lambda>(p, reachable). contains6 p a) specialPurposeIPv6 of
       Some (p, reachable) \<Rightarrow> reachable | None \<Rightarrow> True)"

definition PublicIPv4 :: "string \<Rightarrow> bool" where
  "PublicIPv4 value = (case ParseAddr value of None \<Rightarrow> False
     | Some a \<Rightarrow> Addr_String a = value \<and> IsPublicIPv4 a)"

section \<open>Printing and reading an IPv4 address\<close>

lemma parse_octet_nat_text: "n \<le> 255 \<Longrightarrow> parse_octet (nat_text n) = Some n"
proof -
  assume n: "n \<le> 255"
  have d: "list_all (\<lambda>c. c \<in> set digits) (nat_text n)" using nat_text_digits [of n] by (auto simp: list_all_iff)
  have z: "\<not> (length (nat_text n) > 1 \<and> hd (nat_text n) = CHR ''0'')"
  proof (cases "n = 0")
    case True
    then show ?thesis by (simp add: nat_text.simps)
  next
    case False
    then show ?thesis using nat_text_no_leading_zero [of n] by simp
  qed
  show ?thesis unfolding parse_octet_def using n d z nat_text_nonempty [of n] read_digits_nat_text [of n] by auto
qed

lemma octets_le: "x \<in> set (octets a) \<Longrightarrow> x \<le> 255"
proof -
  have "unat a div 16777216 < 256" using unsigned_less [of a, where ?'a = nat] by (simp add: less_mult_imp_div_less)
  moreover assume "x \<in> set (octets a)"
  moreover have "n mod 256 < 256" for n :: nat by simp
  ultimately show ?thesis unfolding octets_def by (auto simp: less_Suc_eq_le [symmetric] simp del: mod_less_divisor)
qed

lemma ipv4_octets: "ipv4 (n div 16777216) (n div 65536 mod 256) (n div 256 mod 256) (n mod 256) = n" for n :: nat
proof -
  have "n = (n div 256) * 256 + n mod 256" by simp
  moreover have "n div 256 = (n div 65536) * 256 + n div 256 mod 256"
    using div_mult_mod_eq [of "n div 256" 256] by (simp add: div_mult2_eq [symmetric])
  moreover have "n div 65536 = (n div 16777216) * 256 + n div 65536 mod 256"
    using div_mult_mod_eq [of "n div 65536" 256] by (simp add: div_mult2_eq [symmetric])
  ultimately show ?thesis unfolding ipv4_def by presburger
qed

lemma digit_text_plain: "c \<in> set (nat_text n) \<Longrightarrow> c \<noteq> CHR ''.'' \<and> c \<noteq> CHR '':'' \<and> c \<noteq> CHR ''%''"
  using nat_text_digits [of n] by (auto simp: digits_def)

lemma parseIPv4_String4: "parseIPv4 (String4 a) = Some a"
proof -
  have "Split (CHR ''.'') (String4 a) = map nat_text (octets a)"
    unfolding String4_def by (rule Split_Join) (auto simp: octets_def dest: digit_text_plain)
  moreover have "map parse_octet (map nat_text (octets a)) = map Some (octets a)"
    using octets_le [of _ a] by (auto intro!: parse_octet_nat_text)
  ultimately show ?thesis by (simp add: parseIPv4_def octets_def ipv4_octets)
qed

lemma find_append: "find P (xs @ ys) = (case find P xs of None \<Rightarrow> find P ys | Some x \<Rightarrow> Some x)"
  by (induction xs) auto

text \<open>Reading what was printed gives the address back.\<close>

lemma ParseAddr_String4: "ParseAddr (String4 a) = Some (V4 a)"
proof -
  let ?P = "\<lambda>c. c = CHR ''.'' \<or> c = CHR '':'' \<or> c = CHR ''%''"
  have "find ?P (nat_text n) = None" for n by (auto simp: find_None_iff dest: digit_text_plain)
  then have "find ?P (String4 a) = Some (CHR ''.'')" by (simp add: String4_def octets_def find_append)
  then show ?thesis by (simp add: ParseAddr_def parseIPv4_String4)
qed

section \<open>Prefixes as ranges\<close>

lemma xor_zero_iff: "a XOR b = 0 \<longleftrightarrow> a = b" for a b :: "'w::len word"
proof
  assume "a XOR b = 0"
  then have "(a XOR b) XOR b = b" by simp
  then show "a = b" by (simp add: xor.assoc)
qed simp

lemma contains4_iff:
  assumes "p < 2 ^ 32" "2 ^ (32 - bits) dvd p"
  shows "contains4 (p, bits) a \<longleftrightarrow> p \<le> unat a \<and> unat a < p + 2 ^ (32 - bits)"
proof -
  let ?k = "32 - bits"
  have "contains4 (p, bits) a \<longleftrightarrow> drop_bit ?k a = drop_bit ?k (word_of_nat p)"
    by (simp add: contains4_def drop_bit_xor xor_zero_iff)
  also have "\<dots> \<longleftrightarrow> unat (drop_bit ?k a) = unat (drop_bit ?k (word_of_nat p :: 32 word))"
    by (simp add: word_unat_eq_iff)
  also have "\<dots> \<longleftrightarrow> unat a div 2 ^ ?k = p div 2 ^ ?k"
    using assms(1) unfolding unat_drop_bit_eq unsigned_of_nat
    by (simp add: take_bit_nat_eq_self drop_bit_eq_div [where ?'a = nat])
  also have "\<dots> \<longleftrightarrow> p \<le> unat a \<and> unat a < p + 2 ^ ?k"
  proof -
    obtain q where q: "p = 2 ^ ?k * q" using assms(2) by (auto elim: dvdE)
    have "unat a div 2 ^ ?k = q \<longleftrightarrow> 2 ^ ?k * q \<le> unat a \<and> unat a < 2 ^ ?k * Suc q"
      by (intro iffI conjI) (auto simp: mult.commute dividend_less_times_div intro: div_nat_eqI)
    then show ?thesis unfolding q by (simp add: algebra_simps)
  qed
  finally show ?thesis .
qed

text \<open>The ranges that are not public, from their first to their last address.\<close>

definition special_ranges :: "(nat \<times> nat) list" where
  "special_ranges = [(ipv4 0 0 0 0, ipv4 0 255 255 255), (ipv4 10 0 0 0, ipv4 10 255 255 255),
     (ipv4 100 64 0 0, ipv4 100 127 255 255), (ipv4 127 0 0 0, ipv4 127 255 255 255),
     (ipv4 169 254 0 0, ipv4 169 254 255 255), (ipv4 172 16 0 0, ipv4 172 31 255 255),
     (ipv4 192 0 0 0, ipv4 192 0 0 255), (ipv4 192 0 2 0, ipv4 192 0 2 255),
     (ipv4 192 88 99 0, ipv4 192 88 99 255), (ipv4 192 168 0 0, ipv4 192 168 255 255),
     (ipv4 198 18 0 0, ipv4 198 19 255 255), (ipv4 198 51 100 0, ipv4 198 51 100 255),
     (ipv4 203 0 113 0, ipv4 203 0 113 255), (ipv4 224 0 0 0, ipv4 239 255 255 255),
     (ipv4 240 0 0 0, ipv4 255 255 255 255)]"

lemma special_ranges_eq: "special_ranges = map (\<lambda>(p, bits). (p, p + 2 ^ (32 - bits) - 1)) nonPublicIPv4"
  by (simp add: special_ranges_def nonPublicIPv4_def ipv4_def)

lemma nonPublicIPv4_aligned: "list_all (\<lambda>(p, bits). p < 2 ^ 32 \<and> 2 ^ (32 - bits) dvd p) nonPublicIPv4"
  by (simp add: nonPublicIPv4_def ipv4_def)

lemma IsPublicIPv4_ranges:
  "IsPublicIPv4 (V4 a) \<longleftrightarrow> \<not> list_ex (\<lambda>(lo, hi). lo \<le> unat a \<and> unat a \<le> hi) special_ranges"
proof -
  have "contains4 (p, bits) a \<longleftrightarrow> p \<le> unat a \<and> unat a \<le> p + 2 ^ (32 - bits) - 1" if "(p, bits) \<in> set nonPublicIPv4" for p bits
  proof -
    have "contains4 (p, bits) a \<longleftrightarrow> p \<le> unat a \<and> unat a < p + 2 ^ (32 - bits)"
      using nonPublicIPv4_aligned that by (intro contains4_iff) (auto simp: list_all_iff)
    moreover define k where "k = (2::nat) ^ (32 - bits)"
    moreover have "0 < k" by (simp add: k_def)
    ultimately show ?thesis unfolding k_def [symmetric] by arith
  qed
  then have "(\<exists>p \<in> set nonPublicIPv4. contains4 p a) \<longleftrightarrow>
      (\<exists>p \<in> set nonPublicIPv4. case p of (p, bits) \<Rightarrow> p \<le> unat a \<and> unat a \<le> p + 2 ^ (32 - bits) - 1)"
    by (intro bex_cong refl) (simp only: split_paired_all prod.case)
  then show ?thesis
    unfolding special_ranges_eq IsPublicIPv4_def Unmap_def Addr.case list_ex_iff set_map bex_simps(7) split_def fst_conv snd_conv
    by (simp only:)
qed

lemma find_in_set: "find P xs = Some x \<Longrightarrow> x \<in> set xs"
  by (induction xs) (auto split: if_splits)

lemma ParseAddr_no_colon:
  assumes "ParseAddr s = Some a" "CHR '':'' \<notin> set s"
  shows "\<exists>w. a = V4 w \<and> parseIPv4 s = Some w"
proof -
  obtain c where c: "find (\<lambda>c. c = CHR ''.'' \<or> c = CHR '':'' \<or> c = CHR ''%'') s = Some c"
    using assms(1) by (auto simp: ParseAddr_def split: option.splits)
  then have "c \<in> set s" by (rule find_in_set)
  with assms c show ?thesis by (auto simp: ParseAddr_def split: if_splits)
qed

text \<open>
  An address text without a colon passes \<open>PublicIPv4\<close> exactly when it is the canonical
  dotted form of an address outside every reserved range, the ranges written out from their
  first to their last address.
\<close>

theorem public_ipv4_exact:
  "(PublicIPv4 s \<and> CHR '':'' \<notin> set s) \<longleftrightarrow>
   (\<exists>a. s = String4 a \<and> \<not> list_ex (\<lambda>(lo, hi). lo \<le> unat a \<and> unat a \<le> hi) special_ranges)"
proof
  assume p: "PublicIPv4 s \<and> CHR '':'' \<notin> set s"
  then obtain a where a: "ParseAddr s = Some a" "Addr_String a = s" "IsPublicIPv4 a"
    by (auto simp: PublicIPv4_def split: option.splits)
  with p ParseAddr_no_colon [OF a(1)] obtain w where "a = V4 w" by blast
  with a show "\<exists>a. s = String4 a \<and> \<not> list_ex (\<lambda>(lo, hi). lo \<le> unat a \<and> unat a \<le> hi) special_ranges"
    by (auto simp: Addr_String_def IsPublicIPv4_ranges)
next
  assume "\<exists>a. s = String4 a \<and> \<not> list_ex (\<lambda>(lo, hi). lo \<le> unat a \<and> unat a \<le> hi) special_ranges"
  then obtain a where a: "s = String4 a" "IsPublicIPv4 (V4 a)" by (auto simp: IsPublicIPv4_ranges)
  have "CHR '':'' \<notin> set (String4 a)"
    by (auto simp: String4_def octets_def dest: digit_text_plain)
  with a show "PublicIPv4 s \<and> CHR '':'' \<notin> set s" by (simp add: PublicIPv4_def ParseAddr_String4 Addr_String_def)
qed

text \<open>A text with a colon can pass too: the IPv4-mapped form of a public address.\<close>

lemma parse_dotted: "parseIPv4 ''8.8.8.8'' = Some 0x08080808"
  by (simp add: parseIPv4_def parse_octet_def digits_def digit_val_def hexits_def ipv4_def)

lemma foldl_zeros: "foldl (\<lambda>acc g. acc * 65536 + g) 0 (replicate n (0::nat)) = 0"
  by (induction n) simp_all

lemma parse_mapped: "parseIPv6_body ''::ffff:8.8.8.8'' = Some 0xFFFF08080808"
  by (simp add: parseIPv6_body_def split_groups_def HasPrefix_def parse_dotted parse_group_def ParseUint_def lower_hex_def
      digit_val_def hexits_def word_of_groups_def foldl_zeros)

lemma mapped_text: "Addr_String (V6 0xFFFF08080808 []) = ''::ffff:8.8.8.8'' \<and> Unmap (V6 0xFFFF08080808 []) = V4 0x08080808"
  by (simp add: Addr_String_def String6_def mapped4_def String4_def octets_def nat_text.simps digit_of_def hexits_def Unmap_def)

theorem public_ipv4_mapped: "PublicIPv4 ''::ffff:8.8.8.8''"
proof -
  have "ParseAddr ''::ffff:8.8.8.8'' = Some (V6 0xFFFF08080808 [])"
    by (simp add: ParseAddr_def parseIPv6_def HasPrefix_def parse_mapped)
  moreover have "IsPublicIPv4 (V4 0x08080808)"
    by (simp add: IsPublicIPv4_ranges special_ranges_def ipv4_def)
  ultimately show ?thesis using mapped_text by (simp add: PublicIPv4_def IsPublicIPv4_def Unmap_def)
qed

text \<open>An address with a zone is in no prefix, so a reserved one passes as public.\<close>

theorem public_ipv6_zone:
  "IsPublicIPv6 (V6 0x20010DB8000000000000000000000001 ''eth0'') \<and>
   \<not> IsPublicIPv6 (V6 0x20010DB8000000000000000000000001 [])"
  by (simp add: IsPublicIPv6_def mapped4_def IsGlobalUnicast6_def IsLoopback6_def IsMulticast6_def IsLinkLocalUnicast6_def
      IsPrivate6_def leading_def contains6_def specialPurposeIPv6_def word_of_groups_def)

end
