(* ===== verification/Ip_Monitor.thy ===== *)
theory Ip_Monitor
  imports Net_Policy Protocol Json_File
begin

text \<open>
  The address monitor of \<open>src/internal/modules/ipwatch/monitor.go\<close> (with \<open>module.go\<close> beside it): it
  tells Cloud the node's address and settles how a ChangeIP attempt ended. One definition per
  method; the step functions are split where they drop the lock to observe the address.
  Parameters of the operations are what the outside supplies: the outcome of a save, the clock,
  an observed address, a new report identifier, and the text form of a time.
\<close>

section \<open>State\<close>

record outcome =
  oReportID :: string
  oChanged :: bool
  oAddress :: string
  oObservedAt :: string

record changeAttempt =
  aCommandID :: string
  aAddress :: string
  aReconcileAt :: gotime
  aConfirmations :: int
  aOutcome :: "outcome option"

record monitorState =
  mSchemaVersion :: int
  mChangeAttempt :: "changeAttempt option"

record AddressData =
  dFamily :: string
  dAddress :: string
  dObservedAt :: string
  dCommandID :: "string option"

record UnchangedData =
  uCommandID :: string
  uAddress :: string
  uObservedAt :: string

text \<open>A report body: its identifier, and its data of kind \<open>ip.address\<close> or \<open>changeip.unchanged\<close>.\<close>

datatype report_data = KindAddress AddressData | KindUnchanged UnchangedData

record ReportBody =
  bReportID :: string
  bData :: report_data

record addressReport =
  rId :: string
  rData :: AddressData

record familyState =
  reported :: string
  pending :: "addressReport option"
  announce :: bool

record Monitor =
  mfile :: "monitorState JSONFile"
  interval :: duration
  wakeIPv4 :: bool
  wakeIPv6 :: bool
  observeIPv6 :: bool
  persisted :: monitorState
  fam4 :: familyState
  fam6 :: familyState

datatype monitor_error =
    OptionsInvalid | MFileError file_error | SchemaUnsupported | ReconciliationInvalid | OutcomeInvalid
  | CommandIDInvalid | ReconciliationInput | OtherAttemptActive | StateMismatch | NotActive | PersistFailed file_error

definition changeReconcileGrace :: duration where "changeReconcileGrace = 2 * minute"
definition changeUnchangedConfirmations :: int where "changeUnchangedConfirmations = 2"
definition changeObserveInterval :: duration where "changeObserveInterval = 10 * second"

text \<open>\<open>netip.ParseAddr\<close> succeeds with an address that \<open>Is4\<close>.\<close>

definition is_ipv4 :: "string \<Rightarrow> bool" where
  "is_ipv4 s = (case ParseAddr s of Some a \<Rightarrow> Is4 a | None \<Rightarrow> False)"

section \<open>Opening\<close>

definition validOutcome :: "(string \<Rightarrow> gotime option) \<Rightarrow> string \<Rightarrow> outcome \<Rightarrow> bool" where
  "validOutcome parseTime address r \<longleftrightarrow>
     ValidUUID (oReportID r) \<and> is_ipv4 (oAddress r) \<and> oChanged r \<noteq> (oAddress r = address) \<and>
     (case parseTime (oObservedAt r) of None \<Rightarrow> False | Some t \<Rightarrow> \<not> IsZero t)"

definition validateMonitorState :: "(string \<Rightarrow> gotime option) \<Rightarrow> monitorState \<Rightarrow> monitor_error option" where
  "validateMonitorState parseTime p =
     (if mSchemaVersion p \<noteq> 1 then Some SchemaUnsupported
      else case mChangeAttempt p of None \<Rightarrow> None
      | Some a \<Rightarrow>
          if \<not> ValidUUID (aCommandID a) \<or> \<not> is_ipv4 (aAddress a) \<or> IsZero (aReconcileAt a) \<or> aConfirmations a < 0
          then Some ReconciliationInvalid
          else (case aOutcome a of None \<Rightarrow> None
            | Some r \<Rightarrow> if validOutcome parseTime (aAddress a) r then None else Some OutcomeInvalid))"

definition fresh_family :: familyState where
  "fresh_family = \<lparr>reported = [], pending = None, announce = True\<rparr>"

definition new_monitor :: "duration \<Rightarrow> bool \<Rightarrow> monitorState JSONFile \<Rightarrow> monitorState \<Rightarrow> Monitor" where
  "new_monitor iv v6 f p = \<lparr>mfile = f, interval = iv, wakeIPv4 = False, wakeIPv6 = False, observeIPv6 = v6,
     persisted = p, fam4 = fresh_family, fam6 = fresh_family\<rparr>"

definition OpenMonitor :: "(string \<Rightarrow> gotime option) \<Rightarrow> monitorState JSONFile \<Rightarrow> duration \<Rightarrow> bool \<Rightarrow> monitor_error + Monitor" where
  "OpenMonitor parseTime f iv v6 =
     (if iv < 10 * second \<or> iv > 5 * minute then Inl OptionsInvalid
      else case Load f of Inl e \<Rightarrow> Inl (MFileError e)
      | Inr None \<Rightarrow> Inr (new_monitor iv v6 f \<lparr>mSchemaVersion = 1, mChangeAttempt = None\<rparr>)
      | Inr (Some p) \<Rightarrow> (case validateMonitorState parseTime p of Some e \<Rightarrow> Inl e
          | None \<Rightarrow> Inr (new_monitor iv v6 f p)))"

section \<open>Operations\<close>

text \<open>The end of every durable change: save the next state, then make it the one in memory.\<close>

definition mcommit :: "save_env \<Rightarrow> monitorState \<Rightarrow> Monitor \<Rightarrow> file_error option \<times> Monitor" where
  "mcommit env n m = (let (err, f) = Save env n (mfile m)
     in case err of Some er \<Rightarrow> (Some er, m\<lparr>mfile := f\<rparr>) | None \<Rightarrow> (None, m\<lparr>mfile := f, persisted := n\<rparr>))"

definition with_attempt :: "changeAttempt option \<Rightarrow> Monitor \<Rightarrow> monitorState" where
  "with_attempt a m = (persisted m)\<lparr>mChangeAttempt := a\<rparr>"

abbreviation attempt :: "Monitor \<Rightarrow> changeAttempt option" where
  "attempt m \<equiv> mChangeAttempt (persisted m)"

definition ipv4Delay :: "Monitor \<Rightarrow> duration" where
  "ipv4Delay m = (if attempt m \<noteq> None \<and> interval m > changeObserveInterval then changeObserveInterval else interval m)"

definition NotifyControlReady :: "Monitor \<Rightarrow> Monitor" where
  "NotifyControlReady m = m\<lparr>fam4 := (fam4 m)\<lparr>pending := None, announce := True\<rparr>,
     fam6 := (fam6 m)\<lparr>pending := None, announce := True\<rparr>, wakeIPv4 := True, wakeIPv6 := (observeIPv6 m \<or> wakeIPv6 m)\<rparr>"

definition AddressSettled :: "Monitor \<Rightarrow> bool" where
  "AddressSettled m \<longleftrightarrow> reported (fam4 m) \<noteq> [] \<and> pending (fam4 m) = None \<and> \<not> announce (fam4 m)"

definition ArmChange :: "save_env \<Rightarrow> string \<Rightarrow> string \<Rightarrow> gotime \<Rightarrow> Monitor \<Rightarrow> monitor_error option \<times> Monitor" where
  "ArmChange env cmd addr startedAt m =
     (if \<not> ValidUUID cmd then (Some CommandIDInvalid, m)
      else if \<not> is_ipv4 addr \<or> IsZero startedAt then (Some ReconciliationInput, m)
      else case attempt m of
        Some a \<Rightarrow> if aCommandID a = cmd \<and> aAddress a = addr then (None, m) else (Some OtherAttemptActive, m)
      | None \<Rightarrow>
          if reported (fam4 m) \<noteq> addr \<or> pending (fam4 m) \<noteq> None \<or> announce (fam4 m) then (Some StateMismatch, m)
          else
            (let n = with_attempt (Some \<lparr>aCommandID = cmd, aAddress = addr, aReconcileAt = startedAt + changeReconcileGrace,
                       aConfirmations = 0, aOutcome = None\<rparr>) m;
                 (err, m') = mcommit env n m
             in case err of Some er \<Rightarrow> (Some (MFileError er), m') | None \<Rightarrow> (None, m'\<lparr>wakeIPv4 := True\<rparr>)))"

definition CancelChange :: "save_env \<Rightarrow> string \<Rightarrow> Monitor \<Rightarrow> monitor_error option \<times> Monitor" where
  "CancelChange env cmd m =
     (case attempt m of None \<Rightarrow> (Some NotActive, m)
      | Some a \<Rightarrow> if aCommandID a \<noteq> cmd \<or> aOutcome a \<noteq> None then (Some NotActive, m)
          else (let (err, m') = mcommit env (with_attempt None m) m
                in (map_option MFileError err, m')))"

definition ChangeAddress :: "string \<Rightarrow> Monitor \<Rightarrow> string option" where
  "ChangeAddress cmd m = (case attempt m of Some a \<Rightarrow> if aCommandID a = cmd then Some (aAddress a) else None
     | None \<Rightarrow> None)"

definition acks :: "string \<Rightarrow> Monitor \<Rightarrow> outcome option" where
  "acks rid m = (case attempt m of None \<Rightarrow> None
     | Some a \<Rightarrow> (case aOutcome a of None \<Rightarrow> None | Some r \<Rightarrow> if oReportID r = rid then Some r else None))"

definition pends :: "string \<Rightarrow> familyState \<Rightarrow> bool" where
  "pends rid f = (case pending f of None \<Rightarrow> False | Some r \<Rightarrow> rId r = rid)"

definition settle :: "familyState \<Rightarrow> familyState" where
  "settle f = (case pending f of None \<Rightarrow> f | Some r \<Rightarrow> f\<lparr>reported := dAddress (rData r), pending := None\<rparr>)"

definition Acknowledge :: "save_env \<Rightarrow> string \<Rightarrow> Monitor \<Rightarrow> (bool \<times> monitor_error option) \<times> Monitor" where
  "Acknowledge env rid m = (case acks rid m of
     Some r \<Rightarrow>
       (let (err, m') = mcommit env (with_attempt None m) m
        in case err of Some er \<Rightarrow> ((True, Some (MFileError er)), m')
           | None \<Rightarrow> ((True, None), m'\<lparr>fam4 := (fam4 m')\<lparr>reported := oAddress r\<rparr>, wakeIPv4 := True\<rparr>))
   | None \<Rightarrow>
       if pends rid (fam4 m) then ((True, None), m\<lparr>fam4 := settle (fam4 m), wakeIPv4 := True\<rparr>)
       else if pends rid (fam6 m) then ((True, None), m\<lparr>fam6 := settle (fam6 m), wakeIPv6 := True\<rparr>)
       else ((False, None), m))"

section \<open>Steps of the two loops\<close>

definition body :: "addressReport \<Rightarrow> ReportBody" where
  "body r = \<lparr>bReportID = rId r, bData = KindAddress (rData r)\<rparr>"

definition outcomeReport :: "changeAttempt \<Rightarrow> outcome \<Rightarrow> ReportBody" where
  "outcomeReport a r = \<lparr>bReportID = oReportID r, bData =
     (if oChanged r then KindAddress \<lparr>dFamily = ''ipv4'', dAddress = oAddress r, dObservedAt = oObservedAt r,
          dCommandID = Some (aCommandID a)\<rparr>
      else KindUnchanged \<lparr>uCommandID = aCommandID a, uAddress = oAddress r, uObservedAt = oObservedAt r\<rparr>)\<rparr>"

definition observed :: "string \<Rightarrow> string \<Rightarrow> string \<Rightarrow> string \<Rightarrow> familyState \<Rightarrow> ReportBody option \<times> familyState" where
  "observed rid address observedAt family f =
     (if \<not> announce f \<and> address = reported f then (None, f)
      else (let r = \<lparr>rId = rid, rData = \<lparr>dFamily = family, dAddress = address, dObservedAt = observedAt, dCommandID = None\<rparr>\<rparr>
            in (Some (body r), f\<lparr>announce := False, pending := Some r\<rparr>)))"

text \<open>The first part of \<open>stepIPv4\<close>: what is waiting is published again; \<open>None\<close> means observe.\<close>

definition waiting4 :: "Monitor \<Rightarrow> ReportBody option" where
  "waiting4 m = (case attempt m of Some a \<Rightarrow>
       (case aOutcome a of Some r \<Rightarrow> Some (outcomeReport a r) | None \<Rightarrow> map_option body (pending (fam4 m)))
     | None \<Rightarrow> map_option body (pending (fam4 m)))"

definition waiting6 :: "Monitor \<Rightarrow> ReportBody option" where
  "waiting6 m = map_option body (pending (fam6 m))"

text \<open>How one observation moves an open attempt; \<open>None\<close> when it says nothing yet.\<close>

definition settleAttempt :: "gotime \<Rightarrow> string \<Rightarrow> string \<Rightarrow> string \<Rightarrow> changeAttempt \<Rightarrow> changeAttempt option" where
  "settleAttempt now rid current observedAt a =
     (if current \<noteq> aAddress a then
        Some (a\<lparr>aOutcome := Some \<lparr>oReportID = rid, oChanged = True, oAddress = current, oObservedAt = observedAt\<rparr>\<rparr>)
      else if \<not> Before now (aReconcileAt a) then
        (let a' = a\<lparr>aConfirmations := aConfirmations a + 1\<rparr>
         in Some (if aConfirmations a' \<ge> changeUnchangedConfirmations
                  then a'\<lparr>aOutcome := Some \<lparr>oReportID = rid, oChanged = False, oAddress = current, oObservedAt = observedAt\<rparr>\<rparr>
                  else a'))
      else None)"

text \<open>The second part of \<open>stepIPv4\<close>, after an observation: the report to publish, if any.\<close>

definition stepIPv4 :: "save_env \<Rightarrow> gotime \<Rightarrow> string \<Rightarrow> string \<Rightarrow> string \<Rightarrow> Monitor \<Rightarrow>
    (monitor_error + ReportBody option) \<times> Monitor" where
  "stepIPv4 env now rid current observedAt m =
     (case attempt m of
        Some a \<Rightarrow>
          (case settleAttempt now rid current observedAt a of None \<Rightarrow> (Inr None, m)
           | Some a' \<Rightarrow>
               (let (err, m') = mcommit env (with_attempt (Some a') m) m
                in case err of Some er \<Rightarrow> (Inl (PersistFailed er), m')
                   | None \<Rightarrow> (Inr (map_option (outcomeReport a') (aOutcome a')), m')))
      | None \<Rightarrow>
          (let (r, f) = observed rid current observedAt ''ipv4'' (fam4 m) in (Inr r, m\<lparr>fam4 := f\<rparr>)))"

definition stepIPv6 :: "string \<Rightarrow> string \<Rightarrow> string \<Rightarrow> Monitor \<Rightarrow> ReportBody option \<times> Monitor" where
  "stepIPv6 rid current observedAt m =
     (let (r, f) = observed rid current observedAt ''ipv6'' (fam6 m) in (r, m\<lparr>fam6 := f\<rparr>))"

definition reconciling :: "Monitor \<Rightarrow> bool" where
  "reconciling m \<longleftrightarrow> attempt m \<noteq> None"

text \<open>\<open>UpdateSafe\<close> of the reporter: true when it returns no error.\<close>

definition UpdateSafe :: "Monitor \<Rightarrow> bool" where
  "UpdateSafe m \<longleftrightarrow> \<not> reconciling m"

section \<open>Configuration\<close>

record ip_watch_config =
  IntervalSeconds :: int
  IPv6 :: bool

definition ip_watch_ParseConfig :: "raw \<Rightarrow> ip_watch_config option" where
  "ip_watch_ParseConfig r =
     (case DecodeStrict (\<lambda>get. case (get ''interval_seconds'', get ''ipv6'') of
          (Some i, Some b) \<Rightarrow> (case (as_int i, as_bool b) of (Some n, Some v) \<Rightarrow> Some \<lparr>IntervalSeconds = n, IPv6 = v\<rparr> | _ \<Rightarrow> None)
        | _ \<Rightarrow> None) r [''interval_seconds'', ''ipv6''] of
        None \<Rightarrow> None
      | Some cfg \<Rightarrow> if IntervalSeconds cfg < 10 \<or> IntervalSeconds cfg > 300 then None else Some cfg)"

section \<open>The monitor among its callers\<close>

text \<open>The monitor, whether its IPv4 loop is observing, every IPv4 observation with the time it was
  weighed, and the reports Cloud acknowledged.\<close>

record mstate =
  mon :: Monitor
  observing :: bool
  obs :: "(gotime \<times> string) list"
  acked :: "string set"

inductive mstep :: "(string \<Rightarrow> gotime option) \<Rightarrow> (gotime \<Rightarrow> string) \<Rightarrow> mstate \<Rightarrow> mstate \<Rightarrow> bool" for parseTime fmt where
  looks: "\<not> observing s \<Longrightarrow> waiting4 (mon s) = None \<Longrightarrow> mstep parseTime fmt s (s\<lparr>observing := True\<rparr>)"
| fails: "mstep parseTime fmt s (s\<lparr>observing := False\<rparr>)"
| observes: "observing s \<Longrightarrow> is_ipv4 current \<Longrightarrow> ValidUUID rid \<Longrightarrow> t \<noteq> 0 \<Longrightarrow> parseTime (fmt t) = Some t \<Longrightarrow>
    stepIPv4 env now rid current (fmt t) (mon s) = (res, m) \<Longrightarrow>
    mstep parseTime fmt s (s\<lparr>mon := m, observing := False, obs := (now, current) # obs s\<rparr>)"
| observes6: "stepIPv6 rid current (fmt t) (mon s) = (res, m) \<Longrightarrow> mstep parseTime fmt s (s\<lparr>mon := m\<rparr>)"
| arms: "0 < t \<Longrightarrow> ArmChange env cmd addr t (mon s) = (err, m) \<Longrightarrow> mstep parseTime fmt s (s\<lparr>mon := m\<rparr>)"
| cancels: "CancelChange env cmd (mon s) = (err, m) \<Longrightarrow> mstep parseTime fmt s (s\<lparr>mon := m\<rparr>)"
| acknowledges: "Acknowledge env rid (mon s) = (res, m) \<Longrightarrow>
    mstep parseTime fmt s (s\<lparr>mon := m, acked := insert rid (acked s)\<rparr>)"
| readies: "mstep parseTime fmt s (s\<lparr>mon := NotifyControlReady (mon s)\<rparr>)"
| reopens: "OpenMonitor parseTime (mfile (mon s)) iv v6 = Inr m \<Longrightarrow>
    mstep parseTime fmt s (s\<lparr>mon := m, observing := False\<rparr>)"

definition minit :: mstate where
  "minit = \<lparr>mon = new_monitor (10 * second) True \<lparr>contents = NoFile, temporaries = 0\<rparr> \<lparr>mSchemaVersion = 1, mChangeAttempt = None\<rparr>,
     observing = False, obs = [], acked = {}\<rparr>"

inductive mreach :: "(string \<Rightarrow> gotime option) \<Rightarrow> (gotime \<Rightarrow> string) \<Rightarrow> mstate \<Rightarrow> bool" for parseTime fmt where
  mstart: "mreach parseTime fmt minit"
| mmore: "mreach parseTime fmt s \<Longrightarrow> mstep parseTime fmt s t \<Longrightarrow> mreach parseTime fmt t"

section \<open>The invariant\<close>

text \<open>How often the armed address was seen once the grace was over.\<close>

definition confirmed :: "(gotime \<times> string) list \<Rightarrow> changeAttempt \<Rightarrow> nat" where
  "confirmed os a = length (filter (\<lambda>(t, x). x = aAddress a \<and> aReconcileAt a \<le> t) os)"

definition evidence :: "(gotime \<times> string) list \<Rightarrow> changeAttempt \<Rightarrow> outcome \<Rightarrow> bool" where
  "evidence os a r \<longleftrightarrow> (\<exists>t. (t, oAddress r) \<in> set os) \<and> (oChanged r \<longleftrightarrow> oAddress r \<noteq> aAddress a) \<and>
     (\<not> oChanged r \<longrightarrow> 2 \<le> confirmed os a)"

definition attempt_ok :: "(string \<Rightarrow> gotime option) \<Rightarrow> (gotime \<times> string) list \<Rightarrow> changeAttempt \<Rightarrow> bool" where
  "attempt_ok parseTime os a \<longleftrightarrow> ValidUUID (aCommandID a) \<and> is_ipv4 (aAddress a) \<and> aReconcileAt a \<noteq> 0 \<and>
     0 \<le> aConfirmations a \<and> aConfirmations a \<le> int (confirmed os a) \<and>
     (case aOutcome a of None \<Rightarrow> True | Some r \<Rightarrow> validOutcome parseTime (aAddress a) r \<and> evidence os a r)"

definition state_ok :: "(string \<Rightarrow> gotime option) \<Rightarrow> (gotime \<times> string) list \<Rightarrow> monitorState \<Rightarrow> bool" where
  "state_ok parseTime os p \<longleftrightarrow> mSchemaVersion p = 1 \<and>
     (case mChangeAttempt p of None \<Rightarrow> True | Some a \<Rightarrow> attempt_ok parseTime os a)"

definition mfile_ok :: "(string \<Rightarrow> gotime option) \<Rightarrow> (gotime \<times> string) list \<Rightarrow> monitorState JSONFile \<Rightarrow> bool" where
  "mfile_ok parseTime os f \<longleftrightarrow> Load f = Inr None \<or> (\<exists>p. Load f = Inr (Some p) \<and> state_ok parseTime os p)"

definition durable_ok :: "(string \<Rightarrow> gotime option) \<Rightarrow> (gotime \<times> string) list \<Rightarrow> Monitor \<Rightarrow> bool" where
  "durable_ok parseTime os m \<longleftrightarrow> state_ok parseTime os (persisted m) \<and> mfile_ok parseTime os (mfile m)"

lemma confirmed_mono: "confirmed os a \<le> confirmed (x # os) a"
  by (simp add: confirmed_def)

lemma evidence_mono: "evidence os a r \<Longrightarrow> evidence (x # os) a r"
  using confirmed_mono [of os a x] by (auto simp: evidence_def)

lemma attempt_ok_mono: "attempt_ok parseTime os a \<Longrightarrow> attempt_ok parseTime (x # os) a"
  using confirmed_mono [of os a x] by (auto simp: attempt_ok_def intro: evidence_mono split: option.splits)

lemma durable_ok_mono: "durable_ok parseTime os m \<Longrightarrow> durable_ok parseTime (x # os) m"
  by (auto simp: durable_ok_def state_ok_def mfile_ok_def intro: attempt_ok_mono split: option.splits)

lemma validate_ok: "state_ok parseTime os p \<Longrightarrow> validateMonitorState parseTime p = None"
  by (auto simp: state_ok_def attempt_ok_def validateMonitorState_def IsZero_def split: option.splits)

lemma mcommit_cases:
  assumes "mcommit env n m = (err, m')"
  shows "persisted m' = (if err = None then n else persisted m)" "fam4 m' = fam4 m" "fam6 m' = fam6 m"
    "err = None \<Longrightarrow> Load (mfile m') = Inr (Some n)"
    "Load (mfile m') = Load (mfile m) \<or> Load (mfile m') = Inr (Some n)"
  using assms Save_Load_cases [of env n "mfile m"] Save_then_Load [of env n "mfile m"]
  by (auto simp: mcommit_def split: prod.splits option.splits)

lemma mcommit_ok:
  assumes "durable_ok parseTime os m" "state_ok parseTime os n" "mcommit env n m = (err, m')"
  shows "durable_ok parseTime os m'"
  using mcommit_cases [OF assms(3)] assms(1,2) by (auto simp: durable_ok_def mfile_ok_def)

lemma durable_ok_cong:
  "persisted m = persisted m' \<Longrightarrow> mfile m = mfile m' \<Longrightarrow> durable_ok parseTime os m = durable_ok parseTime os m'"
  by (simp add: durable_ok_def)

lemma state_ok_with_attempt:
  "durable_ok parseTime os m \<Longrightarrow> (\<And>a. x = Some a \<Longrightarrow> attempt_ok parseTime os a) \<Longrightarrow> state_ok parseTime os (with_attempt x m)"
  by (auto simp: durable_ok_def state_ok_def with_attempt_def split: option.splits)

lemma attempt_ok_current:
  "durable_ok parseTime os m \<Longrightarrow> attempt m = Some a \<Longrightarrow> attempt_ok parseTime os a"
  by (auto simp: durable_ok_def state_ok_def)

section \<open>Each operation\<close>

lemma ArmChange_ok:
  assumes "durable_ok parseTime os m" "0 < t" "ArmChange env cmd addr t m = (err, m')"
  shows "durable_ok parseTime os m'"
    and "attempt m' \<noteq> None \<longrightarrow> pending (fam4 m') = None \<or> attempt m \<noteq> None \<and> fam4 m' = fam4 m"
    and "(m' = m) \<or> (attempt m = None \<and> (\<forall>a. attempt m' = Some a \<longrightarrow> aOutcome a = None))"
proof -
  let ?a = "\<lparr>aCommandID = cmd, aAddress = addr, aReconcileAt = t + changeReconcileGrace, aConfirmations = 0, aOutcome = None\<rparr>"
  have ok: "attempt_ok parseTime os ?a" if "ValidUUID cmd" "is_ipv4 addr"
    using that assms(2) by (simp add: attempt_ok_def changeReconcileGrace_def minute_def second_def)
  have "durable_ok parseTime os m' \<and>
    (attempt m' \<noteq> None \<longrightarrow> pending (fam4 m') = None \<or> attempt m \<noteq> None \<and> fam4 m' = fam4 m) \<and>
    (m' = m \<or> (attempt m = None \<and> (\<forall>a. attempt m' = Some a \<longrightarrow> aOutcome a = None)))"
  proof (cases "m' = m")
    case True
    with assms show ?thesis by (auto simp: ArmChange_def split: if_splits option.splits prod.splits)
  next
    case False
    with assms obtain e m1 where c: "ValidUUID cmd" "is_ipv4 addr" "attempt m = None" "pending (fam4 m) = None"
      "mcommit env (with_attempt (Some ?a) m) m = (e, m1)" "m' = (if e = None then m1\<lparr>wakeIPv4 := True\<rparr> else m1)"
      by (auto simp: ArmChange_def Let_def split: if_splits option.splits prod.splits)
    have "state_ok parseTime os (with_attempt (Some ?a) m)"
      using ok c by (intro state_ok_with_attempt [OF assms(1)]) simp
    then have "durable_ok parseTime os m1" by (rule mcommit_ok [OF assms(1) _ c(5)])
    with mcommit_cases [OF c(5)] c show ?thesis by (auto simp: durable_ok_def with_attempt_def)
  qed
  then show "durable_ok parseTime os m'"
    and "attempt m' \<noteq> None \<longrightarrow> pending (fam4 m') = None \<or> attempt m \<noteq> None \<and> fam4 m' = fam4 m"
    and "(m' = m) \<or> (attempt m = None \<and> (\<forall>a. attempt m' = Some a \<longrightarrow> aOutcome a = None))" by auto
qed

lemma CancelChange_ok:
  assumes "durable_ok parseTime os m" "CancelChange env cmd m = (err, m')"
  shows "durable_ok parseTime os m' \<and> fam4 m' = fam4 m \<and>
    (m' = m \<or> (\<exists>a. attempt m = Some a \<and> aOutcome a = None \<and> attempt m' \<in> {None, attempt m}))"
proof (cases "m' = m")
  case True
  with assms(1) show ?thesis by simp
next
  case False
  with assms(2) obtain a e where a: "attempt m = Some a" "aOutcome a = None" "mcommit env (with_attempt None m) m = (e, m')"
    by (auto simp: CancelChange_def split: option.splits if_splits prod.splits)
  have "durable_ok parseTime os m'"
    by (rule mcommit_ok [OF assms(1) state_ok_with_attempt [OF assms(1)] a(3)]) simp
  with mcommit_cases [OF a(3)] a show ?thesis by (auto simp: with_attempt_def)
qed

lemma Acknowledge_ok:
  assumes "durable_ok parseTime os m" "Acknowledge env rid m = (res, m')"
  shows "durable_ok parseTime os m' \<and> (pending (fam4 m) = None \<longrightarrow> pending (fam4 m') = None) \<and>
    ((persisted m' = persisted m \<and> mfile m' = mfile m) \<or>
     (\<exists>a r. attempt m = Some a \<and> aOutcome a = Some r \<and> oReportID r = rid \<and> attempt m' \<in> {None, attempt m}))"
proof (cases "acks rid m")
  case None
  with assms show ?thesis
    by (auto simp: Acknowledge_def settle_def durable_ok_def split: if_splits option.splits)
next
  case (Some r)
  then obtain a where a: "attempt m = Some a" "aOutcome a = Some r" "oReportID r = rid"
    by (auto simp: acks_def split: option.splits if_splits)
  from Some assms(2) obtain e m1 where c: "mcommit env (with_attempt None m) m = (e, m1)"
    "persisted m' = persisted m1" "mfile m' = mfile m1" "pending (fam4 m') = pending (fam4 m1)"
    by (auto simp: Acknowledge_def split: prod.splits option.splits)
  have "durable_ok parseTime os m1"
    by (rule mcommit_ok [OF assms(1) state_ok_with_attempt [OF assms(1)] c(1)]) simp
  with mcommit_cases [OF c(1)] a c show ?thesis by (auto simp: with_attempt_def durable_ok_def)
qed

lemma settleAttempt_ok:
  assumes a: "attempt_ok parseTime os a" and "is_ipv4 current" "ValidUUID rid" "t \<noteq> 0" "parseTime (fmt t) = Some t"
    and s: "settleAttempt now rid current (fmt t) a = Some a'" and none: "aOutcome a = None"
  shows "attempt_ok parseTime ((now, current) # os) a'"
proof (cases "current = aAddress a")
  case False
  with s have a': "a' = a\<lparr>aOutcome := Some \<lparr>oReportID = rid, oChanged = True, oAddress = current, oObservedAt = fmt t\<rparr>\<rparr>"
    by (simp add: settleAttempt_def)
  have "confirmed ((now, current) # os) a' = confirmed os a" using False by (simp add: a' confirmed_def)
  with a assms False show ?thesis
    by (auto simp: a' attempt_ok_def validOutcome_def evidence_def IsZero_def)
next
  case True
  with s have now: "aReconcileAt a \<le> now" by (auto simp: settleAttempt_def Before_def split: if_splits)
  define c where "c = aConfirmations a + 1"
  have a': "a' = a\<lparr>aConfirmations := c, aOutcome := (if c \<ge> 2 then Some \<lparr>oReportID = rid, oChanged = False,
      oAddress = current, oObservedAt = fmt t\<rparr> else None)\<rparr>"
    using s True now none
    by (auto simp: settleAttempt_def Before_def Let_def c_def changeUnchangedConfirmations_def)
  have n: "confirmed ((now, current) # os) a' = Suc (confirmed os a)" using True now by (simp add: a' confirmed_def)
  have "c \<le> int (Suc (confirmed os a))" "0 \<le> c" using a by (auto simp: attempt_ok_def c_def)
  with a assms True n show ?thesis
    by (auto simp: a' attempt_ok_def validOutcome_def evidence_def IsZero_def)
qed

lemma stepIPv4_ok:
  assumes d: "durable_ok parseTime os m" and "is_ipv4 current" "ValidUUID rid" "t \<noteq> 0" "parseTime (fmt t) = Some t"
    and s: "stepIPv4 env now rid current (fmt t) m = (res, m')" and none: "\<And>a. attempt m = Some a \<Longrightarrow> aOutcome a = None"
  shows "durable_ok parseTime ((now, current) # os) m' \<and>
    (attempt m = None \<longrightarrow> attempt m' = None \<and> persisted m' = persisted m \<and> mfile m' = mfile m) \<and>
    (attempt m \<noteq> None \<longrightarrow> fam4 m' = fam4 m) \<and>
    (\<forall>a r. attempt m' = Some a \<and> aOutcome a = Some r \<longrightarrow> Load (mfile m') = Inr (Some (persisted m')))"
proof (cases "attempt m")
  case None
  with d s durable_ok_mono [OF d, of "(now, current)"] show ?thesis
    by (auto simp: stepIPv4_def durable_ok_def split: prod.splits)
next
  case (Some a)
  show ?thesis
  proof (cases "settleAttempt now rid current (fmt t) a")
    case None
    with Some s d durable_ok_mono [OF d, of "(now, current)"] none show ?thesis by (simp add: stepIPv4_def)
  next
    case (Some a')
    have ok: "attempt_ok parseTime ((now, current) # os) a'"
      by (rule settleAttempt_ok [where fmt = fmt and t = t, OF attempt_ok_current [OF d \<open>attempt m = Some a\<close>] assms(2-5) Some none [OF \<open>attempt m = Some a\<close>]])
    from s Some \<open>attempt m = Some a\<close> obtain e where c: "mcommit env (with_attempt (Some a') m) m = (e, m')"
      by (auto simp: stepIPv4_def split: prod.splits option.splits)
    have "durable_ok parseTime ((now, current) # os) m'"
      by (rule mcommit_ok [OF durable_ok_mono [OF d] state_ok_with_attempt [OF durable_ok_mono [OF d]] c]) (use ok in simp)
    with mcommit_cases [OF c] \<open>attempt m = Some a\<close> none show ?thesis by (auto split: if_splits)
  qed
qed

lemma OpenMonitor_ok:
  assumes "mfile_ok parseTime os f" "OpenMonitor parseTime f iv v6 = Inr m"
  shows "durable_ok parseTime os m \<and> fam4 m = fresh_family \<and> mfile m = f \<and>
    (Load f = Inr None \<longrightarrow> attempt m = None) \<and> (\<forall>p. Load f = Inr (Some p) \<longrightarrow> persisted m = p)"
  using assms by (auto simp: OpenMonitor_def durable_ok_def mfile_ok_def new_monitor_def state_ok_def
      split: if_splits sum.splits option.splits)

section \<open>Every reachable state\<close>

definition minv :: "(string \<Rightarrow> gotime option) \<Rightarrow> mstate \<Rightarrow> bool" where
  "minv parseTime s \<longleftrightarrow> durable_ok parseTime (obs s) (mon s) \<and>
     (attempt (mon s) \<noteq> None \<longrightarrow> pending (fam4 (mon s)) = None) \<and>
     (observing s \<longrightarrow> (\<forall>a. attempt (mon s) = Some a \<longrightarrow> aOutcome a = None)) \<and>
     (\<forall>a r. attempt (mon s) = Some a \<longrightarrow> aOutcome a = Some r \<longrightarrow>
        (\<exists>p. Load (mfile (mon s)) = Inr (Some p) \<and> mChangeAttempt p = Some a) \<or> oReportID r \<in> acked s)"

lemma minvD:
  assumes "minv parseTime s"
  shows "durable_ok parseTime (obs s) (mon s)" "attempt (mon s) = Some a \<Longrightarrow> pending (fam4 (mon s)) = None"
    "observing s \<Longrightarrow> attempt (mon s) = Some a \<Longrightarrow> aOutcome a = None"
    "attempt (mon s) = Some a \<Longrightarrow> aOutcome a = Some r \<Longrightarrow>
      (\<exists>p. Load (mfile (mon s)) = Inr (Some p) \<and> mChangeAttempt p = Some a) \<or> oReportID r \<in> acked s"
  using assms by (auto simp: minv_def)

lemma minv_observes:
  assumes i: "minv parseTime s" and o: "observing s" and h: "is_ipv4 current" "ValidUUID rid" "t \<noteq> 0" "parseTime (fmt t) = Some t"
    and st: "stepIPv4 env now rid current (fmt t) (mon s) = (res, m)"
  shows "minv parseTime (s\<lparr>mon := m, observing := False, obs := (now, current) # obs s\<rparr>)"
proof -
  have "\<And>a. attempt (mon s) = Some a \<Longrightarrow> aOutcome a = None" using minvD(3) [OF i o] .
  from stepIPv4_ok [where fmt = fmt and t = t, OF minvD(1) [OF i] h st this]
  have r: "durable_ok parseTime ((now, current) # obs s) m"
    "attempt (mon s) = None \<Longrightarrow> attempt m = None" "attempt (mon s) \<noteq> None \<Longrightarrow> fam4 m = fam4 (mon s)"
    "\<And>a r. attempt m = Some a \<Longrightarrow> aOutcome a = Some r \<Longrightarrow> Load (mfile m) = Inr (Some (persisted m))" by auto
  have "pending (fam4 m) = None" if "attempt m \<noteq> None"
    using r(2,3) that minvD(2) [OF i] by fastforce
  with r show ?thesis by (auto simp: minv_def)
qed

lemma minv_arms:
  assumes i: "minv parseTime s" and t: "0 < t" and a: "ArmChange env cmd addr t (mon s) = (err, m)"
  shows "minv parseTime (s\<lparr>mon := m\<rparr>)"
proof -
  note r = ArmChange_ok [OF minvD(1) [OF i] t a]
  from r(3) show ?thesis
  proof
    assume "m = mon s"
    with i show ?thesis by (simp add: minv_def)
  next
    assume "attempt (mon s) = None \<and> (\<forall>a. attempt m = Some a \<longrightarrow> aOutcome a = None)"
    with r(1,2) show ?thesis by (auto simp: minv_def)
  qed
qed

lemma minv_cancels:
  assumes i: "minv parseTime s" and c: "CancelChange env cmd (mon s) = (err, m)"
  shows "minv parseTime (s\<lparr>mon := m\<rparr>)"
proof -
  from CancelChange_ok [OF minvD(1) [OF i] c] have r: "durable_ok parseTime (obs s) m" "fam4 m = fam4 (mon s)"
    "m = mon s \<or> (\<exists>a. attempt (mon s) = Some a \<and> aOutcome a = None \<and> attempt m \<in> {None, attempt (mon s)})" by auto
  from r(3) show ?thesis
  proof
    assume "m = mon s"
    with i show ?thesis by (simp add: minv_def)
  next
    assume "\<exists>a. attempt (mon s) = Some a \<and> aOutcome a = None \<and> attempt m \<in> {None, attempt (mon s)}"
    with r(1,2) minvD(2) [OF i] show ?thesis by (auto simp: minv_def)
  qed
qed

lemma minv_acknowledges:
  assumes i: "minv parseTime s" and c: "Acknowledge env rid (mon s) = (res, m)"
  shows "minv parseTime (s\<lparr>mon := m, acked := insert rid (acked s)\<rparr>)"
proof -
  from Acknowledge_ok [OF minvD(1) [OF i] c] have r: "durable_ok parseTime (obs s) m"
    "pending (fam4 (mon s)) = None \<longrightarrow> pending (fam4 m) = None"
    "(persisted m = persisted (mon s) \<and> mfile m = mfile (mon s)) \<or>
     (\<exists>a r. attempt (mon s) = Some a \<and> aOutcome a = Some r \<and> oReportID r = rid \<and> attempt m \<in> {None, attempt (mon s)})" by auto
  from r(3) show ?thesis
  proof
    assume "persisted m = persisted (mon s) \<and> mfile m = mfile (mon s)"
    with r(1,2) i show ?thesis by (auto simp: minv_def)
  next
    assume "\<exists>a r. attempt (mon s) = Some a \<and> aOutcome a = Some r \<and> oReportID r = rid \<and> attempt m \<in> {None, attempt (mon s)}"
    with r(1,2) minvD(2,3) [OF i] show ?thesis by (auto simp: minv_def)
  qed
qed

lemma minv_reopens:
  assumes i: "minv parseTime s" and o: "OpenMonitor parseTime (mfile (mon s)) iv v6 = Inr m"
  shows "minv parseTime (s\<lparr>mon := m, observing := False\<rparr>)"
proof -
  have f: "mfile_ok parseTime (obs s) (mfile (mon s))" using minvD(1) [OF i] by (simp add: durable_ok_def)
  from OpenMonitor_ok [OF f o] f show ?thesis by (auto simp: minv_def fresh_family_def mfile_ok_def)
qed

lemma minv_step: "mstep parseTime fmt s t \<Longrightarrow> minv parseTime s \<Longrightarrow> minv parseTime t"
proof (induction rule: mstep.induct)
  case (looks s)
  then show ?case by (auto simp: minv_def waiting4_def split: option.splits)
next
  case (observes6 rid current t s res m)
  then show ?case by (auto simp: stepIPv6_def minv_def durable_ok_def split: prod.splits)
next
  case (readies s)
  then show ?case by (auto simp: minv_def NotifyControlReady_def durable_ok_def)
qed (simp_all add: minv_observes minv_arms minv_cancels minv_acknowledges minv_reopens, simp add: minv_def)

lemma minv_reach: "mreach parseTime fmt s \<Longrightarrow> minv parseTime s"
proof (induction rule: mreach.induct)
  case mstart
  show ?case by (simp add: minv_def minit_def new_monitor_def durable_ok_def state_ok_def mfile_ok_def Load.simps)
qed (rule minv_step)

section \<open>Main properties\<close>

text \<open>A report is about an attempt: it names its command.\<close>

definition names :: "string \<Rightarrow> ReportBody \<Rightarrow> bool" where
  "names cmd b = (case bData b of KindAddress d \<Rightarrow> dCommandID d = Some cmd | KindUnchanged d \<Rightarrow> uCommandID d = cmd)"

lemma names_outcomeReport: "names (aCommandID a) (outcomeReport a r)"
  by (simp add: names_def outcomeReport_def)

lemma settleAttempt_command: "settleAttempt now rid current at a = Some a' \<Longrightarrow> aCommandID a' = aCommandID a"
  by (auto simp: settleAttempt_def Let_def split: if_splits)

text \<open>A run: the node reports 8.8.8.8, a ChangeIP is armed, and 1.1.1.1 is observed.\<close>

definition ex_id :: "char \<Rightarrow> string" where
  "ex_id c = ''00000000-0000-1000-8000-00000000000'' @ [c]"

definition ex_time :: "string \<Rightarrow> gotime option" where "ex_time s = Some 1"
definition ex_fmt :: "gotime \<Rightarrow> string" where "ex_fmt t = ''t''"

definition ex_outcome :: outcome where
  "ex_outcome = \<lparr>oReportID = ex_id (CHR ''3''), oChanged = True, oAddress = ''1.1.1.1'', oObservedAt = ''t''\<rparr>"

definition ex_attempt :: changeAttempt where
  "ex_attempt = \<lparr>aCommandID = ex_id (CHR ''2''), aAddress = ''8.8.8.8'', aReconcileAt = 1 + changeReconcileGrace,
     aConfirmations = 0, aOutcome = None\<rparr>"

definition ex_monitor :: "bool \<Rightarrow> monitorState JSONFile \<Rightarrow> changeAttempt option \<Rightarrow> Monitor" where
  "ex_monitor w f a = \<lparr>mfile = f, interval = 10 * second, wakeIPv4 = w, wakeIPv6 = False, observeIPv6 = True,
     persisted = \<lparr>mSchemaVersion = 1, mChangeAttempt = a\<rparr>,
     fam4 = \<lparr>reported = ''8.8.8.8'', pending = None, announce = False\<rparr>, fam6 = fresh_family\<rparr>"

definition ex_saved :: "changeAttempt option \<Rightarrow> monitorState JSONFile" where
  "ex_saved a = \<lparr>contents = Contents [Value \<lparr>mSchemaVersion = 1, mChangeAttempt = a\<rparr>], temporaries = 0\<rparr>"

definition ex_settled :: mstate where
  "ex_settled = \<lparr>mon = ex_monitor True (ex_saved (Some (ex_attempt\<lparr>aOutcome := Some ex_outcome\<rparr>))) (Some (ex_attempt\<lparr>aOutcome := Some ex_outcome\<rparr>)),
     observing = False, obs = [(9, ''1.1.1.1''), (5, ''8.8.8.8'')], acked = {ex_id (CHR ''1'')}\<rparr>"

lemma ex_uuid: "c \<in> set digits \<Longrightarrow> ValidUUID (ex_id c)"
  by (auto simp: ValidUUID_def ex_id_def uuidPattern_def hexits_def digits_def numeral_eq_Suc)

lemma ex_ipv4: "is_ipv4 ''8.8.8.8''" "is_ipv4 ''1.1.1.1''"
  by (simp_all add: is_ipv4_def ParseAddr_def parseIPv4_def parse_octet_def digits_def digit_val_def hexits_def Is4_def)

lemma ex_settled_reach: "mreach ex_time ex_fmt ex_settled"
proof -
  note ex_defs = Let_def ex_monitor_def ex_saved_def ex_attempt_def ex_outcome_def ex_fmt_def
  let ?rep = "\<lparr>rId = ex_id (CHR ''1''), rData = \<lparr>dFamily = ''ipv4'', dAddress = ''8.8.8.8'', dObservedAt = ''t'', dCommandID = None\<rparr>\<rparr>"
  let ?s1 = "minit\<lparr>observing := True\<rparr>"
  let ?s2 = "minit\<lparr>mon := (mon minit)\<lparr>fam4 := \<lparr>reported = [], pending = Some ?rep, announce = False\<rparr>\<rparr>, obs := [(5, ''8.8.8.8'')]\<rparr>"
  let ?file = "\<lparr>contents = NoFile, temporaries = 0\<rparr>"
  let ?s3 = "\<lparr>mon = ex_monitor True ?file None, observing = False, obs = [(5, ''8.8.8.8'')], acked = {ex_id (CHR ''1'')}\<rparr>"
  let ?s4 = "?s3\<lparr>mon := ex_monitor True (ex_saved (Some ex_attempt)) (Some ex_attempt)\<rparr>"
  let ?s5 = "?s4\<lparr>observing := True\<rparr>"
  have 1: "mreach ex_time ex_fmt ?s1"
    by (rule mreach.mmore [OF mreach.mstart mstep.looks]) (simp_all add: minit_def new_monitor_def waiting4_def fresh_family_def)
  have "stepIPv4 all_ok 5 (ex_id (CHR ''1'')) ''8.8.8.8'' (ex_fmt 1) (mon ?s1) = (Inr (Some (body ?rep)), mon ?s2)"
    by (simp add: stepIPv4_def minit_def new_monitor_def fresh_family_def observed_def ex_defs)
  from mreach.mmore [OF 1 mstep.observes [where parseTime = ex_time and fmt = ex_fmt and t = 1 and s = ?s1, OF _ _ _ _ _ this]]
  have 2: "mreach ex_time ex_fmt ?s2"
    by (simp add: ex_ipv4 ex_uuid digits_def ex_time_def) (simp add: minit_def)
  have "Acknowledge all_ok (ex_id (CHR ''1'')) (mon ?s2) = ((True, None), mon ?s3)"
    by (simp add: Acknowledge_def acks_def minit_def new_monitor_def pends_def settle_def ex_defs)
  from mreach.mmore [OF 2 mstep.acknowledges [OF this]] have 3: "mreach ex_time ex_fmt ?s3" by (simp add: minit_def)
  have "ArmChange all_ok (ex_id (CHR ''2'')) ''8.8.8.8'' 1 (mon ?s3) = (None, mon ?s4)"
    by (simp add: ArmChange_def ex_uuid ex_ipv4 digits_def IsZero_def with_attempt_def mcommit_def ex_defs)
  from mreach.mmore [OF 3 mstep.arms [OF _ this]] have 4: "mreach ex_time ex_fmt ?s4" by simp
  have 5: "mreach ex_time ex_fmt ?s5"
    by (rule mreach.mmore [OF 4 mstep.looks]) (simp_all add: waiting4_def ex_defs)
  have "stepIPv4 all_ok 9 (ex_id (CHR ''3'')) ''1.1.1.1'' (ex_fmt 1) (mon ?s5) =
      (Inr (Some (outcomeReport (ex_attempt\<lparr>aOutcome := Some ex_outcome\<rparr>) ex_outcome)), mon ex_settled)"
    by (simp add: stepIPv4_def settleAttempt_def with_attempt_def mcommit_def ex_settled_def ex_defs)
  from mreach.mmore [OF 5 mstep.observes [where parseTime = ex_time and fmt = ex_fmt and t = 1 and s = ?s5, OF _ _ _ _ _ this]] show ?thesis
    by (simp add: ex_ipv4 ex_uuid digits_def ex_time_def ex_settled_def)
qed

lemma ex_settled_attempt:
  "attempt (mon ex_settled) = Some (ex_attempt\<lparr>aOutcome := Some ex_outcome\<rparr>)"
  by (simp add: ex_settled_def ex_monitor_def)

text \<open>
  C5. An attempt's outcome is what was observed: in every state the monitor can reach, through
  failed saves and restarts, an outcome names an observed address; it says \<open>changed\<close> exactly
  when that differs from the address before, and \<open>unchanged\<close> only after the old address was
  observed at least twice when the two minutes of grace were over.
\<close>

theorem outcome_evidence:
  assumes "mreach parseTime fmt s" "attempt (mon s) = Some a" "aOutcome a = Some r"
  shows "(\<exists>t. (t, oAddress r) \<in> set (obs s)) \<and> (oChanged r \<longleftrightarrow> oAddress r \<noteq> aAddress a) \<and>
    (\<not> oChanged r \<longrightarrow> 2 \<le> length (filter (\<lambda>(t, x). x = aAddress a \<and> aReconcileAt a \<le> t) (obs s)))"
proof -
  have "attempt_ok parseTime (obs s) a"
    using minvD(1) [OF minv_reach [OF assms(1)]] assms(2) by (rule attempt_ok_current)
  then show ?thesis using assms(3) by (simp add: attempt_ok_def evidence_def confirmed_def)
qed

theorem outcome_evidence_witness:
  "(\<exists>t. (t, ''1.1.1.1'') \<in> set (obs ex_settled)) \<and> oChanged ex_outcome \<and> oAddress ex_outcome \<noteq> aAddress ex_attempt"
proof -
  have "aOutcome (ex_attempt\<lparr>aOutcome := Some ex_outcome\<rparr>) = Some ex_outcome" by simp
  from outcome_evidence [OF ex_settled_reach ex_settled_attempt this] show ?thesis
    by (simp add: ex_outcome_def ex_attempt_def)
qed

text \<open>
  C16. An outcome is not lost: whatever happens next, a failing save and a restart of the process
  included, the attempt keeps its outcome, unless Cloud has acknowledged its report.
\<close>

theorem outcome_kept:
  assumes "mreach parseTime fmt s" "attempt (mon s) = Some a" "aOutcome a = Some r" "mstep parseTime fmt s t"
  shows "attempt (mon t) = Some a \<or> oReportID r \<in> acked t"
proof -
  note i = minv_reach [OF assms(1)]
  from assms(4) i assms(2,3) show ?thesis
  proof (induction rule: mstep.induct)
    case (observes s current rid t env now res m)
    then show ?case using minvD(3) by fastforce
  next
    case (observes6 rid current t s res m)
    then show ?case by (auto simp: stepIPv6_def split: prod.splits)
  next
    case (arms t env cmd addr s err m)
    with ArmChange_ok(3) [OF minvD(1) [OF arms(3)] arms(1,2)] show ?case by auto
  next
    case (cancels env cmd s err m)
    with CancelChange_ok [OF minvD(1) [OF cancels(2)] cancels(1)] show ?case by auto
  next
    case (acknowledges env rid s res m)
    with Acknowledge_ok [OF minvD(1) [OF acknowledges(2)] acknowledges(1)] show ?case by auto
  next
    case (reopens s iv v6 m)
    have "mfile_ok parseTime (obs s) (mfile (mon s))" using minvD(1) [OF reopens(2)] by (simp add: durable_ok_def)
    from OpenMonitor_ok [OF this reopens(1)] minvD(4) [OF reopens(2-4)] show ?case by auto
  qed (simp_all add: NotifyControlReady_def)
qed

theorem outcome_kept_witness:
  "attempt (NotifyControlReady (mon ex_settled)) = Some (ex_attempt\<lparr>aOutcome := Some ex_outcome\<rparr>)"
proof -
  have o: "aOutcome (ex_attempt\<lparr>aOutcome := Some ex_outcome\<rparr>) = Some ex_outcome" by simp
  have "oReportID ex_outcome \<notin> acked ex_settled" by (simp add: ex_outcome_def ex_settled_def ex_id_def)
  with outcome_kept [OF ex_settled_reach ex_settled_attempt o mstep.readies] show ?thesis by simp
qed

text \<open>
  While an attempt is open the address is reported only as its outcome: whatever the IPv4
  loop publishes names the attempt's command, so a change it caused is never reported as a
  natural one, and no natural report is waiting.
\<close>

theorem attempt_owns_reports:
  assumes "mreach parseTime fmt s" "attempt (mon s) = Some a"
  shows "(\<forall>b. waiting4 (mon s) = Some b \<longrightarrow> names (aCommandID a) b) \<and>
    (\<forall>env now rid current at b m. stepIPv4 env now rid current at (mon s) = (Inr (Some b), m) \<longrightarrow> names (aCommandID a) b) \<and>
    pending (fam4 (mon s)) = None"
proof -
  have p: "pending (fam4 (mon s)) = None" using minvD(2) [OF minv_reach [OF assms(1)] assms(2)] .
  have "names (aCommandID a) b" if "stepIPv4 env now rid current at (mon s) = (Inr (Some b), m)" for env now rid current at b m
  proof -
    from that assms(2) obtain a' r where "settleAttempt now rid current at a = Some a'" "b = outcomeReport a' r"
      by (auto simp: stepIPv4_def split: option.splits prod.splits)
    then show ?thesis using settleAttempt_command names_outcomeReport [of a' r] by simp
  qed
  with p assms(2) show ?thesis by (auto simp: waiting4_def names_outcomeReport split: option.splits)
qed

theorem attempt_owns_reports_witness:
  "\<exists>b. waiting4 (mon ex_settled) = Some b \<and> names (ex_id (CHR ''2'')) b"
proof -
  obtain b where "waiting4 (mon ex_settled) = Some b" by (simp add: waiting4_def ex_settled_attempt)
  with attempt_owns_reports [OF ex_settled_reach ex_settled_attempt] show ?thesis by (auto simp: ex_attempt_def)
qed

text \<open>
  A restart always finds a file it can open: in every reachable state, opening the
  reconciliation file succeeds, with the attempt the file holds.
\<close>

theorem monitor_reopens:
  assumes "mreach parseTime fmt s" "10 * second \<le> iv" "iv \<le> 5 * minute"
  shows "\<exists>m. OpenMonitor parseTime (mfile (mon s)) iv v6 = Inr m \<and>
    (\<forall>p. Load (mfile (mon s)) = Inr (Some p) \<longrightarrow> persisted m = p)"
proof -
  have "mfile_ok parseTime (obs s) (mfile (mon s))"
    using minvD(1) [OF minv_reach [OF assms(1)]] by (simp add: durable_ok_def)
  with assms(2,3) show ?thesis by (auto simp: OpenMonitor_def mfile_ok_def validate_ok new_monitor_def)
qed

theorem monitor_reopens_witness:
  "\<exists>m. OpenMonitor ex_time (mfile (mon ex_settled)) (30 * second) False = Inr m \<and>
    persisted m = \<lparr>mSchemaVersion = 1, mChangeAttempt = Some (ex_attempt\<lparr>aOutcome := Some ex_outcome\<rparr>)\<rparr>"
proof -
  have iv: "10 * second \<le> 30 * second" "30 * second \<le> 5 * minute" by (simp_all add: second_def minute_def)
  have "Load (mfile (mon ex_settled)) = Inr (Some \<lparr>mSchemaVersion = 1, mChangeAttempt = Some (ex_attempt\<lparr>aOutcome := Some ex_outcome\<rparr>)\<rparr>)"
    by (simp add: ex_settled_def ex_monitor_def ex_saved_def Load.simps)
  with monitor_reopens [OF ex_settled_reach iv, of False] show ?thesis by auto
qed

end
