(* ===== verification/Text_Tools.thy ===== *)
theory Text_Tools
  imports Strconv
begin

text \<open>
  Two more library functions on text: the fields of a line and the cleaning of a rooted path.
\<close>

section \<open>Fields\<close>

lemma Fields_shorter: "dropWhile is_space s \<noteq> [] \<Longrightarrow> length (dropWhile (\<lambda>c. \<not> is_space c) (dropWhile is_space s)) < length s"
proof -
  assume ne: "dropWhile is_space s \<noteq> []"
  then have "\<not> is_space (hd (dropWhile is_space s))" by (rule hd_dropWhile)
  with ne have "length (dropWhile (\<lambda>c. \<not> is_space c) (dropWhile is_space s)) \<le> length (tl (dropWhile is_space s))"
    by (cases "dropWhile is_space s") (simp_all add: length_dropWhile_le)
  also have "\<dots> < length (dropWhile is_space s)" using ne by simp
  also have "\<dots> \<le> length s" by (rule length_dropWhile_le)
  finally show ?thesis .
qed

text \<open>\<open>strings.Fields\<close>\<close>

function Fields :: "string \<Rightarrow> string list" where
  "Fields s = (let t = dropWhile is_space s in
     if t = [] then [] else takeWhile (\<lambda>c. \<not> is_space c) t # Fields (dropWhile (\<lambda>c. \<not> is_space c) t))"
  by pat_completeness auto

termination by (relation "measure length") (auto simp: Fields_shorter)

declare Fields.simps [simp del]

section \<open>Paths\<close>

text \<open>\<open>path.Clean\<close> of a rooted path: empty and dot components go, a dot-dot takes the one before it
  away (and nothing at the root).\<close>

fun clean_parts :: "string list \<Rightarrow> string list \<Rightarrow> string list" where
  "clean_parts acc [] = rev acc"
| "clean_parts acc (p # ps) =
     (if p = [] \<or> p = ''.'' then clean_parts acc ps
      else if p = ''..'' then clean_parts (tl acc) ps
      else clean_parts (p # acc) ps)"

definition IsAbs :: "string \<Rightarrow> bool" where
  "IsAbs s = (case s of c # _ \<Rightarrow> c = CHR ''/'' | [] \<Rightarrow> False)"

definition Clean :: "string \<Rightarrow> string" where
  "Clean s = CHR ''/'' # Join ''/'' (clean_parts [] (Split (CHR ''/'') (tl s)))"

text \<open>\<open>filepath.Base\<close>: the last element of a path, without trailing slashes.\<close>

definition Base :: "string \<Rightarrow> string" where
  "Base s = (let t = rev (dropWhile (\<lambda>c. c = CHR ''/'') (rev s)) in
     if s = [] then ''.'' else if t = [] then ''/'' else last (Split (CHR ''/'') t))"

section \<open>Fields of words\<close>

definition is_word :: "string \<Rightarrow> bool" where
  "is_word w \<longleftrightarrow> w \<noteq> [] \<and> list_all (\<lambda>c. \<not> is_space c) w"

lemma Fields_space: "is_space c \<Longrightarrow> Fields (c # s) = Fields s"
  by (subst (1 2) Fields.simps) simp

lemma Fields_word: "is_word w \<Longrightarrow> s = [] \<or> is_space (hd s) \<Longrightarrow> Fields (w @ s) = w # Fields s"
proof -
  assume w: "is_word w" and s: "s = [] \<or> is_space (hd s)"
  have d: "dropWhile is_space (w @ s) = w @ s"
    using w by (cases w) (simp_all add: is_word_def)
  have t: "takeWhile (\<lambda>c. \<not> is_space c) (w @ s) = w" "dropWhile (\<lambda>c. \<not> is_space c) (w @ s) = s"
    using w s by (cases s; simp add: is_word_def list_all_iff takeWhile_append2 dropWhile_append2)+
  show ?thesis
    using w by (subst Fields.simps) (simp add: d t is_word_def)
qed

end
