(* ===== verification/Change_Ip.thy ===== *)
theory Change_Ip
  imports Ip_Monitor Text_Tools
begin

text \<open>
  The ChangeIP command: \<open>src/internal/modules/changeip/handler.go\<close>, its configuration in
  \<open>module.go\<close>, and how the two providers classify what happened
  (\<open>httpcurl/provider.go\<close>, \<open>command/provider.go\<close>). \<open>Run\<close> takes the reconciler it calls as
  arguments (\<open>arm\<close> and \<open>cancel\<close>, returning whether they succeeded), the observation, what the
  provider returns, and \<open>during\<close>: what the rest of the process does to the reconciler's state
  while the provider runs.
\<close>

section \<open>Providers\<close>

datatype TriggerState = TriggerConfirmed | TriggerUnknown | TriggerFailed

record provider_result =
  pState :: TriggerState
  pCode :: string
  pExitCode :: int
  pStartedAt :: gotime
  pFinishedAt :: gotime

text \<open>\<open>classify\<close> of the HTTP provider: curl's error, its exit code and the status it wrote.\<close>

definition classify :: "bool \<Rightarrow> int \<Rightarrow> string \<Rightarrow> TriggerState \<times> string" where
  "classify waitError exitCode status =
     (if status = ''200'' then
        (if \<not> waitError then (TriggerConfirmed, ''completed'') else (TriggerUnknown, ''trigger_outcome_unknown''))
      else if length status = 3 \<and> status \<noteq> ''000'' \<and> hd status \<in> set ''12345'' then (TriggerFailed, ''http_status_not_200'')
      else if exitCode = 6 \<or> exitCode = 7 \<or> exitCode = 35 then (TriggerFailed, ''request_failed'')
      else (TriggerUnknown, ''trigger_outcome_unknown''))"

text \<open>How a started process ended, for either provider: it was waited for, or its time ran out
  (or the caller cancelled) and it was killed.\<close>

datatype process_end = Waited bool int | TimedOut int | Cancelled int

fun http_result :: "process_end option \<Rightarrow> string \<Rightarrow> TriggerState \<times> string \<times> int" where
  "http_result None output = (TriggerFailed, ''request_failed'', -1)"
| "http_result (Some (Waited err code)) output =
     (let (st, c) = classify err code (TrimSpace output) in (st, c, code))"
| "http_result (Some (TimedOut code)) output = (TriggerUnknown, ''timed_out'', code)"
| "http_result (Some (Cancelled code)) output = (TriggerUnknown, ''cancelled'', code)"

text \<open>\<open>resultFromWait\<close>: the error of \<open>Wait\<close>, \<open>Some code\<close> for an exit status (-1 for a signal),
  \<open>None\<close> inside for any other error.\<close>

definition resultFromWait :: "int option option \<Rightarrow> int \<Rightarrow> TriggerState \<times> string \<times> int" where
  "resultFromWait waitError exitCode = (case waitError of
     None \<Rightarrow> (TriggerConfirmed, ''completed'', 0)
   | Some (Some code) \<Rightarrow> if code > 0 then (TriggerFailed, ''exited_nonzero'', code) else (TriggerUnknown, ''terminated'', exitCode)
   | Some None \<Rightarrow> (TriggerUnknown, ''terminated'', exitCode))"

section \<open>The handler\<close>

definition DecodePayload :: "raw \<Rightarrow> string option" where
  "DecodePayload r =
     (case DecodeStrict (\<lambda>get. Option.bind (get ''expected_ipv4'') as_string) r [''expected_ipv4''] of
        None \<Rightarrow> None | Some ip \<Rightarrow> if \<not> PublicIPv4 ip then None else Some ip)"

definition changeResult :: "(gotime \<Rightarrow> string) \<Rightarrow> string option \<Rightarrow> gotime \<Rightarrow> (string \<times> json) list option" where
  "changeResult fmt old at = Some [(''old_ipv4'', case old of None \<Rightarrow> JNull | Some ip \<Rightarrow> JStr ip), (''observed_at'', JStr (fmt at))]"

definition reconciliationPending :: "(gotime \<Rightarrow> string) \<Rightarrow> string option \<Rightarrow> gotime \<Rightarrow> ExecutionResult" where
  "reconciliationPending fmt old at = \<lparr>Outcome = ''succeeded'', Code = ''change_trigger_unknown'', Result = changeResult fmt old at\<rparr>"

definition failure :: "(gotime \<Rightarrow> string) \<Rightarrow> string \<Rightarrow> string option \<Rightarrow> gotime \<Rightarrow> ExecutionResult" where
  "failure fmt code old at = \<lparr>Outcome = ''failed'', Code = code, Result = changeResult fmt old at\<rparr>"

text \<open>The reconciler may be absent (\<open>None\<close>); what \<open>Run\<close> returns, the reconciler's state at the
  moment the provider was run (\<open>None\<close> if it was not), and the state at the end.\<close>

definition change_Run :: "(gotime \<Rightarrow> string) \<Rightarrow> gotime \<Rightarrow> (string \<times> gotime) option \<Rightarrow> provider_result \<Rightarrow>
    (string \<Rightarrow> string \<Rightarrow> gotime \<Rightarrow> 'm \<Rightarrow> bool \<times> 'm) option \<Rightarrow> (string \<Rightarrow> 'm \<Rightarrow> bool \<times> 'm) \<Rightarrow> ('m \<Rightarrow> 'm) \<Rightarrow>
    OperationOffer \<Rightarrow> 'm \<Rightarrow> ExecutionResult \<times> 'm option \<times> 'm" where
  "change_Run fmt now observation provided arm cancel during off m =
     (case DecodePayload (Payload off) of None \<Rightarrow> (failure fmt ''payload_invalid'' None now, None, m)
      | Some expected \<Rightarrow>
        (case observation of None \<Rightarrow> (failure fmt ''ipv4_observe_failed'' None now, None, m)
         | Some (before, at) \<Rightarrow>
           if before \<noteq> expected then (failure fmt ''stale_expected_ipv4'' (Some before) at, None, m)
           else (case (case arm of None \<Rightarrow> (False, m) | Some f \<Rightarrow> f (CommandID off) before now m) of
              (False, m1) \<Rightarrow> (failure fmt ''reconciliation_state_failed'' (Some before) now, None, m1)
            | (True, m1) \<Rightarrow>
                let m2 = during m1 in
                if pState provided = TriggerFailed then
                  (case cancel (CommandID off) m2 of
                     (False, m3) \<Rightarrow> (reconciliationPending fmt (Some before) (pFinishedAt provided), Some m1, m3)
                   | (True, m3) \<Rightarrow> (failure fmt (pCode provided) (Some before) (pFinishedAt provided), Some m1, m3))
                else if pState provided = TriggerUnknown then
                  (reconciliationPending fmt (Some before) (pFinishedAt provided), Some m1, m2)
                else
                  (\<lparr>Outcome = ''succeeded'', Code = ''change_triggered'',
                     Result = changeResult fmt (Some before) (pFinishedAt provided)\<rparr>, Some m1, m2))))"

definition change_Recover :: "(gotime \<Rightarrow> string) \<Rightarrow> gotime \<Rightarrow> (string \<Rightarrow> string option) option \<Rightarrow> OperationOffer \<Rightarrow> ExecutionResult" where
  "change_Recover fmt now changeAddress off =
     (let expected = (case DecodePayload (Payload off) of None \<Rightarrow> [] | Some ip \<Rightarrow> ip);
          address = (case changeAddress of None \<Rightarrow> expected
                     | Some f \<Rightarrow> (case f (CommandID off) of None \<Rightarrow> expected | Some a \<Rightarrow> a))
      in reconciliationPending fmt (Some address) now)"

definition change_Failed :: "(gotime \<Rightarrow> string) \<Rightarrow> gotime \<Rightarrow> string \<Rightarrow> ExecutionResult" where
  "change_Failed fmt now code = failure fmt code None now"

definition Accepting :: "('m \<Rightarrow> bool) option \<Rightarrow> 'm \<Rightarrow> bool" where
  "Accepting settled m = (case settled of None \<Rightarrow> False | Some f \<Rightarrow> f m)"

section \<open>The program of the command provider\<close>

definition sandboxHiddenRoots :: "string list" where
  "sandboxHiddenRoots = [''/home'', ''/root'', ''/run/user'', ''/tmp'', ''/var/tmp'']"

definition control_char :: "char \<Rightarrow> bool" where
  "control_char c \<longleftrightarrow> of_char c < (0x20::nat) \<or> of_char c = (0x7f::nat)"

definition validateProgram :: "string \<Rightarrow> bool" where
  "validateProgram value =
     (if value = [] \<or> length value > 4096 \<or> \<not> IsAbs value \<or> Clean value \<noteq> value \<or> list_ex control_char value then False
      else \<not> list_ex (\<lambda>root. value = root \<or> HasPrefix value (root @ ''/'')) sandboxHiddenRoots)"

section \<open>What the handler relies on\<close>

text \<open>
  A reconciler keeps at most one open attempt, a command and the address before it. \<open>arm\<close> and
  \<open>cancel\<close> return whether they succeeded; a failed call changes no attempt.
\<close>

locale change_reconciler =
  fixes arm :: "string \<Rightarrow> string \<Rightarrow> gotime \<Rightarrow> 'm \<Rightarrow> bool \<times> 'm"
    and cancel :: "string \<Rightarrow> 'm \<Rightarrow> bool \<times> 'm"
    and armed :: "'m \<Rightarrow> (string \<times> string) option"
  assumes arm_done: "arm cmd addr t m = (True, m') \<Longrightarrow> armed m' = Some (cmd, addr)"
    and arm_refused: "arm cmd addr t m = (False, m') \<Longrightarrow> armed m' = armed m"
    and cancel_done: "cancel cmd m = (True, m') \<Longrightarrow> armed m' = None"
    and cancel_refused: "cancel cmd m = (False, m') \<Longrightarrow> armed m' = armed m"
begin

lemma Run_called:
  assumes "change_Run fmt now observation provided (Some arm) cancel during off m = (res, Some m1, m')"
  shows "\<exists>ip at. observation = Some (ip, at) \<and> DecodePayload (Payload off) = Some ip \<and>
    arm (CommandID off) ip now m = (True, m1) \<and> armed m1 = Some (CommandID off, ip)"
  using assms arm_done
  by (fastforce simp: change_Run_def Let_def split: option.splits prod.splits bool.splits if_splits)

lemma Run_failed:
  assumes "change_Run fmt now observation provided (Some arm) cancel during off m = (res, called, m')" "Outcome res = ''failed''"
  shows "(called = None \<and> armed m' = armed m) \<or> (called \<noteq> None \<and> pState provided = TriggerFailed \<and> armed m' = None)"
  using assms arm_refused cancel_done
  by (auto simp: change_Run_def Let_def failure_def reconciliationPending_def
      split: option.splits prod.splits bool.splits if_splits)

lemma Run_succeeded:
  assumes "change_Run fmt now observation provided (Some arm) cancel during off m = (res, called, m')" "Outcome res \<noteq> ''failed''"
  shows "\<exists>m1. called = Some m1 \<and> armed m' = armed (during m1)"
  using assms cancel_refused
  by (auto simp: change_Run_def Let_def failure_def reconciliationPending_def
      split: option.splits prod.splits bool.splits if_splits)

end

definition monitor_arm :: "save_env \<Rightarrow> string \<Rightarrow> string \<Rightarrow> gotime \<Rightarrow> Monitor \<Rightarrow> bool \<times> Monitor" where
  "monitor_arm env cmd addr t m = (let (err, m') = ArmChange env cmd addr t m in (err = None, m'))"

definition monitor_cancel :: "save_env \<Rightarrow> string \<Rightarrow> Monitor \<Rightarrow> bool \<times> Monitor" where
  "monitor_cancel env cmd m = (let (err, m') = CancelChange env cmd m in (err = None, m'))"

definition monitor_armed :: "Monitor \<Rightarrow> (string \<times> string) option" where
  "monitor_armed m = map_option (\<lambda>a. (aCommandID a, aAddress a)) (attempt m)"

lemma ArmChange_cases:
  assumes "ArmChange env cmd addr t m = (err, m')"
  shows "(err = None \<longrightarrow> monitor_armed m' = Some (cmd, addr) \<and> (attempt m = None \<longrightarrow> Load (mfile m') = Inr (Some (persisted m')))) \<and>
    (err \<noteq> None \<longrightarrow> monitor_armed m' = monitor_armed m)"
proof (cases "attempt m")
  case (Some a)
  with assms show ?thesis by (auto simp: ArmChange_def monitor_armed_def split: if_splits)
next
  case None
  let ?a = "\<lparr>aCommandID = cmd, aAddress = addr, aReconcileAt = t + changeReconcileGrace, aConfirmations = 0, aOutcome = None\<rparr>"
  obtain e m1 where c: "mcommit env (with_attempt (Some ?a) m) m = (e, m1)" by force
  have p: "attempt m1 = (if e = None then Some ?a else attempt m)" "e = None \<Longrightarrow> Load (mfile m1) = Inr (Some (persisted m1))"
    using mcommit_cases [OF c] by (simp_all add: with_attempt_def)
  show ?thesis using assms None p
    by (auto simp: ArmChange_def Let_def c monitor_armed_def split: if_splits option.splits)
qed

lemma CancelChange_cases:
  assumes "CancelChange env cmd m = (err, m')"
  shows "(err = None \<longrightarrow> monitor_armed m' = None) \<and> (err \<noteq> None \<longrightarrow> monitor_armed m' = monitor_armed m)"
proof -
  obtain e m1 where c: "mcommit env (with_attempt None m) m = (e, m1)" by force
  have p: "attempt m1 = (if e = None then None else attempt m)" using mcommit_cases [OF c] by (simp add: with_attempt_def)
  show ?thesis using assms p
    by (auto simp: CancelChange_def c monitor_armed_def split: if_splits option.splits)
qed

interpretation mon_reconciler: change_reconciler "monitor_arm env" "monitor_cancel env'" monitor_armed for env env'
proof
  show "monitor_armed m' = Some (cmd, addr)" if "monitor_arm env cmd addr t m = (True, m')" for cmd addr t m m'
    using that ArmChange_cases by (auto simp: monitor_arm_def split: prod.splits)
  show "monitor_armed m' = monitor_armed m" if "monitor_arm env cmd addr t m = (False, m')" for cmd addr t m m'
    using that ArmChange_cases by (auto simp: monitor_arm_def split: prod.splits)
  show "monitor_armed m' = None" if "monitor_cancel env' cmd m = (True, m')" for cmd m m'
    using that CancelChange_cases by (auto simp: monitor_cancel_def split: prod.splits)
  show "monitor_armed m' = monitor_armed m" if "monitor_cancel env' cmd m = (False, m')" for cmd m m'
    using that CancelChange_cases by (auto simp: monitor_cancel_def split: prod.splits)
qed

text \<open>
  C7. A ChangeIP is triggered only under a reconciliation: the provider runs only when the
  observed address is the one Cloud expects and the monitor has the attempt open for exactly this
  command and address, saved to the file when the call opened it. A result \<open>failed\<close> leaves no
  attempt of a triggered command behind, and any other result leaves the attempt as the rest of
  the process had it when the provider returned.
\<close>

theorem change_under_reconciliation:
  assumes "change_Run fmt now observation provided (Some (monitor_arm env)) (monitor_cancel env') during off m = (res, called, m')"
  shows "(\<forall>m1. called = Some m1 \<longrightarrow> (\<exists>ip at. observation = Some (ip, at) \<and> DecodePayload (Payload off) = Some ip \<and>
        monitor_armed m1 = Some (CommandID off, ip) \<and> (attempt m = None \<longrightarrow> Load (mfile m1) = Inr (Some (persisted m1))))) \<and>
    (Outcome res = ''failed'' \<longrightarrow> (called = None \<and> monitor_armed m' = monitor_armed m) \<or>
        (pState provided = TriggerFailed \<and> monitor_armed m' = None)) \<and>
    (Outcome res \<noteq> ''failed'' \<longrightarrow> (\<exists>m1. called = Some m1 \<and> monitor_armed m' = monitor_armed (during m1)))"
proof (intro conjI allI impI)
  fix m1 assume c: "called = Some m1"
  from mon_reconciler.Run_called [OF assms [unfolded c]] obtain ip at where
    o: "observation = Some (ip, at)" "DecodePayload (Payload off) = Some ip" "monitor_armed m1 = Some (CommandID off, ip)"
    and a: "monitor_arm env (CommandID off) ip now m = (True, m1)" by blast
  from a have "ArmChange env (CommandID off) ip now m = (None, m1)" by (auto simp: monitor_arm_def split: prod.splits)
  then have "attempt m = None \<longrightarrow> Load (mfile m1) = Inr (Some (persisted m1))" using ArmChange_cases by simp
  with o show "\<exists>ip at. observation = Some (ip, at) \<and> DecodePayload (Payload off) = Some ip \<and>
        monitor_armed m1 = Some (CommandID off, ip) \<and> (attempt m = None \<longrightarrow> Load (mfile m1) = Inr (Some (persisted m1)))"
    by (intro exI [of _ ip] exI [of _ at] conjI)
next
  assume "Outcome res = ''failed''"
  from mon_reconciler.Run_failed [OF assms this] show "(called = None \<and> monitor_armed m' = monitor_armed m) \<or>
        (pState provided = TriggerFailed \<and> monitor_armed m' = None)" by blast
next
  assume "Outcome res \<noteq> ''failed''"
  from mon_reconciler.Run_succeeded [OF assms this] show "\<exists>m1. called = Some m1 \<and> monitor_armed m' = monitor_armed (during m1)" .
qed

definition ex_offer :: OperationOffer where
  "ex_offer = \<lparr>CommandID = ex_id (CHR ''2''), CommandType = ''changeip.execute'', PayloadVersion = 1,
     Payload = Doc (JObj [(''expected_ipv4'', JStr ''8.8.8.8'')]), NotBefore = 1, ExpiresAt = 9\<rparr>"

definition ex_provided :: provider_result where
  "ex_provided = \<lparr>pState = TriggerConfirmed, pCode = ''completed'', pExitCode = 0, pStartedAt = 1, pFinishedAt = 2\<rparr>"

lemma ex_public: "PublicIPv4 ''8.8.8.8''"
proof -
  have "String4 0x08080808 = ''8.8.8.8''" by (simp add: String4_def octets_def nat_text.simps digit_of_def hexits_def)
  moreover have "IsPublicIPv4 (V4 0x08080808)" by (simp add: IsPublicIPv4_ranges special_ranges_def ipv4_def)
  ultimately show ?thesis
    using ParseAddr_String4 [of "0x08080808"] by (simp add: PublicIPv4_def Addr_String_def)
qed

lemma ex_run:
  "\<exists>res m1. change_Run ex_fmt 1 (Some (''8.8.8.8'', 1)) ex_provided (Some (monitor_arm all_ok)) (monitor_cancel all_ok)
     (\<lambda>m. m) ex_offer (ex_monitor False \<lparr>contents = NoFile, temporaries = 0\<rparr> None) = (res, Some m1, m1)"
proof -
  have "DecodePayload (Payload ex_offer) = Some ''8.8.8.8''"
    by (simp add: DecodePayload_def ex_offer_def decodeRequiredJSON_def obj_size_def obj_get_def ex_public)
  moreover have "fst (monitor_arm all_ok (ex_id (CHR ''2'')) ''8.8.8.8'' 1 (ex_monitor False \<lparr>contents = NoFile, temporaries = 0\<rparr> None))"
    by (simp add: monitor_arm_def ArmChange_def ex_uuid digits_def ex_ipv4 IsZero_def ex_monitor_def mcommit_def Let_def)
  ultimately show ?thesis
    by (auto simp: change_Run_def ex_provided_def ex_offer_def Let_def split: prod.splits bool.splits)
qed

theorem change_under_reconciliation_witness:
  "\<exists>m1. monitor_armed m1 = Some (ex_id (CHR ''2''), ''8.8.8.8'') \<and> Load (mfile m1) = Inr (Some (persisted m1))"
proof -
  obtain res m1 where "change_Run ex_fmt 1 (Some (''8.8.8.8'', 1)) ex_provided (Some (monitor_arm all_ok)) (monitor_cancel all_ok)
     (\<lambda>m. m) ex_offer (ex_monitor False \<lparr>contents = NoFile, temporaries = 0\<rparr> None) = (res, Some m1, m1)" using ex_run by blast
  from change_under_reconciliation [OF this] show ?thesis by (auto simp: ex_offer_def ex_monitor_def)
qed

section \<open>Program paths\<close>

lemma clean_parts_set: "set (clean_parts acc ps) \<subseteq> set acc \<union> {p \<in> set ps. p \<noteq> [] \<and> p \<noteq> ''.'' \<and> p \<noteq> ''..''}"
proof (induction acc ps rule: clean_parts.induct)
  case (2 acc p ps)
  have "set (tl acc) \<subseteq> set acc" by (cases acc) auto
  with 2 show ?case by (cases "p = [] \<or> p = ''.''"; cases "p = ''..''") auto
qed simp

lemma clean_parts_id: "\<forall>p \<in> set ps. p \<noteq> [] \<and> p \<noteq> ''.'' \<and> p \<noteq> ''..'' \<Longrightarrow> clean_parts acc ps = rev acc @ ps"
  by (induction acc ps rule: clean_parts.induct) auto

definition hidden_parts :: "string list list" where
  "hidden_parts = [[''home''], [''root''], [''run'', ''user''], [''tmp''], [''var'', ''tmp'']]"

lemma hidden_text: "sandboxHiddenRoots = map (\<lambda>rs. CHR ''/'' # Join ''/'' rs) hidden_parts"
  by (simp add: sandboxHiddenRoots_def hidden_parts_def)

lemma under_root_iff:
  assumes "\<forall>p \<in> set ps. CHR ''/'' \<notin> set p \<and> p \<noteq> []" "rs \<in> set hidden_parts"
  shows "(CHR ''/'' # Join ''/'' ps = CHR ''/'' # Join ''/'' rs \<or>
      HasPrefix (CHR ''/'' # Join ''/'' ps) ((CHR ''/'' # Join ''/'' rs) @ ''/'')) \<longleftrightarrow> (\<exists>rest. ps = rs @ rest)"
proof (cases "ps = []")
  case True
  with assms(2) show ?thesis by (auto simp: hidden_parts_def HasPrefix_def)
next
  case False
  have r: "rs \<noteq> []" "\<forall>r \<in> set rs. CHR ''/'' \<notin> set r" using assms(2) by (auto simp: hidden_parts_def)
  have h: "HasPrefix (c # xs) (c # ys) = HasPrefix xs ys" for c xs ys by (simp add: HasPrefix_def)
  have "\<forall>p \<in> set ps. CHR ''/'' \<notin> set p" using assms(1) by simp
  from Join_prefix [OF False r(1) this r(2)] show ?thesis by (simp add: h)
qed

text \<open>
  \<open>validateProgram\<close> accepts exactly the absolute paths of at most 4096 bytes without control
  characters whose components are all real names (none empty, a dot or two dots) and which lie
  under none of the directories the service sandbox hides.
\<close>

theorem program_visible:
  "validateProgram v \<longleftrightarrow>
   (\<exists>ps. v = CHR ''/'' # Join ''/'' ps \<and> (\<forall>p. p \<in> set ps \<longrightarrow> p \<noteq> [] \<and> p \<noteq> ''.'' \<and> p \<noteq> ''..'' \<and> CHR ''/'' \<notin> set p) \<and>
     length v \<le> 4096 \<and> \<not> list_ex control_char v \<and> (\<forall>rs rest. rs \<in> set hidden_parts \<longrightarrow> ps \<noteq> rs @ rest))"
proof -
  have hid: "list_ex (\<lambda>root. v = root \<or> HasPrefix v (root @ ''/'')) sandboxHiddenRoots \<longleftrightarrow>
      (\<exists>rs \<in> set hidden_parts. \<exists>rest. ps = rs @ rest)"
    if "v = CHR ''/'' # Join ''/'' ps" "\<forall>p \<in> set ps. CHR ''/'' \<notin> set p \<and> p \<noteq> []" for ps
    using under_root_iff [OF that(2)] by (auto simp: hidden_text list_ex_iff that(1))
  show ?thesis
  proof
    assume p: "validateProgram v"
    define ps where "ps = clean_parts [] (Split (CHR ''/'') (tl v))"
    have v: "v = CHR ''/'' # Join ''/'' ps" using p by (auto simp: validateProgram_def Clean_def ps_def split: if_splits)
    have c: "\<forall>p \<in> set ps. p \<noteq> [] \<and> p \<noteq> ''.'' \<and> p \<noteq> ''..'' \<and> CHR ''/'' \<notin> set p"
      using clean_parts_set [of "[]" "Split (CHR ''/'') (tl v)"] by (auto simp: ps_def dest: Split_parts)
    have "\<not> (\<exists>rs \<in> set hidden_parts. \<exists>rest. ps = rs @ rest)"
      using hid [OF v] c p by (auto simp: validateProgram_def split: if_splits)
    with v c p show "\<exists>ps. v = CHR ''/'' # Join ''/'' ps \<and> (\<forall>p. p \<in> set ps \<longrightarrow> p \<noteq> [] \<and> p \<noteq> ''.'' \<and> p \<noteq> ''..'' \<and> CHR ''/'' \<notin> set p) \<and>
        length v \<le> 4096 \<and> \<not> list_ex control_char v \<and> (\<forall>rs rest. rs \<in> set hidden_parts \<longrightarrow> ps \<noteq> rs @ rest)"
      by (intro exI [of _ ps]) (auto simp: validateProgram_def split: if_splits)
  next
    assume "\<exists>ps. v = CHR ''/'' # Join ''/'' ps \<and> (\<forall>p. p \<in> set ps \<longrightarrow> p \<noteq> [] \<and> p \<noteq> ''.'' \<and> p \<noteq> ''..'' \<and> CHR ''/'' \<notin> set p) \<and>
        length v \<le> 4096 \<and> \<not> list_ex control_char v \<and> (\<forall>rs rest. rs \<in> set hidden_parts \<longrightarrow> ps \<noteq> rs @ rest)"
    then obtain ps where v: "v = CHR ''/'' # Join ''/'' ps"
      and c: "\<forall>p \<in> set ps. p \<noteq> [] \<and> p \<noteq> ''.'' \<and> p \<noteq> ''..'' \<and> CHR ''/'' \<notin> set p"
      and l: "length v \<le> 4096" "\<not> list_ex control_char v" and n: "\<forall>rs \<in> set hidden_parts. \<forall>rest. ps \<noteq> rs @ rest" by blast
    have "clean_parts [] (Split (CHR ''/'') (Join ''/'' ps)) = ps"
    proof (cases "ps = []")
      case False
      then have "Split (CHR ''/'') (Join ''/'' ps) = ps" using c by (intro Split_Join) auto
      then show ?thesis using clean_parts_id [of ps "[]"] c by auto
    qed simp
    then have "Clean v = v" by (simp add: Clean_def v)
    with hid [OF v] c n l show "validateProgram v" by (auto simp: validateProgram_def v IsAbs_def)
  qed
qed

theorem program_visible_witness:
  "validateProgram ''/usr/bin/changeip'' \<and> \<not> list_ex control_char ''/usr/bin/changeip''"
proof -
  have "validateProgram ''/usr/bin/changeip''"
    by (simp add: validateProgram_def IsAbs_def Clean_def control_char_def sandboxHiddenRoots_def HasPrefix_def)
  with program_visible [of "''/usr/bin/changeip''"] show ?thesis by blast
qed

end
