(* ===== verification/Access_Log.thy ===== *)
theory Access_Log
  imports Net_Policy
begin

text \<open>
  Reading Xray's access log: the line parser of \<open>src/internal/xray/accesslog/parse.go\<close>, the
  turning of parsed entries into lines (\<open>index\<close>, \<open>unknown\<close> and \<open>lines\<close> of \<open>accesslog.go\<close>), and the
  splitting of appended text into lines (\<open>split\<close> and \<open>remember\<close> of \<open>follow.go\<close>). The reader of the
  local time stamp is a parameter.
\<close>

section \<open>Addresses with ports\<close>

type_synonym AddrPort = "Addr \<times> nat"

text \<open>\<open>netip.ParseAddrPort\<close>: IPv6 addresses, and only they, are in brackets.\<close>

definition ParseAddrPort :: "string \<Rightarrow> AddrPort option" where
  "ParseAddrPort s = (case CutLast '':'' s of None \<Rightarrow> None
     | Some (ip, port) \<Rightarrow>
        if port = [] \<or> ip = [] then None
        else (let bracketed = hd ip = CHR ''['';
                  inner = (if bracketed then tl (butlast ip) else ip)
              in if bracketed \<and> (length ip < 2 \<or> last ip \<noteq> CHR '']'') then None
                 else case (ParseUint 10 16 port, ParseAddr inner) of
                   (Some n, Some a) \<Rightarrow> if bracketed = Is4 a then None else Some (a, n) | _ \<Rightarrow> None))"

text \<open>\<open>net.SplitHostPort\<close>.\<close>

definition SplitHostPort :: "string \<Rightarrow> (string \<times> string) option" where
  "SplitHostPort s = (case CutLast '':'' s of None \<Rightarrow> None
     | Some (before, port) \<Rightarrow>
        if HasPrefix s ''['' then
          (case Cut '']'' s of None \<Rightarrow> None
           | Some (opened, after) \<Rightarrow>
               if length opened + 1 \<noteq> length before then None
               else if CHR ''['' \<in> set (tl s) \<or> CHR '']'' \<in> set after then None
               else Some (tl opened, port))
        else if CHR '':'' \<in> set before \<or> CHR ''['' \<in> set s \<or> CHR '']'' \<in> set s then None
        else Some (before, port))"

section \<open>Lines\<close>

record Conn =
  cPort :: nat
  cRemote :: AddrPort

record Dest =
  dNetwork :: string
  dHost :: string
  dPort :: nat

record Line =
  lConn :: Conn
  lEmail :: string
  lAt :: gotime
  lWritten :: gotime
  lBacklog :: bool
  lTCP :: bool
  lUDP :: bool
  lDest :: Dest
  lOutbound :: string
  lBlocked :: bool

record entry =
  eAt :: gotime
  eTag :: string
  eAddr :: AddrPort
  eEmail :: string
  eDest :: Dest
  eOutbound :: string
  eBacklog :: bool

definition noDest :: Dest where
  "noDest = \<lparr>dNetwork = [], dHost = [], dPort = 0\<rparr>"

definition maxHost :: nat where "maxHost = 255"

definition plainHost :: "string \<Rightarrow> bool" where
  "plainHost host \<longleftrightarrow> \<not> (TrimSuffix host ''.'' = [] \<or> length host > maxHost) \<and>
     list_all (\<lambda>c. c \<in> set (lower @ upper @ digits @ ''.-_:'')) host"

definition parseDest :: "string \<Rightarrow> Dest" where
  "parseDest s =
     (let (network, hostport) = (case Cut '':'' s of
            Some (n, rest) \<Rightarrow> if n = ''tcp'' \<or> n = ''udp'' then (n, rest) else ([], s) | None \<Rightarrow> ([], s))
      in case SplitHostPort hostport of None \<Rightarrow> noDest
         | Some (host, port) \<Rightarrow> (case ParseUint 10 16 port of None \<Rightarrow> noDest
           | Some n \<Rightarrow> if n = 0 \<or> \<not> plainHost host then noDest
                      else \<lparr>dNetwork = network, dHost = host, dPort = n\<rparr>))"

text \<open>The route \<open>[inbound >> outbound]\<close> at the end of the text: what stands before its bracket and
  inside it.\<close>

definition route_parts :: "string \<Rightarrow> (string \<times> string) option" where
  "route_parts route = (case CutLast ''['' route of None \<Rightarrow> None
     | Some (before, inside) \<Rightarrow> if HasSuffix route '']'' then Some (before, butlast inside) else None)"

definition after_last_space :: "string \<Rightarrow> string" where
  "after_last_space s = (case CutLast '' '' s of None \<Rightarrow> s | Some (_, b) \<Rightarrow> b)"

definition parse :: "(string \<Rightarrow> gotime option) \<Rightarrow> string \<Rightarrow> entry option" where
  "parse stampTime raw =
     (case Cut '' from '' raw of None \<Rightarrow> None | Some (stamp, rest) \<Rightarrow>
      (case Cut '' accepted '' rest of None \<Rightarrow> None | Some (source, rest) \<Rightarrow>
      (case CutLast '' email: '' rest of None \<Rightarrow> None | Some (route, email) \<Rightarrow>
       if email = [] \<or> ContainsAny email [CHR '' '', CHR 0x09] then None else
      (case route_parts route of None \<Rightarrow> None | Some (before, detour) \<Rightarrow>
      (case Cut '' '' detour of None \<Rightarrow> None | Some (tag, _) \<Rightarrow>
       if tag = [] then None else
      (case ParseAddrPort (TrimPrefix (TrimPrefix source ''tcp:'') ''udp:'') of None \<Rightarrow> None
       | Some (addr, port) \<Rightarrow>
         if port = 0 then None
         else Some \<lparr>eAt = (case stampTime stamp of None \<Rightarrow> 0 | Some t \<Rightarrow> t), eTag = tag, eAddr = (Unmap addr, port),
                eEmail = email, eDest = parseDest (TrimSuffix before '' ''), eOutbound = after_last_space detour,
                eBacklog = False\<rparr>))))))"

section \<open>Inbounds\<close>

record Inbound =
  iTag :: string
  iProtocol :: string
  iPort :: int
  iNetwork :: string
  iTransport :: string

record inbound =
  port :: nat
  tcp :: bool
  udp :: bool

definition udpOnly :: "Inbound \<Rightarrow> bool" where
  "udpOnly ib \<longleftrightarrow> HasPrefix (iProtocol ib) ''hysteria'' \<or> iTransport ib = ''kcp'' \<or> iTransport ib = ''quic''"

definition inbound_of :: "Inbound \<Rightarrow> inbound" where
  "inbound_of ib =
     (let both = (if iNetwork ib \<noteq> [] \<and> \<not> udpOnly ib
                  then (Contains (iNetwork ib) ''tcp'', Contains (iNetwork ib) ''udp'') else (\<not> udpOnly ib, udpOnly ib))
      in \<lparr>port = nat (iPort ib), tcp = fst both, udp = snd both\<rparr>)"

fun index_from :: "(string, inbound) gomap \<Rightarrow> Inbound list \<Rightarrow> (string, inbound) gomap" where
  "index_from m [] = m"
| "index_from m (ib # ibs) =
     (if iTag ib = [] \<or> iPort ib \<le> 0 \<or> iPort ib > 65535 then index_from m ibs
      else index_from (AList.update (iTag ib) (inbound_of ib) m) ibs)"

definition index :: "Inbound list \<Rightarrow> (string, inbound) gomap" where
  "index = index_from []"

definition unknown :: "entry list \<Rightarrow> (string, inbound) gomap \<Rightarrow> string list \<Rightarrow> bool" where
  "unknown entries inbounds unlisted = list_ex (\<lambda>e. \<not> gm_has inbounds (eTag e) \<and> eTag e \<notin> set unlisted) entries"

definition maxDelay :: duration where "maxDelay = minute"

text \<open>When an entry counts as written.\<close>

definition line_time :: "gotime \<Rightarrow> entry \<Rightarrow> gotime" where
  "line_time now e =
     (if eBacklog e \<and> After (eAt e) now then now
      else if \<not> eBacklog e \<and> (After (eAt e) now \<or> Sub now (eAt e) > maxDelay) then now
      else eAt e)"

fun lines :: "gotime \<Rightarrow> entry list \<Rightarrow> (string, inbound) gomap \<Rightarrow> string list \<Rightarrow> Line list" where
  "lines now [] inbounds blackholes = []"
| "lines now (e # es) inbounds blackholes =
     (case map_of inbounds (eTag e) of None \<Rightarrow> lines now es inbounds blackholes
      | Some ib \<Rightarrow>
          if eBacklog e \<and> tcp ib \<and> udp ib then lines now es inbounds blackholes
          else \<lparr>lConn = \<lparr>cPort = port ib, cRemote = eAddr e\<rparr>, lEmail = eEmail e, lAt = line_time now e, lWritten = eAt e,
                 lBacklog = eBacklog e, lTCP = tcp ib, lUDP = udp ib, lDest = eDest e, lOutbound = eOutbound e,
                 lBlocked = (eOutbound e \<in> set blackholes)\<rparr> # lines now es inbounds blackholes)"

section \<open>Splitting appended text\<close>

definition maxLine :: nat where "maxLine = 4096"
definition tailSize :: nat where "tailSize = 64"

record follower =
  partial :: string
  skip :: bool
  tail :: string

lemma Cut_shorter: "Cut sep s = Some (a, b) \<Longrightarrow> sep \<noteq> [] \<Longrightarrow> length b < length s"
  by (drule Cut_Some) (cases sep, simp_all)

function split :: "string \<Rightarrow> follower \<Rightarrow> string list \<times> follower" where
  "split data f = (case data of [] \<Rightarrow> ([], f) | _ \<Rightarrow>
     (case Cut [CHR 0x0A] data of
        None \<Rightarrow> ([], if skip f \<or> length (partial f) + length data > maxLine then f\<lparr>partial := [], skip := True\<rparr>
                    else f\<lparr>partial := partial f @ data\<rparr>)
      | Some (before, rest) \<Rightarrow>
          (let out = (if \<not> skip f \<and> length (partial f) + length before \<le> maxLine then [partial f @ before] else []);
               (more, f') = split rest (f\<lparr>partial := [], skip := False\<rparr>)
           in (out @ more, f'))))"
  by pat_completeness auto
termination
  by (relation "measure (\<lambda>(data, f). length data)") (auto simp del: Cut.simps dest!: Cut_shorter)

declare split.simps [simp del]

definition remember :: "string \<Rightarrow> follower \<Rightarrow> follower" where
  "remember data f =
     (if length data \<ge> tailSize then f\<lparr>tail := lastn tailSize data\<rparr>
      else (let t = tail f @ data in f\<lparr>tail := (if length t > tailSize then lastn tailSize t else t)\<rparr>))"

section \<open>How the text arrives does not matter\<close>

abbreviation newline :: char where "newline \<equiv> CHR 0x0A"

lemma Cut_char_None: "Cut [c] s = None \<longleftrightarrow> c \<notin> set s"
  by (induction s) (auto simp: HasPrefix_def)

lemma Cut_char_Some: "c \<notin> set a \<Longrightarrow> Cut [c] (a @ c # b) = Some (a, b)"
  by (induction a) (auto simp: HasPrefix_def)

lemma split_Nil [simp]: "split [] f = ([], f)"
  by (simp add: split.simps)

lemma split_open:
  assumes "newline \<notin> set data" "data \<noteq> []"
  shows "split data f =
     ([], if skip f \<or> length (partial f) + length data > maxLine then f\<lparr>partial := [], skip := True\<rparr>
          else f\<lparr>partial := partial f @ data\<rparr>)"
proof -
  obtain c cs where d: "data = c # cs" using assms(2) by (cases data) auto
  have n: "Cut [newline] (c # cs) = None" using assms(1) by (simp only: Cut_char_None d not_False_eq_True)
  show ?thesis unfolding d by (subst split.simps) (simp only: list.case n option.case)
qed

definition emitted :: "follower \<Rightarrow> string \<Rightarrow> string list" where
  "emitted f before = (if \<not> skip f \<and> length (partial f) + length before \<le> maxLine then [partial f @ before] else [])"

lemma split_line:
  assumes "newline \<notin> set before"
  shows "split (before @ newline # rest) f =
     (let (more, f') = split rest (f\<lparr>partial := [], skip := False\<rparr>) in (emitted f before @ more, f'))"
proof -
  obtain c cs where d: "before @ newline # rest = c # cs" by (cases "before @ newline # rest") auto
  have n: "Cut [newline] (c # cs) = Some (before, rest)" unfolding d [symmetric] by (rule Cut_char_Some [OF assms])
  show ?thesis unfolding d by (subst split.simps) (simp only: list.case n option.case prod.case Let_def emitted_def)
qed

lemma split_line_case:
  obtains "newline \<notin> set data" | before rest where "data = before @ newline # rest" "newline \<notin> set before"
  by (metis split_list_first)

lemma split_append_open:
  assumes "newline \<notin> set a"
  shows "split (a @ b) f = (let (l1, f1) = split a f; (l2, f2) = split b f1 in (l1 @ l2, f2))"
proof (cases "a = []")
  case False
  let ?f1 = "if skip f \<or> length (partial f) + length a > maxLine then f\<lparr>partial := [], skip := True\<rparr>
          else f\<lparr>partial := partial f @ a\<rparr>"
  have a: "split a f = ([], ?f1)" by (rule split_open [OF assms False])
  show ?thesis
  proof (cases b rule: split_line_case)
    case 1
    then show ?thesis
    proof (cases "b = []")
      case False
      have "split (a @ b) f = ([], if skip f \<or> length (partial f) + length (a @ b) > maxLine then f\<lparr>partial := [], skip := True\<rparr>
          else f\<lparr>partial := partial f @ (a @ b)\<rparr>)"
        using assms 1 False by (intro split_open) auto
      moreover have "split b ?f1 = ([], if skip ?f1 \<or> length (partial ?f1) + length b > maxLine then ?f1\<lparr>partial := [], skip := True\<rparr>
          else ?f1\<lparr>partial := partial ?f1 @ b\<rparr>)"
        by (rule split_open [OF 1 False])
      ultimately show ?thesis by (simp add: a)
    qed (simp add: a)
  next
    case (2 before rest)
    have e: "emitted ?f1 before = emitted f (a @ before)" by (simp add: emitted_def)
    have r: "?f1\<lparr>partial := [], skip := False\<rparr> = f\<lparr>partial := [], skip := False\<rparr>" by simp
    have "split (a @ b) f = (let (more, f') = split rest (f\<lparr>partial := [], skip := False\<rparr>) in (emitted f (a @ before) @ more, f'))"
      using split_line [of "a @ before" rest f] assms 2 by simp
    moreover have "split b ?f1 = (let (more, f') = split rest (?f1\<lparr>partial := [], skip := False\<rparr>) in (emitted ?f1 before @ more, f'))"
      unfolding 2(1) by (rule split_line [OF 2(2)])
    ultimately show ?thesis unfolding a e r by (simp split: prod.split)
  qed
qed simp

lemma split_append:
  "split (a @ b) f = (let (l1, f1) = split a f; (l2, f2) = split b f1 in (l1 @ l2, f2))"
proof (induction "length a" arbitrary: a f rule: less_induct)
  case less
  show ?case
  proof (cases a rule: split_line_case)
    case 1
    then show ?thesis by (rule split_append_open)
  next
    case (2 before rest)
    have "split (rest @ b) g = (let (l1, f1) = split rest g; (l2, f2) = split b f1 in (l1 @ l2, f2))" for g
      by (rule less) (simp add: 2)
    then show ?thesis
      using split_line [OF 2(2), of "rest @ b" f] split_line [OF 2(2), of rest f] 2(1)
      by (simp split: prod.split)
  qed
qed

text \<open>The lines of a whole text, without the one that has no end yet.\<close>

lemma split_fresh:
  "fst (split data \<lparr>partial = [], skip = False, tail = t\<rparr>) =
     filter (\<lambda>l. length l \<le> maxLine) (butlast (Split newline data))"
proof (induction "length data" arbitrary: data rule: less_induct)
  case less
  let ?f = "\<lparr>partial = [], skip = False, tail = t\<rparr>"
  show ?case
  proof (cases data rule: split_line_case)
    case 1
    then show ?thesis by (cases "data = []") (simp_all add: split_open Split_no_sep)
  next
    case (2 before rest)
    have "fst (split rest ?f) = filter (\<lambda>l. length l \<le> maxLine) (butlast (Split newline rest))"
      by (rule less) (simp add: 2)
    then show ?thesis
      using 2 by (cases "split rest ?f") (simp add: split_line Split_append_sep Split_nonempty emitted_def)
  qed
qed

fun split_chunks :: "string list \<Rightarrow> follower \<Rightarrow> string list" where
  "split_chunks [] f = []"
| "split_chunks (d # ds) f = (let (l, f') = split d f in l @ split_chunks ds f')"

lemma split_chunks_concat: "split_chunks ds f = fst (split (concat ds) f)"
  by (induction ds arbitrary: f) (simp_all add: split_append split: prod.split)

text \<open>
  Reading the log in pieces gives the lines of the text: however the appended text is cut
  into reads, the lines passed on are exactly those of the whole text that are complete and at
  most 4096 bytes long, in order.
\<close>

theorem log_lines_exact:
  "split_chunks chunks \<lparr>partial = [], skip = False, tail = t\<rparr> =
     filter (\<lambda>l. length l \<le> 4096) (butlast (Split (CHR 0x0A) (concat chunks)))"
  by (simp add: split_chunks_concat split_fresh maxLine_def)

text \<open>The remembered tail is the last 64 bytes of everything read.\<close>

lemma remember_tail: "tail f = lastn tailSize t \<Longrightarrow> tail (remember data f) = lastn tailSize (t @ data)"
  by (cases "data = []"; cases "length t \<le> tailSize") (auto simp: remember_def lastn_def Let_def add.commute)

section \<open>A client cannot forge its line\<close>

lemma Cut_first: "sep \<noteq> [] \<Longrightarrow> hd sep \<notin> set a \<Longrightarrow> Cut sep (a @ sep @ b) = Some (a, b)"
proof (induction a)
  case Nil
  then show ?case by (cases sep) (simp_all add: HasPrefix_def)
next
  case (Cons c a)
  then have "\<not> HasPrefix (c # a @ sep @ b) sep" by (cases sep) (auto simp: HasPrefix_def)
  with Cons show ?case by simp
qed

lemma Cut_second:
  assumes "sep = x # y # zs" "x \<noteq> y" "y \<notin> set a"
  shows "Cut sep (a @ sep @ b) = Some (a, b)"
  using assms(3)
proof (induction a)
  case Nil
  then show ?case by (simp add: assms(1) HasPrefix_def)
next
  case (Cons c a)
  have "\<not> HasPrefix (c # a @ sep @ b) sep"
    using Cons.prems assms(1,2) by (cases a) (auto simp: HasPrefix_def)
  with Cons show ?case by simp
qed

lemma CutLast_last: "sep \<noteq> [] \<Longrightarrow> last sep \<notin> set b \<Longrightarrow> CutLast sep (a @ sep @ b) = Some (a, b)"
  using Cut_first [of "rev sep" "rev b" "rev a"] by (simp add: CutLast_def hd_rev)

lemma HasSuffix_append [simp]: "HasSuffix (a @ b) b"
  by (simp add: HasSuffix_def)

lemma TrimSuffix_append [simp]: "TrimSuffix (a @ b) b = a"
  by (simp add: TrimSuffix_def)

text \<open>
  C27. The client chooses only the destination: whatever text it puts there, brackets, arrows and
  the words of other fields included, the line is read with the inbound, source, user and
  outbound that Xray wrote around it.
\<close>

theorem parse_unforgeable:
  assumes "CHR ''f'' \<notin> set stamp" "CHR '' '' \<notin> set source"
    and "ParseAddrPort (TrimPrefix (TrimPrefix source ''tcp:'') ''udp:'') = Some (addr, p)" "p \<noteq> 0"
    and "email \<noteq> []" "CHR '' '' \<notin> set email" "CHR 0x09 \<notin> set email"
    and "tag \<noteq> []" "CHR '' '' \<notin> set tag" "CHR ''['' \<notin> set tag"
    and "CHR ''['' \<notin> set arrow" "CHR '' '' \<notin> set out" "CHR ''['' \<notin> set out"
  shows "parse stampTime (stamp @ '' from '' @ source @ '' accepted '' @ dest @ '' ['' @ tag @ '' '' @ arrow @ '' '' @ out @
      ''] email: '' @ email) =
    Some \<lparr>eAt = (case stampTime stamp of None \<Rightarrow> 0 | Some t \<Rightarrow> t), eTag = tag, eAddr = (Unmap addr, p), eEmail = email,
      eDest = parseDest dest, eOutbound = out, eBacklog = False\<rparr>"
proof -
  let ?detour = "tag @ '' '' @ arrow @ '' '' @ out"
  let ?route = "(dest @ '' '') @ ''['' @ ?detour @ '']''"
  have 1: "Cut '' from '' (stamp @ '' from '' @ r) = Some (stamp, r)" for r
    by (rule Cut_second [of _ "CHR '' ''" "CHR ''f''"]) (use assms(1) in simp_all)
  have 2: "Cut '' accepted '' (source @ '' accepted '' @ r) = Some (source, r)" for r
    by (rule Cut_first) (use assms(2) in simp_all)
  have 3: "CutLast '' email: '' (?route @ '' email: '' @ email) = Some (?route, email)"
    by (rule CutLast_last) (use assms(6) in simp_all)
  have 4: "route_parts ?route = Some (dest @ '' '', ?detour)"
  proof -
    have "CutLast ''['' ?route = Some (dest @ '' '', ?detour @ '']'')"
      by (rule CutLast_last) (use assms(10,11,13) in simp_all)
    moreover have "HasSuffix ?route '']''" using HasSuffix_append [of "(dest @ '' '') @ ''['' @ ?detour" "'']''"] by simp
    ultimately show ?thesis by (simp add: route_parts_def butlast_append)
  qed
  have 5: "Cut '' '' ?detour = Some (tag, arrow @ '' '' @ out)"
    by (rule Cut_first) (use assms(9) in simp_all)
  have 6: "after_last_space ?detour = out"
    using CutLast_last [of "'' ''" out "tag @ '' '' @ arrow"] assms(12) by (simp add: after_last_space_def)
  have 7: "\<not> ContainsAny email [CHR '' '', CHR 0x09]" using assms(6,7) by (auto simp: ContainsAny_def list_ex_iff)
  have shape: "stamp @ '' from '' @ source @ '' accepted '' @ dest @ '' ['' @ tag @ '' '' @ arrow @ '' '' @ out @ ''] email: '' @ email =
      stamp @ '' from '' @ source @ '' accepted '' @ ?route @ '' email: '' @ email" by simp
  show ?thesis
    unfolding shape parse_def 1 2 3 4 5 option.case prod.case assms(3)
    using assms(4,5,8) 6 7 TrimSuffix_append [of dest "'' ''"] by simp
qed

lemma ex_source: "ParseAddrPort ''8.8.8.8:33704'' = Some (V4 0x08080808, 33704)"
  by (simp add: ParseAddrPort_def CutLast_def HasPrefix_def ParseUint_def lower_hex_def digit_val_def hexits_def
      ParseAddr_def parse_dotted Is4_def)

theorem parse_unforgeable_witness:
  "parse (\<lambda>_. Some 5) (''2026/10/12 12:42:51'' @ '' from '' @ ''tcp:8.8.8.8:33704'' @ '' accepted '' @ ''x [a >> b] email: eve'' @
      '' ['' @ ''in'' @ '' '' @ ''>>'' @ '' '' @ ''out'' @ ''] email: '' @ ''alice'') =
   Some \<lparr>eAt = 5, eTag = ''in'', eAddr = (V4 0x08080808, 33704), eEmail = ''alice'',
     eDest = parseDest ''x [a >> b] email: eve'', eOutbound = ''out'', eBacklog = False\<rparr>"
proof -
  have src: "ParseAddrPort (TrimPrefix (TrimPrefix ''tcp:8.8.8.8:33704'' ''tcp:'') ''udp:'') = Some (V4 0x08080808, 33704)"
    by (simp add: TrimPrefix_def HasPrefix_def ex_source)
  have h: "CHR ''f'' \<notin> set ''2026/10/12 12:42:51''" "CHR '' '' \<notin> set ''tcp:8.8.8.8:33704''" "(33704::nat) \<noteq> 0"
    "''alice'' \<noteq> []" "CHR '' '' \<notin> set ''alice''" "CHR 0x09 \<notin> set ''alice''" "''in'' \<noteq> []" "CHR '' '' \<notin> set ''in''"
    "CHR ''['' \<notin> set ''in''" "CHR ''['' \<notin> set ''>>''" "CHR '' '' \<notin> set ''out''" "CHR ''['' \<notin> set ''out''" by simp_all
  from parse_unforgeable [OF h(1,2) src h(3-12), of "\<lambda>_. Some 5" "''x [a >> b] email: eve''"]
  show ?thesis by (simp only: option.case Unmap_def Addr.case)
qed

end
