(* ===== verification/Ledger.thy ===== *)
theory Ledger
  imports Access_Log "HOL-Library.Multiset"
begin

text \<open>
  The account of connections and their users, \<open>src/internal/xray/ledger/ledger.go\<close>. Sockets are
  objects shared by two maps of the code: here \<open>sockets\<close> holds them by their cookie, and \<open>byConn\<close>
  lists the cookies at an address. Each method is a function of the ledger and the clock; \<open>take\<close>,
  \<open>close\<close> and \<open>claim\<close> are the three ways it changes.
\<close>

section \<open>State\<close>

record sock_conn =
  Cookie :: nat
  Local :: AddrPort
  Remote :: AddrPort
  BytesAcked :: nat
  BytesReceived :: nat

record socket =
  sConn :: Conn
  sLocal :: AddrPort
  sEmail :: string
  sLine :: Line
  sRequests :: int
  sAcked :: nat
  sReceived :: nat
  sAfter :: gotime
  sClosedAt :: gotime
  sNoticed :: bool
  sMissing :: nat
  sDisputed :: bool

record claim =
  cLine :: Line
  cArrived :: gotime
  cRequests :: int
  cRival :: gotime

record Ended =
  nLine :: Line
  nAt :: gotime
  nUp :: nat
  nDown :: nat
  nRequests :: int

record Ledger =
  hasEnded :: bool
  dumped :: gotime
  started :: gotime
  ltail :: gotime
  dumpErr :: bool
  sockets :: "(nat, socket) gomap"
  byConn :: "(Conn, nat list) gomap"
  claims :: "(Conn \<times> bool, claim) gomap"
  finished :: "Ended list"

definition missingDumps :: nat where "missingDumps = 2"
definition keepClosed :: duration where "keepClosed = 30 * second"
definition claimWait :: duration where "claimWait = 10 * second"
definition udpKeep :: duration where "udpKeep = 2 * hour"
definition maxClaims :: nat where "maxClaims = 65536"

definition noLine :: Line where
  "noLine = \<lparr>lConn = \<lparr>cPort = 0, cRemote = (V4 0, 0)\<rparr>, lEmail = [], lAt = 0, lWritten = 0, lBacklog = False, lTCP = False,
     lUDP = False, lDest = noDest, lOutbound = [], lBlocked = False\<rparr>"

definition newLedger :: "bool \<Rightarrow> Ledger" where
  "newLedger he = \<lparr>hasEnded = he, dumped = 0, started = 0, ltail = 0, dumpErr = False, sockets = [], byConn = [],
     claims = [], finished = []\<rparr>"

text \<open>The sockets at an address, and a change of one socket.\<close>

definition at_conn :: "Ledger \<Rightarrow> Conn \<Rightarrow> nat list" where
  "at_conn l c = gm_get [] (byConn l) c"

definition sock :: "Ledger \<Rightarrow> nat \<Rightarrow> socket option" where
  "sock l k = map_of (sockets l) k"

definition set_sock :: "nat \<Rightarrow> (socket \<Rightarrow> socket) \<Rightarrow> Ledger \<Rightarrow> Ledger" where
  "set_sock k f l = l\<lparr>sockets := AList.map_entry k f (sockets l)\<rparr>"

definition each_sock :: "(socket \<Rightarrow> socket) \<Rightarrow> Ledger \<Rightarrow> Ledger" where
  "each_sock f l = l\<lparr>sockets := map (\<lambda>(k, s). (k, f s)) (sockets l)\<rparr>"

section \<open>Adding, removing and updating\<close>

definition new_socket :: "gotime \<Rightarrow> sock_conn \<Rightarrow> socket" where
  "new_socket after c = \<lparr>sConn = \<lparr>cPort = snd (Local c), cRemote = Remote c\<rparr>, sLocal = Local c, sEmail = [], sLine = noLine,
     sRequests = 0, sAcked = BytesAcked c, sReceived = BytesReceived c, sAfter = after, sClosedAt = 0, sNoticed = False,
     sMissing = 0, sDisputed = False\<rparr>"

definition add :: "sock_conn \<Rightarrow> Ledger \<Rightarrow> Ledger" where
  "add c l = (let s = new_socket (dumped l) c in
     l\<lparr>sockets := AList.update (Cookie c) s (sockets l),
       byConn := AList.update (sConn s) (at_conn l (sConn s) @ [Cookie c]) (byConn l)\<rparr>)"

definition ended_of :: "socket \<Rightarrow> Ended" where
  "ended_of s = \<lparr>nLine = sLine s, nAt = sClosedAt s, nUp = sReceived s, nDown = sAcked s, nRequests = sRequests s\<rparr>"

definition remove :: "nat \<Rightarrow> socket \<Rightarrow> Ledger \<Rightarrow> Ledger" where
  "remove k s l =
     (let rest = removeAll k (at_conn l (sConn s)) in
      l\<lparr>finished := (if sEmail s \<noteq> [] \<and> \<not> IsZero (sAfter s) \<and> hasEnded l then finished l @ [ended_of s] else finished l),
        sockets := AList.delete k (sockets l),
        byConn := (if rest = [] then AList.delete (sConn s) (byConn l) else AList.update (sConn s) rest (byConn l))\<rparr>)"

definition update :: "sock_conn \<Rightarrow> socket \<Rightarrow> socket" where
  "update c s = (if BytesAcked c < sAcked s \<or> BytesReceived c < sReceived s then s
     else s\<lparr>sAcked := BytesAcked c, sReceived := BytesReceived c\<rparr>)"

section \<open>Which connection a line belongs to\<close>

definition find_sock :: "(socket \<Rightarrow> bool) \<Rightarrow> Ledger \<Rightarrow> Conn \<Rightarrow> nat option" where
  "find_sock P l c = find (\<lambda>k. case sock l k of None \<Rightarrow> False | Some s \<Rightarrow> P s) (at_conn l c)"

definition carrier :: "Conn \<Rightarrow> claim \<Rightarrow> Ledger \<Rightarrow> nat option" where
  "carrier conn c l = find_sock (\<lambda>s. sEmail s = lEmail (cLine c) \<and>
     (IsZero (sClosedAt s) \<or> \<not> After (lAt (cLine c)) (sClosedAt s))) l conn"

text \<open>Whether a connection is one the line can belong to.\<close>

definition eligible :: "claim \<Rightarrow> socket \<Rightarrow> bool" where
  "eligible c s \<longleftrightarrow> \<not> (sEmail s \<noteq> [] \<or> sDisputed s \<or> Before (lAt (cLine c)) (sAfter s) \<or> (lUDP (cLine c) \<and> IsZero (sAfter s)) \<or>
     (\<not> IsZero (sClosedAt s) \<and> After (lAt (cLine c)) (sClosedAt s)))"

fun only_one :: "(nat \<Rightarrow> bool) \<Rightarrow> nat option \<Rightarrow> nat list \<Rightarrow> nat option" where
  "only_one P found [] = found"
| "only_one P found (k # ks) = (if \<not> P k then only_one P found ks
     else case found of Some _ \<Rightarrow> None | None \<Rightarrow> only_one P (Some k) ks)"

definition candidate :: "Conn \<Rightarrow> claim \<Rightarrow> Ledger \<Rightarrow> nat option" where
  "candidate conn c l = only_one (\<lambda>k. case sock l k of None \<Rightarrow> False | Some s \<Rightarrow> eligible c s) None (at_conn l conn)"

definition bind_claim :: "claim \<Rightarrow> socket \<Rightarrow> socket" where
  "bind_claim c s = (if After (cRival c) (sAfter s) then s\<lparr>sDisputed := True\<rparr>
     else s\<lparr>sEmail := lEmail (cLine c), sLine := cLine c, sRequests := cRequests c\<rparr>)"

definition bindSocket :: "nat \<Rightarrow> Ledger \<Rightarrow> Ledger" where
  "bindSocket k l = (case sock l k of None \<Rightarrow> l | Some s \<Rightarrow>
     (case map_of (claims l) (sConn s, True) of None \<Rightarrow> l
      | Some c \<Rightarrow> if candidate (sConn s) c l = Some k
          then (set_sock k (bind_claim c) l)\<lparr>claims := AList.delete (sConn s, True) (claims l)\<rparr> else l))"

definition replayed :: "Line \<Rightarrow> gotime \<Rightarrow> Ledger \<Rightarrow> nat option" where
  "replayed line now l =
     (if lUDP line \<or> IsZero (started l) \<or> After (lAt line) (started l) \<or> Sub now (ltail l) > claimWait then None
      else find_sock (\<lambda>s. IsZero (sAfter s) \<and> sEmail s \<noteq> [] \<and> After (lAt line) (lAt (sLine s))) l (lConn line))"

text \<open>One round of the loop of \<open>dispute\<close>: whether the connection is disputed by the line, and left
  nobody's.\<close>

definition dispute_sock :: "bool \<Rightarrow> gotime \<Rightarrow> Line \<Rightarrow> socket \<Rightarrow> bool \<times> socket" where
  "dispute_sock recently start line s =
     (if \<not> IsZero (sClosedAt s) \<and> After (lAt line) (sClosedAt s) then (False, s)
      else if sDisputed s then (lUDP line, s)
      else if sEmail s = [] \<or> sEmail s = lEmail line then (False, s)
      else if (IsZero (sAfter s) \<and> recently \<and> \<not> After (lAt (sLine s)) start) \<or>
              (lUDP line \<and> \<not> IsZero (sAfter s) \<and> After (lAt line) (sAfter s))
      then (True, s\<lparr>sEmail := [], sLine := noLine, sRequests := 0, sDisputed := True\<rparr>)
      else (False, s))"

fun dispute_loop :: "bool \<Rightarrow> Line \<Rightarrow> nat list \<Rightarrow> Ledger \<Rightarrow> bool \<times> Ledger" where
  "dispute_loop recently line [] l = (False, l)"
| "dispute_loop recently line (k # ks) l = (case sock l k of None \<Rightarrow> dispute_loop recently line ks l
     | Some s \<Rightarrow> (let (d, s') = dispute_sock recently (started l) line s;
                     (d', l') = dispute_loop recently line ks (set_sock k (\<lambda>_. s') l)
                 in (d \<or> d', l')))"

definition dispute :: "Line \<Rightarrow> gotime \<Rightarrow> Ledger \<Rightarrow> bool \<times> Ledger" where
  "dispute line now l =
     dispute_loop (\<not> IsZero (started l) \<and> After (lAt line) (started l) \<and> Sub now (ltail l) \<le> claimWait)
       line (at_conn l (lConn line)) l"

section \<open>Lines come in\<close>

text \<open>The claim a line makes, given the one waiting at its address.\<close>

definition new_claim :: "gotime \<Rightarrow> Line \<Rightarrow> claim option \<Rightarrow> claim" where
  "new_claim now line waiting = \<lparr>cLine = line, cArrived = now, cRequests = 1,
     cRival = (case waiting of Some w \<Rightarrow>
         if lUDP line then (if lEmail (cLine w) \<noteq> lEmail line then lAt (cLine w) else cRival w) else 0
       | None \<Rightarrow> 0)\<rparr>"

definition more_requests :: "claim \<Rightarrow> claim option \<Rightarrow> claim" where
  "more_requests c waiting = (case waiting of Some w \<Rightarrow>
       if lEmail (cLine w) = lEmail (cLine c) then c\<lparr>cRequests := cRequests c + cRequests w\<rparr> else c
     | None \<Rightarrow> c)"

definition claim_line :: "gotime \<Rightarrow> Line \<Rightarrow> Ledger \<Rightarrow> Ledger" where
  "claim_line now line l =
     (let at = (lConn line, lTCP line); waiting = map_of (claims l) at in
      if \<not> lTCP line then l\<lparr>claims := AList.update at (new_claim now line None) (claims l)\<rparr>
      else (let c = new_claim now line waiting in
        case replayed line now l of
          Some k \<Rightarrow> (set_sock k (\<lambda>s. s\<lparr>sEmail := lEmail line, sLine := line, sRequests := 1\<rparr>) l)\<lparr>claims := AList.delete at (claims l)\<rparr>
        | None \<Rightarrow> (case carrier (lConn line) c l of
            Some k \<Rightarrow> (set_sock k (\<lambda>s. s\<lparr>sRequests := sRequests s + 1\<rparr>) l)\<lparr>claims := AList.delete at (claims l)\<rparr>
          | None \<Rightarrow> (case candidate (lConn line) c l of
              Some k \<Rightarrow> (set_sock k (bind_claim c) l)\<lparr>claims := AList.delete at (claims l)\<rparr>
            | None \<Rightarrow>
                (let c' = more_requests c waiting; (disputed, l') = dispute line now l
                 in if disputed then l' else l'\<lparr>claims := AList.update at c' (claims l')\<rparr>)))))"

fun claim_lines :: "gotime \<Rightarrow> Line list \<Rightarrow> Ledger \<Rightarrow> Ledger" where
  "claim_lines now [] l = l"
| "claim_lines now (line # batch) l = claim_lines now batch (claim_line now line l)"

text \<open>\<open>slices.SortFunc\<close> may order equal times in any way; \<open>sort_key\<close> is one of them.\<close>

definition dropOldClaims :: "Ledger \<Rightarrow> Ledger" where
  "dropOldClaims l =
     (let ks = map fst (sort_key (\<lambda>(at, c). cArrived c) (claims l));
          old = take (length ks - maxClaims * 9 div 10) ks
      in l\<lparr>claims := filter (\<lambda>(at, c). at \<notin> set old) (claims l)\<rparr>)"

definition claim_batch :: "gotime \<Rightarrow> Line list \<Rightarrow> Ledger \<Rightarrow> Ledger" where
  "claim_batch now batch l =
     (let l1 = (if IsZero (ltail l) \<and> \<not> IsZero (started l) then l\<lparr>ltail := now\<rparr> else l);
          l2 = claim_lines now batch l1
      in if length (claims l2) > maxClaims then dropOldClaims l2 else l2)"

section \<open>Dumps and close notices come in\<close>

fun remove_closed :: "gotime \<Rightarrow> (nat \<times> socket) list \<Rightarrow> Ledger \<Rightarrow> Ledger" where
  "remove_closed now [] l = l"
| "remove_closed now ((k, s) # rest) l =
     remove_closed now rest (if \<not> IsZero (sClosedAt s) \<and> Sub now (sClosedAt s) > keepClosed then remove k s l else l)"

definition claim_over :: "gotime \<Rightarrow> claim \<Rightarrow> bool" where
  "claim_over now c \<longleftrightarrow> (lUDP (cLine c) \<and> Sub now (lAt (cLine c)) > udpKeep) \<or>
     (\<not> lUDP (cLine c) \<and> Sub now (cArrived c) > claimWait)"

definition expire :: "gotime \<Rightarrow> Ledger \<Rightarrow> Ledger" where
  "expire now l = (let l' = remove_closed now (sockets l) l
     in l'\<lparr>claims := filter (\<lambda>(at, c). \<not> claim_over now c) (claims l')\<rparr>)"

fun take_conns :: "sock_conn list \<Rightarrow> Ledger \<Rightarrow> nat list \<times> Ledger" where
  "take_conns [] l = ([], l)"
| "take_conns (c # cs) l = (case sock l (Cookie c) of
      None \<Rightarrow> (let (added, l') = take_conns cs (add c l) in (Cookie c # added, l'))
    | Some s \<Rightarrow> take_conns cs
        (if sNoticed s then l else set_sock (Cookie c) (\<lambda>s. update c (s\<lparr>sMissing := 0, sClosedAt := 0\<rparr>)) l))"

definition count_missing :: "socket \<Rightarrow> socket" where
  "count_missing s = (if IsZero (sClosedAt s) then s\<lparr>sMissing := sMissing s + 1\<rparr> else s)"

definition close_missing :: "gotime \<Rightarrow> socket \<Rightarrow> socket" where
  "close_missing now s = (if IsZero (sClosedAt s) \<and> sMissing s \<ge> missingDumps then s\<lparr>sClosedAt := now\<rparr> else s)"

definition take_dump :: "gotime \<Rightarrow> gotime \<Rightarrow> sock_conn list option \<Rightarrow> Ledger \<Rightarrow> Ledger" where
  "take_dump now start dump l = (case dump of
     None \<Rightarrow> expire now (l\<lparr>dumpErr := True\<rparr>)
   | Some conns \<Rightarrow>
       (let l1 = each_sock count_missing (l\<lparr>dumpErr := False\<rparr>);
            (added, l2) = take_conns conns l1;
            l3 = fold bindSocket added l2;
            l4 = each_sock (close_missing now) l3;
            l5 = l4\<lparr>started := (if IsZero (dumped l4) then start else started l4), dumped := start\<rparr>
        in expire now l5))"

text \<open>\<open>poll\<close> also hands on the connections found gone.\<close>

definition poll :: "gotime \<Rightarrow> gotime \<Rightarrow> sock_conn list option \<Rightarrow> Ledger \<Rightarrow> Ended list \<times> Ledger" where
  "poll now start dump l = (let l' = take_dump now start dump l in (finished l', l'\<lparr>finished := []\<rparr>))"

definition close :: "gotime \<Rightarrow> sock_conn \<Rightarrow> Ledger \<Rightarrow> Ledger" where
  "close now c l =
     (if IsZero (dumped l) then l
      else case sock l (Cookie c) of
        None \<Rightarrow> bindSocket (Cookie c) (set_sock (Cookie c) (\<lambda>s. s\<lparr>sClosedAt := now, sNoticed := True\<rparr>) (add c l))
      | Some _ \<Rightarrow> set_sock (Cookie c)
          (\<lambda>s. let s' = update c s in (if IsZero (sClosedAt s') then s'\<lparr>sClosedAt := now\<rparr> else s')\<lparr>sNoticed := True\<rparr>) l)"

section \<open>What the ledger tells\<close>

record Flow =
  fProto :: string
  fLocal :: "Addr option \<times> nat"
  fRemote :: AddrPort

definition tcp_flows :: "string list \<Rightarrow> Ledger \<Rightarrow> (string \<times> Flow) list" where
  "tcp_flows emails l = map (\<lambda>(k, s). (sEmail s, \<lparr>fProto = ''tcp'', fLocal = (Some (fst (sLocal s)), snd (sLocal s)),
       fRemote = cRemote (sConn s)\<rparr>))
     (filter (\<lambda>(k, s). sEmail s \<in> set emails \<and> IsZero (sClosedAt s)) (sockets l))"

definition udp_flows :: "gotime \<Rightarrow> string list \<Rightarrow> Ledger \<Rightarrow> (string \<times> Flow) list" where
  "udp_flows now emails l = map (\<lambda>(at, c). (lEmail (cLine c), \<lparr>fProto = ''udp'', fLocal = (None, cPort (fst at)),
       fRemote = cRemote (fst at)\<rparr>))
     (filter (\<lambda>(at, c). lUDP (cLine c) \<and> lEmail (cLine c) \<in> set emails \<and> Sub now (lAt (cLine c)) \<le> udpKeep \<and>
        (\<not> lTCP (cLine c) \<or> Before (cArrived c) (dumped l))) (claims l))"

text \<open>The flows of each named user: the map of the code as a list of pairs.\<close>

definition Flows :: "gotime \<Rightarrow> string list \<Rightarrow> Ledger \<Rightarrow> (string \<times> Flow) list" where
  "Flows now emails l = tcp_flows emails l @ udp_flows now emails l"

definition Connections :: "Ledger \<Rightarrow> string \<Rightarrow> nat" where
  "Connections l email = length (filter (\<lambda>(k, s). sEmail s \<noteq> [] \<and> sEmail s = email \<and> IsZero (sClosedAt s)) (sockets l))"

section \<open>The maps and the primitives\<close>

lemma map_of_map_entry_gm: "map_of (AList.map_entry k f m) j = (if j = k then map_option f (map_of m k) else map_of m j)"
  by (induction m) auto

lemma map_entry_keys [simp]: "map fst (AList.map_entry k f m) = map fst m"
  by (induction m) auto

lemma sock_set [simp]: "sock (set_sock k f l) j = (if j = k then map_option f (sock l k) else sock l j)"
  by (simp add: sock_def set_sock_def map_of_map_entry_gm)

lemma sock_each [simp]: "sock (each_sock f l) j = map_option f (sock l j)"
  by (simp add: sock_def each_sock_def map_of_map_snd)

lemma ledger_proj [simp]:
  "byConn (set_sock k f l) = byConn l" "claims (set_sock k f l) = claims l" "finished (set_sock k f l) = finished l"
  "dumped (set_sock k f l) = dumped l" "started (set_sock k f l) = started l" "ltail (set_sock k f l) = ltail l"
  "hasEnded (set_sock k f l) = hasEnded l"
  "byConn (each_sock g l) = byConn l" "claims (each_sock g l) = claims l" "finished (each_sock g l) = finished l"
  "dumped (each_sock g l) = dumped l" "started (each_sock g l) = started l" "hasEnded (each_sock g l) = hasEnded l"
  "sock (l\<lparr>claims := x\<rparr>) = sock l" "sock (l\<lparr>finished := y\<rparr>) = sock l" "sock (l\<lparr>dumpErr := z\<rparr>) = sock l"
  "sock (l\<lparr>started := t\<rparr>) = sock l" "sock (l\<lparr>dumped := t\<rparr>) = sock l" "sock (l\<lparr>ltail := t\<rparr>) = sock l"
  "sock (l\<lparr>byConn := b\<rparr>) = sock l"
  by (simp_all add: set_sock_def each_sock_def sock_def fun_eq_iff)

text \<open>The index lists exactly the sockets at each address, each once.\<close>

definition index_ok :: "Ledger \<Rightarrow> bool" where
  "index_ok l \<longleftrightarrow> gm_ok (sockets l) \<and> gm_ok (byConn l) \<and>
     (\<forall>c ks. map_of (byConn l) c = Some ks \<longrightarrow> ks \<noteq> [] \<and> distinct ks \<and> (\<forall>k \<in> set ks. \<exists>s. sock l k = Some s \<and> sConn s = c)) \<and>
     (\<forall>k s. sock l k = Some s \<longrightarrow> k \<in> set (at_conn l (sConn s)))"

lemma at_connD:
  assumes "index_ok l" "k \<in> set (at_conn l c)"
  shows "\<exists>s. sock l k = Some s \<and> sConn s = c"
proof -
  obtain ks where "map_of (byConn l) c = Some ks" "k \<in> set ks"
    using assms(2) by (cases "map_of (byConn l) c") (simp_all add: at_conn_def gm_get_def)
  with assms(1) show ?thesis by (simp add: index_ok_def)
qed

lemma at_conn_distinct: "index_ok l \<Longrightarrow> distinct (at_conn l c)"
  by (auto simp: index_ok_def at_conn_def gm_get_def split: option.splits)

lemma sock_at_conn: "index_ok l \<Longrightarrow> sock l k = Some s \<Longrightarrow> k \<in> set (at_conn l (sConn s))"
  by (simp add: index_ok_def)

lemma at_conn_byConn: "byConn l = byConn l' \<Longrightarrow> at_conn l = at_conn l'"
  by (simp add: at_conn_def fun_eq_iff)

lemma index_ok_cong:
  assumes "index_ok l" "gm_ok (sockets l')" "byConn l' = byConn l"
    and "\<And>k. map_option sConn (sock l' k) = map_option sConn (sock l k)"
  shows "index_ok l'"
proof -
  have ac: "at_conn l' = at_conn l" using assms(3) by (rule at_conn_byConn)
  have fw: "sock l k = Some s \<Longrightarrow> \<exists>s'. sock l' k = Some s' \<and> sConn s' = sConn s" for k s
    using assms(4) [of k] by (cases "sock l' k") auto
  have bk: "sock l' k = Some s \<Longrightarrow> \<exists>s'. sock l k = Some s' \<and> sConn s' = sConn s" for k s
    using assms(4) [of k] by (cases "sock l k") auto
  have "\<forall>k \<in> set ks. \<exists>s. sock l' k = Some s \<and> sConn s = c" if "map_of (byConn l) c = Some ks" for c ks
    using assms(1) that fw by (fastforce simp: index_ok_def)
  moreover have "k \<in> set (at_conn l (sConn s))" if "sock l' k = Some s" for k s
    using bk [OF that] sock_at_conn [OF assms(1)] by fastforce
  ultimately show ?thesis using assms(1-3) ac by (auto simp: index_ok_def)
qed

lemma index_ok_set:
  assumes "index_ok l" "\<And>s. sock l k = Some s \<Longrightarrow> sConn (f s) = sConn s"
  shows "index_ok (set_sock k f l)"
proof (rule index_ok_cong [OF assms(1)])
  show "gm_ok (sockets (set_sock k f l))" using assms(1) by (simp add: index_ok_def set_sock_def gm_ok_def)
  show "map_option sConn (sock (set_sock k f l) j) = map_option sConn (sock l j)" for j
    using assms(2) by (cases "sock l k") auto
qed simp

lemma index_ok_each:
  assumes "index_ok l" "\<And>s. sConn (f s) = sConn s"
  shows "index_ok (each_sock f l)"
proof (rule index_ok_cong [OF assms(1)])
  show "gm_ok (sockets (each_sock f l))"
    using assms(1) by (simp add: index_ok_def each_sock_def gm_ok_map_snd [of "\<lambda>_. f"])
  show "map_option sConn (sock (each_sock f l) j) = map_option sConn (sock l j)" for j
    using assms(2) by (cases "sock l j") auto
qed simp

lemma index_ok_fields [simp]:
  "index_ok (l\<lparr>claims := x\<rparr>) = index_ok l" "index_ok (l\<lparr>finished := y\<rparr>) = index_ok l" "index_ok (l\<lparr>dumpErr := z\<rparr>) = index_ok l"
  "index_ok (l\<lparr>started := t\<rparr>) = index_ok l" "index_ok (l\<lparr>dumped := t\<rparr>) = index_ok l" "index_ok (l\<lparr>ltail := t\<rparr>) = index_ok l"
  by (simp_all add: index_ok_def at_conn_def)

lemma sock_add: "sock (add c l) k = (if k = Cookie c then Some (new_socket (dumped l) c) else sock l k)"
  by (simp add: add_def sock_def Let_def map_of_update_gm)

lemma at_conn_add: "at_conn (add c l) x = (if x = sConn (new_socket (dumped l) c) then at_conn l x @ [Cookie c] else at_conn l x)"
  by (simp add: add_def at_conn_def Let_def gm_get_def map_of_update_gm)

lemma index_ok_add:
  assumes "index_ok l" "sock l (Cookie c) = None"
  shows "index_ok (add c l)"
proof -
  have new: "Cookie c \<notin> set (at_conn l x)" for x using at_connD [OF assms(1)] assms(2) by fastforce
  have "gm_ok (sockets (add c l))" "gm_ok (byConn (add c l))" using assms(1) by (auto simp: index_ok_def add_def Let_def)
  moreover have "ks \<noteq> [] \<and> distinct ks \<and> (\<forall>k \<in> set ks. \<exists>s. sock (add c l) k = Some s \<and> sConn s = x)"
    if "map_of (byConn (add c l)) x = Some ks" for x ks
  proof -
    have ks: "ks = at_conn (add c l) x" using that by (simp add: at_conn_def gm_get_def)
    have "ks \<noteq> []"
      using that assms(1) by (auto simp: add_def Let_def map_of_update_gm index_ok_def split: if_splits)
    moreover have "distinct ks"
      using at_conn_distinct [OF assms(1)] new by (simp add: ks at_conn_add)
    moreover have "\<exists>s. sock (add c l) k = Some s \<and> sConn s = x" if "k \<in> set ks" for k
      using that at_connD [OF assms(1)] new by (auto simp: ks at_conn_add sock_add split: if_splits)
    ultimately show ?thesis by blast
  qed
  moreover have "k \<in> set (at_conn (add c l) (sConn s))" if "sock (add c l) k = Some s" for k s
    using that sock_at_conn [OF assms(1), of k s] by (auto simp: at_conn_add sock_add split: if_splits)
  ultimately show ?thesis unfolding index_ok_def by blast
qed

lemma sock_remove: "sock (remove k s l) j = (if j = k then None else sock l j)"
  by (simp add: remove_def sock_def Let_def map_of_delete_gm)

lemma at_conn_remove: "at_conn (remove k s l) x = (if x = sConn s then removeAll k (at_conn l x) else at_conn l x)"
  by (auto simp: remove_def at_conn_def Let_def gm_get_def gm_simps)

lemma index_ok_remove:
  assumes "index_ok l" "sock l k = Some s"
  shows "index_ok (remove k s l)"
proof -
  have "gm_ok (sockets (remove k s l))" "gm_ok (byConn (remove k s l))" using assms(1) by (auto simp: index_ok_def remove_def Let_def)
  moreover have "ks \<noteq> [] \<and> distinct ks \<and> (\<forall>j \<in> set ks. \<exists>r. sock (remove k s l) j = Some r \<and> sConn r = x)"
    if "map_of (byConn (remove k s l)) x = Some ks" for x ks
  proof -
    have ks: "ks = at_conn (remove k s l) x" using that by (simp add: at_conn_def gm_get_def)
    have "ks \<noteq> []"
      using that assms(1) by (auto simp: remove_def Let_def gm_simps index_ok_def split: if_splits)
    moreover have "distinct ks" using at_conn_distinct [OF assms(1)] by (simp add: ks at_conn_remove distinct_removeAll)
    moreover have "\<exists>r. sock (remove k s l) j = Some r \<and> sConn r = x" if "j \<in> set ks" for j
    proof -
      have "j \<in> set (at_conn l x)" using that by (auto simp: ks at_conn_remove split: if_splits)
      from at_connD [OF assms(1) this] obtain r where r: "sock l j = Some r" "sConn r = x" by blast
      moreover have "j \<noteq> k" using that r assms(2) by (auto simp: ks at_conn_remove split: if_splits)
      ultimately show ?thesis by (simp add: sock_remove)
    qed
    ultimately show ?thesis by blast
  qed
  moreover have "j \<in> set (at_conn (remove k s l) (sConn r))" if "sock (remove k s l) j = Some r" for j r
    using that sock_at_conn [OF assms(1), of j r] by (auto simp: at_conn_remove sock_remove split: if_splits)
  ultimately show ?thesis unfolding index_ok_def by blast
qed

section \<open>The invariant\<close>

text \<open>A bound connection has a line of its user that named it, written when it was open; a disputed
  one has no user.\<close>

definition bound_ok :: "Line set \<Rightarrow> socket \<Rightarrow> bool" where
  "bound_ok H s \<longleftrightarrow> (sEmail s \<noteq> [] \<longrightarrow> sLine s \<in> H \<and> lEmail (sLine s) = sEmail s \<and> lConn (sLine s) = sConn s \<and>
     lTCP (sLine s) \<and> sAfter s \<le> lAt (sLine s) \<and> (lUDP (sLine s) \<longrightarrow> sAfter s \<noteq> 0) \<and> 1 \<le> sRequests s) \<and>
   (sDisputed s \<longrightarrow> sEmail s = [])"

definition claim_ok :: "Line set \<Rightarrow> Conn \<times> bool \<Rightarrow> claim \<Rightarrow> bool" where
  "claim_ok H at c \<longleftrightarrow> cLine c \<in> H \<and> lConn (cLine c) = fst at \<and> lTCP (cLine c) = snd at \<and> 1 \<le> cRequests c"

definition ended_ok :: "Line set \<Rightarrow> Ended \<Rightarrow> bool" where
  "ended_ok H n \<longleftrightarrow> nLine n \<in> H \<and> lEmail (nLine n) \<noteq> [] \<and> lTCP (nLine n) \<and> 1 \<le> nRequests n"

definition linv :: "Line set \<Rightarrow> Ledger \<Rightarrow> bool" where
  "linv H l \<longleftrightarrow> index_ok l \<and> gm_ok (claims l) \<and> (\<forall>k s. sock l k = Some s \<longrightarrow> bound_ok H s) \<and>
     (\<forall>at c. map_of (claims l) at = Some c \<longrightarrow> claim_ok H at c) \<and> (\<forall>n. n \<in> set (finished l) \<longrightarrow> ended_ok H n)"

lemma linvD:
  assumes "linv H l"
  shows "index_ok l" "gm_ok (claims l)" "sock l k = Some s \<Longrightarrow> bound_ok H s"
    "map_of (claims l) at = Some c \<Longrightarrow> claim_ok H at c" "n \<in> set (finished l) \<Longrightarrow> ended_ok H n"
  using assms unfolding linv_def by blast+

lemma linv_mono: "linv H l \<Longrightarrow> H \<subseteq> H' \<Longrightarrow> linv H' l"
  unfolding linv_def bound_ok_def claim_ok_def ended_ok_def by blast

lemma linv_fields [simp]:
  "linv H (l\<lparr>dumpErr := z\<rparr>) = linv H l" "linv H (l\<lparr>started := t\<rparr>) = linv H l" "linv H (l\<lparr>dumped := t\<rparr>) = linv H l"
  "linv H (l\<lparr>ltail := t\<rparr>) = linv H l"
  by (simp_all add: linv_def)

lemma linv_set:
  assumes "linv H l" "\<And>s. sock l k = Some s \<Longrightarrow> sConn (f s) = sConn s \<and> bound_ok H (f s)"
  shows "linv H (set_sock k f l)"
proof -
  have "index_ok (set_sock k f l)" using assms by (intro index_ok_set linvD(1)) auto
  moreover have "bound_ok H s" if "sock (set_sock k f l) j = Some s" for j s
    using that assms(2) linvD(3) [OF assms(1)] by (auto split: if_splits)
  ultimately show ?thesis using linvD [OF assms(1)] unfolding linv_def ledger_proj by blast
qed

lemma linv_each:
  assumes "linv H l" "\<And>s. bound_ok H s \<Longrightarrow> bound_ok H (f s)" "\<And>s. sConn (f s) = sConn s"
  shows "linv H (each_sock f l)"
proof -
  have "index_ok (each_sock f l)" using assms(3) by (intro index_ok_each linvD(1) [OF assms(1)])
  moreover have "bound_ok H s" if "sock (each_sock f l) j = Some s" for j s
    using that assms(2) linvD(3) [OF assms(1)] by auto
  ultimately show ?thesis using linvD [OF assms(1)] unfolding linv_def ledger_proj by blast
qed

lemma linv_claims:
  assumes "linv H l" "gm_ok cs" "\<And>at c. map_of cs at = Some c \<Longrightarrow> claim_ok H at c"
  shows "linv H (l\<lparr>claims := cs\<rparr>)"
  using assms by (auto simp: linv_def)

lemma linv_delete_claim: "linv H l \<Longrightarrow> linv H (l\<lparr>claims := AList.delete at (claims l)\<rparr>)"
  by (rule linv_claims) (auto simp: map_of_delete_gm dest: linvD(2) linvD(4) split: if_splits)

lemma linv_update_claim: "linv H l \<Longrightarrow> claim_ok H at c \<Longrightarrow> linv H (l\<lparr>claims := AList.update at c (claims l)\<rparr>)"
  by (rule linv_claims) (auto simp: map_of_update_gm dest: linvD(2) linvD(4) split: if_splits)

lemma linv_filter_claims: "linv H l \<Longrightarrow> linv H (l\<lparr>claims := filter P (claims l)\<rparr>)"
proof (rule linv_claims)
  assume l: "linv H l"
  then show "gm_ok (filter P (claims l))" using linvD(2) by (simp add: gm_ok_filter)
  fix at c assume "map_of (filter P (claims l)) at = Some c"
  then have "(at, c) \<in> set (claims l)" by (auto dest: map_of_SomeD)
  then show "claim_ok H at c" using l by (simp add: gm_in_set linvD)
qed

lemma bound_ok_new: "bound_ok H (new_socket t c)"
  by (simp add: bound_ok_def new_socket_def)

lemma linv_add:
  assumes "linv H l" "sock l (Cookie c) = None"
  shows "linv H (add c l)"
proof -
  have "index_ok (add c l)" by (rule index_ok_add [OF linvD(1) [OF assms(1)] assms(2)])
  moreover have "bound_ok H s" if "sock (add c l) k = Some s" for k s
    using that linvD(3) [OF assms(1)] by (auto simp: sock_add bound_ok_new split: if_splits)
  moreover have "claims (add c l) = claims l" "finished (add c l) = finished l" by (simp_all add: add_def Let_def)
  ultimately show ?thesis using linvD [OF assms(1)] by (simp add: linv_def)
qed

lemma linv_remove:
  assumes "linv H l" "sock l k = Some s"
  shows "linv H (remove k s l)"
proof -
  have b: "bound_ok H s" using linvD(3) [OF assms] .
  have "index_ok (remove k s l)" by (rule index_ok_remove [OF linvD(1) [OF assms(1)] assms(2)])
  moreover have "bound_ok H r" if "sock (remove k s l) j = Some r" for j r
    using that linvD(3) [OF assms(1)] by (auto simp: sock_remove split: if_splits)
  moreover have "ended_ok H n" if "n \<in> set (finished (remove k s l))" for n
    using that linvD(5) [OF assms(1)] b
    by (auto simp: remove_def Let_def ended_ok_def ended_of_def bound_ok_def split: if_splits)
  moreover have "claims (remove k s l) = claims l" by (simp add: remove_def Let_def)
  ultimately show ?thesis using linvD [OF assms(1)] by (simp add: linv_def)
qed

section \<open>Binding\<close>

lemma only_one_eq: "only_one P found ks = (case found of None \<Rightarrow> (case filter P ks of [k] \<Rightarrow> Some k | _ \<Rightarrow> None)
    | Some k \<Rightarrow> if filter P ks = [] then Some k else None)"
  by (induction ks arbitrary: found) (auto split: option.splits list.splits)

text \<open>A line finds a connection exactly when one and only one it can belong to is there.\<close>

lemma candidate_iff:
  "candidate conn c l = Some k \<longleftrightarrow>
     filter (\<lambda>k. case sock l k of None \<Rightarrow> False | Some s \<Rightarrow> eligible c s) (at_conn l conn) = [k]"
  by (auto simp: candidate_def only_one_eq split: list.splits)

lemma candidate_Some:
  assumes "candidate conn c l = Some k"
  shows "k \<in> set (at_conn l conn) \<and> (\<exists>s. sock l k = Some s \<and> eligible c s)"
proof -
  have "k \<in> set (filter (\<lambda>k. case sock l k of None \<Rightarrow> False | Some s \<Rightarrow> eligible c s) (at_conn l conn))"
    using assms by (simp add: candidate_iff)
  then show ?thesis by (auto split: option.splits)
qed

lemma find_sock_Some:
  "find_sock P l conn = Some k \<Longrightarrow> k \<in> set (at_conn l conn) \<and> (\<exists>s. sock l k = Some s \<and> P s)"
  unfolding find_sock_def by (drule find_Some_iff [THEN iffD1]) (auto split: option.splits)

lemma bind_claim_ok:
  assumes "claim_ok H (sConn s, True) c" "eligible c s"
  shows "sConn (bind_claim c s) = sConn s \<and> bound_ok H (bind_claim c s)"
  using assms by (auto simp: bind_claim_def bound_ok_def claim_ok_def eligible_def time_defs)

lemma linv_bind:
  assumes "linv H l" "candidate conn c l = Some k" "claim_ok H (conn, True) c"
  shows "linv H ((set_sock k (bind_claim c) l)\<lparr>claims := AList.delete at (claims l)\<rparr>)"
proof -
  from candidate_Some [OF assms(2)] obtain s where s: "sock l k = Some s" "eligible c s" "k \<in> set (at_conn l conn)" by auto
  from at_connD [OF linvD(1) [OF assms(1)] s(3)] s(1) have "sConn s = conn" by simp
  with bind_claim_ok [of H s c] assms(3) s have "linv H (set_sock k (bind_claim c) l)"
    by (intro linv_set [OF assms(1)]) auto
  from linv_delete_claim [OF this, of at] show ?thesis by simp
qed

lemma linv_bindSocket: "linv H l \<Longrightarrow> linv H (bindSocket k l)"
  using linv_bind linvD(4) by (auto simp: bindSocket_def split: option.splits)

lemma dispute_sock_ok: "bound_ok H s \<Longrightarrow> sConn (snd (dispute_sock d t line s)) = sConn s \<and> bound_ok H (snd (dispute_sock d t line s))"
  by (simp add: dispute_sock_def bound_ok_def)

lemma linv_dispute_loop: "linv H l \<Longrightarrow> linv H (snd (dispute_loop d line ks l))"
proof (induction d line ks l rule: dispute_loop.induct)
  case (2 d line k ks l)
  show ?case
  proof (cases "sock l k")
    case None
    with 2 show ?thesis by simp
  next
    case (Some s)
    obtain e s' where e: "dispute_sock d (started l) line s = (e, s')" by force
    have "linv H (set_sock k (\<lambda>_. s') l)"
      using dispute_sock_ok [OF linvD(3) [OF 2(3) Some], of d "started l" line] Some e by (intro linv_set [OF 2(3)]) auto
    with 2(2) [OF Some e [symmetric] refl] Some e show ?thesis
      by (cases "dispute_loop d line ks (set_sock k (\<lambda>_. s') l)") simp
  qed
qed simp

lemma claim_ok_new:
  "line \<in> H \<Longrightarrow> claim_ok H (lConn line, lTCP line) (new_claim now line w)"
  by (simp add: claim_ok_def new_claim_def)

lemma claim_ok_more:
  assumes "claim_ok H at c" "\<And>w. waiting = Some w \<Longrightarrow> claim_ok H at w"
  shows "claim_ok H at (more_requests c waiting)"
  using assms by (cases waiting) (simp_all add: claim_ok_def more_requests_def)

lemma linv_claim_line:
  assumes l: "linv H l" and line: "line \<in> H"
  shows "linv H (claim_line now line l)"
proof (cases "lTCP line")
  case False
  then show ?thesis using linv_update_claim [OF l claim_ok_new [OF line]] by (simp add: claim_line_def Let_def)
next
  case True
  let ?at = "(lConn line, True)"
  let ?w = "map_of (claims l) ?at"
  let ?c = "new_claim now line ?w"
  have c: "claim_ok H ?at ?c" using claim_ok_new [OF line, of now ?w] True by simp
  have clean: "linv H ((set_sock k f l)\<lparr>claims := AList.delete ?at (claims l)\<rparr>)"
    if "\<And>s. sock l k = Some s \<Longrightarrow> sConn (f s) = sConn s \<and> bound_ok H (f s)" for k f
    using linv_delete_claim [where at = ?at, OF linv_set [OF l that]] by simp
  show ?thesis
  proof (cases "replayed line now l")
    case (Some k)
    then obtain s where s: "sock l k = Some s" "sAfter s = 0" "sEmail s \<noteq> []" "lAt (sLine s) < lAt line" "\<not> lUDP line"
      "k \<in> set (at_conn l (lConn line))"
      by (auto simp: replayed_def time_defs split: if_splits dest!: find_sock_Some)
    have "sConn s = lConn line" using at_connD [OF linvD(1) [OF l] s(6)] s(1) by simp
    moreover have "bound_ok H s" using linvD(3) [OF l s(1)] .
    ultimately have "linv H ((set_sock k (\<lambda>s. s\<lparr>sEmail := lEmail line, sLine := line, sRequests := 1\<rparr>) l)\<lparr>claims := AList.delete ?at (claims l)\<rparr>)"
      using s line True by (intro clean) (auto simp: bound_ok_def)
    with Some True show ?thesis by (simp add: claim_line_def Let_def)
  next
    case no_replay: None
    show ?thesis
    proof (cases "carrier (lConn line) ?c l")
      case (Some k)
      have "linv H ((set_sock k (\<lambda>s. s\<lparr>sRequests := sRequests s + 1\<rparr>) l)\<lparr>claims := AList.delete ?at (claims l)\<rparr>)"
      proof (rule clean)
        fix s assume "sock l k = Some s"
        from linvD(3) [OF l this]
        show "sConn (s\<lparr>sRequests := sRequests s + 1\<rparr>) = sConn s \<and> bound_ok H (s\<lparr>sRequests := sRequests s + 1\<rparr>)"
          by (auto simp: bound_ok_def)
      qed
      with Some no_replay True show ?thesis by (simp add: claim_line_def Let_def)
    next
      case no_carrier: None
      show ?thesis
      proof (cases "candidate (lConn line) ?c l")
        case (Some k)
        from linv_bind [OF l Some c] no_replay no_carrier Some True show ?thesis by (simp add: claim_line_def Let_def)
      next
        case None
        obtain d l' where d: "dispute line now l = (d, l')" by force
        then have l': "linv H l'" using linv_dispute_loop [OF l] by (metis dispute_def snd_conv)
        have "claim_ok H ?at (more_requests ?c ?w)" using c linvD(4) [OF l] by (rule claim_ok_more)
        with l' linv_update_claim None no_replay no_carrier True d show ?thesis by (simp add: claim_line_def Let_def)
      qed
    qed
  qed
qed

lemma linv_claim_lines: "linv H l \<Longrightarrow> set batch \<subseteq> H \<Longrightarrow> linv H (claim_lines now batch l)"
  by (induction batch arbitrary: l) (auto intro: linv_claim_line)

lemma linv_claim_batch:
  assumes "linv H l" "set batch \<subseteq> H"
  shows "linv H (claim_batch now batch l)"
proof -
  have "linv H (claim_lines now batch l')" if "l' = l \<or> l' = l\<lparr>ltail := now\<rparr>" for l'
    using that assms by (intro linv_claim_lines) auto
  then show ?thesis by (simp add: claim_batch_def Let_def dropOldClaims_def linv_filter_claims)
qed

section \<open>Dumps\<close>

lemma bound_ok_update: "bound_ok H s \<Longrightarrow> bound_ok H (update c s)"
  by (simp add: bound_ok_def update_def)

lemma bound_ok_times: "bound_ok H (s\<lparr>sMissing := n, sClosedAt := t\<rparr>) = bound_ok H s" "bound_ok H (s\<lparr>sMissing := n\<rparr>) = bound_ok H s"
    "bound_ok H (s\<lparr>sClosedAt := t\<rparr>) = bound_ok H s" "bound_ok H (s\<lparr>sNoticed := b\<rparr>) = bound_ok H s"
    "bound_ok H (s\<lparr>sClosedAt := t, sNoticed := b\<rparr>) = bound_ok H s"
  by (simp_all add: bound_ok_def)

lemma sConn_update [simp]: "sConn (update c s) = sConn s"
  by (simp add: update_def)

lemma linv_take_conns: "linv H l \<Longrightarrow> linv H (snd (take_conns cs l))"
proof (induction cs l rule: take_conns.induct)
  case (2 c cs l)
  show ?case
  proof (cases "sock l (Cookie c)")
    case None
    with 2(1) [OF None] linv_add [OF 2(3) None] show ?thesis by (cases "take_conns cs (add c l)") simp
  next
    case (Some s)
    have "linv H (set_sock (Cookie c) (\<lambda>s. update c (s\<lparr>sMissing := 0, sClosedAt := 0\<rparr>)) l)"
      using linvD(3) [OF 2(3)] by (intro linv_set [OF 2(3)]) (auto simp: bound_ok_update bound_ok_times)
    with 2(2) [OF Some] 2(3) Some show ?thesis by simp
  qed
qed simp

lemma linv_fold_bind: "linv H l \<Longrightarrow> linv H (fold bindSocket ks l)"
  by (induction ks arbitrary: l) (auto intro: linv_bindSocket)

lemma linv_remove_closed:
  assumes "linv H l" "gm_ok ps" "\<And>k s. (k, s) \<in> set ps \<Longrightarrow> sock l k = Some s"
  shows "linv H (remove_closed now ps l) \<and>
    sock (remove_closed now ps l) j = (case map_of ps j of
       Some s \<Rightarrow> if sClosedAt s \<noteq> 0 \<and> Sub now (sClosedAt s) > keepClosed then None else sock l j | None \<Rightarrow> sock l j)"
  using assms
proof (induction now ps l rule: remove_closed.induct)
  case (1 now l)
  then show ?case by simp
next
  case (2 now k s rest l)
  let ?gone = "sClosedAt s \<noteq> 0 \<and> Sub now (sClosedAt s) > keepClosed"
  let ?l = "if ?gone then remove k s l else l"
  have k: "sock l k = Some s" using 2(4) by simp
  have kn: "map_of rest k = None" using 2(3) by (simp add: gm_ok_def map_of_eq_None_iff)
  have l: "linv H ?l" using linv_remove [OF 2(2) k] 2(2) by simp
  have g: "gm_ok rest" using 2(3) by (simp add: gm_ok_def)
  have r: "sock ?l k' = Some s'" if "(k', s') \<in> set rest" for k' s'
    using that 2(4) kn by (auto simp: sock_remove map_of_eq_None_iff rev_image_eqI)
  have ih: "linv H (remove_closed now rest ?l) \<and>
    sock (remove_closed now rest ?l) j = (case map_of rest j of
       Some s \<Rightarrow> if sClosedAt s \<noteq> 0 \<and> Sub now (sClosedAt s) > keepClosed then None else sock ?l j | None \<Rightarrow> sock ?l j)"
    using 2(1) [of] l g r by (simp add: IsZero_def)
  then show ?case using kn k by (auto simp: IsZero_def sock_remove split: option.splits)
qed

lemma linv_expire: "linv H l \<Longrightarrow> linv H (expire now l)"
proof -
  assume l: "linv H l"
  have g: "gm_ok (sockets l)" using linvD(1) [OF l] by (simp add: index_ok_def)
  then have "linv H (remove_closed now (sockets l) l)"
    using linv_remove_closed [OF l g] by (simp add: sock_def gm_in_set)
  from linv_filter_claims [OF this] show ?thesis by (simp add: expire_def Let_def)
qed

lemma sock_expire:
  assumes "linv H l"
  shows "sock (expire now l) k = (case sock l k of
     Some s \<Rightarrow> if sClosedAt s \<noteq> 0 \<and> Sub now (sClosedAt s) > keepClosed then None else Some s | None \<Rightarrow> None)"
proof -
  have g: "gm_ok (sockets l)" using linvD(1) [OF assms] by (simp add: index_ok_def)
  have "sock (expire now l) k = sock (remove_closed now (sockets l) l) k" by (simp add: expire_def Let_def)
  also have "\<dots> = (case map_of (sockets l) k of
       Some s \<Rightarrow> if sClosedAt s \<noteq> 0 \<and> Sub now (sClosedAt s) > keepClosed then None else sock l k | None \<Rightarrow> sock l k)"
    using linv_remove_closed [OF assms g, of now k] by (simp add: sock_def gm_in_set [OF g])
  finally show ?thesis by (simp add: sock_def split: option.splits)
qed

text \<open>What \<open>take\<close> makes of the ledger before it lets go of what is over.\<close>

definition before_expire :: "gotime \<Rightarrow> gotime \<Rightarrow> sock_conn list option \<Rightarrow> Ledger \<Rightarrow> Ledger" where
  "before_expire now start dump l = (case dump of None \<Rightarrow> l\<lparr>dumpErr := True\<rparr> | Some conns \<Rightarrow>
     (let (added, l2) = take_conns conns (each_sock count_missing (l\<lparr>dumpErr := False\<rparr>));
          l4 = each_sock (close_missing now) (fold bindSocket added l2)
      in l4\<lparr>started := (if IsZero (dumped l4) then start else started l4), dumped := start\<rparr>))"

lemma take_dump_expire: "take_dump now start dump l = expire now (before_expire now start dump l)"
  by (simp add: take_dump_def before_expire_def Let_def split: option.split prod.split)

lemma linv_before_expire: "linv H l \<Longrightarrow> linv H (before_expire now start dump l)"
proof (cases dump)
  case (Some conns)
  assume l: "linv H l"
  have "linv H (each_sock count_missing (l\<lparr>dumpErr := False\<rparr>))"
    by (rule linv_each) (simp_all add: l count_missing_def bound_ok_times)
  from linv_take_conns [OF this, of conns] obtain added l2 where
    t: "take_conns conns (each_sock count_missing (l\<lparr>dumpErr := False\<rparr>)) = (added, l2)" "linv H l2"
    by (cases "take_conns conns (each_sock count_missing (l\<lparr>dumpErr := False\<rparr>))") simp
  have "linv H (each_sock (close_missing now) (fold bindSocket added l2))"
    by (rule linv_each [OF linv_fold_bind [OF t(2)]]) (simp_all add: close_missing_def bound_ok_times)
  then show ?thesis by (simp add: before_expire_def Some Let_def t(1))
qed (simp add: before_expire_def)

lemma linv_take_dump: "linv H l \<Longrightarrow> linv H (take_dump now start dump l)"
  by (simp add: take_dump_expire linv_expire linv_before_expire)

lemma linv_close: "linv H l \<Longrightarrow> linv H (close now c l)"
proof -
  assume l: "linv H l"
  show ?thesis
  proof (cases "sock l (Cookie c)")
    case None
    have "linv H (set_sock (Cookie c) (\<lambda>s. s\<lparr>sClosedAt := now, sNoticed := True\<rparr>) (add c l))"
      by (rule linv_set [OF linv_add [OF l None]]) (auto simp: sock_add bound_ok_times bound_ok_new)
    with None l show ?thesis by (simp add: close_def linv_bindSocket)
  next
    case (Some s)
    have "linv H (set_sock (Cookie c) (\<lambda>s. let s' = update c s in (if IsZero (sClosedAt s') then s'\<lparr>sClosedAt := now\<rparr> else s')\<lparr>sNoticed := True\<rparr>) l)"
      by (rule linv_set [OF l]) (use Some linvD(3) [OF l] in \<open>auto simp: Let_def bound_ok_times bound_ok_update\<close>)
    with Some l show ?thesis by (simp add: close_def)
  qed
qed

section \<open>Any sequence of events\<close>

datatype ledger_event = EvDump gotime gotime "sock_conn list option" | EvClose gotime sock_conn | EvLines gotime "Line list"

fun receive_event :: "ledger_event \<Rightarrow> Ledger \<Rightarrow> Ledger" where
  "receive_event (EvDump now start dump) l = snd (poll now start dump l)"
| "receive_event (EvClose now c) l = close now c l"
| "receive_event (EvLines now batch) l = claim_batch now batch l"

fun event_lines :: "ledger_event \<Rightarrow> Line list" where
  "event_lines (EvLines now batch) = batch"
| "event_lines _ = []"

definition after_events :: "bool \<Rightarrow> ledger_event list \<Rightarrow> Ledger" where
  "after_events he evs = fold receive_event evs (newLedger he)"

definition lines_of :: "ledger_event list \<Rightarrow> Line set" where
  "lines_of evs = set (concat (map event_lines evs))"

lemma linv_receive_event: "linv H l \<Longrightarrow> set (event_lines ev) \<subseteq> H \<Longrightarrow> linv H (receive_event ev l)"
proof (cases ev)
  case (EvDump now start dump)
  assume "linv H l"
  then have "linv H (take_dump now start dump l)" by (rule linv_take_dump)
  then have "linv H ((take_dump now start dump l)\<lparr>finished := []\<rparr>)" by (auto simp: linv_def)
  with EvDump show ?thesis by (simp add: poll_def Let_def)
qed (simp_all add: linv_close linv_claim_batch)

lemma linv_new: "linv H (newLedger he)"
  by (simp add: linv_def newLedger_def index_ok_def sock_def)

lemma linv_events: "linv (lines_of evs) (after_events he evs)"
proof -
  have "linv H (fold receive_event evs l)" if "linv H l" "lines_of evs \<subseteq> H" for H l
    using that by (induction evs arbitrary: l) (auto simp: lines_of_def linv_receive_event)
  then show ?thesis using linv_new by (simp add: after_events_def)
qed

section \<open>Main properties\<close>

text \<open>
  Whatever dumps, close notices and lines come in, in whatever order and at whatever times,
  the two indexes of the account agree: the list at an address names, each once, exactly the
  connections kept with that address, and no address has an empty list.
\<close>

theorem ledger_index:
  "(k \<in> set (at_conn (after_events he evs) c) \<longleftrightarrow> (\<exists>s. sock (after_events he evs) k = Some s \<and> sConn s = c)) \<and>
   distinct (at_conn (after_events he evs) c) \<and> map_of (byConn (after_events he evs)) c \<noteq> Some []"
proof -
  have i: "index_ok (after_events he evs)" by (rule linvD(1) [OF linv_events])
  then have "map_of (byConn (after_events he evs)) c \<noteq> Some []" by (auto simp: index_ok_def)
  with sock_at_conn [OF i] at_connD [OF i] at_conn_distinct [OF i] show ?thesis by blast
qed

text \<open>
  C6. A connection is counted for a user only on evidence: after any events, a connection bound
  to a user was named, by its own inbound port and client address, by a line of that user from an
  inbound that takes TCP, and that line was written no earlier than the connection is known to
  have opened after. A line that may be UDP never binds a connection open at the start, and a
  disputed connection is nobody's.
\<close>

theorem bound_on_evidence:
  assumes "sock (after_events he evs) k = Some s"
  shows "(sEmail s \<noteq> [] \<longrightarrow> (\<exists>ev. ev \<in> set evs \<and> sLine s \<in> set (event_lines ev)) \<and> lEmail (sLine s) = sEmail s \<and>
      lConn (sLine s) = sConn s \<and> lTCP (sLine s) \<and> sAfter s \<le> lAt (sLine s) \<and> (lUDP (sLine s) \<longrightarrow> sAfter s \<noteq> 0)) \<and>
    (sDisputed s \<longrightarrow> sEmail s = [])"
  using linvD(3) [OF linv_events assms] by (auto simp: bound_ok_def lines_of_def)

text \<open>Every flow handed to the rate limiter is a bound open connection or a waiting line of the
  named user.\<close>

lemma flows_sound:
  assumes "(e, f) \<in> set (Flows now emails l)" "linv H l"
  shows "e \<in> set emails \<and>
    ((\<exists>k s. sock l k = Some s \<and> sEmail s = e \<and> sClosedAt s = 0 \<and> fRemote f = cRemote (sConn s)) \<or>
     (\<exists>at c. map_of (claims l) at = Some c \<and> lEmail (cLine c) = e \<and> lUDP (cLine c) \<and> fRemote f = cRemote (lConn (cLine c))))"
proof -
  have g: "gm_ok (sockets l)" "gm_ok (claims l)" using linvD(1,2) [OF assms(2)] by (auto simp: index_ok_def)
  have "fst at = lConn (cLine c)" if "map_of (claims l) at = Some c" for at c
    using linvD(4) [OF assms(2) that] by (simp add: claim_ok_def)
  with assms(1) g show ?thesis
    by (fastforce simp: Flows_def tcp_flows_def udp_flows_def sock_def IsZero_def gm_in_set)
qed

section \<open>A disputed connection stays nobody's\<close>

definition keeps_disputed :: "Ledger \<Rightarrow> Ledger \<Rightarrow> bool" where
  "keeps_disputed l l' \<longleftrightarrow> (\<forall>k s. sock l k = Some s \<longrightarrow> sDisputed s \<longrightarrow> (\<exists>s'. sock l' k = Some s' \<and> sDisputed s'))"

lemma keeps_refl: "keeps_disputed l l"
  by (simp add: keeps_disputed_def)

lemma keeps_trans: "keeps_disputed l l' \<Longrightarrow> keeps_disputed l' l'' \<Longrightarrow> keeps_disputed l l''"
  unfolding keeps_disputed_def by blast

lemma keeps_cong: "sock l' = sock l'' \<Longrightarrow> keeps_disputed l l' = keeps_disputed l l''"
  by (simp add: keeps_disputed_def)

lemma keeps_fields [simp]:
  "keeps_disputed l (l'\<lparr>claims := x\<rparr>) = keeps_disputed l l'" "keeps_disputed l (l'\<lparr>dumpErr := z\<rparr>) = keeps_disputed l l'"
  "keeps_disputed l (l'\<lparr>started := t\<rparr>) = keeps_disputed l l'" "keeps_disputed l (l'\<lparr>dumped := t\<rparr>) = keeps_disputed l l'"
  "keeps_disputed l (l'\<lparr>ltail := t\<rparr>) = keeps_disputed l l'"
  by (simp_all add: keeps_disputed_def)

lemma keeps_set: "(\<And>s. sDisputed s \<Longrightarrow> sDisputed (f s)) \<Longrightarrow> keeps_disputed l (set_sock k f l)"
  by (auto simp: keeps_disputed_def)

lemma keeps_each: "(\<And>s. sDisputed s \<Longrightarrow> sDisputed (f s)) \<Longrightarrow> keeps_disputed l (each_sock f l)"
  by (auto simp: keeps_disputed_def)

lemma keeps_add: "sock l (Cookie c) = None \<Longrightarrow> keeps_disputed l (add c l)"
  by (auto simp: keeps_disputed_def sock_add)

lemma disputed_bind: "sDisputed s \<Longrightarrow> sDisputed (bind_claim c s)"
  by (simp add: bind_claim_def)

lemma keeps_bindSocket: "keeps_disputed l (bindSocket k l)"
  by (simp add: bindSocket_def keeps_refl keeps_set disputed_bind split: option.split)

lemma keeps_fold_bind: "keeps_disputed l (fold bindSocket ks l)"
  by (induction ks arbitrary: l) (auto simp: keeps_refl intro: keeps_trans keeps_bindSocket)

lemma keeps_dispute_loop: "keeps_disputed l (snd (dispute_loop d line ks l))"
proof (induction d line ks l rule: dispute_loop.induct)
  case (2 d line k ks l)
  show ?case
  proof (cases "sock l k")
    case (Some s)
    obtain e s' where e: "dispute_sock d (started l) line s = (e, s')" by force
    have s': "sDisputed s \<Longrightarrow> sDisputed s'" using e by (auto simp: dispute_sock_def split: if_splits)
    have "keeps_disputed l (set_sock k (\<lambda>_. s') l)" using Some s' by (auto simp: keeps_disputed_def)
    from keeps_trans [OF this 2(2) [OF Some e [symmetric] refl]] Some e show ?thesis
      by (cases "dispute_loop d line ks (set_sock k (\<lambda>_. s') l)") simp
  qed (use 2(1) in simp)
qed (simp add: keeps_refl)

lemma keeps_claim_line: "keeps_disputed l (claim_line now line l)"
proof -
  obtain d l' where d: "dispute line now l = (d, l')" by force
  have "keeps_disputed l l'" using keeps_dispute_loop by (metis d dispute_def snd_conv)
  then show ?thesis
    by (simp add: claim_line_def Let_def keeps_refl d keeps_set disputed_bind split: option.split)
qed

lemma keeps_claim_lines: "keeps_disputed l (claim_lines now batch l)"
  by (induction batch arbitrary: l) (auto simp: keeps_refl intro: keeps_trans keeps_claim_line)

lemma keeps_claim_batch: "keeps_disputed l (claim_batch now batch l)"
proof -
  have "keeps_disputed l (claim_lines now batch l')" if "l' = l \<or> l' = l\<lparr>ltail := now\<rparr>" for l'
    using that keeps_claim_lines [of l' now batch] keeps_trans [of l l'] by (auto simp: keeps_refl)
  then show ?thesis by (simp add: claim_batch_def Let_def dropOldClaims_def)
qed

lemma keeps_take_conns: "keeps_disputed l (snd (take_conns cs l))"
proof (induction cs l rule: take_conns.induct)
  case (2 c cs l)
  show ?case
  proof (cases "sock l (Cookie c)")
    case None
    from keeps_trans [OF keeps_add [OF None] 2(1) [OF None]] None show ?thesis
      by (cases "take_conns cs (add c l)") simp
  next
    case (Some s)
    have "keeps_disputed l (set_sock (Cookie c) (\<lambda>s. update c (s\<lparr>sMissing := 0, sClosedAt := 0\<rparr>)) l)"
      by (rule keeps_set) (simp add: update_def)
    from keeps_trans [OF this] 2(2) [OF Some] Some show ?thesis by (cases "sNoticed s") simp_all
  qed
qed (simp add: keeps_refl)

lemma keeps_before_expire: "keeps_disputed l (before_expire now start dump l)"
proof (cases dump)
  case (Some conns)
  let ?l1 = "each_sock count_missing (l\<lparr>dumpErr := False\<rparr>)"
  have 1: "keeps_disputed l ?l1"
    by (rule keeps_trans [of l "l\<lparr>dumpErr := False\<rparr>"]) (auto simp: keeps_refl count_missing_def intro!: keeps_each)
  obtain added l2 where t: "take_conns conns ?l1 = (added, l2)" by force
  have 2: "keeps_disputed ?l1 l2" using keeps_take_conns [of ?l1 conns] t by simp
  have 3: "keeps_disputed l2 (each_sock (close_missing now) (fold bindSocket added l2))"
    by (rule keeps_trans [OF keeps_fold_bind keeps_each]) (simp add: close_missing_def)
  from keeps_trans [OF keeps_trans [OF 1 2] 3] show ?thesis by (simp add: before_expire_def Some Let_def t)
qed (simp add: before_expire_def keeps_refl)

lemma keeps_close: "keeps_disputed l (close now c l)"
proof (cases "sock l (Cookie c)")
  case None
  have "keeps_disputed (add c l) (set_sock (Cookie c) (\<lambda>s. s\<lparr>sClosedAt := now, sNoticed := True\<rparr>) (add c l))"
    by (rule keeps_set) simp
  from keeps_trans [OF keeps_trans [OF keeps_add [OF None] this] keeps_bindSocket] None show ?thesis
    by (simp add: close_def keeps_refl)
next
  case (Some s)
  then show ?thesis by (auto simp: close_def keeps_refl Let_def update_def intro!: keeps_set)
qed

text \<open>
  A connection two users' lines dispute stays nobody's: no later event gives it to a user for
  as long as it is kept.
\<close>

theorem disputed_stays:
  assumes "sock (after_events he evs) k = Some s" "sDisputed s"
    and "sock (receive_event ev (after_events he evs)) k = Some s'"
  shows "sDisputed s' \<and> sEmail s' = []"
proof -
  let ?l = "after_events he evs"
  have l: "linv (lines_of evs) ?l" by (rule linv_events)
  have "sDisputed s'"
  proof (cases ev)
    case (EvDump now start dump)
    let ?b = "before_expire now start dump ?l"
    obtain r where r: "sock ?b k = Some r" "sDisputed r"
      using keeps_before_expire [of ?l now start dump] assms(1,2) by (auto simp: keeps_disputed_def)
    have "sock (expire now ?b) k = Some s'"
      using assms(3) EvDump by (simp add: poll_def Let_def take_dump_expire)
    with sock_expire [OF linv_before_expire [OF l], of now now start dump k] r show ?thesis by (auto split: if_splits)
  next
    case (EvClose now c)
    with keeps_close [of ?l now c] assms show ?thesis by (fastforce simp: keeps_disputed_def)
  next
    case (EvLines now batch)
    with keeps_claim_batch [of ?l now batch] assms show ?thesis by (fastforce simp: keeps_disputed_def)
  qed
  moreover have "linv (lines_of evs \<union> set (event_lines ev)) (receive_event ev ?l)"
    by (rule linv_receive_event [OF linv_mono [OF l]]) auto
  ultimately show ?thesis using linvD(3) assms(3) by (auto simp: bound_ok_def)
qed

section \<open>Bounds\<close>

lemma length_filter_keys:
  assumes "gm_ok m" "set old \<subseteq> set (map fst m)" "distinct old"
  shows "length (filter (\<lambda>(k, v). k \<notin> set old) m) = length m - length old"
proof -
  have "distinct (map fst (filter (\<lambda>(k, v). k \<notin> set old) m))" using assms(1) by (simp add: gm_ok_def distinct_map_filter)
  then have "length (filter (\<lambda>(k, v). k \<notin> set old) m) = card (set (map fst (filter (\<lambda>(k, v). k \<notin> set old) m)))"
    by (metis distinct_card length_map)
  also have "set (map fst (filter (\<lambda>(k, v). k \<notin> set old) m)) = set (map fst m) - set old" by force
  also have "card \<dots> = card (set (map fst m)) - card (set old)" using assms(2) by (intro card_Diff_subset) auto
  also have "\<dots> = length m - length old" using assms by (metis distinct_card gm_ok_def length_map)
  finally show ?thesis .
qed

lemma dropOldClaims_length:
  assumes "gm_ok (claims l)"
  shows "length (claims (dropOldClaims l)) = min (length (claims l)) 58982"
proof -
  define ks where "ks = map fst (sort_key (\<lambda>(at, c). cArrived c) (claims l))"
  define old where "old = take (length ks - maxClaims * 9 div 10) ks"
  have "mset ks = mset (map fst (claims l))" unfolding ks_def mset_map by (simp only: mset_sort)
  then have k: "set ks = set (map fst (claims l))" "distinct ks" "length ks = length (claims l)"
    using assms by (metis mset_eq_setD, metis gm_ok_def mset_eq_imp_distinct_iff, metis length_map size_mset)
  have "length (filter (\<lambda>(at, c). at \<notin> set old) (claims l)) = length (claims l) - length old"
    using k by (intro length_filter_keys [OF assms]) (auto simp: old_def dest: in_set_takeD)
  moreover have "length old = length (claims l) - 58982" using k(3) by (simp add: old_def maxClaims_def)
  ultimately show ?thesis by (simp add: dropOldClaims_def Let_def ks_def old_def)
qed

text \<open>The lines dropped are the oldest.\<close>

lemma dropOldClaims_newest:
  assumes "gm_ok (claims l)" "(at, c) \<in> set (claims l)" "(at, c) \<notin> set (claims (dropOldClaims l))"
    and "(at', c') \<in> set (claims (dropOldClaims l))"
  shows "cArrived c \<le> cArrived c'"
proof -
  let ?f = "\<lambda>(at, c). cArrived c"
  define ps where "ps = sort_key ?f (claims l)"
  define n where "n = length ps - maxClaims * 9 div 10"
  have set_ps: "set ps = set (claims l)" by (simp add: ps_def)
  have dist: "distinct (map fst ps)"
  proof -
    have "mset (map fst ps) = mset (map fst (claims l))" unfolding ps_def mset_map by (simp only: mset_sort)
    with assms(1) show ?thesis unfolding gm_ok_def by (metis mset_eq_imp_distinct_iff)
  qed
  have cl: "claims (dropOldClaims l) = filter (\<lambda>(at, c). at \<notin> set (take n (map fst ps))) (claims l)"
    by (simp add: dropOldClaims_def Let_def ps_def n_def)
  have "at \<in> set (take n (map fst ps))" using assms(2,3) by (auto simp: cl)
  then obtain x where "(at, x) \<in> set (take n ps)" by (auto simp: take_map)
  moreover from this have "(at, x) \<in> set (claims l)" using set_ps by (auto dest: in_set_takeD)
  then have "x = c" using assms(1,2) by (simp add: gm_in_set)
  ultimately have t: "(at, c) \<in> set (take n ps)" by simp
  have "at' \<notin> set (take n (map fst ps))" "(at', c') \<in> set ps" using assms(4) set_ps by (auto simp: cl)
  then have d: "(at', c') \<in> set (drop n ps)"
  proof -
    have "set ps = set (take n ps) \<union> set (drop n ps)" by (metis append_take_drop_id set_append)
    moreover have "(at', c') \<notin> set (take n ps)" using \<open>at' \<notin> set (take n (map fst ps))\<close> by (force simp: take_map)
    ultimately show ?thesis using \<open>(at', c') \<in> set ps\<close> by blast
  qed
  have "sorted (map ?f (take n ps) @ map ?f (drop n ps))"
    by (simp add: ps_def flip: map_append)
  then have "\<forall>x \<in> set (map ?f (take n ps)). \<forall>y \<in> set (map ?f (drop n ps)). x \<le> y"
    unfolding sorted_append by blast
  moreover have "cArrived c \<in> set (map ?f (take n ps))" using t by force
  moreover have "cArrived c' \<in> set (map ?f (drop n ps))" using d by force
  ultimately show ?thesis by blast
qed

text \<open>
  Memory stays bounded and old entries go: after any batch of lines at most 65536 lines wait,
  and right after a dump no connection is kept that closed more than 30 seconds ago and no line
  whose time is over.
\<close>

theorem ledger_bounded:
  "length (claims (claim_batch now batch (after_events he evs))) \<le> 65536 \<and>
   (sock (receive_event (EvDump now start dump) (after_events he evs)) k = Some s \<longrightarrow>
      sClosedAt s = 0 \<or> Sub now (sClosedAt s) \<le> keepClosed) \<and>
   (map_of (claims (receive_event (EvDump now start dump) (after_events he evs))) at = Some c \<longrightarrow> \<not> claim_over now c)"
proof (intro conjI impI)
  let ?l = "after_events he evs"
  have l: "linv (lines_of evs) ?l" by (rule linv_events)
  let ?l1 = "if IsZero (ltail ?l) \<and> \<not> IsZero (started ?l) then ?l\<lparr>ltail := now\<rparr> else ?l"
  have "linv (lines_of evs \<union> set batch) ?l1" using linv_mono [OF l] by simp
  then have "linv (lines_of evs \<union> set batch) (claim_lines now batch ?l1)" by (rule linv_claim_lines) auto
  from dropOldClaims_length [OF linvD(2) [OF this]]
  show "length (claims (claim_batch now batch ?l)) \<le> 65536" by (simp add: claim_batch_def Let_def maxClaims_def)
  have e: "receive_event (EvDump now start dump) ?l = (expire now (before_expire now start dump ?l))\<lparr>finished := []\<rparr>"
    by (simp add: poll_def Let_def take_dump_expire)
  show "sClosedAt s = 0 \<or> Sub now (sClosedAt s) \<le> keepClosed" if "sock (receive_event (EvDump now start dump) ?l) k = Some s"
    using that sock_expire [OF linv_before_expire [OF l], of now now start dump k] unfolding e
    by (auto split: option.splits if_splits)
  show "\<not> claim_over now c" if "map_of (claims (receive_event (EvDump now start dump) ?l)) at = Some c"
    using that unfolding e by (auto simp: expire_def Let_def dest!: map_of_SomeD)
qed

text \<open>A connection that opened since the start and a line of its user, then of another.\<close>

definition ex_conn :: sock_conn where
  "ex_conn = \<lparr>Cookie = 1, Local = (V4 1, 443), Remote = (V4 2, 5000), BytesAcked = 10, BytesReceived = 20\<rparr>"

definition ex_line :: "string \<Rightarrow> gotime \<Rightarrow> Line" where
  "ex_line email t = \<lparr>lConn = \<lparr>cPort = 443, cRemote = (V4 2, 5000)\<rparr>, lEmail = email, lAt = t, lWritten = t, lBacklog = False,
     lTCP = True, lUDP = True, lDest = noDest, lOutbound = ''direct'', lBlocked = False\<rparr>"

definition ex_events :: "ledger_event list" where
  "ex_events = [EvDump 10 9 (Some []), EvDump 20 19 (Some [ex_conn]), EvLines 21 [ex_line ''alice'' 20]]"

definition ex_socket :: "string \<Rightarrow> socket" where
  "ex_socket email = \<lparr>sConn = \<lparr>cPort = 443, cRemote = (V4 2, 5000)\<rparr>, sLocal = (V4 1, 443), sEmail = email,
     sLine = (if email = [] then noLine else ex_line email 20), sRequests = (if email = [] then 0 else 1), sAcked = 10, sReceived = 20,
     sAfter = 9, sClosedAt = 0, sNoticed = False, sMissing = 0, sDisputed = (email = [])\<rparr>"

lemmas ledger_eval = after_events_def newLedger_def poll_def take_dump_def each_sock_def add_def new_socket_def
  bindSocket_def sock_def expire_def claim_batch_def claim_line_def new_claim_def replayed_def find_sock_def carrier_def
  candidate_def eligible_def at_conn_def gm_get_def set_sock_def bind_claim_def time_defs Let_def
  dispute_def dispute_sock_def more_requests_def count_missing_def close_missing_def missingDumps_def maxClaims_def

lemma ex_bound: "sock (after_events True ex_events) 1 = Some (ex_socket ''alice'')"
  by (simp add: ex_events_def ex_conn_def ex_line_def ex_socket_def ledger_eval)

lemma ex_disputed: "sock (after_events True (ex_events @ [EvLines 22 [ex_line ''bob'' 21]])) 1 = Some (ex_socket [])"
  by (simp add: ex_events_def ex_conn_def ex_line_def ex_socket_def ledger_eval)

theorem bound_on_evidence_witness:
  "(\<exists>ev. ev \<in> set ex_events \<and> sLine (ex_socket ''alice'') \<in> set (event_lines ev)) \<and> lEmail (sLine (ex_socket ''alice'')) = ''alice''"
proof -
  have "sEmail (ex_socket ''alice'') = ''alice''" by (simp add: ex_socket_def)
  with bound_on_evidence [OF ex_bound] show ?thesis by simp
qed

theorem disputed_stays_witness:
  "\<exists>s. sock (receive_event (EvLines 23 [ex_line ''alice'' 22]) (after_events True (ex_events @ [EvLines 22 [ex_line ''bob'' 21]]))) 1 = Some s \<and>
     sDisputed s \<and> sEmail s = []"
proof -
  let ?l = "after_events True (ex_events @ [EvLines 22 [ex_line ''bob'' 21]])"
  have d: "sDisputed (ex_socket [])" by (simp add: ex_socket_def)
  from keeps_claim_batch [of ?l 23 "[ex_line ''alice'' 22]"] ex_disputed d obtain s where
    s: "sock (receive_event (EvLines 23 [ex_line ''alice'' 22]) ?l) 1 = Some s" by (auto simp: keeps_disputed_def)
  from disputed_stays [OF ex_disputed d s] s show ?thesis by blast
qed

theorem ledger_bounded_witness:
  "length (claims (claim_batch 22 [ex_line ''bob'' 21] (after_events True ex_events))) \<le> 65536 \<and>
   sock (receive_event (EvDump 22 21 (Some [ex_conn])) (after_events True ex_events)) 1 = Some (ex_socket ''alice'') \<and>
   (sClosedAt (ex_socket ''alice'') = 0 \<or> Sub 22 (sClosedAt (ex_socket ''alice'')) \<le> keepClosed)"
proof -
  have e: "sock (receive_event (EvDump 22 21 (Some [ex_conn])) (after_events True ex_events)) 1 = Some (ex_socket ''alice'')"
    by (simp add: ex_events_def ex_conn_def ex_line_def ex_socket_def ledger_eval update_def)
  with ledger_bounded [of 22 "[ex_line ''bob'' 21]" True ex_events 21 "Some [ex_conn]" 1 "ex_socket ''alice''"]
  show ?thesis by blast
qed

section \<open>The interface to the rate limiter and the records\<close>

text \<open>
  What the rate limiter, the panel report and the connection records rely on: an account fed by
  events keeps a connection for a user only with a line of that user among the events that named
  the connection's own address.
\<close>

locale connection_account =
  fixes owner :: "'l \<Rightarrow> nat \<Rightarrow> (Conn \<times> string) option"
    and account :: "'e list \<Rightarrow> 'l"
    and mentioned :: "'e list \<Rightarrow> Line set"
  assumes owner_named: "owner (account evs) k = Some (conn, email) \<Longrightarrow>
      \<exists>line \<in> mentioned evs. lConn line = conn \<and> lEmail line = email"
begin

text \<open>Nobody owns a connection at an address no line of theirs named.\<close>

lemma not_owner:
  "(\<And>line. line \<in> mentioned evs \<Longrightarrow> lConn line = conn \<Longrightarrow> lEmail line \<noteq> email) \<Longrightarrow> owner (account evs) k \<noteq> Some (conn, email)"
  using owner_named by blast

end

definition ledger_owner :: "Ledger \<Rightarrow> nat \<Rightarrow> (Conn \<times> string) option" where
  "ledger_owner l k = (case sock l k of None \<Rightarrow> None | Some s \<Rightarrow> if sEmail s = [] then None else Some (sConn s, sEmail s))"

interpretation ledger_account: connection_account ledger_owner "after_events he" lines_of for he
proof
  fix evs k conn email
  assume "ledger_owner (after_events he evs) k = Some (conn, email)"
  then obtain s where "sock (after_events he evs) k = Some s" "sEmail s \<noteq> []" "conn = sConn s" "email = sEmail s"
    by (auto simp: ledger_owner_def split: option.splits if_splits)
  with linvD(3) [OF linv_events this(1)] show "\<exists>line \<in> lines_of evs. lConn line = conn \<and> lEmail line = email"
    by (auto simp: bound_ok_def)
qed

text \<open>
  A user is limited only for what the log names: every TCP flow handed to the rate limiter for
  a user is an open connection whose client address a line of that same user named, and every UDP
  flow is a line of that user itself.
\<close>

theorem flows_of_user:
  assumes "(e, f) \<in> set (Flows now emails (after_events he evs))" "e \<noteq> []"
  shows "e \<in> set emails \<and> (\<exists>line \<in> lines_of evs. lEmail line = e \<and> cRemote (lConn line) = fRemote f)"
proof -
  let ?l = "after_events he evs"
  have l: "linv (lines_of evs) ?l" by (rule linv_events)
  from flows_sound [OF assms(1) l] consider
      k s where "e \<in> set emails" "sock ?l k = Some s" "sEmail s = e" "fRemote f = cRemote (sConn s)"
    | at c where "e \<in> set emails" "map_of (claims ?l) at = Some c" "lEmail (cLine c) = e" "fRemote f = cRemote (lConn (cLine c))"
    by blast
  then show ?thesis
  proof cases
    case (1 k s)
    then have "ledger_owner ?l k = Some (sConn s, e)" using assms(2) by (simp add: ledger_owner_def)
    from ledger_account.owner_named [OF this] 1 show ?thesis by auto
  next
    case (2 at c)
    with linvD(4) [OF l 2(2)] show ?thesis by (auto simp: claim_ok_def)
  qed
qed

theorem flows_of_user_witness:
  "\<exists>f. (''alice'', f) \<in> set (Flows 22 [''alice''] (after_events True ex_events)) \<and>
     (\<exists>line \<in> lines_of ex_events. lEmail line = ''alice'' \<and> cRemote (lConn line) = fRemote f)"
proof -
  let ?f = "\<lparr>fProto = ''tcp'', fLocal = (Some (V4 1), 443), fRemote = (V4 2, 5000)\<rparr>"
  have "(1, ex_socket ''alice'') \<in> set (sockets (after_events True ex_events))"
    using ex_bound by (auto simp: sock_def dest: map_of_SomeD)
  then have f: "(''alice'', ?f) \<in> set (Flows 22 [''alice''] (after_events True ex_events))"
    by (force simp: Flows_def tcp_flows_def ex_socket_def time_defs)
  from flows_of_user [OF f] f show ?thesis by blast
qed

end
