(* ===== verification/Transport.thy ===== *)
theory Transport
  imports Lifecycle Protocol
begin

text \<open>
  The control connection, \<open>src/internal/transport/client.go\<close>: the handshake, the messages of a
  session, the operation handshake (offer, accepted, acknowledged, executed) with its leases on
  the process-wide gate, and the reconnect backoff. The modules behind \<open>transport.Runtime\<close> are a
  record of operations on a state of their own; the websocket is what is read and whether a
  write succeeds.
\<close>

section \<open>The client's state\<close>

record 'r runtime_api =
  rt_Accepting :: "OperationOffer \<Rightarrow> 'r \<Rightarrow> string + bool"
  rt_PutState :: "StatePut \<Rightarrow> 'r \<Rightarrow> string option \<times> 'r"
  rt_SetStateKeys :: "StateKeys \<Rightarrow> 'r \<Rightarrow> string option \<times> 'r"
  rt_ControlReady :: "'r \<Rightarrow> 'r"
  rt_Acknowledge :: "string \<Rightarrow> 'r \<Rightarrow> string option \<times> 'r"
  rt_Query :: "string \<Rightarrow> (raw \<Rightarrow> bool) option"

type_synonym message = "string \<times> json"

record pendingOperation =
  po_offer :: OperationOffer
  po_lease :: nat

record Client =
  cActive :: "nat option"
  cRunning :: "(string, nat) gomap"
  cPending :: "(string, pendingOperation) gomap"
  cFatal :: "string option"

definition newClient :: Client where
  "newClient = \<lparr>cActive = None, cRunning = [], cPending = [], cFatal = None\<rparr>"

section \<open>Operations\<close>

definition commandIDBody :: "string \<Rightarrow> json" where
  "commandIDBody c = JObj [(''command_id'', JStr c)]"

definition resultBody :: "string \<Rightarrow> ExecutionResult \<Rightarrow> json" where
  "resultBody c r = JObj [(''command_id'', JStr c), (''outcome'', JStr (Outcome r)), (''code'', JStr (Code r)),
     (''result'', case Result r of None \<Rightarrow> JNull | Some m \<Rightarrow> JObj m)]"

text \<open>
  \<open>acceptOffer\<close>: an error ends the session, a message is to be written on it. The runtime has been
  asked whether it accepts the offer.
\<close>

definition acceptOffer :: "string + bool \<Rightarrow> OperationOffer \<Rightarrow> Client \<Rightarrow> gate_sys \<Rightarrow> (string + message option) \<times> Client \<times> gate_sys" where
  "acceptOffer accepting offer c g =
     (let accepted = Inr (Some (''operation.accepted'', commandIDBody (CommandID offer))) in
      case accepting of
        Inl e \<Rightarrow> (Inl e, c, g)
      | Inr False \<Rightarrow> (Inr None, c, g)
      | Inr True \<Rightarrow>
          if gm_has (cRunning c) (CommandID offer) then (accepted, c, g)
          else if gm_has (cPending c) (CommandID offer) then (accepted, c, g)
          else (case TryOperation g of
                  (None, g') \<Rightarrow> (Inr None, c, g')
                | (Some l, g') \<Rightarrow>
                    (accepted, c\<lparr>cPending := AList.update (CommandID offer) \<lparr>po_offer = offer, po_lease = l\<rparr> (cPending c)\<rparr>, g')))"

text \<open>\<open>handleAcceptedAck\<close>: the lease it releases once the lock is dropped, and the offer whose
  execution it starts.\<close>

definition handleAcceptedAck :: "AcceptedAckBody \<Rightarrow> Client \<Rightarrow> Client \<times> nat option \<times> OperationOffer option" where
  "handleAcceptedAck ack c =
     (let i = ack_CommandID ack; c' = c\<lparr>cPending := AList.delete i (cPending c)\<rparr> in
      case map_of (cPending c) i of
        None \<Rightarrow> (c', None, None)
      | Some p \<Rightarrow>
          if \<not> ack_Accepted ack then (c', Some (po_lease p), None)
          else if gm_has (cRunning c) i then (c', Some (po_lease p), None)
          else (c'\<lparr>cRunning := AList.update i (po_lease p) (cRunning c)\<rparr>, None, Some (po_offer p)))"

text \<open>\<open>execute\<close> after \<open>runtime.Execute\<close> returned: the lease to release and the result to write on
  the session that is active, if any.\<close>

definition execute_done :: "OperationOffer \<Rightarrow> string + ExecutionResult \<Rightarrow> Client \<Rightarrow> Client \<times> nat option \<times> (nat \<times> message) option" where
  "execute_done offer res c =
     (let i = CommandID offer; c' = c\<lparr>cRunning := AList.delete i (cRunning c)\<rparr>; lease = map_of (cRunning c) i in
      case res of
        Inl e \<Rightarrow> (c'\<lparr>cFatal := (case cFatal c of None \<Rightarrow> Some e | Some f \<Rightarrow> Some f)\<rparr>, lease, None)
      | Inr r \<Rightarrow> (c', lease, map_option (\<lambda>n. (n, ''operation.result'', resultBody i r)) (cActive c)))"

definition recordFatal :: "string \<Rightarrow> Client \<Rightarrow> Client" where
  "recordFatal e c = c\<lparr>cFatal := (case cFatal c of None \<Rightarrow> Some e | Some f \<Rightarrow> Some f)\<rparr>"

definition releasePending :: "Client \<Rightarrow> Client \<times> nat list" where
  "releasePending c = (c\<lparr>cPending := []\<rparr>, map (po_lease \<circ> snd) (cPending c))"

definition setActive :: "nat \<Rightarrow> Client \<Rightarrow> Client" where
  "setActive n c = c\<lparr>cActive := Some n\<rparr>"

definition clearActive :: "nat \<Rightarrow> Client \<Rightarrow> Client" where
  "clearActive n c = (if cActive c = Some n then c\<lparr>cActive := None\<rparr> else c)"

text \<open>\<open>send\<close>: reports and statuses go to the ready session only.\<close>

definition send :: "message \<Rightarrow> Client \<Rightarrow> string + (nat \<times> message)" where
  "send m c = (case cActive c of None \<Rightarrow> Inl ''control connection is not ready'' | Some n \<Rightarrow> Inr (n, m))"

section \<open>One message of a session\<close>

text \<open>
  The process as the control connection sees it: the client, the gate, the modules, the commands
  being executed, the leases taken out of the client but not released yet, the queries being
  answered, and what was read and written per session.
\<close>

datatype control = Checking | Dialing | Ready nat | Stopped string

record 'r control_sys =
  tclient :: Client
  tgate :: gate_sys
  truntime :: 'r
  tcontrol :: control
  executing :: "OperationOffer list"
  releasing :: "nat list"
  answering :: "(nat \<times> string \<times> raw) list"
  updater :: "nat option"
  sessions :: nat
  received :: "(nat \<times> Envelope) list"
  written :: "(nat \<times> message) list"

text \<open>The messages that leave the client itself alone, then all of them.\<close>

definition dispatch_rest :: "'r runtime_api \<Rightarrow> nat \<Rightarrow> Envelope \<Rightarrow> 'r control_sys \<Rightarrow> (string + message option) \<times> 'r control_sys" where
  "dispatch_rest api n e s =
     (if env_Type e = ''operation.result_ack'' then
        (case DecodeResultAck e of None \<Rightarrow> (Inl ''required fields are missing'', s)
         | Some ack \<Rightarrow>
             if \<not> ValidUUID (rack_CommandID ack) then (Inl ''invalid result acknowledgement identifier'', s)
             else if \<not> rack_Persisted ack then (Inl ''operation result was not persisted'', s)
             else (Inr None, s))
      else if env_Type e = ''state.put'' then
        (case DecodeStatePut e of None \<Rightarrow> (Inl ''state put is invalid'', s)
         | Some put \<Rightarrow> (case rt_PutState api put (truntime s) of
             (Some err, r) \<Rightarrow> (Inl err, s\<lparr>truntime := r\<rparr>) | (None, r) \<Rightarrow> (Inr None, s\<lparr>truntime := r\<rparr>)))
      else if env_Type e = ''state.keys'' then
        (case DecodeStateKeys e of None \<Rightarrow> (Inl ''state keys are invalid'', s)
         | Some keys \<Rightarrow> (case rt_SetStateKeys api keys (truntime s) of
             (Some err, r) \<Rightarrow> (Inl err, s\<lparr>truntime := r\<rparr>) | (None, r) \<Rightarrow> (Inr None, s\<lparr>truntime := r\<rparr>)))
      else if env_Type e = ''report.ack'' then
        (case DecodeReportAck e of None \<Rightarrow> (Inl ''required fields are missing'', s)
         | Some i \<Rightarrow>
             if \<not> ValidUUID i then (Inl ''invalid report acknowledgement identifier'', s)
             else (case rt_Acknowledge api i (truntime s) of
               (Some err, r) \<Rightarrow> (Inl err, s\<lparr>truntime := r\<rparr>) | (None, r) \<Rightarrow> (Inr None, s\<lparr>truntime := r\<rparr>)))
      else
        (case rt_Query api (env_Type e) of None \<Rightarrow> (Inl ''unexpected control message'', s)
         | Some validate \<Rightarrow>
             if \<not> validate (env_Body e) then (Inl ''query is invalid'', s)
             else (Inr None, s\<lparr>answering := answering s @ [(n, env_Type e, env_Body e)]\<rparr>)))"

definition dispatch :: "'r runtime_api \<Rightarrow> (string \<Rightarrow> gotime option) \<Rightarrow> nat \<Rightarrow> Envelope \<Rightarrow> 'r control_sys
    \<Rightarrow> (string + message option) \<times> 'r control_sys" where
  "dispatch api pt n e s =
     (if env_Type e = ''operation.offer'' then
        (case DecodeOperationOffer pt e of None \<Rightarrow> (Inl ''operation offer is invalid'', s)
         | Some offer \<Rightarrow>
             (case acceptOffer (rt_Accepting api offer (truntime s)) offer (tclient s) (tgate s) of
                (out, c, g) \<Rightarrow> (out, s\<lparr>tclient := c, tgate := g\<rparr>)))
      else if env_Type e = ''operation.accepted_ack'' then
        (case DecodeAcceptedAck e of None \<Rightarrow> (Inl ''required fields are missing'', s)
         | Some ack \<Rightarrow>
             if \<not> ValidUUID (ack_CommandID ack) then (Inl ''invalid accepted acknowledgement identifier'', s)
             else (case handleAcceptedAck ack (tclient s) of
                (c, l, start) \<Rightarrow> (Inr None, s\<lparr>tclient := c,
                    executing := executing s @ (case start of None \<Rightarrow> [] | Some off \<Rightarrow> [off]),
                    releasing := releasing s @ (case l of None \<Rightarrow> [] | Some i \<Rightarrow> [i])\<rparr>)))
      else dispatch_rest api n e s)"

text \<open>What the deferred function of a session does when its reader returns.\<close>

definition end_session :: "nat \<Rightarrow> 'r control_sys \<Rightarrow> 'r control_sys" where
  "end_session n s =
     (case releasePending (clearActive n (tclient s)) of
        (c, ls) \<Rightarrow> s\<lparr>tclient := c, releasing := releasing s @ ls, tcontrol := Checking,
          answering := filter (\<lambda>(m, _). m \<noteq> n) (answering s)\<rparr>)"

section \<open>Everything that can happen\<close>

inductive tstep :: "'r runtime_api \<Rightarrow> (string \<Rightarrow> gotime option) \<Rightarrow> 'r control_sys \<Rightarrow> 'r control_sys \<Rightarrow> bool"
  for api pt where
  retries: "tcontrol s = Checking \<Longrightarrow> cFatal (tclient s) = None \<Longrightarrow> tstep api pt s (s\<lparr>tcontrol := Dialing\<rparr>)"
| stops: "tcontrol s = Checking \<Longrightarrow> cFatal (tclient s) = Some e \<Longrightarrow> tstep api pt s (s\<lparr>tcontrol := Stopped e\<rparr>)"
| dial_fails: "tcontrol s = Dialing \<Longrightarrow> tstep api pt s (s\<lparr>tcontrol := Checking\<rparr>)"
| ready_fails: "tcontrol s = Dialing \<Longrightarrow> tstep api pt s (s\<lparr>tclient := recordFatal e (tclient s), tcontrol := Checking\<rparr>)"
| connects: "tcontrol s = Dialing \<Longrightarrow>
    tstep api pt s (s\<lparr>tclient := setActive (sessions s) (tclient s), truntime := rt_ControlReady api (truntime s),
      tcontrol := Ready (sessions s), sessions := Suc (sessions s)\<rparr>)"
| reads: "tcontrol s = Ready n \<Longrightarrow> dispatch api pt n e (s\<lparr>received := received s @ [(n, e)]\<rparr>) = (Inr out, t) \<Longrightarrow>
    tstep api pt s (t\<lparr>written := written t @ (case out of None \<Rightarrow> [] | Some m \<Rightarrow> [(n, m)])\<rparr>)"
| write_fails: "tcontrol s = Ready n \<Longrightarrow> dispatch api pt n e (s\<lparr>received := received s @ [(n, e)]\<rparr>) = (Inr (Some m), t) \<Longrightarrow>
    tstep api pt s (end_session n t)"
| rejects: "tcontrol s = Ready n \<Longrightarrow> dispatch api pt n e (s\<lparr>received := received s @ [(n, e)]\<rparr>) = (Inl err, t) \<Longrightarrow>
    tstep api pt s (end_session n t)"
| read_fails: "tcontrol s = Ready n \<Longrightarrow> tstep api pt s (end_session n s)"
| executes: "off \<in> set (executing s) \<Longrightarrow> execute_done off res (tclient s) = (c, l, out) \<Longrightarrow>
    tstep api pt s (s\<lparr>tclient := c, executing := remove1 off (executing s),
      releasing := releasing s @ (case l of None \<Rightarrow> [] | Some i \<Rightarrow> [i]),
      written := written s @ (if wrote then (case out of None \<Rightarrow> [] | Some m \<Rightarrow> [m]) else [])\<rparr>)"
| releases: "l \<in> set (releasing s) \<Longrightarrow>
    tstep api pt s (s\<lparr>tgate := Release (Some l) (tgate s), releasing := remove1 l (releasing s)\<rparr>)"
| publishes: "send m (tclient s) = Inr w \<Longrightarrow> tstep api pt s (s\<lparr>written := written s @ [w]\<rparr>)"
| answers: "q \<in> set (answering s) \<Longrightarrow>
    tstep api pt s (s\<lparr>answering := remove1 q (answering s), written := written s @ [(fst q, m)]\<rparr>)"
| modules_run: "tstep api pt s (s\<lparr>truntime := r\<rparr>)"
| update_starts: "updater s = None \<Longrightarrow> TryUpdate (tgate s) = (l, g) \<Longrightarrow> tstep api pt s (s\<lparr>tgate := g, updater := l\<rparr>)"
| update_ends: "updater s = Some l \<Longrightarrow> tstep api pt s (s\<lparr>tgate := Release (Some l) (tgate s), updater := None\<rparr>)"

definition control_start :: "'r \<Rightarrow> 'r control_sys" where
  "control_start r = \<lparr>tclient = newClient, tgate = new_sys, truntime = r, tcontrol = Dialing, executing = [], releasing = [],
     answering = [], updater = None, sessions = 0, received = [], written = []\<rparr>"

inductive treach :: "'r runtime_api \<Rightarrow> (string \<Rightarrow> gotime option) \<Rightarrow> 'r control_sys \<Rightarrow> bool"
  for api pt where
  tstart: "treach api pt (control_start r)"
| tmore: "treach api pt s \<Longrightarrow> tstep api pt s t \<Longrightarrow> treach api pt t"

section \<open>The handshake\<close>

text \<open>
  \<open>authenticate\<close> over the envelopes read (\<open>None\<close> for a failed or undecodable read), with Ed25519
  and the outcome of each write as arguments; it returns the error, if any, and what it wrote.
\<close>

definition readEnvelope :: "string \<Rightarrow> Envelope option \<Rightarrow> Envelope option" where
  "readEnvelope expected r = (case r of None \<Rightarrow> None | Some e \<Rightarrow> if env_Type e = expected then Some e else None)"

definition authResponse :: "(string \<Rightarrow> nat list) \<Rightarrow> string \<Rightarrow> AuthChallenge \<Rightarrow> string \<Rightarrow> message" where
  "authResponse sign agent ch text = (''auth.response'', JObj [(''agent_id'', JStr agent), (''challenge_id'', JStr (ChallengeID ch)),
     (''signature'', JStr (RawURLEncode (sign text)))])"

definition helloBody :: "string \<Rightarrow> int \<Rightarrow> message" where
  "helloBody version revision = (''agent.hello'', JObj [(''agent_version'', JStr version), (''configuration_revision'', JNum (Itoa revision))])"

definition authenticate :: "(string \<Rightarrow> gotime option) \<Rightarrow> (string \<Rightarrow> nat list) \<Rightarrow> string \<Rightarrow> string \<Rightarrow> int \<Rightarrow> (nat \<Rightarrow> bool)
    \<Rightarrow> (nat \<Rightarrow> Envelope option) \<Rightarrow> bool \<times> message list" where
  "authenticate pt sign agent version revision wok incoming =
     (case Option.bind (readEnvelope ''auth.challenge'' (incoming 0)) DecodeChallenge of None \<Rightarrow> (False, [])
      | Some ch \<Rightarrow>
        if challenge_AgentID ch \<noteq> agent then (False, [])
        else case AuthSigningText pt ch of None \<Rightarrow> (False, [])
        | Some text \<Rightarrow>
          if \<not> wok 0 then (False, [])
          else (let w0 = authResponse sign agent ch text in
            case Option.bind (readEnvelope ''auth.accepted'' (incoming 1)) DecodeAgentID of None \<Rightarrow> (False, [w0])
            | Some a \<Rightarrow>
              if a \<noteq> agent then (False, [w0])
              else if \<not> wok 1 then (False, [w0])
              else (let w1 = helloBody version revision in
                case Option.bind (readEnvelope ''hello.accepted'' (incoming 2)) DecodeAgentID of None \<Rightarrow> (False, [w0, w1])
                | Some b \<Rightarrow> (b = agent, [w0, w1]))))"

section \<open>Reconnecting\<close>

definition heartbeatInterval :: duration where "heartbeatInterval = 30 * second"

definition sessionBackoff :: "duration \<Rightarrow> gotime \<Rightarrow> gotime \<Rightarrow> duration \<Rightarrow> duration" where
  "sessionBackoff backoff readyAt now settled = (if \<not> IsZero readyAt \<and> Sub now readyAt \<ge> settled then second else backoff)"

definition grow_backoff :: "duration \<Rightarrow> duration" where
  "grow_backoff b = (if b < 30 * second then (if 2 * b > 30 * second then 30 * second else 2 * b) else b)"

text \<open>The backoffs of the control loop over sessions that became ready at some time (zero for
  never) and ended at another; the delay adds a random part below a quarter.\<close>

fun control_backoffs :: "duration \<Rightarrow> (gotime \<times> gotime) list \<Rightarrow> duration list" where
  "control_backoffs b [] = []"
| "control_backoffs b ((readyAt, now) # rest) =
     (let b' = sessionBackoff b readyAt now heartbeatInterval in b' # control_backoffs (grow_backoff b') rest)"

definition delay_of :: "duration \<Rightarrow> int \<Rightarrow> duration option" where
  "delay_of b r = (if 0 \<le> r \<and> r < max 1 (b div 4) then Some (b + r) else None)"

section \<open>Which leases are in force\<close>

text \<open>
  The operation leases in force are exactly the ones the client holds for a pending or running
  command, and the ones on their way to being released; commands executing are the running ones.
\<close>

definition client_leases :: "Client \<Rightarrow> nat multiset" where
  "client_leases c = mset (map snd (cRunning c)) + mset (map (po_lease \<circ> snd) (cPending c))"

definition client_ok :: "Client \<Rightarrow> bool" where
  "client_ok c \<longleftrightarrow> gm_ok (cRunning c) \<and> gm_ok (cPending c) \<and>
     (\<forall>(k, p) \<in> set (cPending c). CommandID (po_offer p) = k) \<and> set (gm_keys (cRunning c)) \<inter> set (gm_keys (cPending c)) = {}"

definition lease_ok :: "'r control_sys \<Rightarrow> bool" where
  "lease_ok s \<longleftrightarrow> gate_inv (tgate s) \<and>
     mset (live OperationLease (tgate s)) = client_leases (tclient s) + mset (releasing s) \<and>
     mset (live UpdateLease (tgate s)) = mset_set (set_option (updater s))"

definition executing_ok :: "'r control_sys \<Rightarrow> bool" where
  "executing_ok s \<longleftrightarrow> client_ok (tclient s) \<and>
     mset (map CommandID (executing s)) = mset (gm_keys (cRunning (tclient s)))"

lemma mset_update_new: "k \<notin> fst ` set m \<Longrightarrow> mset (AList.update k v m) = add_mset (k, v) (mset m)"
  by (induction m) auto

lemma mset_delete_key: "gm_ok m \<Longrightarrow> map_of m k = Some v \<Longrightarrow> mset m = add_mset (k, v) (mset (AList.delete k m))"
proof (induction m)
  case (Cons x m)
  obtain a b where x: "x = (a, b)" by (cases x)
  show ?case
  proof (cases "a = k")
    case True
    with Cons x have "k \<notin> set (gm_keys m)" "b = v" by (auto simp: gm_ok_def)
    then have "AList.delete k m = m" by (simp add: delete_id)
    with True x \<open>b = v\<close> show ?thesis by simp
  next
    case False
    with Cons x show ?thesis by (simp add: gm_ok_def)
  qed
qed simp

lemma delete_absent: "map_of m k = None \<Longrightarrow> AList.delete k m = m"
  by (simp add: delete_id map_of_eq_None_iff)

lemma acceptOffer_cases:
  assumes "acceptOffer accepting offer c g = (out, c', g')"
  shows "(c' = c \<and> g' = g) \<or>
    (\<exists>l. TryOperation g = (Some l, g') \<and> accepting = Inr True \<and> \<not> gm_has (cRunning c) (CommandID offer) \<and>
      \<not> gm_has (cPending c) (CommandID offer) \<and>
      c' = c\<lparr>cPending := AList.update (CommandID offer) \<lparr>po_offer = offer, po_lease = l\<rparr> (cPending c)\<rparr>)"
  using assms
  by (auto simp: acceptOffer_def Let_def TryOperation_def split: sum.splits bool.splits if_splits)

lemma acceptOffer_keeps:
  assumes a: "acceptOffer accepting offer c g = (out, c', g')" and ok: "client_ok c" and inv: "gate_inv g"
  shows "client_ok c'" "cRunning c' = cRunning c" "gate_inv g'"
    "mset (live OperationLease g) = client_leases c + R \<Longrightarrow> mset (live OperationLease g') = client_leases c' + R"
    "live UpdateLease g' = live UpdateLease g"
proof -
  consider "c' = c" "g' = g"
    | l where "TryOperation g = (Some l, g')" "CommandID offer \<notin> set (gm_keys (cRunning c))"
      "CommandID offer \<notin> set (gm_keys (cPending c))"
      "c' = c\<lparr>cPending := AList.update (CommandID offer) \<lparr>po_offer = offer, po_lease = l\<rparr> (cPending c)\<rparr>"
    using acceptOffer_cases [OF a] by (auto simp: gm_has_iff)
  then have "client_ok c' \<and> cRunning c' = cRunning c \<and> gate_inv g' \<and> live UpdateLease g' = live UpdateLease g \<and>
    (mset (live OperationLease g) = client_leases c + R \<longrightarrow> mset (live OperationLease g') = client_leases c' + R)"
  proof cases
    case 1
    with ok inv show ?thesis by simp
  next
    case (2 l)
    with ok gate_inv_TryOperation [OF inv] live_TryOperation [OF 2(1)] show ?thesis
      by (auto simp: client_ok_def client_leases_def mset_update_new set_update_gm dom_update)
  qed
  then show "client_ok c'" "cRunning c' = cRunning c" "gate_inv g'"
    "mset (live OperationLease g) = client_leases c + R \<Longrightarrow> mset (live OperationLease g') = client_leases c' + R"
    "live UpdateLease g' = live UpdateLease g" by blast+
qed

lemma handleAcceptedAck_keeps:
  assumes a: "handleAcceptedAck ack c = (c', l, start)" and ok: "client_ok c"
  shows "client_ok c'" "client_leases c = client_leases c' + mset_set (set_option l)"
    "mset (gm_keys (cRunning c')) = mset (gm_keys (cRunning c)) + mset (map CommandID (case start of None \<Rightarrow> [] | Some off \<Rightarrow> [off]))"
proof -
  have ok': "gm_ok (cRunning c)" "gm_ok (cPending c)" "\<forall>(k, p) \<in> set (cPending c). CommandID (po_offer p) = k"
    "set (gm_keys (cRunning c)) \<inter> set (gm_keys (cPending c)) = {}" using ok by (simp_all add: client_ok_def)
  have "client_ok c' \<and> client_leases c = client_leases c' + mset_set (set_option l) \<and>
    mset (gm_keys (cRunning c')) = mset (gm_keys (cRunning c)) + mset (map CommandID (case start of None \<Rightarrow> [] | Some off \<Rightarrow> [off]))"
  proof (cases "map_of (cPending c) (ack_CommandID ack)")
    case None
    with a have "c' = c" "l = None" "start = None" by (simp_all add: handleAcceptedAck_def Let_def delete_absent)
    with ok show ?thesis by simp
  next
    case (Some p)
    then have m: "(ack_CommandID ack, p) \<in> set (cPending c)" by (rule map_of_SomeD)
    then have k: "CommandID (po_offer p) = ack_CommandID ack" "ack_CommandID ack \<notin> set (gm_keys (cRunning c))"
      using ok'(3,4) by (auto simp: rev_image_eqI)
    note del = mset_delete_key [OF ok'(2) Some]
    show ?thesis
    proof (cases "ack_Accepted ack")
      case True
      with a Some k have e: "c' = c\<lparr>cPending := AList.delete (ack_CommandID ack) (cPending c),
        cRunning := AList.update (ack_CommandID ack) (po_lease p) (cRunning c)\<rparr>" "l = None" "start = Some (po_offer p)"
        by (simp_all add: handleAcceptedAck_def Let_def gm_has_iff)
      from ok' k show ?thesis
        unfolding e by (auto simp: client_ok_def client_leases_def mset_update_new del set_update_gm)
    next
      case False
      with a Some have e: "c' = c\<lparr>cPending := AList.delete (ack_CommandID ack) (cPending c)\<rparr>" "l = Some (po_lease p)" "start = None"
        by (simp_all add: handleAcceptedAck_def Let_def)
      from ok' show ?thesis
        unfolding e by (auto simp: client_ok_def client_leases_def del)
    qed
  qed
  then show "client_ok c'" "client_leases c = client_leases c' + mset_set (set_option l)"
    "mset (gm_keys (cRunning c')) = mset (gm_keys (cRunning c)) + mset (map CommandID (case start of None \<Rightarrow> [] | Some off \<Rightarrow> [off]))"
    by blast+
qed

lemma execute_done_keeps:
  assumes a: "execute_done off res c = (c', l, out)" and ok: "client_ok c" and r: "CommandID off \<in> set (gm_keys (cRunning c))"
  shows "client_ok c'" "client_leases c = client_leases c' + mset_set (set_option l)"
    "mset (gm_keys (cRunning c)) = add_mset (CommandID off) (mset (gm_keys (cRunning c')))"
    "cPending c' = cPending c" "cActive c' = cActive c"
proof -
  from r obtain v where v: "map_of (cRunning c) (CommandID off) = Some v"
    by (cases "map_of (cRunning c) (CommandID off)") (auto simp: map_of_eq_None_iff)
  have f: "cRunning c' = AList.delete (CommandID off) (cRunning c)" "cPending c' = cPending c" "cActive c' = cActive c" "l = Some v"
    using a v by (auto simp: execute_done_def Let_def split: sum.splits)
  have ok': "gm_ok (cRunning c)" using ok by (simp add: client_ok_def)
  show "client_ok c'" using ok by (auto simp: client_ok_def f)
  show "client_leases c = client_leases c' + mset_set (set_option l)"
    by (simp add: client_leases_def f mset_delete_key [OF ok' v])
  show "mset (gm_keys (cRunning c)) = add_mset (CommandID off) (mset (gm_keys (cRunning c')))"
    by (simp add: f mset_delete_key [OF ok' v])
  show "cPending c' = cPending c" "cActive c' = cActive c" by (fact f)+
qed

section \<open>Who asked for an execution\<close>

definition is_offer :: "(string \<Rightarrow> gotime option) \<Rightarrow> OperationOffer \<Rightarrow> Envelope \<Rightarrow> bool" where
  "is_offer pt off e \<longleftrightarrow> env_Type e = ''operation.offer'' \<and> DecodeOperationOffer pt e = Some off"

definition is_ack :: "OperationOffer \<Rightarrow> Envelope \<Rightarrow> bool" where
  "is_ack off e \<longleftrightarrow> env_Type e = ''operation.accepted_ack'' \<and>
     (\<exists>ack. DecodeAcceptedAck e = Some ack \<and> ack_CommandID ack = CommandID off \<and> ack_Accepted ack)"

text \<open>The offer was read on a session and, later and on the same session, Cloud's confirmation.\<close>

definition confirmed :: "(string \<Rightarrow> gotime option) \<Rightarrow> (nat \<times> Envelope) list \<Rightarrow> OperationOffer \<Rightarrow> bool" where
  "confirmed pt rs off \<longleftrightarrow> (\<exists>n xs e ys e' zs. rs = xs @ (n, e) # ys @ (n, e') # zs \<and> is_offer pt off e \<and> is_ack off e')"

lemma confirmed_append: "confirmed pt rs off \<Longrightarrow> confirmed pt (rs @ rs2) off"
  unfolding confirmed_def by fastforce

lemma confirmed_snoc: "(n, e) \<in> set rs \<Longrightarrow> is_offer pt off e \<Longrightarrow> is_ack off e' \<Longrightarrow> confirmed pt (rs @ [(n, e')]) off"
  unfolding confirmed_def by (fastforce dest: split_list)

definition session_ok :: "(string \<Rightarrow> gotime option) \<Rightarrow> 'r control_sys \<Rightarrow> bool" where
  "session_ok pt s \<longleftrightarrow>
     (\<forall>n. tcontrol s = Ready n \<longleftrightarrow> cActive (tclient s) = Some n) \<and>
     (\<forall>(k, p) \<in> set (cPending (tclient s)). \<exists>n e. tcontrol s = Ready n \<and> (n, e) \<in> set (received s) \<and> is_offer pt (po_offer p) e) \<and>
     (\<forall>off \<in> set (executing s). confirmed pt (received s) off)"

lemma session_ok_gate [simp]:
  "session_ok pt (s\<lparr>tgate := g, releasing := ls\<rparr>) = session_ok pt s"
  "session_ok pt (s\<lparr>tgate := g, updater := u\<rparr>) = session_ok pt s"
  "session_ok pt (s\<lparr>truntime := r\<rparr>) = session_ok pt s"
  by (simp_all add: session_ok_def)

definition tinv :: "(string \<Rightarrow> gotime option) \<Rightarrow> 'r control_sys \<Rightarrow> bool" where
  "tinv pt s \<longleftrightarrow> lease_ok s \<and> executing_ok s \<and> session_ok pt s"

lemmas tinv_defs = tinv_def lease_ok_def executing_ok_def session_ok_def

definition core :: "'r control_sys \<Rightarrow> Client \<times> gate_sys \<times> control \<times> OperationOffer list \<times> nat list \<times> nat option \<times> (nat \<times> Envelope) list" where
  "core s = (tclient s, tgate s, tcontrol s, executing s, releasing s, updater s, received s)"

lemma tinv_core: "core t = core s \<Longrightarrow> tinv pt s \<Longrightarrow> tinv pt t"
proof -
  assume "core t = core s" and s: "tinv pt s"
  then have e: "tclient t = tclient s" "tgate t = tgate s" "tcontrol t = tcontrol s" "executing t = executing s"
    "releasing t = releasing s" "updater t = updater s" "received t = received s" by (simp_all add: core_def)
  from s show ?thesis unfolding tinv_defs e .
qed

lemma tinv_received: "tinv pt s \<Longrightarrow> tinv pt (s\<lparr>received := received s @ rs\<rparr>)"
  unfolding tinv_defs by (simp add: confirmed_append split_beta) blast

lemma dispatch_rest_core: "dispatch_rest api n e s = (out, t) \<Longrightarrow> core t = core s"
  unfolding dispatch_rest_def
  apply (split if_split_asm)
  subgoal by (auto split: option.splits if_splits)
  apply (split if_split_asm)
  subgoal by (auto simp: core_def split: option.splits prod.splits)
  apply (split if_split_asm)
  subgoal by (auto simp: core_def split: option.splits prod.splits)
  apply (split if_split_asm)
  subgoal by (auto simp: core_def split: option.splits prod.splits if_splits)
  by (auto simp: core_def split: option.splits if_splits)

lemma dispatch_cases:
  assumes "dispatch api pt n e s = (out, t)"
  obtains "core t = core s"
    | offer c g where "is_offer pt offer e" "acceptOffer (rt_Accepting api offer (truntime s)) offer (tclient s) (tgate s) = (out, c, g)"
        "t = s\<lparr>tclient := c, tgate := g\<rparr>"
    | ack c l start where "env_Type e = ''operation.accepted_ack''" "DecodeAcceptedAck e = Some ack"
        "handleAcceptedAck ack (tclient s) = (c, l, start)"
        "t = s\<lparr>tclient := c, executing := executing s @ (case start of None \<Rightarrow> [] | Some off \<Rightarrow> [off]),
           releasing := releasing s @ (case l of None \<Rightarrow> [] | Some i \<Rightarrow> [i])\<rparr>"
proof -
  consider "env_Type e = ''operation.offer''" | "env_Type e = ''operation.accepted_ack''"
    | "dispatch_rest api n e s = (out, t)" using assms unfolding dispatch_def by (auto split: if_split_asm)
  then show ?thesis
  proof cases
    case 1
    show ?thesis
    proof (cases "DecodeOperationOffer pt e")
      case None
      with 1 assms have "t = s" by (simp add: dispatch_def)
      then show ?thesis using that(1) by simp
    next
      case (Some offer)
      obtain o' c g where a: "acceptOffer (rt_Accepting api offer (truntime s)) offer (tclient s) (tgate s) = (o', c, g)" by (metis prod_cases3)
      with 1 Some assms have "o' = out" "t = s\<lparr>tclient := c, tgate := g\<rparr>" by (simp_all add: dispatch_def)
      with a 1 Some show ?thesis using that(2) by (simp add: is_offer_def)
    qed
  next
    case 2
    show ?thesis
    proof (cases "\<exists>ack. DecodeAcceptedAck e = Some ack \<and> ValidUUID (ack_CommandID ack)")
      case False
      with 2 assms have "t = s" by (auto simp: dispatch_def split: option.splits)
      then show ?thesis using that(1) by simp
    next
      case True
      then obtain ack where d: "DecodeAcceptedAck e = Some ack" "ValidUUID (ack_CommandID ack)" by blast
      obtain c l start where h: "handleAcceptedAck ack (tclient s) = (c, l, start)" by (metis prod_cases3)
      from 2 assms d h show ?thesis by (intro that(3) [OF 2 d(1) h]) (simp add: dispatch_def)
    qed
  next
    case 3
    then show ?thesis by (intro that(1) dispatch_rest_core)
  qed
qed

section \<open>Every step keeps the account\<close>

lemma cActive_unchanged:
  "acceptOffer accepting offer c g = (out, c', g') \<Longrightarrow> cActive c' = cActive c"
  "handleAcceptedAck ack c = (c', l, start) \<Longrightarrow> cActive c' = cActive c"
  by (auto dest: acceptOffer_cases) (auto simp: handleAcceptedAck_def Let_def split: option.splits if_splits)

lemma acceptOffer_pending:
  "acceptOffer accepting offer c g = (out, c', g') \<Longrightarrow> set (cPending c') \<subseteq> set (cPending c) \<union> {x. po_offer (snd x) = offer}"
proof (drule acceptOffer_cases, elim disjE exE conjE)
  fix l assume "c' = c\<lparr>cPending := AList.update (CommandID offer) \<lparr>po_offer = offer, po_lease = l\<rparr> (cPending c)\<rparr>"
    "\<not> gm_has (cPending c) (CommandID offer)"
  then show ?thesis using set_mset_mset [of "cPending c'"] by (simp add: gm_has_iff mset_update_new flip: set_mset_mset)
qed simp

lemma handleAcceptedAck_start:
  "handleAcceptedAck ack c = (c', l, Some off) \<Longrightarrow> ack_Accepted ack \<and> (\<exists>p. (ack_CommandID ack, p) \<in> set (cPending c) \<and> off = po_offer p)"
  by (auto simp: handleAcceptedAck_def Let_def dest: map_of_SomeD split: option.splits if_splits)

lemma handleAcceptedAck_pending: "handleAcceptedAck ack c = (c', l, start) \<Longrightarrow> set (cPending c') \<subseteq> set (cPending c)"
  by (auto simp: handleAcceptedAck_def Let_def split: option.splits if_splits)

lemma tinv_accept:
  assumes inv: "tinv pt s" and n: "tcontrol s = Ready n" "(n, e) \<in> set (received s)" "is_offer pt offer e"
    and a: "acceptOffer accepting offer (tclient s) (tgate s) = (out, c, g)"
  shows "tinv pt (s\<lparr>tclient := c, tgate := g\<rparr>)"
proof -
  have ok: "client_ok (tclient s)" "gate_inv (tgate s)" using inv by (simp_all add: tinv_defs)
  note keeps = acceptOffer_keeps [OF a ok] cActive_unchanged(1) [OF a]
  have "lease_ok (s\<lparr>tclient := c, tgate := g\<rparr>)"
    using inv keeps by (simp add: tinv_defs)
  moreover have "executing_ok (s\<lparr>tclient := c, tgate := g\<rparr>)"
    using inv keeps by (simp add: tinv_def executing_ok_def)
  moreover have "session_ok pt (s\<lparr>tclient := c, tgate := g\<rparr>)"
    using inv keeps(6) n acceptOffer_pending [OF a] unfolding tinv_def session_ok_def by fastforce
  ultimately show ?thesis by (simp add: tinv_def)
qed

lemma tinv_ack:
  assumes inv: "tinv pt s" and n: "tcontrol s = Ready n" "received s = rs @ [(n, e)]"
    and e: "env_Type e = ''operation.accepted_ack''" "DecodeAcceptedAck e = Some ack"
    and h: "handleAcceptedAck ack (tclient s) = (c, l, start)"
  shows "tinv pt (s\<lparr>tclient := c, executing := executing s @ (case start of None \<Rightarrow> [] | Some off \<Rightarrow> [off]),
           releasing := releasing s @ (case l of None \<Rightarrow> [] | Some i \<Rightarrow> [i])\<rparr>)" (is "tinv pt ?t")
proof -
  have ok: "client_ok (tclient s)" using inv by (simp add: tinv_defs)
  note keeps = handleAcceptedAck_keeps [OF h ok] cActive_unchanged(2) [OF h]
  have "lease_ok ?t"
    using inv keeps(2) by (cases l) (simp_all add: tinv_defs)
  moreover have "executing_ok ?t"
    using inv keeps(1,3) by (simp add: tinv_def executing_ok_def)
  moreover have "confirmed pt (received s) off" if "start = Some off" for off
  proof -
    from handleAcceptedAck_start [OF h [unfolded that]] obtain p
      where p: "ack_Accepted ack" "(ack_CommandID ack, p) \<in> set (cPending (tclient s))" "off = po_offer p" by blast
    moreover have "CommandID (po_offer p) = ack_CommandID ack" using ok p(2) by (auto simp: client_ok_def)
    moreover obtain e0 where e0: "(n, e0) \<in> set (received s)" "is_offer pt off e0"
      using inv n(1) p(2,3) by (auto simp: tinv_def session_ok_def)
    moreover have "e0 \<noteq> e" using e0(2) e(1) by (auto simp: is_offer_def)
    ultimately show ?thesis using e n(2) by (auto simp: is_ack_def intro!: confirmed_snoc)
  qed
  then have "session_ok pt ?t"
    using inv keeps(4) handleAcceptedAck_pending [OF h] unfolding tinv_def session_ok_def
    by (cases start) fastforce+
  ultimately show ?thesis by (simp add: tinv_def)
qed

lemma tinv_dispatch:
  assumes inv: "tinv pt s" and n: "tcontrol s = Ready n" and d: "dispatch api pt n e (s\<lparr>received := received s @ [(n, e)]\<rparr>) = (out, t)"
  shows "tinv pt t \<and> tcontrol t = Ready n"
  using d
proof (cases rule: dispatch_cases)
  case 1
  with tinv_core [OF 1 tinv_received [OF inv]] n show ?thesis by (simp add: core_def)
next
  case (2 offer c g)
  with n tinv_accept [OF tinv_received [OF inv, of "[(n, e)]"], of n e offer] show ?thesis by simp
next
  case (3 ack c l start)
  with n tinv_ack [OF tinv_received [OF inv, of "[(n, e)]"], of n "received s" e ack] show ?thesis by simp
qed

lemma tinv_end_session: "tinv pt s \<Longrightarrow> tcontrol s = Ready n \<Longrightarrow> tinv pt (end_session n s)"
  by (auto simp: tinv_defs end_session_def releasePending_def clearActive_def client_ok_def client_leases_def image_mset.compositionality)

lemma tinv_executes:
  assumes inv: "tinv pt s" and off: "off \<in> set (executing s)" and x: "execute_done off res (tclient s) = (c, l, out)"
  shows "tinv pt (s\<lparr>tclient := c, executing := remove1 off (executing s),
      releasing := releasing s @ (case l of None \<Rightarrow> [] | Some i \<Rightarrow> [i]), written := w\<rparr>)" (is "tinv pt ?t")
proof -
  have ok: "client_ok (tclient s)" using inv by (simp add: tinv_defs)
  have "mset (map CommandID (executing s)) = mset (gm_keys (cRunning (tclient s)))"
    using inv by (simp add: tinv_def executing_ok_def)
  then have keys: "set (map CommandID (executing s)) = set (gm_keys (cRunning (tclient s)))" by (rule mset_eq_setD)
  with off have "CommandID off \<in> set (gm_keys (cRunning (tclient s)))" by (metis image_eqI list.set_map)
  note keeps = execute_done_keeps [OF x ok this]
  have "lease_ok ?t" using inv keeps(2) by (cases l) (simp_all add: tinv_defs)
  moreover have "executing_ok ?t"
    using inv keeps(1,3) off by (simp add: tinv_def executing_ok_def image_mset_Diff)
  moreover have "session_ok pt ?t"
    using inv keeps(4,5) set_remove1_subset [of off "executing s"] unfolding tinv_def session_ok_def by auto
  ultimately show ?thesis by (simp add: tinv_def)
qed

lemma tinv_releases:
  assumes inv: "tinv pt s" and l: "l \<in> set (releasing s)"
  shows "tinv pt (s\<lparr>tgate := Release (Some l) (tgate s), releasing := remove1 l (releasing s)\<rparr>)"
proof -
  have m: "mset (live OperationLease (tgate s)) = client_leases (tclient s) + mset (releasing s)" using inv by (simp add: tinv_defs)
  then have op: "l \<in> set (live OperationLease (tgate s))" using l by (metis set_mset_mset union_iff)
  then have up: "l \<notin> set (live UpdateLease (tgate s))" by (auto simp: live_iff)
  have "mset (live OperationLease (Release (Some l) (tgate s))) = client_leases (tclient s) + mset (remove1 l (releasing s))"
    using m op l by (simp add: mset_live_Release)
  with inv up gate_inv_Release [of "tgate s" "Some l"] show ?thesis
    by (simp add: tinv_def lease_ok_def executing_ok_def mset_live_Release [of UpdateLease])
qed

lemma tinv_update_starts:
  assumes inv: "tinv pt s" and u: "updater s = None" and t: "TryUpdate (tgate s) = (l, g)"
  shows "tinv pt (s\<lparr>tgate := g, updater := l\<rparr>)"
proof (cases l)
  case None
  with t have "g = tgate s" by (auto simp: TryUpdate_def split: if_splits)
  with u None have "s\<lparr>tgate := g, updater := l\<rparr> = s" by simp
  with inv show ?thesis by simp
next
  case (Some i)
  with inv u live_TryUpdate [OF t [unfolded Some]] gate_inv_TryUpdate [of "tgate s"] t show ?thesis
    by (simp add: tinv_def lease_ok_def executing_ok_def)
qed

lemma tinv_update_ends:
  assumes inv: "tinv pt s" and u: "updater s = Some l"
  shows "tinv pt (s\<lparr>tgate := Release (Some l) (tgate s), updater := None\<rparr>)"
proof -
  have m: "mset (live UpdateLease (tgate s)) = {#l#}" using inv u by (simp add: tinv_def lease_ok_def)
  then have up: "l \<in> set (live UpdateLease (tgate s))" by (metis set_mset_mset set_mset_single singletonI)
  then have "l \<notin> set (live OperationLease (tgate s))" by (auto simp: live_iff)
  with inv m up gate_inv_Release [of "tgate s" "Some l"] show ?thesis
    by (simp add: tinv_def lease_ok_def executing_ok_def mset_live_Release)
qed

lemma tinv_step: "tstep api pt s t \<Longrightarrow> tinv pt s \<Longrightarrow> tinv pt t"
proof (induction rule: tstep.induct)
  case (connects s)
  then show ?case by (auto simp: tinv_defs setActive_def client_ok_def client_leases_def split_beta)
next
  case (ready_fails s e)
  then show ?case by (auto simp: tinv_defs recordFatal_def client_ok_def client_leases_def)
next
  case (reads s n e out t)
  from tinv_dispatch [OF reads(3,1,2)] tinv_core [of "t\<lparr>written := w\<rparr>" t for w] show ?case by (simp add: core_def)
next
  case (write_fails s n e m t)
  from tinv_dispatch [OF write_fails(3,1,2)] show ?case by (blast intro: tinv_end_session)
next
  case (rejects s n e err t)
  from tinv_dispatch [OF rejects(3,1,2)] show ?case by (blast intro: tinv_end_session)
next
  case (executes off s res c l out wrote)
  then show ?case by (intro tinv_executes)
qed (auto simp: tinv_end_session tinv_releases tinv_update_starts tinv_update_ends, auto simp: tinv_defs)

lemma tinv_reach: "treach api pt s \<Longrightarrow> tinv pt s"
proof (induction rule: treach.induct)
  case (tstart r)
  then show ?case
    by (simp add: tinv_defs control_start_def newClient_def client_ok_def client_leases_def gate_inv_new)
qed (rule tinv_step)

section \<open>Properties\<close>

text \<open>
  C8. However offers, confirmations, refusals, lost sessions, finished commands and update
  attempts interleave, the operation leases in force are exactly those of the pending and running
  commands and of the ones being released: an update holds its lease only while no command is
  pending or executing, no command executes twice at a time, and once every command is over an
  update can start, so no lease is leaked.
\<close>

theorem update_waits_for_commands:
  assumes "treach api pt s"
  shows "held OperationLease (tgate s) = length (cRunning (tclient s)) + length (cPending (tclient s)) + length (releasing s) \<and>
    (0 < held UpdateLease (tgate s) \<longrightarrow> executing s = [] \<and> cPending (tclient s) = []) \<and>
    distinct (map CommandID (executing s)) \<and>
    (executing s = [] \<and> cPending (tclient s) = [] \<and> releasing s = [] \<and> updater s = None \<longrightarrow> fst (TryUpdate (tgate s)) \<noteq> None)"
proof -
  from tinv_reach [OF assms] have inv: "tinv pt s" .
  then have g: "gate_inv (tgate s)" and m: "mset (live OperationLease (tgate s)) = client_leases (tclient s) + mset (releasing s)"
    and u: "mset (live UpdateLease (tgate s)) = mset_set (set_option (updater s))" and c: "client_ok (tclient s)"
    and x: "mset (map CommandID (executing s)) = mset (gm_keys (cRunning (tclient s)))"
    by (simp_all add: tinv_def lease_ok_def executing_ok_def)
  have held: "held OperationLease (tgate s) = length (cRunning (tclient s)) + length (cPending (tclient s)) + length (releasing s)"
    using arg_cong [OF m, of size] by (simp add: client_leases_def flip: length_live)
  have len: "length (executing s) = length (cRunning (tclient s))" using arg_cong [OF x, of size] by simp
  have "distinct (map CommandID (executing s))"
    using c mset_eq_imp_distinct_iff [OF x] by (simp add: client_ok_def gm_ok_def)
  moreover have "executing s = [] \<and> cPending (tclient s) = []" if "0 < held UpdateLease (tgate s)"
    using that g held len by (auto simp: gate_inv_def split: if_splits)
  moreover have "fst (TryUpdate (tgate s)) \<noteq> None"
    if "executing s = []" "cPending (tclient s) = []" "releasing s = []" "updater s = None"
    using that g held len u TryUpdate_laws(1) [OF g] by (auto simp: gate_inv_def length_live [symmetric] split: if_splits)
  ultimately show ?thesis using held by blast
qed

text \<open>
  C9. A command starts executing only when Cloud offered exactly this offer on a session and
  later, on the same session, confirmed its acceptance; an acceptance left unconfirmed when the
  session ends is dropped.
\<close>

theorem executes_confirmed_only:
  assumes "treach api pt s"
  shows "(\<forall>off \<in> set (executing s). confirmed pt (received s) off) \<and>
    ((\<forall>n. tcontrol s \<noteq> Ready n) \<longrightarrow> cPending (tclient s) = [] \<and> cActive (tclient s) = None)"
proof -
  from tinv_reach [OF assms] have s: "session_ok pt s" by (simp add: tinv_def)
  then have "cPending (tclient s) = [] \<and> cActive (tclient s) = None" if "\<forall>n. tcontrol s \<noteq> Ready n"
    using that by (cases "cPending (tclient s)"; cases "cActive (tclient s)") (auto simp: session_ok_def)
  with s show ?thesis by (auto simp: session_ok_def)
qed

text \<open>
  The node proves who it is before it says anything else: it signs nothing but the signing
  text of a challenge made out to itself, it sends its version only after Cloud accepted that
  proof for this node, and the handshake succeeds exactly when Cloud then also accepted the
  hello. Whatever goes wrong in between, nothing further is written.
\<close>

theorem handshake_order:
  assumes "authenticate pt sign agent version revision wok incoming = (ok, ws)"
  shows "(ok \<longrightarrow> length ws = 2) \<and> length ws \<le> 2 \<and>
    (ws \<noteq> [] \<longrightarrow> (\<exists>e ch text. incoming 0 = Some e \<and> env_Type e = ''auth.challenge'' \<and> DecodeChallenge e = Some ch \<and>
       challenge_AgentID ch = agent \<and> AuthSigningText pt ch = Some text \<and> ws ! 0 = authResponse sign agent ch text)) \<and>
    (length ws = 2 \<longrightarrow> ws ! 1 = helloBody version revision \<and>
       (\<exists>e. incoming 1 = Some e \<and> env_Type e = ''auth.accepted'' \<and> DecodeAgentID e = Some agent)) \<and>
    (ok \<longleftrightarrow> length ws = 2 \<and> (\<exists>e. incoming 2 = Some e \<and> env_Type e = ''hello.accepted'' \<and> DecodeAgentID e = Some agent))"
  using assms
  by (auto simp: authenticate_def Let_def readEnvelope_def bind_eq_Some_conv split: option.splits if_splits)

lemma grow_backoff_bounds: "second \<le> b \<Longrightarrow> b \<le> 30 * second \<Longrightarrow> second \<le> grow_backoff b \<and> grow_backoff b \<le> 30 * second"
  by (auto simp: grow_backoff_def second_def)

lemma control_backoffs_bounds:
  "second \<le> b \<Longrightarrow> b \<le> 30 * second \<Longrightarrow> x \<in> set (control_backoffs b ss) \<Longrightarrow> second \<le> x \<and> x \<le> 30 * second"
proof (induction b ss arbitrary: x rule: control_backoffs.induct)
  case (2 b readyAt now rest)
  let ?b = "sessionBackoff b readyAt now heartbeatInterval"
  have b: "second \<le> ?b" "?b \<le> 30 * second" using "2.prems" by (auto simp: sessionBackoff_def second_def)
  with "2.IH" [OF refl] grow_backoff_bounds [OF b] "2.prems"(3) show ?case by (auto simp: Let_def)
qed simp

lemma min_pow_grow: "grow_backoff (min (2 ^ k * second) (30 * second)) = min (2 ^ Suc k * second) (30 * second)"
  by (auto simp: grow_backoff_def second_def min_def)

lemma control_backoffs_failing:
  "\<forall>s \<in> set ss. fst s = 0 \<Longrightarrow>
    control_backoffs (min (2 ^ k * second) (30 * second)) ss = map (\<lambda>i. min (2 ^ (k + i) * second) (30 * second)) [0..<length ss]"
proof (induction ss arbitrary: k)
  case (Cons s ss)
  obtain now where "s = (0, now)" using Cons.prems by (cases s) auto
  moreover have "[0..<length (s # ss)] = 0 # map Suc [0..<length ss]" by (simp add: map_Suc_upt upt_conv_Cons del: upt_Suc)
  ultimately show ?case using Cons.IH [of "Suc k"] Cons.prems
    by (simp add: sessionBackoff_def IsZero_def Let_def min_pow_grow comp_def del: upt_Suc)
qed simp

text \<open>
  The wait before every reconnect lies between one second and 37.5 seconds whatever sessions
  came before; sessions that never become ready double it from one second up to thirty; and a
  session that stayed ready for a heartbeat interval brings it back to one second.
\<close>

theorem reconnect_backoff:
  "(\<forall>b \<in> set (control_backoffs second ss). \<forall>r d. delay_of b r = Some d \<longrightarrow> second \<le> d \<and> 2 * d < 75 * second) \<and>
   ((\<forall>s \<in> set ss. fst s = 0) \<longrightarrow> control_backoffs second ss = map (\<lambda>i. min (2 ^ i * second) (30 * second)) [0..<length ss]) \<and>
   (readyAt \<noteq> 0 \<and> heartbeatInterval \<le> now - readyAt \<longrightarrow> sessionBackoff b readyAt now heartbeatInterval = second)"
proof (intro conjI ballI allI impI)
  fix b r d assume "b \<in> set (control_backoffs second ss)" "delay_of b r = Some d"
  moreover have "second \<le> b \<and> b \<le> 30 * second"
    by (rule control_backoffs_bounds [OF _ _ calculation(1)]) (simp_all add: second_def)
  ultimately show "second \<le> d" "2 * d < 75 * second"
    by (auto simp: delay_of_def second_def split: if_splits)
next
  assume "\<forall>s \<in> set ss. fst s = 0"
  from control_backoffs_failing [OF this, of 0] show "control_backoffs second ss = map (\<lambda>i. min (2 ^ i * second) (30 * second)) [0..<length ss]"
    by (simp add: second_def)
next
  assume "readyAt \<noteq> 0 \<and> heartbeatInterval \<le> now - readyAt"
  then show "sessionBackoff b readyAt now heartbeatInterval = second"
    by (auto simp: sessionBackoff_def IsZero_def heartbeatInterval_def second_def Sub_def maxDuration_def minDuration_def)
qed

section \<open>Examples\<close>

definition ex_api :: "unit runtime_api" where
  "ex_api = \<lparr>rt_Accepting = (\<lambda>_ _. Inr True), rt_PutState = (\<lambda>_ r. (None, r)), rt_SetStateKeys = (\<lambda>_ r. (None, r)),
     rt_ControlReady = (\<lambda>r. r), rt_Acknowledge = (\<lambda>_ r. (None, r)), rt_Query = (\<lambda>_. None)\<rparr>"

definition ex_envelope :: "string \<Rightarrow> json \<Rightarrow> Envelope" where
  "ex_envelope ty b = \<lparr>env_Protocol = Version, env_MessageID = ''0f8fad5b-d9cb-469f-a165-70867728950e'', env_Type = ty,
     env_SentAt = 1, env_Body = Doc b\<rparr>"

definition ex_command :: string where "ex_command = ''7c9e6679-7425-40de-944b-e07fc1f90ae7''"

definition ex_offer :: OperationOffer where
  "ex_offer = \<lparr>CommandID = ex_command, CommandType = ''change_ip'', PayloadVersion = 1, Payload = Doc (JObj []), NotBefore = 1, ExpiresAt = 2\<rparr>"

definition ex_offer_env :: Envelope where
  "ex_offer_env = ex_envelope ''operation.offer'' (JObj [(''command_id'', JStr ex_command), (''command_type'', JStr ''change_ip''),
     (''payload_version'', JNum ''1''), (''payload'', JObj []), (''not_before'', JStr ''2026-11-01T00:00:00Z''),
     (''expires_at'', JStr ''2026-11-01T00:00:30Z'')])"

definition ex_ack_env :: Envelope where
  "ex_ack_env = ex_envelope ''operation.accepted_ack'' (JObj [(''command_id'', JStr ex_command), (''accepted'', JBool True)])"

definition ex_connected :: "unit control_sys" where
  "ex_connected = (control_start ())\<lparr>tclient := newClient\<lparr>cActive := Some 0\<rparr>, tcontrol := Ready 0, sessions := 1\<rparr>"

definition ex_offered :: "unit control_sys" where
  "ex_offered = ex_connected\<lparr>tclient := newClient\<lparr>cActive := Some 0, cPending := [(ex_command, \<lparr>po_offer = ex_offer, po_lease = 0\<rparr>)]\<rparr>,
     tgate := \<lparr>gate = \<lparr>updating = False, operations = 1\<rparr>, leases = [\<lparr>kind = OperationLease, released = False\<rparr>]\<rparr>,
     received := [(0, ex_offer_env)], written := [(0, ''operation.accepted'', commandIDBody ex_command)]\<rparr>"

definition ex_executing :: "unit control_sys" where
  "ex_executing = ex_offered\<lparr>tclient := newClient\<lparr>cActive := Some 0, cRunning := [(ex_command, 0)]\<rparr>, executing := [ex_offer],
     received := [(0, ex_offer_env), (0, ex_ack_env)]\<rparr>"

lemma ex_offer_decodes: "DecodeOperationOffer ex_time ex_offer_env = Some ex_offer"
  by code_simp

lemma ex_ack_decodes: "DecodeAcceptedAck ex_ack_env = Some \<lparr>ack_CommandID = ex_command, ack_Accepted = True\<rparr>" "ValidUUID ex_command"
  by code_simp+

lemma ex_connected_reach: "treach ex_api ex_time ex_connected"
proof -
  have "tcontrol (control_start ()) = Dialing" by (simp add: control_start_def)
  from treach.tmore [OF treach.tstart tstep.connects [OF this]] show ?thesis
    by (simp add: ex_connected_def control_start_def ex_api_def setActive_def)
qed

lemma ex_offered_reach: "treach ex_api ex_time ex_offered"
proof -
  have "dispatch ex_api ex_time 0 ex_offer_env (ex_connected\<lparr>received := received ex_connected @ [(0, ex_offer_env)]\<rparr>) =
    (Inr (Some (''operation.accepted'', commandIDBody ex_command)), ex_offered\<lparr>written := []\<rparr>)"
    using ex_offer_decodes
    by (simp add: dispatch_def acceptOffer_def ex_api_def ex_offered_def ex_connected_def control_start_def new_sys_def New_def
      TryOperation_def newClient_def gm_has_def ex_offer_def) (simp add: ex_offer_env_def ex_envelope_def)
  from treach.tmore [OF ex_connected_reach tstep.reads [OF _ this]] show ?thesis
    by (simp add: ex_offered_def ex_connected_def)
qed

lemma ex_executing_reach: "treach ex_api ex_time ex_executing"
proof -
  have "dispatch ex_api ex_time 0 ex_ack_env (ex_offered\<lparr>received := received ex_offered @ [(0, ex_ack_env)]\<rparr>) = (Inr None, ex_executing)"
    using ex_ack_decodes
    by (simp add: dispatch_def handleAcceptedAck_def ex_executing_def ex_offered_def ex_connected_def control_start_def
      newClient_def gm_has_def) (simp add: ex_ack_env_def ex_envelope_def)
  from treach.tmore [OF ex_offered_reach tstep.reads [OF _ this]] show ?thesis
    by (simp add: ex_offered_def ex_connected_def ex_executing_def control_start_def)
qed

theorem update_waits_for_commands_witness:
  "held OperationLease (tgate ex_executing) = 1 \<and> executing ex_executing = [ex_offer]"
  using update_waits_for_commands [OF ex_executing_reach]
  by (simp add: ex_executing_def ex_offered_def ex_connected_def control_start_def newClient_def)

theorem executes_confirmed_only_witness: "confirmed ex_time [(0, ex_offer_env), (0, ex_ack_env)] ex_offer"
  using executes_confirmed_only [OF ex_executing_reach] by (simp add: ex_executing_def)

definition ex_incoming :: "nat \<Rightarrow> Envelope option" where
  "ex_incoming i = nth [Some (ex_envelope ''auth.challenge'' (JObj [(''challenge_id'', JStr (ChallengeID ex_challenge)),
       (''agent_id'', JStr ex_command), (''nonce'', JStr (Nonce ex_challenge)), (''issued_at'', JStr (IssuedAt ex_challenge)),
       (''expires_at'', JStr (challenge_ExpiresAt ex_challenge))])),
     Some (ex_envelope ''auth.accepted'' (JObj [(''agent_id'', JStr ex_command)])),
     Some (ex_envelope ''hello.accepted'' (JObj [(''agent_id'', JStr ex_command)]))] i"

lemma ex_handshake: "fst (authenticate ex_time (\<lambda>_. [1]) ex_command ''v1'' 1 (\<lambda>_. True) ex_incoming)"
  by code_simp

theorem handshake_order_witness:
  "\<exists>ws. authenticate ex_time (\<lambda>_. [1]) ex_command ''v1'' 1 (\<lambda>_. True) ex_incoming = (True, ws) \<and> length ws = 2 \<and> ws ! 1 = helloBody ''v1'' 1"
proof -
  obtain ws where a: "authenticate ex_time (\<lambda>_. [1]) ex_command ''v1'' 1 (\<lambda>_. True) ex_incoming = (True, ws)"
    using ex_handshake by (metis prod.collapse)
  from handshake_order [OF a] a show ?thesis by auto
qed

theorem reconnect_backoff_witness:
  "control_backoffs second [(0, 1), (0, 2), (0, 3)] = [second, 2 * second, 4 * second] \<and>
   sessionBackoff (8 * second) 1 (1 + heartbeatInterval) heartbeatInterval = second"
  using reconnect_backoff [of "[(0, 1), (0, 2), (0, 3)]" 1 "1 + heartbeatInterval" "8 * second"]
  by (simp add: upt_rec second_def)

end
