(* ===== verification/Xui_Target.thy ===== *)
theory Xui_Target
  imports Protocol
begin

text \<open>
  What Cloud wants of the local 3x-ui panel, \<open>src/internal/modules/xui/module.go\<close>: which clients
  are Cloud's, the decoder of a target and the check that an inbound can use its credentials.
  Strings are the bytes Go holds; comments are checked as UTF-8.
\<close>

section \<open>UTF-8\<close>

definition cont :: "nat \<Rightarrow> bool" where "cont b \<longleftrightarrow> 128 \<le> b \<and> b < 192"

text \<open>The runes of a byte string, \<open>None\<close> when it is not valid UTF-8 (\<open>utf8.ValidString\<close>): no
  overlong forms, no surrogates, nothing beyond the last code point.\<close>

fun runes :: "nat list \<Rightarrow> nat list option" where
  "runes [] = Some []"
| "runes (a # r) =
     (if a < 128 then map_option ((#) a) (runes r)
      else if 194 \<le> a \<and> a < 224 then
        (case r of b # r1 \<Rightarrow> if cont b then map_option ((#) ((a - 192) * 64 + (b - 128))) (runes r1) else None | _ \<Rightarrow> None)
      else if 224 \<le> a \<and> a < 240 then
        (case r of b # c # r2 \<Rightarrow>
           if cont b \<and> cont c \<and> (a = 224 \<longrightarrow> 160 \<le> b) \<and> (a = 237 \<longrightarrow> b < 160)
           then map_option ((#) ((a - 224) * 4096 + (b - 128) * 64 + (c - 128))) (runes r2) else None
         | _ \<Rightarrow> None)
      else if 240 \<le> a \<and> a < 245 then
        (case r of b # c # d # r3 \<Rightarrow>
           if cont b \<and> cont c \<and> cont d \<and> (a = 240 \<longrightarrow> 144 \<le> b) \<and> (a = 244 \<longrightarrow> b < 144)
           then map_option ((#) ((a - 240) * 262144 + (b - 128) * 4096 + (c - 128) * 64 + (d - 128))) (runes r3) else None
         | _ \<Rightarrow> None)
      else None)"

definition IsControl :: "nat \<Rightarrow> bool" where
  "IsControl r \<longleftrightarrow> r < 32 \<or> 127 \<le> r \<and> r < 160"

section \<open>Targets\<close>

definition ownedPrefix :: string where "ownedPrefix = ''ak-''"
definition visionFlow :: string where "visionFlow = ''xtls-rprx-vision''"
definition maxSafeInt :: int where "maxSafeInt = 2 ^ 53 - 1"
definition maxComment :: nat where "maxComment = 200"

text \<open>\<open>^ak-[a-z0-9]{1,61}$\<close>\<close>

definition ownedEmail :: "string \<Rightarrow> bool" where
  "ownedEmail s \<longleftrightarrow> HasPrefix s ownedPrefix \<and>
     (let r = drop 3 s in 1 \<le> length r \<and> length r \<le> 61 \<and> list_all (\<lambda>c. c \<in> set (lower @ digits)) r)"

definition Owned :: "string \<Rightarrow> bool" where
  "Owned email = ownedEmail email"

record xclient =
  xEmail :: string
  xCredential :: string
  xFlow :: string
  xEnable :: bool
  xTotalBytes :: int
  xResetSeq :: int
  xComment :: string

text \<open>A \<open>Target\<close> is its clients.\<close>

type_synonym xtarget = "xclient list"

definition validComment :: "string \<Rightarrow> bool" where
  "validComment s = (case runes (map of_char s) of None \<Rightarrow> False
     | Some rs \<Rightarrow> length rs \<le> maxComment \<and> \<not> list_ex IsControl rs)"

definition clientFields :: "string list" where
  "clientFields = [''email'', ''credential'', ''flow'', ''enable'', ''total_bytes'', ''reset_seq'', ''comment'']"

definition typed_client :: "(string \<Rightarrow> json option) \<Rightarrow> xclient option" where
  "typed_client get = (case (Option.bind (get ''email'') as_string, Option.bind (get ''credential'') as_string,
      Option.bind (get ''flow'') as_string, Option.bind (get ''enable'') as_bool, Option.bind (get ''total_bytes'') as_int,
      Option.bind (get ''reset_seq'') as_int, Option.bind (get ''comment'') as_string) of
     (Some e, Some c, Some f, Some en, Some tb, Some rs, Some co) \<Rightarrow>
        Some \<lparr>xEmail = e, xCredential = c, xFlow = f, xEnable = en, xTotalBytes = tb, xResetSeq = rs, xComment = co\<rparr>
   | _ \<Rightarrow> None)"

definition client_valid :: "xclient \<Rightarrow> bool" where
  "client_valid c \<longleftrightarrow> ownedEmail (xEmail c) \<and> 16 \<le> length (xCredential c) \<and> length (xCredential c) \<le> 256 \<and>
     \<not> ContainsAny (xCredential c) [CHR 0x00, CHR 0x0D, CHR 0x0A, CHR 0x22] \<and>
     (xFlow c = [] \<or> xFlow c = visionFlow) \<and> 0 \<le> xTotalBytes c \<and> xTotalBytes c \<le> maxSafeInt \<and>
     0 \<le> xResetSeq c \<and> xResetSeq c \<le> maxSafeInt \<and> validComment (xComment c)"

text \<open>The loop over the clients, with the emails and credentials seen so far.\<close>

fun decode_clients :: "string list \<Rightarrow> string list \<Rightarrow> json list \<Rightarrow> xclient list option" where
  "decode_clients emails creds [] = Some []"
| "decode_clients emails creds (j # js) =
     (case DecodeStrict typed_client (Doc j) clientFields of None \<Rightarrow> None
      | Some c \<Rightarrow>
          if \<not> client_valid c \<or> xEmail c \<in> set emails \<or> xCredential c \<in> set creds then None
          else map_option ((#) c) (decode_clients (xEmail c # emails) (xCredential c # creds) js))"

definition decodeTarget :: "string \<Rightarrow> raw \<Rightarrow> (int \<times> xtarget) option" where
  "decodeTarget key r =
     (case Atoi key of None \<Rightarrow> None
      | Some n \<Rightarrow>
          if n < 1 \<or> Itoa n \<noteq> key then None
          else (case DecodeStrict (\<lambda>get. Option.bind (get ''clients'') as_array) r [''clients''] of None \<Rightarrow> None
                | Some items \<Rightarrow> map_option (Pair n) (decode_clients [] [] items)))"

section \<open>What an inbound can use\<close>

definition credentialField :: "string \<Rightarrow> string" where
  "credentialField proto = (if proto = ''trojan'' \<or> proto = ''shadowsocks'' then ''password''
     else if proto = ''hysteria'' \<or> proto = ''hysteria2'' then ''auth'' else ''id'')"

definition ss2022 :: "string \<Rightarrow> string \<Rightarrow> bool" where
  "ss2022 proto meth \<longleftrightarrow> proto = ''shadowsocks'' \<and> HasPrefix meth ''2022-''"

definition compatible_client :: "string \<Rightarrow> string \<Rightarrow> xclient \<Rightarrow> bool" where
  "compatible_client proto meth c \<longleftrightarrow> \<not> (xFlow c \<noteq> [] \<and> proto \<noteq> ''vless'') \<and>
     (if proto = ''vless'' then ValidUUID (xCredential c)
      else if ss2022 proto meth then
        (case StdDecode (xCredential c) of None \<Rightarrow> False
         | Some key \<Rightarrow> length key = (if meth = ''2022-blake3-aes-128-gcm'' then 16 else 32))
      else proto = ''hysteria'' \<or> proto = ''hysteria2'')"

definition compatible :: "string \<Rightarrow> string \<Rightarrow> xtarget \<Rightarrow> string option" where
  "compatible proto meth t = (if list_all (compatible_client proto meth) t then None else Some ''xui_inbound_changed'')"

section \<open>A decoded target is safe to use\<close>

definition target_ok :: "xtarget \<Rightarrow> bool" where
  "target_ok t \<longleftrightarrow> list_all client_valid t \<and> distinct (map xEmail t) \<and> distinct (map xCredential t)"

lemma decode_clients_ok:
  "decode_clients es cs js = Some t \<Longrightarrow> target_ok t \<and> set (map xEmail t) \<inter> set es = {} \<and> set (map xCredential t) \<inter> set cs = {}"
proof (induction es cs js arbitrary: t rule: decode_clients.induct)
  case (2 emails creds j js)
  then obtain c t' where c: "DecodeStrict typed_client (Doc j) clientFields = Some c" "client_valid c"
    "xEmail c \<notin> set emails" "xCredential c \<notin> set creds" "t = c # t'"
    "decode_clients (xEmail c # emails) (xCredential c # creds) js = Some t'"
    by (auto split: option.splits if_splits)
  with "2.IH" [OF c(1)] show ?case by (auto simp: target_ok_def)
qed (simp add: target_ok_def)

lemma decodeTarget_ok: "decodeTarget key r = Some (n, t) \<Longrightarrow> target_ok t \<and> 1 \<le> n \<and> Itoa n = key"
  by (auto simp: decodeTarget_def dest: decode_clients_ok split: option.splits if_splits)

lemma owned_prefix: "client_valid c \<Longrightarrow> HasPrefix (xEmail c) ownedPrefix"
  by (simp add: client_valid_def ownedEmail_def)

end
