(* ===== verification/Xui_Plan.thy ===== *)
theory Xui_Plan
  imports Xui_Target "HOL-Library.List_Lexorder" "HOL-Library.Char_ord"
begin

text \<open>
  Planning the writes that bring one inbound of the panel to its target: \<open>plan\<close> and its helpers of
  \<open>src/internal/modules/xui/apply.go\<close>, with the inbound as \<open>src/internal/panel/panel.go\<close> decodes it.
  A client of the panel is the map of its JSON fields. \<open>strconv.ParseFloat\<close>, with which the code
  compares numbers the panel may hold as numbers or as text, is a parameter: the integer a text
  reads as exactly, if any.
\<close>

section \<open>Inbounds as the panel lists them\<close>

record ClientStat =
  stEmail :: string
  stUp :: int
  stDown :: int

record Inbound_panel =
  ibID :: int
  ibRemark :: string
  ibTag :: string
  ibProtocol :: string
  ibListen :: string
  ibPort :: int
  ibEnable :: bool
  ibSettings :: raw
  ibStreamSettings :: raw
  ibClientStats :: "ClientStat list"

type_synonym client_map = "(string, json) gomap"

definition obj_map :: "(string \<times> json) list \<Rightarrow> client_map" where
  "obj_map kvs = fold (\<lambda>(k, v). AList.update k v) kvs []"

text \<open>What \<open>json.Marshal\<close> writes for a map: its keys in order.\<close>

definition obj_of :: "(string, json) gomap \<Rightarrow> json" where
  "obj_of m = JObj (sort_key fst m)"

fun as_maps :: "json list \<Rightarrow> client_map list option" where
  "as_maps [] = Some []"
| "as_maps (j # js) = (case ((case j of JNull \<Rightarrow> Some [] | JObj kvs \<Rightarrow> Some (obj_map kvs) | _ \<Rightarrow> None), as_maps js) of
     (Some m, Some ms) \<Rightarrow> Some (m # ms) | _ \<Rightarrow> None)"

text \<open>\<open>json.Unmarshal\<close> into \<open>settings\<close>: the clients (\<open>None\<close> for a nil list) and the method.\<close>

record settings =
  setClients :: "client_map list option"
  setMethod :: string

definition unmarshal_settings :: "raw \<Rightarrow> settings option" where
  "unmarshal_settings r = (case r of
      Doc (JObj kvs) \<Rightarrow>
        (case (field None (\<lambda>j. map_option Some (Option.bind (as_array j) as_maps)) kvs ''clients'',
               field [] as_string kvs ''method'') of
           (Some cs, Some m) \<Rightarrow> Some \<lparr>setClients = cs, setMethod = m\<rparr> | _ \<Rightarrow> None)
    | Doc JNull \<Rightarrow> Some \<lparr>setClients = None, setMethod = []\<rparr>
    | _ \<Rightarrow> None)"

definition clients_of :: "settings \<Rightarrow> client_map list" where
  "clients_of s = (case setClients s of None \<Rightarrow> [] | Some cs \<Rightarrow> cs)"

definition hasClients :: "Inbound_panel \<Rightarrow> bool" where
  "hasClients ib = (case unmarshal_settings (ibSettings ib) of None \<Rightarrow> False | Some s \<Rightarrow> clients_of s \<noteq> [])"

definition method_of :: "Inbound_panel \<Rightarrow> string" where
  "method_of ib = (case unmarshal_settings (ibSettings ib) of None \<Rightarrow> [] | Some s \<Rightarrow> setMethod s)"

text \<open>\<open>c[k].(string)\<close> and \<open>c[k]\<close> of a client, nil being \<open>JNull\<close>.\<close>

definition any_get :: "client_map \<Rightarrow> string \<Rightarrow> json" where
  "any_get c k = gm_get JNull c k"

definition any_str :: "client_map \<Rightarrow> string \<Rightarrow> string" where
  "any_str c k = (case any_get c k of JStr s \<Rightarrow> s | _ \<Rightarrow> [])"

definition email_of :: "client_map \<Rightarrow> string" where
  "email_of c = any_str c ''email''"

section \<open>Actions\<close>

datatype action = Add_action client_map | Update_action string client_map | Delete_action string

text \<open>A field to write: a number, or a text or flag.\<close>

datatype wanted_value = WNum int | WVal json

definition value_json :: "wanted_value \<Rightarrow> json" where
  "value_json w = (case w of WNum n \<Rightarrow> JNum (Itoa n) | WVal j \<Rightarrow> j)"

definition sameValue :: "(string \<Rightarrow> int option) \<Rightarrow> json \<Rightarrow> wanted_value \<Rightarrow> bool" where
  "sameValue pf current w = (case w of
      WNum n \<Rightarrow> (case current of JNum v \<Rightarrow> pf v = Some n | JStr v \<Rightarrow> pf v = Some n | _ \<Rightarrow> False)
    | WVal j \<Rightarrow> current = j)"

definition identity_of :: "string \<Rightarrow> client_map \<Rightarrow> string" where
  "identity_of proto c = (if proto = ''shadowsocks'' then email_of c else any_str c (credentialField proto))"

text \<open>Two's complement 64-bit addition.\<close>

definition wrap64 :: "int \<Rightarrow> int" where
  "wrap64 i = (i + 2 ^ 63) mod 2 ^ 64 - 2 ^ 63"

definition used_map :: "ClientStat list \<Rightarrow> (string, int) gomap" where
  "used_map stats = fold (\<lambda>st. AList.update (stEmail st) (wrap64 (stUp st + stDown st))) stats []"

definition is_owned :: "client_map \<Rightarrow> bool" where
  "is_owned c = HasPrefix (email_of c) ownedPrefix"

definition owned_map :: "client_map list \<Rightarrow> (string, client_map) gomap" where
  "owned_map cs = fold (\<lambda>c m. if is_owned c then AList.update (email_of c) c m else m) cs []"

definition foreign_marks :: "string \<Rightarrow> client_map list \<Rightarrow> string list" where
  "foreign_marks proto cs = concat (map (\<lambda>c. if is_owned c then []
     else identity_of proto c # (let secret = any_str c (credentialField proto) in if secret = [] then [] else [secret])) cs)"

definition targetHas :: "xtarget \<Rightarrow> string \<Rightarrow> bool" where
  "targetHas t email = list_ex (\<lambda>c. xEmail c = email) t"

text \<open>Deleting what the target does not have; the panel refuses to delete an inbound's last client.\<close>

fun plan_unwanted :: "string \<Rightarrow> nat \<Rightarrow> client_map list \<Rightarrow> action list" where
  "plan_unwanted proto remaining [] = []"
| "plan_unwanted proto remaining (c # cs) =
     (if 1 < remaining then Delete_action (identity_of proto c) # plan_unwanted proto (remaining - 1) cs
      else (if any_get c ''enable'' \<noteq> JBool False
            then [Update_action (identity_of proto c) (AList.update ''enable'' (JBool False) c)] else []) @
           plan_unwanted proto remaining cs)"

definition enable_of :: "(string, int) gomap \<Rightarrow> xclient \<Rightarrow> bool" where
  "enable_of used t \<longleftrightarrow> xEnable t \<and> (xTotalBytes t = 0 \<or> gm_get 0 used (xEmail t) < xTotalBytes t)"

definition fields_of :: "string \<Rightarrow> (string, int) gomap \<Rightarrow> xclient \<Rightarrow> (string \<times> wanted_value) list" where
  "fields_of proto used t =
     [(credentialField proto, WVal (JStr (xCredential t))), (''enable'', WVal (JBool (enable_of used t))),
      (''totalGB'', WNum (xTotalBytes t)), (''expiryTime'', WNum 0)] @
     (if proto = ''vless'' then [(''flow'', WVal (JStr (xFlow t)))] else [])"

definition new_client_map :: "xclient \<Rightarrow> (string \<times> wanted_value) list \<Rightarrow> client_map" where
  "new_client_map t fs = fold (\<lambda>(k, w). AList.update k (value_json w)) fs
     [(''email'', JStr (xEmail t)), (''subId'', JStr (xEmail t)), (''limitIp'', JNum (Itoa 0)), (''tgId'', JNum (Itoa 0)),
      (''reset'', JNum (Itoa 0)), (''comment'', JStr (xComment t))]"

definition changed_fields :: "(string \<Rightarrow> int option) \<Rightarrow> client_map \<Rightarrow> (string \<times> wanted_value) list \<Rightarrow> (string \<times> wanted_value) list" where
  "changed_fields pf current fs = filter (\<lambda>(k, w). \<not> sameValue pf (any_get current k) w) fs"

definition plan_client :: "(string \<Rightarrow> int option) \<Rightarrow> string \<Rightarrow> (string, int) gomap \<Rightarrow> (string, client_map) gomap \<Rightarrow> xclient \<Rightarrow> action list" where
  "plan_client pf proto used owned t =
     (let fs = fields_of proto used t in
      case map_of owned (xEmail t) of
        None \<Rightarrow> [Add_action (new_client_map t fs)]
      | Some current \<Rightarrow>
          let changed = changed_fields pf current fs;
              updated = fold (\<lambda>(k, w). AList.update k (value_json w)) changed current;
              comment = any_str current ''comment'';
              updated2 = (if comment \<noteq> xComment t then AList.update ''comment'' (JStr (xComment t)) updated else updated)
          in if changed \<noteq> [] \<or> comment \<noteq> xComment t then [Update_action (identity_of proto current) updated2] else [])"

definition unwanted_emails :: "xtarget \<Rightarrow> (string, client_map) gomap \<Rightarrow> string list" where
  "unwanted_emails t owned = sort (filter (\<lambda>e. \<not> targetHas t e) (gm_keys owned))"

definition plan :: "(string \<Rightarrow> int option) \<Rightarrow> Inbound_panel \<Rightarrow> xtarget \<Rightarrow> string + action list" where
  "plan pf ib t = (case unmarshal_settings (ibSettings ib) of
      None \<Rightarrow> Inl ''xui_inbound_invalid''
    | Some s \<Rightarrow>
        if setClients s = None \<and> t \<noteq> [] then Inl ''xui_inbound_invalid''
        else (case compatible (ibProtocol ib) (setMethod s) t of Some e \<Rightarrow> Inl e
          | None \<Rightarrow>
            let proto = ibProtocol ib; cs = clients_of s; owned = owned_map cs; foreign = foreign_marks proto cs in
            if list_ex (\<lambda>(e, c). identity_of proto c \<in> set foreign) owned then Inl ''xui_client_conflict''
            else if list_ex (\<lambda>c. xCredential c \<in> set foreign) t then Inl ''xui_client_conflict''
            else Inr (plan_unwanted proto (length cs) (map (\<lambda>e. the (map_of owned e)) (unwanted_emails t owned)) @
                      concat (map (plan_client pf proto (used_map (ibClientStats ib)) owned) t))))"

section \<open>What a plan touches\<close>

lemma gm_ok_owned: "gm_ok (owned_map cs)"
proof -
  have "gm_ok m \<Longrightarrow> gm_ok (fold (\<lambda>c m. if is_owned c then AList.update (email_of c) c m else m) cs m)" for m
    by (induction cs arbitrary: m) auto
  then show ?thesis by (simp add: owned_map_def)
qed

lemma owned_mapD: "map_of (owned_map cs) e = Some c \<Longrightarrow> c \<in> set cs \<and> is_owned c \<and> email_of c = e"
proof -
  have "map_of (fold (\<lambda>c m. if is_owned c then AList.update (email_of c) c m else m) cs m) e = Some c \<Longrightarrow>
    c \<in> set cs \<and> is_owned c \<and> email_of c = e \<or> map_of m e = Some c" for m
  proof (induction cs arbitrary: m)
    case (Cons x cs)
    from Cons.IH [OF Cons.prems [simplified]] show ?case by (auto simp: map_of_update_gm split: if_splits)
  qed simp
  then show "map_of (owned_map cs) e = Some c \<Longrightarrow> c \<in> set cs \<and> is_owned c \<and> email_of c = e"
    by (fastforce simp: owned_map_def)
qed

lemma owned_map_complete: "c \<in> set cs \<Longrightarrow> is_owned c \<Longrightarrow> \<exists>d. map_of (owned_map cs) (email_of c) = Some d"
proof -
  have keep: "map_of m e \<noteq> None \<Longrightarrow> map_of (fold (\<lambda>c m. if is_owned c then AList.update (email_of c) c m else m) cs m) e \<noteq> None" for m e cs
    by (induction cs arbitrary: m) (auto simp: map_of_update_gm)
  have "c \<in> set cs \<Longrightarrow> is_owned c \<Longrightarrow> map_of (fold (\<lambda>c m. if is_owned c then AList.update (email_of c) c m else m) cs m) (email_of c) \<noteq> None" for m
  proof (induction cs arbitrary: m)
    case (Cons x cs)
    then show ?case using keep [of "AList.update (email_of c) c m" "email_of c" cs]
      by (cases "x = c") (simp_all add: map_of_update_gm)
  qed simp
  then show "c \<in> set cs \<Longrightarrow> is_owned c \<Longrightarrow> \<exists>d. map_of (owned_map cs) (email_of c) = Some d"
    by (fastforce simp: owned_map_def)
qed

lemma any_get_fold: "k \<notin> fst ` set fs \<Longrightarrow> any_get (fold (\<lambda>(k, w). AList.update k (value_json w)) fs m) k = any_get m k"
proof (induction fs arbitrary: m)
  case (Cons x fs)
  then show ?case by (cases x) (simp add: any_get_def gm_get_def map_of_update_gm)
qed simp

lemma email_not_field: "''email'' \<notin> fst ` set (fields_of proto used t)"
  by (auto simp: fields_of_def credentialField_def)

lemma email_new_client: "email_of (new_client_map t (fields_of proto used t)) = xEmail t"
  unfolding email_of_def any_str_def new_client_map_def any_get_fold [OF email_not_field]
  by (simp add: any_get_def gm_get_def)

lemma any_get_update: "any_get (AList.update k v c) k' = (if k' = k then v else any_get c k')"
  by (simp add: any_get_def gm_get_def map_of_update_gm)

lemma plan_client_cases:
  assumes "a \<in> set (plan_client pf proto used owned t)"
  obtains "map_of owned (xEmail t) = None" "a = Add_action (new_client_map t (fields_of proto used t))"
  | current c where "map_of owned (xEmail t) = Some current" "a = Update_action (identity_of proto current) c" "email_of c = email_of current"
proof (cases "map_of owned (xEmail t)")
  case None
  with assms that(1) show ?thesis by (simp add: plan_client_def Let_def)
next
  case (Some current)
  have "''email'' \<notin> fst ` set (changed_fields pf current (fields_of proto used t))"
    using email_not_field [of proto used t] by (auto simp: changed_fields_def)
  note e = any_get_fold [OF this]
  from assms Some obtain c where "a = Update_action (identity_of proto current) c" "email_of c = email_of current"
    by (auto simp: plan_client_def Let_def email_of_def any_str_def any_get_update e split: if_splits)
  with Some that(2) show ?thesis by blast
qed

lemma plan_unwanted_cases:
  "a \<in> set (plan_unwanted proto n cs) \<Longrightarrow> \<exists>c \<in> set cs. a = Delete_action (identity_of proto c) \<or>
     a = Update_action (identity_of proto c) (AList.update ''enable'' (JBool False) c)"
  by (induction proto n cs rule: plan_unwanted.induct) (auto split: if_splits)

definition foreign_identity :: "string \<Rightarrow> client_map list \<Rightarrow> string \<Rightarrow> bool" where
  "foreign_identity proto cs i \<longleftrightarrow> (\<exists>d \<in> set cs. \<not> is_owned d \<and> (identity_of proto d = i \<or> i \<noteq> [] \<and> any_str d (credentialField proto) = i))"

lemma foreign_marks_iff: "i \<in> set (foreign_marks proto cs) \<longleftrightarrow> foreign_identity proto cs i"
  by (auto simp: foreign_marks_def foreign_identity_def Let_def)

lemma plan_Inr:
  assumes "plan pf ib t = Inr as" "unmarshal_settings (ibSettings ib) = Some s"
  shows "setClients s = None \<longrightarrow> t = []" "compatible (ibProtocol ib) (setMethod s) t = None"
    "\<And>e c. map_of (owned_map (clients_of s)) e = Some c \<Longrightarrow> \<not> foreign_identity (ibProtocol ib) (clients_of s) (identity_of (ibProtocol ib) c)"
    "\<And>c. c \<in> set t \<Longrightarrow> \<not> foreign_identity (ibProtocol ib) (clients_of s) (xCredential c)"
    "as = plan_unwanted (ibProtocol ib) (length (clients_of s))
        (map (\<lambda>e. the (map_of (owned_map (clients_of s)) e)) (unwanted_emails t (owned_map (clients_of s)))) @
      concat (map (plan_client pf (ibProtocol ib) (used_map (ibClientStats ib)) (owned_map (clients_of s))) t)"
  using assms
  by (auto simp: plan_def Let_def list_ex_iff foreign_marks_iff split: if_splits option.splits dest: map_of_SomeD)

text \<open>
  C19. The module never touches a client Cloud does not own. Whatever the panel lists and
  whatever valid target Cloud sends, every planned delete and update addresses a client of this
  inbound whose email carries Cloud's prefix, by an identity no other owner's client has (the
  panel acts on every client that matches), an update keeps the email of the client it changes,
  and every added client is Cloud's with a credential no other owner's client uses.
\<close>

theorem plan_touches_owned_only:
  assumes plan: "plan pf ib t = Inr as" and valid: "target_ok t"
    and s: "unmarshal_settings (ibSettings ib) = Some s" and a: "a \<in> set as"
  shows "case a of
      Add_action c \<Rightarrow> is_owned c \<and> (\<exists>x \<in> set t. email_of c = xEmail x \<and> \<not> foreign_identity (ibProtocol ib) (clients_of s) (xCredential x))
    | Update_action i c \<Rightarrow> \<not> foreign_identity (ibProtocol ib) (clients_of s) i \<and>
        (\<exists>d \<in> set (clients_of s). is_owned d \<and> identity_of (ibProtocol ib) d = i \<and> email_of c = email_of d)
    | Delete_action i \<Rightarrow> \<not> foreign_identity (ibProtocol ib) (clients_of s) i \<and>
        (\<exists>d \<in> set (clients_of s). is_owned d \<and> identity_of (ibProtocol ib) d = i)"
proof -
  let ?proto = "ibProtocol ib" and ?owned = "owned_map (clients_of s)"
  note p = plan_Inr [OF plan s]
  from a consider "a \<in> set (plan_unwanted ?proto (length (clients_of s)) (map (\<lambda>e. the (map_of ?owned e)) (unwanted_emails t ?owned)))"
    | x where "x \<in> set t" "a \<in> set (plan_client pf ?proto (used_map (ibClientStats ib)) ?owned x)"
    unfolding p(5) by auto
  then show ?thesis
  proof cases
    case 1
    from plan_unwanted_cases [OF this] obtain e where e: "e \<in> fst ` set ?owned"
      "a = Delete_action (identity_of ?proto (the (map_of ?owned e))) \<or>
       a = Update_action (identity_of ?proto (the (map_of ?owned e))) (AList.update ''enable'' (JBool False) (the (map_of ?owned e)))"
      by (auto simp: unwanted_emails_def)
    then obtain c where c: "map_of ?owned e = Some c" by (metis domIff dom_map_of_conv_image_fst option.exhaust)
    with e(2) p(3) [OF c] owned_mapD [OF c] show ?thesis
      by (auto simp: email_of_def any_str_def any_get_update)
  next
    case (2 x)
    from 2(2) show ?thesis
    proof (cases rule: plan_client_cases)
      case 1
      have "client_valid x" using valid 2(1) by (simp add: target_ok_def list_all_iff)
      with 1 2(1) p(4) show ?thesis by (auto simp: is_owned_def email_new_client intro: owned_prefix)
    next
      case (2 current c)
      with p(3) [OF 2(1)] owned_mapD [OF 2(1)] show ?thesis by auto
    qed
  qed
qed

section \<open>When nothing is left to write\<close>

definition in_target :: "(string \<Rightarrow> int option) \<Rightarrow> Inbound_panel \<Rightarrow> settings \<Rightarrow> xtarget \<Rightarrow> bool" where
  "in_target pf ib s t \<longleftrightarrow>
     (\<forall>x \<in> set t. \<exists>c. map_of (owned_map (clients_of s)) (xEmail x) = Some c \<and> any_str c ''comment'' = xComment x \<and>
        (\<forall>(k, w) \<in> set (fields_of (ibProtocol ib) (used_map (ibClientStats ib)) x). sameValue pf (any_get c k) w)) \<and>
     (\<forall>c \<in> set (clients_of s). is_owned c \<and> \<not> targetHas t (email_of c) \<longrightarrow>
        length (clients_of s) = 1 \<and> any_get c ''enable'' = JBool False)"

lemma plan_client_Nil:
  "plan_client pf proto used owned t = [] \<longleftrightarrow> (\<exists>c. map_of owned (xEmail t) = Some c \<and> any_str c ''comment'' = xComment t \<and>
     (\<forall>(k, w) \<in> set (fields_of proto used t). sameValue pf (any_get c k) w))"
  by (auto simp: plan_client_def Let_def changed_fields_def filter_empty_conv split: option.splits)

lemma plan_unwanted_Nil:
  "plan_unwanted proto n cs = [] \<longleftrightarrow> cs = [] \<or> n \<le> 1 \<and> (\<forall>c \<in> set cs. any_get c ''enable'' = JBool False)"
  by (induction proto n cs rule: plan_unwanted.induct) (auto split: if_splits)

lemma unwanted_single:
  assumes "clients_of s = [c]"
  shows "set (unwanted_emails t (owned_map (clients_of s))) = (if is_owned c \<and> \<not> targetHas t (email_of c) then {email_of c} else {})"
    "is_owned c \<Longrightarrow> map_of (owned_map (clients_of s)) (email_of c) = Some c"
  by (auto simp: assms unwanted_emails_def owned_map_def)

lemma unwanted_exists:
  "unwanted_emails t (owned_map cs) \<noteq> [] \<longleftrightarrow> (\<exists>c \<in> set cs. is_owned c \<and> \<not> targetHas t (email_of c))"
proof -
  have "unwanted_emails t (owned_map cs) \<noteq> [] \<longleftrightarrow> (\<exists>e. map_of (owned_map cs) e \<noteq> None \<and> \<not> targetHas t e)"
  proof -
    have "unwanted_emails t (owned_map cs) \<noteq> [] \<longleftrightarrow> set (unwanted_emails t (owned_map cs)) \<noteq> {}" by simp
    then show ?thesis by (auto simp: unwanted_emails_def map_of_eq_None_iff)
  qed
  also have "\<dots> \<longleftrightarrow> (\<exists>c \<in> set cs. is_owned c \<and> \<not> targetHas t (email_of c))"
    using owned_mapD [of cs] owned_map_complete [of _ cs] by fastforce
  finally show ?thesis .
qed

lemma unwanted_settled:
  "plan_unwanted proto (length (clients_of s)) (map (\<lambda>e. the (map_of (owned_map (clients_of s)) e)) (unwanted_emails t (owned_map (clients_of s)))) = []
   \<longleftrightarrow> (\<forall>c \<in> set (clients_of s). is_owned c \<and> \<not> targetHas t (email_of c) \<longrightarrow> length (clients_of s) = 1 \<and> any_get c ''enable'' = JBool False)"
proof (cases "unwanted_emails t (owned_map (clients_of s)) = []")
  case True
  with unwanted_exists [of t "clients_of s"] show ?thesis by auto
next
  case False
  then obtain c where c: "c \<in> set (clients_of s)" "is_owned c" "\<not> targetHas t (email_of c)"
    using unwanted_exists by blast
  show ?thesis
  proof (cases "length (clients_of s) = 1")
    case True
    with c(1) have one: "clients_of s = [c]" by (cases "clients_of s") auto
    have "map_of (owned_map [c]) (email_of c) = Some c" using unwanted_single(2) [OF one c(2)] one by simp
    then show ?thesis using c unwanted_single(1) [OF one, of t] False
      by (auto simp: plan_unwanted_Nil one)
  next
    case no: False
    with c(1) have "1 < length (clients_of s)" by (cases "clients_of s") auto
    with False no c show ?thesis by (auto simp: plan_unwanted_Nil)
  qed
qed


section \<open>Examples\<close>

definition ex_panel_client :: "string \<Rightarrow> string \<Rightarrow> json" where
  "ex_panel_client email cred = JObj [(''email'', JStr email), (''id'', JStr cred), (''enable'', JBool True)]"

definition ex_vless :: Inbound_panel where
  "ex_vless = \<lparr>ibID = 7, ibRemark = [], ibTag = ''inbound-443'', ibProtocol = ''vless'', ibListen = [], ibPort = 443, ibEnable = True,
     ibSettings = Doc (JObj [(''clients'', JArr [ex_panel_client ''alice'' ''secret-of-alice'', ex_panel_client ''ak-old'' ''secret-of-old''])]),
     ibStreamSettings = Doc (JObj []), ibClientStats = []\<rparr>"

definition ex_wanted :: xtarget where
  "ex_wanted = [\<lparr>xEmail = ''ak-new'', xCredential = ''7c9e6679-7425-40de-944b-e07fc1f90ae7'', xFlow = [], xEnable = True, xTotalBytes = 0,
     xResetSeq = 0, xComment = []\<rparr>]"

definition ex_float :: "string \<Rightarrow> int option" where
  "ex_float s = (if s = ''0'' then Some 0 else None)"

definition ex_vless_settings :: settings where
  "ex_vless_settings = \<lparr>setClients = Some [[(''email'', JStr ''alice''), (''id'', JStr ''secret-of-alice''), (''enable'', JBool True)],
     [(''email'', JStr ''ak-old''), (''id'', JStr ''secret-of-old''), (''enable'', JBool True)]], setMethod = []\<rparr>"

lemma ex_vless_plan:
  "unmarshal_settings (ibSettings ex_vless) = Some ex_vless_settings" "target_ok ex_wanted"
  "plan ex_float ex_vless ex_wanted = Inr [Delete_action ''secret-of-old'', Add_action (new_client_map (hd ex_wanted) (fields_of ''vless'' [] (hd ex_wanted)))]"
  by code_simp+

theorem plan_touches_owned_only_witness:
  "\<not> foreign_identity ''vless'' (clients_of ex_vless_settings) ''secret-of-old''"
  using plan_touches_owned_only [OF ex_vless_plan(3,2,1), of "Delete_action ''secret-of-old''"] by (simp add: ex_vless_def)


end
