(* ===== verification/Xui_State.thy ===== *)
theory Xui_State
  imports Protocol Json_File
begin

text \<open>
  The durable state of the xui module, \<open>src/internal/modules/xui/state.go\<close>: the last traffic reset
  executed per client and whether Xray still has to be restarted. The file holds JSON; every save
  takes the outcome of its system calls as an argument.
\<close>

section \<open>State and file\<close>

record localState =
  sfile :: "json JSONFile"
  resets :: "(string, int) gomap"
  restartPending :: bool
  dirty :: bool

datatype xui_state_error = StateUnreadable file_error | StateIncomplete

definition encodeState :: "(string, int) gomap \<Rightarrow> bool \<Rightarrow> json" where
  "encodeState rs p = JObj [(''schema'', JNum (Itoa 1)), (''resets'', JObj (map (\<lambda>(k, v). (k, JNum (Itoa v))) rs)),
     (''restart_pending'', JBool p)]"

text \<open>A \<open>map[string]int64\<close>: a null value reads as zero, a key given twice has its last value.\<close>

fun as_int_map :: "(string \<times> json) list \<Rightarrow> (string, int) gomap option" where
  "as_int_map [] = Some []"
| "as_int_map ((k, j) # r) = (case ((if j = JNull then Some 0 else as_int j), as_int_map r) of
     (Some v, Some m) \<Rightarrow> Some (if gm_has m k then m else (k, v) # m) | _ \<Rightarrow> None)"

definition decodeState :: "json \<Rightarrow> ((string, int) gomap \<times> bool) option" where
  "decodeState j =
     (case DecodeStrict
        (\<lambda>get. case (Option.bind (get ''schema'') as_int, Option.bind (Option.bind (get ''resets'') as_object) as_int_map,
                     Option.bind (get ''restart_pending'') as_bool) of
           (Some v, Some m, Some p) \<Rightarrow> Some (v, m, p) | _ \<Rightarrow> None)
        (Doc j) [''schema'', ''resets'', ''restart_pending''] of
       None \<Rightarrow> None
     | Some (v, m, p) \<Rightarrow> if v \<noteq> 1 then None else Some (m, p))"

section \<open>Operations\<close>

definition openState :: "json JSONFile \<Rightarrow> xui_state_error + localState" where
  "openState f = (case Load f of
      Inl e \<Rightarrow> Inl (StateUnreadable e)
    | Inr None \<Rightarrow> Inr \<lparr>sfile = f, resets = [], restartPending = False, dirty = False\<rparr>
    | Inr (Some j) \<Rightarrow> (case decodeState j of None \<Rightarrow> Inl StateIncomplete
        | Some (m, p) \<Rightarrow> Inr \<lparr>sfile = f, resets = m, restartPending = p, dirty = False\<rparr>))"

definition saveState :: "save_env \<Rightarrow> bool \<Rightarrow> localState \<Rightarrow> file_error option \<times> localState" where
  "saveState env pending s = (let (err, f) = Save env (encodeState (resets s) pending) (sfile s) in (err, s\<lparr>sfile := f\<rparr>))"

definition reset_of :: "localState \<Rightarrow> string \<Rightarrow> int" where
  "reset_of s email = gm_get 0 (resets s) email"

definition flush :: "save_env \<Rightarrow> localState \<Rightarrow> file_error option \<times> localState" where
  "flush env s = (if \<not> dirty s then (None, s)
     else case saveState env (restartPending s) s of
       (Some e, t) \<Rightarrow> (Some e, t) | (None, t) \<Rightarrow> (None, t\<lparr>dirty := False\<rparr>))"

definition setReset :: "save_env \<Rightarrow> string \<Rightarrow> int \<Rightarrow> localState \<Rightarrow> file_error option \<times> localState" where
  "setReset env email seq s = flush env (s\<lparr>resets := AList.update email seq (resets s), dirty := True\<rparr>)"

definition setRestartPending :: "save_env \<Rightarrow> bool \<Rightarrow> localState \<Rightarrow> file_error option \<times> localState" where
  "setRestartPending env pending s = (if restartPending s = pending then (None, s)
     else case saveState env pending s of
       (Some e, t) \<Rightarrow> (Some e, t) | (None, t) \<Rightarrow> (None, t\<lparr>restartPending := pending, dirty := False\<rparr>))"

definition keepOnly :: "save_env \<Rightarrow> string list \<Rightarrow> localState \<Rightarrow> file_error option \<times> localState" where
  "keepOnly env emails s =
     (let kept = filter (\<lambda>(k, v). k \<in> set emails) (resets s) in
      if length kept = length (resets s) then (None, s)
      else flush env (s\<lparr>resets := kept, dirty := True\<rparr>))"

section \<open>What the file holds\<close>

definition int64 :: "int \<Rightarrow> bool" where "int64 i \<longleftrightarrow> - (2 ^ 63) \<le> i \<and> i < 2 ^ 63"

definition records_ok :: "(string, int) gomap \<Rightarrow> bool" where
  "records_ok m \<longleftrightarrow> gm_ok m \<and> (\<forall>(k, v) \<in> set m. int64 v)"

lemma as_int_map_encode: "records_ok m \<Longrightarrow> as_int_map (map (\<lambda>(k, v). (k, JNum (Itoa v))) m) = Some m"
proof (induction m)
  case (Cons x m)
  obtain k v where x: "x = (k, v)" by (cases x)
  have "records_ok m" using Cons.prems by (auto simp: records_ok_def gm_ok_def)
  moreover have "map_of m k = None" using Cons.prems x by (auto simp: records_ok_def gm_ok_def map_of_eq_None_iff)
  moreover have "Atoi (Itoa v) = Some v" using Cons.prems x by (auto simp: records_ok_def int64_def intro: Atoi_Itoa)
  ultimately show ?case using Cons.IH x by (simp add: gm_has_def)
qed simp

lemma decode_encode_state: "records_ok m \<Longrightarrow> decodeState (encodeState m p) = Some (m, p)"
proof -
  assume "records_ok m"
  moreover have "Atoi (Itoa 1) = Some 1" by (rule Atoi_Itoa) simp_all
  ultimately show ?thesis
    by (simp add: decodeState_def encodeState_def decodeRequiredJSON_def obj_size_def obj_get_def as_int_map_encode)
qed

text \<open>
  The file agrees with memory: what it holds decodes, and the records of a clean state are on
  disk. A pending restart is durable when memory and file both say so.
\<close>

definition stored :: "localState \<Rightarrow> ((string, int) gomap \<times> bool) option" where
  "stored s = (case Load (sfile s) of Inr (Some j) \<Rightarrow> decodeState j | _ \<Rightarrow> None)"

definition agrees :: "((string, int) gomap \<times> bool) option \<Rightarrow> (string, int) gomap \<Rightarrow> bool" where
  "agrees st m = (case st of None \<Rightarrow> m = [] | Some (x, p) \<Rightarrow> x = m)"

lemma agrees_simps [simp]: "agrees None m = (m = [])" "agrees (Some (x, p)) m = (x = m)"
  by (simp_all add: agrees_def)

definition state_ok :: "localState \<Rightarrow> bool" where
  "state_ok s \<longleftrightarrow> records_ok (resets s) \<and> (\<exists>r. Load (sfile s) = Inr r) \<and>
     (\<forall>j. Load (sfile s) = Inr (Some j) \<longrightarrow> decodeState j \<noteq> None) \<and>
     (\<not> dirty s \<longrightarrow> agrees (stored s) (resets s))"

definition pending_durable :: "localState \<Rightarrow> bool" where
  "pending_durable s \<longleftrightarrow> restartPending s \<and> (\<exists>m. stored s = Some (m, True))"

lemma Atoi_int64: "Atoi s = Some i \<Longrightarrow> int64 i"
  unfolding Atoi_def Let_def int64_def by (auto split: if_splits option.splits)

lemma as_int_map_ok: "as_int_map kvs = Some m \<Longrightarrow> records_ok m"
proof (induction kvs arbitrary: m)
  case (Cons x kvs)
  obtain k j where x: "x = (k, j)" by (cases x)
  with Cons.prems obtain v n where v: "(if j = JNull then Some 0 else as_int j) = Some v" "as_int_map kvs = Some n"
    "m = (if gm_has n k then n else (k, v) # n)"
    by (auto split: option.splits)
  have "int64 v" using v(1) by (cases j) (auto simp: int64_def dest: Atoi_int64 [unfolded int64_def] split: if_splits)
  with Cons.IH [OF v(2)] v(3) show ?case by (auto simp: records_ok_def gm_ok_def gm_has_def map_of_eq_None_iff)
qed (simp add: records_ok_def)

lemma decodeState_ok: "decodeState j = Some (m, p) \<Longrightarrow> records_ok m"
  unfolding decodeState_def decodeRequiredJSON_def
  by (auto simp: bind_eq_Some_conv dest!: as_int_map_ok split: option.splits json.splits if_splits)

lemma openState_ok: "openState f = Inr s \<Longrightarrow> state_ok s \<and> sfile s = f"
  unfolding openState_def
  by (auto simp: state_ok_def stored_def dest: decodeState_ok split: sum.splits option.splits)
    (simp add: records_ok_def)

lemma stored_Save:
  assumes "records_ok m"
  shows "fst (Save env (encodeState m p) f) = None \<Longrightarrow> stored (s\<lparr>sfile := snd (Save env (encodeState m p) f)\<rparr>) = Some (m, p)"
    "stored (s\<lparr>sfile := snd (Save env (encodeState m p) f)\<rparr>) = stored (s\<lparr>sfile := f\<rparr>) \<or>
     stored (s\<lparr>sfile := snd (Save env (encodeState m p) f)\<rparr>) = Some (m, p)"
proof -
  show "fst (Save env (encodeState m p) f) = None \<Longrightarrow> stored (s\<lparr>sfile := snd (Save env (encodeState m p) f)\<rparr>) = Some (m, p)"
    by (drule jsonfile.save_ok) (simp add: stored_def decode_encode_state [OF assms])
  show "stored (s\<lparr>sfile := snd (Save env (encodeState m p) f)\<rparr>) = stored (s\<lparr>sfile := f\<rparr>) \<or>
     stored (s\<lparr>sfile := snd (Save env (encodeState m p) f)\<rparr>) = Some (m, p)"
    using jsonfile.save_cases [of env "encodeState m p" f] by (auto simp: stored_def decode_encode_state [OF assms])
qed

text \<open>A save whose directory sync works changes the file only when it says so.\<close>

definition sync_works :: "save_env \<Rightarrow> bool" where
  "sync_works e \<longleftrightarrow> syncDirectory (env_dir e) = None"

lemma Save_unchanged: "sync_works e \<Longrightarrow> fst (Save e v f) \<noteq> None \<Longrightarrow> Load (snd (Save e v f)) = Load f"
  by (rule Load_cong) (simp add: Save_def sync_works_def dropTemporary_def Let_def split: if_splits)

section \<open>Every operation keeps memory and file in step\<close>

lemma saveState_fields [simp]:
  "resets (snd (saveState env p s)) = resets s" "dirty (snd (saveState env p s)) = dirty s"
  "restartPending (snd (saveState env p s)) = restartPending s"
  by (simp_all add: saveState_def split_beta)

lemma saveState_stored:
  assumes "records_ok (resets s)"
  shows "fst (saveState env p s) = None \<Longrightarrow> stored (snd (saveState env p s)) = Some (resets s, p)"
    "stored (snd (saveState env p s)) = stored s \<or> stored (snd (saveState env p s)) = Some (resets s, p)"
    "sync_works env \<Longrightarrow> fst (saveState env p s) \<noteq> None \<Longrightarrow> stored (snd (saveState env p s)) = stored s"
  using stored_Save [OF assms, of env p "sfile s" s] Save_unchanged [of env "encodeState (resets s) p" "sfile s"]
  by (auto simp: saveState_def split_beta stored_def)

definition file_ok :: "localState \<Rightarrow> bool" where
  "file_ok s \<longleftrightarrow> (\<exists>r. Load (sfile s) = Inr r) \<and> (\<forall>j. Load (sfile s) = Inr (Some j) \<longrightarrow> decodeState j \<noteq> None)"

lemma state_ok_iff: "state_ok s \<longleftrightarrow> records_ok (resets s) \<and> file_ok s \<and>
    (\<not> dirty s \<longrightarrow> agrees (stored s) (resets s))"
  by (simp add: state_ok_def file_ok_def)

lemma file_ok_saveState: "file_ok s \<Longrightarrow> records_ok (resets s) \<Longrightarrow> file_ok (snd (saveState env p s))"
  using jsonfile.save_cases [of env "encodeState (resets s) p" "sfile s"] decode_encode_state [of "resets s" p]
  by (auto simp: file_ok_def saveState_def split_beta)

lemma stored_cong: "sfile t = sfile s \<Longrightarrow> stored t = stored s"
  by (simp add: stored_def)

lemma file_ok_cong: "sfile t = sfile s \<Longrightarrow> file_ok t = file_ok s"
  by (simp add: file_ok_def)

lemma flush_fields [simp]: "resets (snd (flush env s)) = resets s" "restartPending (snd (flush env s)) = restartPending s"
  by (simp_all add: flush_def split_beta split: option.split prod.split)

lemma state_ok_flush:
  assumes r: "records_ok (resets s)" and f: "file_ok s"
    and d: "\<not> dirty s \<Longrightarrow> agrees (stored s) (resets s)"
  shows "state_ok (snd (flush env s))"
proof (cases "dirty s")
  case False
  with r f d show ?thesis by (simp add: flush_def state_ok_iff)
next
  case True
  let ?t = "snd (saveState env (restartPending s) s)"
  have "file_ok ?t" by (rule file_ok_saveState [OF f r])
  moreover have "stored (?t\<lparr>dirty := False\<rparr>) = stored ?t" "file_ok (?t\<lparr>dirty := False\<rparr>) = file_ok ?t"
    by (simp_all add: stored_def file_ok_def)
  ultimately show ?thesis
    using True r saveState_stored(1) [OF r, of env "restartPending s"]
    by (cases "fst (saveState env (restartPending s) s)") (auto simp: flush_def state_ok_iff split_beta split: prod.split)
qed

lemma state_ok_flush_ok: "state_ok s \<Longrightarrow> state_ok (snd (flush env s))"
  by (rule state_ok_flush) (simp_all add: state_ok_iff)

lemma state_ok_records: "state_ok s \<Longrightarrow> records_ok (resets s)"
  by (simp add: state_ok_iff)

lemma state_ok_setReset: "state_ok s \<Longrightarrow> int64 seq \<Longrightarrow> state_ok (snd (setReset env email seq s))"
  unfolding setReset_def
  by (rule state_ok_flush) (auto simp: state_ok_iff records_ok_def set_update_gm file_ok_def)

lemma state_ok_keepOnly:
  assumes "state_ok s"
  shows "state_ok (snd (keepOnly env emails s))"
proof -
  have "state_ok (snd (flush env (s\<lparr>resets := filter (\<lambda>(k, v). k \<in> set emails) (resets s), dirty := True\<rparr>)))"
    by (rule state_ok_flush) (use assms in \<open>auto simp: state_ok_iff records_ok_def file_ok_def\<close>)
  with assms show ?thesis by (simp add: keepOnly_def Let_def)
qed

lemma state_ok_setRestartPending:
  assumes s: "state_ok s"
  shows "state_ok (snd (setRestartPending env p s))"
proof (cases "restartPending s = p")
  case True
  with s show ?thesis by (simp add: setRestartPending_def)
next
  case False
  let ?t = "snd (saveState env p s)"
  have r: "records_ok (resets s)" "file_ok s" using s by (simp_all add: state_ok_iff)
  have f: "file_ok ?t" by (rule file_ok_saveState [OF r(2,1)])
  have c: "stored (?t\<lparr>restartPending := p, dirty := False\<rparr>) = stored ?t" "file_ok (?t\<lparr>restartPending := p, dirty := False\<rparr>) = file_ok ?t"
    by (simp_all add: stored_def file_ok_def)
  show ?thesis
  proof (cases "fst (saveState env p s)")
    case None
    with False f c r(1) saveState_stored(1) [OF r(1), of env p] show ?thesis
      by (auto simp: setRestartPending_def state_ok_iff split_beta split: prod.split)
  next
    case (Some x)
    with False f r(1) s saveState_stored(2) [OF r(1), of env p] show ?thesis
      by (auto simp: setRestartPending_def state_ok_iff split_beta split: prod.split)
  qed
qed

end
