(* ===== verification/Xui_Apply.thy ===== *)
theory Xui_Apply
  imports Xui_Plan Xui_State
begin

text \<open>
  Converging the panel, \<open>Apply\<close>, \<open>converge\<close> and \<open>reset\<close> of \<open>src/internal/modules/xui/apply.go\<close>. The
  panel and the disk are what they answer: functions of everything that happened so far
  (\<open>xevent\<close>), so that any panel, other users of it included, and any failing call or save is
  covered. The log keeps, besides the calls, when a reset was recorded, when records were forgotten
  and when the clients of a Shadowsocks 2022 inbound were about to be written; \<open>Stopped\<close> marks a
  new process that read its state from the file, with the records it read and whether the old one
  had unsaved ones.
\<close>

section \<open>The world of the module\<close>

datatype panel_call = ListInbounds | AddClient int client_map | UpdateClient int string client_map
  | DeleteClient int string | ResetTraffic int string | Restart

record reply =
  rErr :: "string option"
  rInbounds :: "Inbound_panel list"

datatype xevent = Called panel_call bool | Saved bool | Recorded string int | Forgot "string list" | SSWrite | Stopped "(string, int) gomap" bool

record xui_env =
  xpanel :: "xevent list \<Rightarrow> panel_call \<Rightarrow> reply"
  xdisk :: "xevent list \<Rightarrow> save_env"
  xfloat :: "string \<Rightarrow> int option"

record xworld =
  wState :: localState
  wLog :: "xevent list"

definition call :: "xui_env \<Rightarrow> panel_call \<Rightarrow> xworld \<Rightarrow> reply \<times> xworld" where
  "call e c w = (let r = xpanel e (wLog w) c in (r, w\<lparr>wLog := wLog w @ [Called c (rErr r = None)]\<rparr>))"

definition w_flush :: "xui_env \<Rightarrow> xworld \<Rightarrow> file_error option \<times> xworld" where
  "w_flush e w = (if \<not> dirty (wState w) then (None, w)
     else let (err, s) = flush (xdisk e (wLog w)) (wState w) in (err, w\<lparr>wState := s, wLog := wLog w @ [Saved (err = None)]\<rparr>))"

definition w_setReset :: "xui_env \<Rightarrow> string \<Rightarrow> int \<Rightarrow> xworld \<Rightarrow> file_error option \<times> xworld" where
  "w_setReset e email seq w =
     (let (err, s) = setReset (xdisk e (wLog w)) email seq (wState w)
      in (err, w\<lparr>wState := s, wLog := wLog w @ [Recorded email seq, Saved (err = None)]\<rparr>))"

definition w_setRestartPending :: "xui_env \<Rightarrow> bool \<Rightarrow> xworld \<Rightarrow> file_error option \<times> xworld" where
  "w_setRestartPending e p w = (if restartPending (wState w) = p then (None, w)
     else let (err, s) = setRestartPending (xdisk e (wLog w)) p (wState w)
          in (err, w\<lparr>wState := s, wLog := wLog w @ [Saved (err = None)]\<rparr>))"

definition w_keepOnly :: "xui_env \<Rightarrow> string list \<Rightarrow> xworld \<Rightarrow> file_error option \<times> xworld" where
  "w_keepOnly e emails w =
     (let gone = filter (\<lambda>k. k \<notin> set emails) (gm_keys (resets (wState w)));
          (err, s) = keepOnly (xdisk e (wLog w)) emails (wState w)
      in (err, w\<lparr>wState := s, wLog := wLog w @ (if gone = [] then [] else [Forgot gone, Saved (err = None)])\<rparr>))"

section \<open>One inbound\<close>

definition resetsDue :: "localState \<Rightarrow> xtarget \<Rightarrow> bool" where
  "resetsDue s t = list_ex (\<lambda>c. xResetSeq c > reset_of s (xEmail c)) t"

text \<open>The last statistics of an email are the ones its reset clears.\<close>

fun zero_stat :: "string \<Rightarrow> ClientStat list \<Rightarrow> ClientStat list" where
  "zero_stat email [] = []"
| "zero_stat email (st # sts) =
     (if stEmail st = email \<and> \<not> list_ex (\<lambda>s. stEmail s = email) sts then st\<lparr>stUp := 0, stDown := 0\<rparr> # sts
      else st # zero_stat email sts)"

fun reset_all :: "xui_env \<Rightarrow> Inbound_panel \<Rightarrow> xtarget \<Rightarrow> xworld \<Rightarrow> string option \<times> Inbound_panel \<times> xworld" where
  "reset_all e ib [] w = (None, ib, w)"
| "reset_all e ib (c # cs) w =
     (if xResetSeq c \<le> reset_of (wState w) (xEmail c) then reset_all e ib cs w
      else
        (let found = list_ex (\<lambda>st. stEmail st = xEmail c) (ibClientStats ib);
             (r, w1) = (if found then (let (r, w1) = call e (ResetTraffic (ibID ib) (xEmail c)) w in (rErr r, w1)) else (None, w));
             ib1 = (if found then ib\<lparr>ibClientStats := zero_stat (xEmail c) (ibClientStats ib)\<rparr> else ib)
         in if r \<noteq> None then (Some ''xui_write_failed'', ib, w1)
            else (case w_setReset e (xEmail c) (xResetSeq c) w1 of
                (Some _, w2) \<Rightarrow> (Some ''xui_state_failed'', ib1, w2)
              | (None, w2) \<Rightarrow> reset_all e ib1 cs w2)))"

definition action_call :: "int \<Rightarrow> action \<Rightarrow> panel_call" where
  "action_call n a = (case a of Add_action c \<Rightarrow> AddClient n c | Update_action i c \<Rightarrow> UpdateClient n i c | Delete_action i \<Rightarrow> DeleteClient n i)"

text \<open>The writes of a plan; \<open>done\<close> counts the ones that worked.\<close>

fun run_actions :: "xui_env \<Rightarrow> int \<Rightarrow> nat \<Rightarrow> action list \<Rightarrow> xworld \<Rightarrow> bool \<times> string option \<times> xworld" where
  "run_actions e n i [] w = (0 < i, None, w)"
| "run_actions e n i (a # as) w =
     (case call e (action_call n a) w of
        (r, w1) \<Rightarrow> if rErr r \<noteq> None then (0 < i, Some ''xui_write_failed'', w1) else run_actions e n (Suc i) as w1)"

definition write_plan :: "xui_env \<Rightarrow> Inbound_panel \<Rightarrow> action list \<Rightarrow> xworld \<Rightarrow> bool \<times> string option \<times> xworld" where
  "write_plan e ib as w =
     (if as \<noteq> [] \<and> ss2022 (ibProtocol ib) (method_of ib) then
        (case w_setRestartPending e True w of
           (Some _, w1) \<Rightarrow> (False, Some ''xui_state_failed'', w1)
         | (None, w1) \<Rightarrow> run_actions e (ibID ib) 0 as (w1\<lparr>wLog := wLog w1 @ [SSWrite]\<rparr>))
      else run_actions e (ibID ib) 0 as w)"

definition converge :: "xui_env \<Rightarrow> Inbound_panel \<Rightarrow> xtarget \<Rightarrow> bool \<Rightarrow> xworld \<Rightarrow> bool \<times> string option \<times> xworld" where
  "converge e ib t named w =
     (if \<not> named \<and> \<not> hasClients ib then (False, None, w)
      else case plan (xfloat e) ib t of
        Inl err \<Rightarrow> (False, Some err, w)
      | Inr as \<Rightarrow>
          if named \<and> resetsDue (wState w) t then
            (case reset_all e ib t w of
               (Some err, _, w1) \<Rightarrow> (False, Some err, w1)
             | (None, ib1, w1) \<Rightarrow>
                 (case plan (xfloat e) ib1 t of Inl err \<Rightarrow> (False, Some err, w1) | Inr as1 \<Rightarrow> write_plan e ib1 as1 w1))
          else write_plan e ib as w)"

section \<open>Apply\<close>

record parsed_targets =
  pCodes :: "(string, string) gomap"
  pTargets :: "(int, xtarget) gomap"
  pKeys :: "(int, string) gomap"
  pHeld :: "int list"

definition parse_target :: "string \<times> raw option \<Rightarrow> parsed_targets \<Rightarrow> parsed_targets" where
  "parse_target kr p = (case kr of (key, state) \<Rightarrow>
     (case Atoi key of
        None \<Rightarrow> p\<lparr>pCodes := AList.update key ''xui_target_invalid'' (pCodes p)\<rparr>
      | Some n \<Rightarrow>
          (let q = p\<lparr>pKeys := AList.update n key (pKeys p)\<rparr> in
           case state of
             None \<Rightarrow> q\<lparr>pHeld := n # pHeld q\<rparr>
           | Some r \<Rightarrow> (case decodeTarget key r of
               None \<Rightarrow> q\<lparr>pCodes := AList.update key ''xui_target_invalid'' (pCodes q), pHeld := n # pHeld q\<rparr>
             | Some (_, t) \<Rightarrow> q\<lparr>pTargets := AList.update n t (pTargets q)\<rparr>))))"

definition parse_targets :: "(string, raw option) gomap \<Rightarrow> parsed_targets" where
  "parse_targets targets = fold parse_target targets \<lparr>pCodes = [], pTargets = [], pKeys = [], pHeld = []\<rparr>"

definition key_of :: "parsed_targets \<Rightarrow> int \<Rightarrow> string" where
  "key_of p n = gm_get [] (pKeys p) n"

definition code_of :: "(string, string) gomap \<Rightarrow> string \<Rightarrow> string" where
  "code_of codes k = gm_get [] codes k"

text \<open>\<open>fail\<close>: every target without a code of its own gets this one.\<close>

definition fail_codes :: "parsed_targets \<Rightarrow> string \<Rightarrow> (string, string) gomap \<Rightarrow> (string, string) gomap" where
  "fail_codes p code codes = fold (\<lambda>(n, t) cs. if code_of cs (key_of p n) = [] then AList.update (key_of p n) code cs else cs) (pTargets p) codes"

fun converge_all :: "xui_env \<Rightarrow> parsed_targets \<Rightarrow> Inbound_panel list \<Rightarrow> (string, string) gomap \<times> bool \<times> string option \<Rightarrow> xworld
    \<Rightarrow> ((string, string) gomap \<times> bool \<times> string option) \<times> xworld" where
  "converge_all e p [] acc w = (acc, w)"
| "converge_all e p (ib # ibs) (codes, wrote, cleanup) w =
     (if ibID ib \<in> set (pHeld p) then converge_all e p ibs (codes, wrote, cleanup) w
      else
        (let target = map_of (pTargets p) (ibID ib);
             (changed, err, w1) = converge e ib (case target of None \<Rightarrow> [] | Some t \<Rightarrow> t) (target \<noteq> None) w;
             acc = (case err of None \<Rightarrow> (codes, wrote \<or> changed, cleanup)
               | Some x \<Rightarrow> if target \<noteq> None then (AList.update (key_of p (ibID ib)) x codes, wrote \<or> changed, cleanup)
                          else (codes, wrote \<or> changed, if cleanup = None then Some x else cleanup))
         in converge_all e p ibs acc w1))"

definition missing_codes :: "parsed_targets \<Rightarrow> Inbound_panel list \<Rightarrow> (string, string) gomap \<Rightarrow> (string, string) gomap" where
  "missing_codes p ibs codes = fold (\<lambda>(n, t) cs.
      if n \<notin> ibID ` set ibs \<and> t \<noteq> [] then AList.update (key_of p n) ''xui_inbound_missing'' cs else cs) (pTargets p) codes"

text \<open>Reading the panel again after writes: what is not in its target is not confirmed.\<close>

fun confirm :: "xui_env \<Rightarrow> parsed_targets \<Rightarrow> Inbound_panel list \<Rightarrow> (string, string) gomap \<Rightarrow> (string, string) gomap" where
  "confirm e p [] codes = codes"
| "confirm e p (ib # ibs) codes =
     confirm e p ibs
       (case map_of (pTargets p) (ibID ib) of None \<Rightarrow> codes
        | Some t \<Rightarrow> if code_of codes (key_of p (ibID ib)) \<noteq> [] \<or> plan (xfloat e) ib t = Inr [] then codes
                   else AList.update (key_of p (ibID ib)) ''xui_unconfirmed'' codes)"

definition apply_tail :: "xui_env \<Rightarrow> parsed_targets \<Rightarrow> (string, string) gomap \<Rightarrow> string option \<Rightarrow> xworld
    \<Rightarrow> (string, string) gomap \<times> string option \<times> xworld" where
  "apply_tail e p codes cleanup w =
     (if pHeld p \<noteq> [] then (codes, cleanup, w)
      else (case w_keepOnly e (concat (map (map xEmail \<circ> snd) (pTargets p))) w of
          (Some _, w1) \<Rightarrow> (fail_codes p ''xui_state_failed'' codes, Some ''xui_state_failed'', w1)
        | (None, w1) \<Rightarrow> (codes, cleanup, w1)))"

definition apply_confirm :: "xui_env \<Rightarrow> parsed_targets \<Rightarrow> (string, string) gomap \<Rightarrow> bool \<Rightarrow> string option \<Rightarrow> xworld
    \<Rightarrow> (string, string) gomap \<times> string option \<times> xworld" where
  "apply_confirm e p codes wrote cleanup w =
     (if \<not> wrote then apply_tail e p codes cleanup w
      else (case call e ListInbounds w of
          (r, w1) \<Rightarrow> (case rErr r of
              Some x \<Rightarrow> (fail_codes p x codes, Some x, w1)
            | None \<Rightarrow> apply_tail e p (confirm e p (rInbounds r) codes) cleanup w1)))"

definition apply_restart :: "xui_env \<Rightarrow> parsed_targets \<Rightarrow> (string, string) gomap \<Rightarrow> bool \<Rightarrow> string option \<Rightarrow> xworld
    \<Rightarrow> (string, string) gomap \<times> string option \<times> xworld" where
  "apply_restart e p codes wrote cleanup w =
     (if \<not> restartPending (wState w) then apply_confirm e p codes wrote cleanup w
      else (case call e Restart w of
          (r, w1) \<Rightarrow>
            if rErr r \<noteq> None then (fail_codes p ''xui_restart_failed'' codes, Some ''xui_restart_failed'', w1)
            else (case w_setRestartPending e False w1 of
                (Some _, w2) \<Rightarrow> (fail_codes p ''xui_state_failed'' codes, Some ''xui_state_failed'', w2)
              | (None, w2) \<Rightarrow> apply_confirm e p codes wrote cleanup w2)))"

definition xui_Apply :: "xui_env \<Rightarrow> (string, raw option) gomap \<Rightarrow> xworld \<Rightarrow> (string, string) gomap \<times> string option \<times> xworld" where
  "xui_Apply e targets w =
     (let p = parse_targets targets in
      case w_flush e w of
        (Some _, w1) \<Rightarrow> (fail_codes p ''xui_state_failed'' (pCodes p), Some ''xui_state_failed'', w1)
      | (None, w1) \<Rightarrow>
          (case call e ListInbounds w1 of
             (r, w2) \<Rightarrow> (case rErr r of
                 Some x \<Rightarrow> (fail_codes p x (pCodes p), Some x, w2)
               | None \<Rightarrow>
                   (case converge_all e p (rInbounds r) (pCodes p, False, None) w2 of
                      ((codes, wrote, cleanup), w3) \<Rightarrow>
                        apply_restart e p (missing_codes p (rInbounds r) codes) wrote cleanup w3))))"

section \<open>The targets of a pass\<close>

lemma parse_targets_snoc: "parse_targets (xs @ [x]) = parse_target x (parse_targets xs)"
  by (simp add: parse_targets_def)

lemma decodeTarget_id: "decodeTarget key r = Some (n, t) \<Longrightarrow> Atoi key = Some n"
  by (auto simp: decodeTarget_def split: option.splits if_splits)

lemma parse_targets_target:
  "map_of (pTargets (parse_targets xs)) n = Some t \<Longrightarrow> \<exists>k r. (k, Some r) \<in> set xs \<and> decodeTarget k r = Some (n, t)"
proof (induction xs rule: rev_induct)
  case (snoc x xs)
  obtain k st where x: "x = (k, st)" by (cases x)
  show ?case
  proof (cases "\<exists>r. st = Some r \<and> decodeTarget k r = Some (n, t)")
    case True
    then show ?thesis by (auto simp: x)
  next
    case False
    with snoc.prems have "map_of (pTargets (parse_targets xs)) n = Some t"
      by (auto simp: x parse_targets_snoc parse_target_def Let_def map_of_update_gm dest: decodeTarget_id split: option.splits if_splits)
    with snoc.IH show ?thesis by auto
  qed
qed (simp add: parse_targets_def)

lemma client_valid_int64: "client_valid c \<Longrightarrow> int64 (xResetSeq c)"
  by (simp add: client_valid_def maxSafeInt_def int64_def)

lemma parse_targets_int64:
  "map_of (pTargets (parse_targets xs)) n = Some t \<Longrightarrow> \<forall>c \<in> set t. int64 (xResetSeq c)"
  by (drule parse_targets_target)
    (auto simp: target_ok_def list_all_iff dest!: decodeTarget_ok intro: client_valid_int64)

section \<open>Runs of the module\<close>

text \<open>A new process reads the file; one whose state it cannot read does not start.\<close>

datatype xui_step = ApplyStep "(string, raw option) gomap" | StopStep

definition xui_run_step :: "xui_env \<Rightarrow> xui_step \<Rightarrow> xworld \<Rightarrow> xworld" where
  "xui_run_step e st w = (case st of
      ApplyStep targets \<Rightarrow> snd (snd (xui_Apply e targets w))
    | StopStep \<Rightarrow> (case openState (sfile (wState w)) of
          Inl _ \<Rightarrow> w
        | Inr s \<Rightarrow> w\<lparr>wState := s, wLog := wLog w @ [Stopped (resets s) (dirty (wState w))]\<rparr>))"

definition xui_start :: "json JSONFile \<Rightarrow> xui_state_error + xworld" where
  "xui_start f = (case openState f of Inl x \<Rightarrow> Inl x | Inr s \<Rightarrow> Inr \<lparr>wState = s, wLog = [Stopped (resets s) False]\<rparr>)"

text \<open>
  A property of worlds that every elementary operation keeps is kept by a whole \<open>Apply\<close>. The
  interface: listing and writing, the reset of one client together with its record, the marks
  of a Shadowsocks 2022 write, and the saves.
\<close>

definition log_event :: "xevent \<Rightarrow> xworld \<Rightarrow> xworld" where
  "log_event x w = w\<lparr>wLog := wLog w @ [x]\<rparr>"

lemma call_log: "snd (call e c w) = log_event (Called c (rErr (fst (call e c w)) = None)) w"
  by (simp add: call_def log_event_def Let_def)

locale xui_world_property =
  fixes e :: xui_env and P :: "xworld \<Rightarrow> bool"
  assumes P_call: "P w \<Longrightarrow> (\<And>n email. c \<noteq> ResetTraffic n email) \<Longrightarrow> c \<noteq> Restart \<Longrightarrow> P (snd (call e c w))"
    and P_flush: "P w \<Longrightarrow> P (snd (w_flush e w))"
    and P_reset_failed: "P w \<Longrightarrow> rErr (fst (call e (ResetTraffic n email) w)) \<noteq> None \<Longrightarrow> P (snd (call e (ResetTraffic n email) w))"
    and P_reset: "P w \<Longrightarrow> reset_of (wState w) email < seq \<Longrightarrow> int64 seq \<Longrightarrow>
      rErr (fst (call e (ResetTraffic n email) w)) = None \<Longrightarrow> P (snd (w_setReset e email seq (snd (call e (ResetTraffic n email) w))))"
    and P_record: "P w \<Longrightarrow> reset_of (wState w) email < seq \<Longrightarrow> int64 seq \<Longrightarrow> P (snd (w_setReset e email seq w))"
    and P_mark_failed: "P w \<Longrightarrow> fst (w_setRestartPending e True w) \<noteq> None \<Longrightarrow> P (snd (w_setRestartPending e True w))"
    and P_mark: "P w \<Longrightarrow> fst (w_setRestartPending e True w) = None \<Longrightarrow> P (log_event SSWrite (snd (w_setRestartPending e True w)))"
    and P_restart_failed: "P w \<Longrightarrow> rErr (fst (call e Restart w)) \<noteq> None \<Longrightarrow> P (snd (call e Restart w))"
    and P_restart: "P w \<Longrightarrow> rErr (fst (call e Restart w)) = None \<Longrightarrow> P (snd (w_setRestartPending e False (snd (call e Restart w))))"
    and P_keep: "P w \<Longrightarrow> P (snd (w_keepOnly e emails w))"
begin

lemma P_reset_all: "P w \<Longrightarrow> \<forall>c \<in> set t. int64 (xResetSeq c) \<Longrightarrow> P (snd (snd (reset_all e ib t w)))"
proof (induction t arbitrary: ib w)
  case (Cons c cs)
  let ?call = "call e (ResetTraffic (ibID ib) (xEmail c)) w"
  show ?case
  proof (cases "xResetSeq c \<le> reset_of (wState w) (xEmail c)")
    case True
    with Cons show ?thesis by simp
  next
    case due: False
    then have due': "reset_of (wState w) (xEmail c) < xResetSeq c" by simp
    have seq: "int64 (xResetSeq c)" "\<forall>c \<in> set cs. int64 (xResetSeq c)" using Cons.prems(2) by simp_all
    show ?thesis
    proof (cases "list_ex (\<lambda>st. stEmail st = xEmail c) (ibClientStats ib)")
      case True
      with due due' seq P_reset_failed [OF Cons.prems(1)] P_reset [OF Cons.prems(1) due' seq(1)] Cons.IH show ?thesis
        by (cases "rErr (fst ?call)") (auto simp: split_beta Let_def split: option.split prod.split)
    next
      case False
      with due due' seq P_record [OF Cons.prems(1) due' seq(1)] Cons.IH show ?thesis
        by (auto simp: split_beta Let_def split: option.split prod.split)
    qed
  qed
qed simp

lemma P_run_actions: "P w \<Longrightarrow> P (snd (snd (run_actions e n i as w)))"
proof (induction as arbitrary: i w)
  case (Cons a as)
  have "P (snd (call e (action_call n a) w))"
    by (rule P_call [OF Cons.prems]) (simp_all add: action_call_def split: action.split)
  with Cons.IH show ?case by (auto simp: split_beta)
qed simp

lemma P_write_plan: "P w \<Longrightarrow> P (snd (snd (write_plan e ib as w)))"
  using P_mark [of w] P_mark_failed [of w] P_run_actions
  by (auto simp: write_plan_def log_event_def split_beta split: option.split prod.split)

lemma P_converge: "P w \<Longrightarrow> \<forall>c \<in> set t. int64 (xResetSeq c) \<Longrightarrow> P (snd (snd (converge e ib t named w)))"
  using P_reset_all [of w t ib] P_write_plan
  by (auto simp: converge_def split: sum.split option.split prod.split)

lemma P_converge_all:
  "P w \<Longrightarrow> \<forall>n t. map_of (pTargets p) n = Some t \<longrightarrow> (\<forall>c \<in> set t. int64 (xResetSeq c)) \<Longrightarrow> P (snd (converge_all e p ibs acc w))"
proof (induction ibs arbitrary: acc w)
  case (Cons ib ibs)
  obtain codes wrote cleanup where acc: "acc = (codes, wrote, cleanup)" by (cases acc)
  have "P (snd (snd (converge e ib (case map_of (pTargets p) (ibID ib) of None \<Rightarrow> [] | Some t \<Rightarrow> t) (map_of (pTargets p) (ibID ib) \<noteq> None) w)))"
    by (rule P_converge [OF Cons.prems(1)]) (use Cons.prems(2) in \<open>cases "map_of (pTargets p) (ibID ib)"; auto\<close>)
  then show ?case using Cons by (simp add: acc split_beta Let_def)
qed simp

lemma P_apply_tail: "P w \<Longrightarrow> P (snd (snd (apply_tail e p codes cleanup w)))"
  using P_keep [of w] by (auto simp: apply_tail_def split_beta split: prod.split option.split)

lemma P_apply_confirm: "P w \<Longrightarrow> P (snd (snd (apply_confirm e p codes wrote cleanup w)))"
  using P_call [of w ListInbounds] P_apply_tail
  by (auto simp: apply_confirm_def split_beta split: option.split)

lemma P_apply_restart: "P w \<Longrightarrow> P (snd (snd (apply_restart e p codes wrote cleanup w)))"
  using P_restart_failed [of w] P_restart [of w] P_apply_confirm
  by (auto simp: apply_restart_def split_beta split: option.split prod.split)

lemma P_Apply: "P w \<Longrightarrow> P (snd (snd (xui_Apply e targets w)))"
proof -
  assume "P w"
  then have f: "P (snd (w_flush e w))" by (rule P_flush)
  then have l: "P (snd (call e ListInbounds (snd (w_flush e w))))" by (intro P_call) simp_all
  from P_converge_all [OF this, of "parse_targets targets"] parse_targets_int64
  have "P (snd (converge_all e (parse_targets targets) ibs acc (snd (call e ListInbounds (snd (w_flush e w))))))" for ibs acc by blast
  with f l P_apply_restart show ?thesis
    by (auto simp: xui_Apply_def Let_def split_beta split: option.split prod.split)
qed

end

section \<open>Each traffic reset runs once\<close>

text \<open>The records that the log implies, and what each event must satisfy after a log.\<close>

definition rec_step :: "xevent \<Rightarrow> (string \<Rightarrow> int) \<Rightarrow> string \<Rightarrow> int" where
  "rec_step x f = (case x of
      Recorded k q \<Rightarrow> f(k := q)
    | Forgot ks \<Rightarrow> (\<lambda>k. if k \<in> set ks then 0 else f k)
    | Stopped m d \<Rightarrow> gm_get 0 m
    | _ \<Rightarrow> f)"

definition rec_after :: "xevent list \<Rightarrow> string \<Rightarrow> int" where
  "rec_after log = fold rec_step log (\<lambda>_. 0)"

definition reset_done :: "xevent list \<Rightarrow> string option" where
  "reset_done log = (if log = [] then None else case last log of Called (ResetTraffic n k) True \<Rightarrow> Some k | _ \<Rightarrow> None)"

definition event_ok :: "xevent list \<Rightarrow> xevent \<Rightarrow> bool" where
  "event_ok log x \<longleftrightarrow>
     (case x of Recorded k q \<Rightarrow> rec_after log k < q | Stopped m d \<Rightarrow> log \<noteq> [] \<and> \<not> d \<longrightarrow> gm_get 0 m = rec_after log | _ \<Rightarrow> True) \<and>
     (\<forall>k. reset_done log = Some k \<longrightarrow> (\<exists>q. x = Recorded k q))"

definition trace_ok :: "xevent list \<Rightarrow> bool" where
  "trace_ok log \<longleftrightarrow> (\<forall>i < length log. event_ok (take i log) (log ! i))"

lemma trace_ok_snoc: "trace_ok (log @ [x]) \<longleftrightarrow> trace_ok log \<and> event_ok log x"
  by (auto simp: trace_ok_def nth_append less_Suc_eq)

lemma rec_after_snoc: "rec_after (log @ [x]) = rec_step x (rec_after log)"
  by (simp add: rec_after_def)

lemma reset_done_snoc: "reset_done (log @ [x]) = (case x of Called (ResetTraffic n k) True \<Rightarrow> Some k | _ \<Rightarrow> None)"
  by (simp add: reset_done_def)

lemma log_snoc2:
  "trace_ok (log @ [x, y]) \<longleftrightarrow> trace_ok log \<and> event_ok log x \<and> event_ok (log @ [x]) y"
  "rec_after (log @ [x, y]) = rec_step y (rec_step x (rec_after log))"
  "reset_done (log @ [x, y]) = reset_done [y]"
  using trace_ok_snoc [of "log @ [x]" y] trace_ok_snoc [of log x] by (simp_all add: rec_after_def reset_done_def)

definition records_follow :: "xworld \<Rightarrow> bool" where
  "records_follow w \<longleftrightarrow> state_ok (wState w) \<and> (\<forall>k. reset_of (wState w) k = rec_after (wLog w) k) \<and>
     trace_ok (wLog w) \<and> reset_done (wLog w) = None"

lemmas log_simps = trace_ok_snoc rec_after_snoc reset_done_snoc reset_done_snoc [of "[]", simplified] log_snoc2 event_ok_def rec_step_def

lemma reset_of_setReset: "reset_of (snd (setReset env email seq s)) k = (if k = email then seq else reset_of s k)"
  by (simp add: setReset_def reset_of_def gm_get_def map_of_update_gm)

lemma setRestartPending_resets [simp]: "resets (snd (setRestartPending env p s)) = resets s"
  by (simp add: setRestartPending_def split_beta split: option.split prod.split)

lemma keepOnly_resets:
  "reset_of (snd (keepOnly env emails s)) k = (if k \<in> set (filter (\<lambda>k. k \<notin> set emails) (gm_keys (resets s))) then 0 else reset_of s k)"
proof (cases "length (filter (\<lambda>(k, v). k \<in> set emails) (resets s)) = length (resets s)")
  case True
  then have "\<forall>x \<in> set (resets s). fst x \<in> set emails"
    by (metis (mono_tags, lifting) case_prod_beta filter_id_conv length_filter_less less_irrefl)
  with True show ?thesis by (auto simp: keepOnly_def)
next
  case False
  then show ?thesis
    by (auto simp: keepOnly_def Let_def reset_of_def gm_get_def map_of_filter_key rev_image_eqI split: option.split dest: map_of_SomeD)
qed

lemma reset_of_cong: "resets t = resets s \<Longrightarrow> reset_of t = reset_of s"
  by (rule ext) (simp add: reset_of_def)

lemma follow_call:
  "records_follow w \<Longrightarrow> (\<forall>n k. c = ResetTraffic n k \<longrightarrow> rErr (fst (call e c w)) \<noteq> None) \<Longrightarrow> records_follow (snd (call e c w))"
  unfolding call_log records_follow_def log_event_def
  by (cases c; cases "rErr (fst (call e c w))") (auto simp: log_simps)

lemma follow_setReset:
  assumes "state_ok (wState w)" "\<forall>k. reset_of (wState w) k = rec_after (wLog w) k" "trace_ok (wLog w)"
    and "reset_of (wState w) email < seq" "int64 seq" "\<forall>k. reset_done (wLog w) = Some k \<longrightarrow> k = email"
  shows "records_follow (snd (w_setReset e email seq w))"
  using assms state_ok_setReset [of "wState w" seq "xdisk e (wLog w)" email]
  by (auto simp: records_follow_def w_setReset_def split_beta log_simps reset_of_setReset)

lemma follow_saves: "records_follow w \<Longrightarrow> records_follow (snd (w_flush e w))"
  "records_follow w \<Longrightarrow> records_follow (snd (w_setRestartPending e p w))"
  "records_follow w \<Longrightarrow> records_follow (log_event SSWrite w)"
  using state_ok_flush [of "wState w" "xdisk e (wLog w)"] state_ok_setRestartPending [of "wState w" "xdisk e (wLog w)" p]
  by (auto simp: records_follow_def w_flush_def w_setRestartPending_def log_event_def split_beta log_simps state_ok_iff
      reset_of_cong [OF flush_fields(1)] reset_of_cong [OF setRestartPending_resets])

lemma follow_keepOnly: "records_follow w \<Longrightarrow> records_follow (snd (w_keepOnly e emails w))"
  using state_ok_keepOnly [of "wState w" "xdisk e (wLog w)" emails]
  by (auto simp: records_follow_def w_keepOnly_def Let_def split_beta log_simps keepOnly_resets filter_empty_conv)

lemma follow_reset:
  assumes w: "records_follow w" and "reset_of (wState w) email < seq" "int64 seq" "rErr (fst (call e (ResetTraffic n email) w)) = None"
  shows "records_follow (snd (w_setReset e email seq (snd (call e (ResetTraffic n email) w))))"
  by (rule follow_setReset)
    (use assms in \<open>auto simp: call_log log_event_def records_follow_def log_simps\<close>)

interpretation reset_run: xui_world_property e records_follow for e
proof
  fix w email and seq :: int
  assume "records_follow w" "reset_of (wState w) email < seq" "int64 seq"
  then show "records_follow (snd (w_setReset e email seq w))"
    by (intro follow_setReset) (simp_all add: records_follow_def)
qed (simp_all add: follow_call follow_saves follow_keepOnly follow_reset)

lemma stored_reads:
  assumes "state_ok s" "openState (sfile s) = Inr r"
  shows "state_ok r" "\<not> dirty s \<Longrightarrow> reset_of r = reset_of s"
proof -
  show "state_ok r" using openState_ok [OF assms(2)] by simp
  assume "\<not> dirty s"
  with assms show "reset_of r = reset_of s"
    by (intro reset_of_cong) (auto simp: openState_def state_ok_iff stored_def split: sum.splits option.splits)
qed

lemma follow_run_step:
  assumes w: "records_follow w"
  shows "records_follow (xui_run_step e st w)"
proof (cases st)
  case (ApplyStep targets)
  with reset_run.P_Apply [OF w] show ?thesis by (simp add: xui_run_step_def)
next
  case StopStep
  show ?thesis
  proof (cases "openState (sfile (wState w))")
    case (Inl x)
    with StopStep w show ?thesis by (simp add: xui_run_step_def)
  next
    case (Inr s)
    have s: "state_ok (wState w)" using w by (simp add: records_follow_def)
    have "gm_get 0 (resets s) = reset_of s" by (rule ext) (simp add: reset_of_def)
    moreover have "\<not> dirty (wState w) \<Longrightarrow> reset_of s = rec_after (wLog w)"
      using stored_reads(2) [OF s Inr] w by (intro ext) (simp add: records_follow_def)
    ultimately show ?thesis using StopStep Inr w stored_reads(1) [OF s Inr]
      by (simp add: xui_run_step_def records_follow_def log_simps)
  qed
qed

lemma follow_start: "xui_start f = Inr w \<Longrightarrow> records_follow w"
  by (auto simp: xui_start_def records_follow_def log_simps rec_after_def reset_done_def trace_ok_def reset_of_def
      dest: openState_ok split: sum.splits)

lemma follow_run: "xui_start f = Inr w \<Longrightarrow> records_follow (fold (xui_run_step e) steps w)"
proof -
  assume "xui_start f = Inr w"
  then have "records_follow w" by (rule follow_start)
  then show ?thesis by (induction steps arbitrary: w) (simp_all add: follow_run_step)
qed


section \<open>A restart owed is not forgotten\<close>

definition owed_step :: "xevent \<Rightarrow> bool \<Rightarrow> bool" where
  "owed_step x b = (case x of SSWrite \<Rightarrow> True | Called Restart True \<Rightarrow> False | _ \<Rightarrow> b)"

definition restart_owed :: "xevent list \<Rightarrow> bool" where
  "restart_owed log = fold owed_step log False"

lemma restart_owed_append: "restart_owed (log @ xs) = fold owed_step xs (restart_owed log)"
  by (simp add: restart_owed_def)

definition mark_kept :: "xui_env \<Rightarrow> xworld \<Rightarrow> bool" where
  "mark_kept e w \<longleftrightarrow> ((\<forall>log. sync_works (xdisk e log)) \<longrightarrow> state_ok (wState w) \<and>
     (restartPending (wState w) \<longrightarrow> pending_durable (wState w)) \<and> (restart_owed (wLog w) \<longrightarrow> restartPending (wState w)))"

lemma flush_stored:
  assumes "records_ok (resets s)"
  shows "stored (snd (flush env s)) = stored s \<or> stored (snd (flush env s)) = Some (resets s, restartPending s)"
proof -
  have "stored (t\<lparr>dirty := d\<rparr>) = stored t" for t d by (simp add: stored_def)
  with saveState_stored(2) [OF assms, of env "restartPending s"] show ?thesis
    by (auto simp: flush_def split_beta split: prod.split option.split)
qed

lemma durable_flush:
  "records_ok (resets s) \<Longrightarrow> (restartPending s \<Longrightarrow> pending_durable s) \<Longrightarrow> restartPending s \<Longrightarrow> pending_durable (snd (flush env s))"
  using flush_stored [of s env] by (auto simp: pending_durable_def)

lemma durable_cong: "sfile t = sfile s \<Longrightarrow> restartPending t = restartPending s \<Longrightarrow> pending_durable t = pending_durable s"
  by (simp add: pending_durable_def stored_def)

lemma durable_setReset:
  assumes "state_ok s" "int64 seq" "restartPending s \<Longrightarrow> pending_durable s" "restartPending s"
  shows "pending_durable (snd (setReset env email seq s))"
  unfolding setReset_def
  by (rule durable_flush) (use assms in \<open>auto simp: state_ok_iff records_ok_def set_update_gm pending_durable_def stored_def\<close>)

lemma durable_keepOnly:
  assumes "state_ok s" "restartPending s \<Longrightarrow> pending_durable s" "restartPending s"
  shows "pending_durable (snd (keepOnly env emails s))"
proof -
  have "pending_durable (snd (flush env (s\<lparr>resets := filter (\<lambda>(k, v). k \<in> set emails) (resets s), dirty := True\<rparr>)))"
    by (rule durable_flush) (use assms in \<open>auto simp: state_ok_iff records_ok_def pending_durable_def stored_def\<close>)
  with assms show ?thesis by (simp add: keepOnly_def Let_def)
qed

lemma mark_true:
  assumes "state_ok s" "restartPending s \<Longrightarrow> pending_durable s"
  shows "fst (setRestartPending env True s) = None \<Longrightarrow> pending_durable (snd (setRestartPending env True s))"
    "restartPending (snd (setRestartPending env True s)) \<Longrightarrow> pending_durable (snd (setRestartPending env True s))"
proof -
  have r: "records_ok (resets s)" using assms(1) by (simp add: state_ok_iff)
  have c: "stored (t\<lparr>restartPending := p, dirty := d\<rparr>) = stored t" for t p d by (simp add: stored_def)
  obtain err b where b: "saveState env True s = (err, b)" by (cases "saveState env True s")
  have f: "restartPending b = restartPending s" using saveState_fields(3) [of env True s] unfolding b snd_conv .
  show "fst (setRestartPending env True s) = None \<Longrightarrow> pending_durable (snd (setRestartPending env True s))"
    "restartPending (snd (setRestartPending env True s)) \<Longrightarrow> pending_durable (snd (setRestartPending env True s))"
    using assms(2) f saveState_stored(1) [OF r, of env True]
    by (auto simp: setRestartPending_def pending_durable_def b c split: option.splits if_splits)
qed

lemma mark_false:
  assumes "state_ok s" "restartPending s \<Longrightarrow> pending_durable s" "sync_works env" "restartPending (snd (setRestartPending env False s))"
  shows "pending_durable (snd (setRestartPending env False s))"
proof -
  have r: "records_ok (resets s)" using assms(1) by (simp add: state_ok_iff)
  show ?thesis using assms(2-4) saveState_stored(3) [OF r, of env False]
    by (auto simp: setRestartPending_def pending_durable_def split_beta split: prod.splits option.splits if_splits)
qed

lemma keepOnly_pending [simp]: "restartPending (snd (keepOnly env emails s)) = restartPending s"
  by (simp add: keepOnly_def Let_def)

lemma setReset_pending [simp]: "restartPending (snd (setReset env email seq s)) = restartPending s"
  by (simp add: setReset_def)

lemma setRestartPending_done: "fst (setRestartPending env p s) = None \<Longrightarrow> restartPending (snd (setRestartPending env p s)) = p"
  by (auto simp: setRestartPending_def split_beta split: prod.splits option.splits if_splits)

lemma setRestartPending_set: "restartPending s \<Longrightarrow> restartPending (snd (setRestartPending env True s))"
  by (simp add: setRestartPending_def)

lemma kept_quiet:
  assumes "mark_kept e w" "wState v = wState w" "restart_owed (wLog v) \<longrightarrow> restart_owed (wLog w)"
  shows "mark_kept e v"
  using assms by (auto simp: mark_kept_def)

lemma kept_call: "mark_kept e w \<Longrightarrow> mark_kept e (snd (call e c w))"
  by (rule kept_quiet) (auto simp: call_log log_event_def restart_owed_append owed_step_def split: panel_call.splits bool.splits)

lemma kept_state:
  assumes "mark_kept e w" "restart_owed (wLog v) \<longrightarrow> restart_owed (wLog w)" "restartPending (wState v) = restartPending (wState w)"
    and "state_ok (wState w) \<Longrightarrow> state_ok (wState v)"
    and "state_ok (wState w) \<Longrightarrow> restartPending (wState w) \<Longrightarrow> pending_durable (wState w) \<Longrightarrow> pending_durable (wState v)"
  shows "mark_kept e v"
  using assms unfolding mark_kept_def by metis

lemma kept_flush: "mark_kept e w \<Longrightarrow> mark_kept e (snd (w_flush e w))"
  by (erule kept_state)
    (simp_all add: w_flush_def split_beta restart_owed_append owed_step_def state_ok_flush_ok durable_flush state_ok_records)

lemma kept_setReset: "int64 seq \<Longrightarrow> mark_kept e w \<Longrightarrow> mark_kept e (snd (w_setReset e email seq w))"
  by (erule kept_state)
    (simp_all add: w_setReset_def split_beta restart_owed_append owed_step_def state_ok_setReset durable_setReset)

lemma kept_keepOnly: "mark_kept e w \<Longrightarrow> mark_kept e (snd (w_keepOnly e emails w))"
  by (erule kept_state)
    (simp_all add: w_keepOnly_def split_beta Let_def restart_owed_append owed_step_def state_ok_keepOnly durable_keepOnly)

lemma w_setRestartPending_fields:
  "wState (snd (w_setRestartPending e p w)) = snd (setRestartPending (xdisk e (wLog w)) p (wState w))"
  "fst (w_setRestartPending e p w) = fst (setRestartPending (xdisk e (wLog w)) p (wState w))"
  "restart_owed (wLog (snd (w_setRestartPending e p w))) = restart_owed (wLog w)"
  by (simp_all add: w_setRestartPending_def setRestartPending_def split_beta restart_owed_append owed_step_def)

lemma kept_mark:
  assumes "mark_kept e w"
  shows "mark_kept e (snd (w_setRestartPending e True w))"
    "fst (w_setRestartPending e True w) = None \<Longrightarrow> mark_kept e (log_event SSWrite (snd (w_setRestartPending e True w)))"
proof -
  note f = w_setRestartPending_fields [of e True w]
  show "mark_kept e (snd (w_setRestartPending e True w))"
    using assms unfolding mark_kept_def f
    by (auto simp: state_ok_setRestartPending setRestartPending_set intro: mark_true(2))
  then show "fst (w_setRestartPending e True w) = None \<Longrightarrow> mark_kept e (log_event SSWrite (snd (w_setRestartPending e True w)))"
    unfolding mark_kept_def log_event_def f
    by (auto simp: restart_owed_append owed_step_def f setRestartPending_done)
qed

lemma kept_restart:
  assumes w: "mark_kept e w" and ok: "rErr (fst (call e Restart w)) = None"
  shows "mark_kept e (snd (w_setRestartPending e False (snd (call e Restart w))))"
proof -
  let ?v = "snd (call e Restart w)"
  have "\<not> restart_owed (wLog ?v)" using ok by (simp add: call_log log_event_def restart_owed_append owed_step_def)
  with kept_call [OF w, of Restart] show ?thesis
    unfolding mark_kept_def w_setRestartPending_fields
    by (auto simp: state_ok_setRestartPending intro: mark_false)
qed

interpretation mark_run: xui_world_property e "mark_kept e" for e
  by unfold_locales
    (simp_all add: kept_call kept_flush kept_setReset kept_keepOnly kept_mark kept_restart)

lemma kept_run_step: "mark_kept e w \<Longrightarrow> mark_kept e (xui_run_step e st w)"
proof (cases st)
  case (ApplyStep targets)
  moreover assume "mark_kept e w"
  ultimately show ?thesis using mark_run.P_Apply by (simp add: xui_run_step_def)
next
  case StopStep
  assume w: "mark_kept e w"
  show ?thesis
  proof (cases "openState (sfile (wState w))")
    case (Inl x)
    with StopStep w show ?thesis by (simp add: xui_run_step_def)
  next
    case (Inr s)
    then have "state_ok s" "sfile s = sfile (wState w)" by (auto dest: openState_ok)
    moreover have "restartPending s \<Longrightarrow> pending_durable s" "pending_durable (wState w) \<Longrightarrow> restartPending s"
      using Inr by (auto simp: openState_def pending_durable_def stored_def split: sum.splits option.splits)
    ultimately show ?thesis using StopStep Inr w
      by (auto simp: xui_run_step_def mark_kept_def restart_owed_append owed_step_def)
  qed
qed

lemma kept_run:
  assumes "xui_start f = Inr w"
  shows "mark_kept e (fold (xui_run_step e) steps w)"
proof -
  from assms obtain s where s: "openState f = Inr s" "w = \<lparr>wState = s, wLog = [Stopped (resets s) False]\<rparr>"
    by (auto simp: xui_start_def split: sum.splits)
  have "restartPending s \<Longrightarrow> pending_durable s"
    using s(1) by (auto simp: openState_def pending_durable_def stored_def split: sum.splits option.splits)
  then have "mark_kept e w" using openState_ok [OF s(1)] by (simp add: s(2) mark_kept_def restart_owed_def owed_step_def)
  then show ?thesis by (induction steps arbitrary: w) (simp_all add: kept_run_step)
qed


section \<open>Examples\<close>

definition ex_ss_inbound :: Inbound_panel where
  "ex_ss_inbound = \<lparr>ibID = 1, ibRemark = ''ss'', ibTag = ''inbound-1'', ibProtocol = ''shadowsocks'', ibListen = [], ibPort = 8388,
     ibEnable = True, ibSettings = Doc (JObj [(''clients'', JArr []), (''method'', JStr ''2022-blake3-aes-128-gcm'')]),
     ibStreamSettings = Doc (JObj []), ibClientStats = []\<rparr>"

definition ex_ss_client :: json where
  "ex_ss_client = JObj [(''email'', JStr ''ak-a''), (''credential'', JStr ''AAAAAAAAAAAAAAAAAAAAAA==''), (''flow'', JStr []),
     (''enable'', JBool True), (''total_bytes'', JNum ''0''), (''reset_seq'', JNum ''0''), (''comment'', JStr [])]"

definition ex_ss_target :: "(string, raw option) gomap" where
  "ex_ss_target = [(''1'', Some (Doc (JObj [(''clients'', JArr [ex_ss_client])])))]"

text \<open>A panel that answers everything, except that the second restart fails, and a disk whose
  directory sync fails for the given save.\<close>

definition ex_panel :: "xevent list \<Rightarrow> panel_call \<Rightarrow> reply" where
  "ex_panel log c = \<lparr>rErr = (if c = Restart \<and> Called Restart True \<in> set log then Some ''xui_http_failed'' else None),
     rInbounds = [ex_ss_inbound]\<rparr>"

definition ex_saves :: "xevent list \<Rightarrow> nat" where
  "ex_saves log = length (filter (\<lambda>x. case x of Saved _ \<Rightarrow> True | _ \<Rightarrow> False) log)"

definition ex_env :: "nat \<Rightarrow> xui_env" where
  "ex_env bad = \<lparr>xpanel = ex_panel,
     xdisk = (\<lambda>log. if ex_saves log = bad then all_ok\<lparr>env_dir := \<lparr>dir_open = True, dir_sync = False, dir_close = True\<rparr>\<rparr> else all_ok),
     xfloat = (\<lambda>s. if s = ''0'' then Some 0 else None)\<rparr>"

definition ex_file :: "json JSONFile" where
  "ex_file = \<lparr>contents = NoFile, temporaries = 0\<rparr>"

definition ex_world :: xworld where
  "ex_world = \<lparr>wState = \<lparr>sfile = ex_file, resets = [], restartPending = False, dirty = False\<rparr>, wLog = [Stopped [] False]\<rparr>"

lemma ex_world_start: "xui_start ex_file = Inr ex_world"
  by (simp add: xui_start_def openState_def ex_file_def Load_missing ex_world_def)

definition ex_good_env :: xui_env where
  "ex_good_env = (ex_env 0)\<lparr>xdisk := (\<lambda>_. all_ok)\<rparr>"

definition ex_steps :: "xui_step list" where
  "ex_steps = [ApplyStep ex_ss_target, ApplyStep ex_ss_target]"

lemma ex_owed:
  "restart_owed (wLog (fold (xui_run_step (ex_env 1)) ex_steps ex_world))"
  "restart_owed (wLog (fold (xui_run_step ex_good_env) ex_steps ex_world))"
  by code_simp+


text \<open>
  C37. The mark is not always in the file before a Shadowsocks 2022 inbound is written. When
  clearing the mark fails after the file was already replaced (the directory sync), memory keeps
  the mark and the file has lost it; the next write finds the mark in memory, does not save it
  again, and a process that stops before the restart is followed by one that never restarts Xray.
\<close>

theorem restart_mark_lost:
  "\<exists>e f w steps. xui_start f = Inr w \<and> restart_owed (wLog (fold (xui_run_step e) steps w)) \<and>
     restart_owed (wLog (fold (xui_run_step e) (steps @ [StopStep]) w)) \<and>
     \<not> restartPending (wState (fold (xui_run_step e) (steps @ [StopStep]) w))"
proof -
  have "restart_owed (wLog (fold (xui_run_step (ex_env 1)) (ex_steps @ [StopStep]) ex_world))" by code_simp
  moreover have "\<not> restartPending (wState (fold (xui_run_step (ex_env 1)) (ex_steps @ [StopStep]) ex_world))" by code_simp
  ultimately show ?thesis using ex_world_start ex_owed(1) by blast
qed

definition ex_reset_target :: "(string, raw option) gomap" where
  "ex_reset_target = [(''1'', Some (Doc (JObj [(''clients'', JArr [JObj [(''email'', JStr ''ak-a''),
     (''credential'', JStr ''AAAAAAAAAAAAAAAAAAAAAA==''), (''flow'', JStr []), (''enable'', JBool True), (''total_bytes'', JNum ''0''),
     (''reset_seq'', JNum ''3''), (''comment'', JStr [])]])])))]"

definition ex_reset_env :: xui_env where
  "ex_reset_env = ex_good_env\<lparr>xpanel := (\<lambda>log c. \<lparr>rErr = None,
     rInbounds = [ex_ss_inbound\<lparr>ibClientStats := [\<lparr>stEmail = ''ak-a'', stUp = 5, stDown = 7\<rparr>]\<rparr>]\<rparr>)\<rparr>"

lemma ex_reset_log:
  "take 4 (wLog (fold (xui_run_step ex_reset_env) [ApplyStep ex_reset_target] ex_world)) =
     [Stopped [] False, Called ListInbounds True, Called (ResetTraffic 1 ''ak-a'') True, Recorded ''ak-a'' 3]"
  by code_simp


end
