(* ===== verification/Xui_Confirm.thy ===== *)
theory Xui_Confirm
  imports Xui_Apply
begin

text \<open>
  What success means: when a pass of the xui module gives a key no error code, the panel was read
  during this pass, after the last client was written, and showed the key's inbound in its target.
\<close>

section \<open>Statistics cleared by a reset\<close>

definition cleared :: "ClientStat \<Rightarrow> ClientStat \<Rightarrow> bool" where
  "cleared a b \<longleftrightarrow> b = a \<or> b = a\<lparr>stUp := 0, stDown := 0\<rparr>"

lemma cleared_simps [simp]: "cleared a a" "cleared a (a\<lparr>stUp := 0, stDown := 0\<rparr>)"
  by (simp_all add: cleared_def)

lemma cleared_all_refl [simp]: "list_all2 cleared xs xs"
  by (simp add: list_all2_same)

lemma cleared_trans: "list_all2 cleared xs ys \<Longrightarrow> list_all2 cleared ys zs \<Longrightarrow> list_all2 cleared xs zs"
proof -
  have tr: "\<And>a b c. cleared a b \<Longrightarrow> cleared b c \<Longrightarrow> cleared a c" by (auto simp: cleared_def)
  show "list_all2 cleared xs ys \<Longrightarrow> list_all2 cleared ys zs \<Longrightarrow> list_all2 cleared xs zs"
    by (rule list_all2_trans [of cleared cleared cleared, OF tr])
qed

lemma zero_stat_cleared: "list_all2 cleared xs (zero_stat email xs)"
  by (induction xs) simp_all

definition settled :: "(string \<Rightarrow> int option) \<Rightarrow> Inbound_panel \<Rightarrow> xtarget \<Rightarrow> bool" where
  "settled pf ib t \<longleftrightarrow> (\<exists>stats. list_all2 cleared (ibClientStats ib) stats \<and> plan pf (ib\<lparr>ibClientStats := stats\<rparr>) t = Inr [])"

lemma settled_now: "plan pf ib t = Inr [] \<Longrightarrow> settled pf ib t"
  unfolding settled_def by (rule exI [of _ "ibClientStats ib"]) simp

section \<open>Which part of the log writes clients\<close>

definition client_write :: "xevent \<Rightarrow> bool" where
  "client_write x = (case x of
      Called (AddClient n c) True \<Rightarrow> True | Called (UpdateClient n i c) True \<Rightarrow> True | Called (DeleteClient n i) True \<Rightarrow> True | _ \<Rightarrow> False)"

definition quiet :: "xworld \<Rightarrow> xworld \<Rightarrow> bool" where
  "quiet w v \<longleftrightarrow> (\<exists>ys. wLog v = wLog w @ ys \<and> (\<forall>y \<in> set ys. \<not> client_write y))"

lemma quiet_refl [simp]: "quiet w w"
  by (simp add: quiet_def)

lemma quiet_trans: "quiet u v \<Longrightarrow> quiet v w \<Longrightarrow> quiet u w"
  by (fastforce simp: quiet_def)

lemma quiet_saves [simp]:
  "quiet w (snd (w_flush e w))" "quiet w (snd (w_setReset e email seq w))" "quiet w (snd (w_setRestartPending e p w))"
  "quiet w (snd (w_keepOnly e emails w))" "quiet w (w\<lparr>wLog := wLog w @ [SSWrite]\<rparr>)"
  by (simp_all add: quiet_def w_flush_def w_setReset_def w_setRestartPending_def w_keepOnly_def split_beta Let_def client_write_def)

lemma quiet_call: "rErr (fst (call e c w)) \<noteq> None \<or> c = ListInbounds \<or> c = Restart \<or> (\<exists>n k. c = ResetTraffic n k) \<Longrightarrow> quiet w (snd (call e c w))"
  by (auto simp: quiet_def call_log log_event_def client_write_def split: panel_call.splits)

lemma reset_all_due:
  assumes "\<not> xResetSeq c \<le> reset_of (wState w) (xEmail c)"
    and "found = list_ex (\<lambda>st. stEmail st = xEmail c) (ibClientStats ib)"
    and "v = (if found then snd (call e (ResetTraffic (ibID ib) (xEmail c)) w) else w)"
    and "ib' = (if found then ib\<lparr>ibClientStats := zero_stat (xEmail c) (ibClientStats ib)\<rparr> else ib)"
  shows "reset_all e ib (c # cs) w =
    (if found \<and> rErr (fst (call e (ResetTraffic (ibID ib) (xEmail c)) w)) \<noteq> None then (Some ''xui_write_failed'', ib, v)
     else if fst (w_setReset e (xEmail c) (xResetSeq c) v) \<noteq> None
       then (Some ''xui_state_failed'', ib', snd (w_setReset e (xEmail c) (xResetSeq c) v))
     else reset_all e ib' cs (snd (w_setReset e (xEmail c) (xResetSeq c) v)))"
  using assms(1)
  by (cases found) (auto simp: assms(2-4) Let_def split_beta split: prod.split option.split)

lemma reset_all_result:
  assumes "reset_all e ib t w = (err, ib1, w1)"
  shows "quiet w w1 \<and> (\<exists>stats. list_all2 cleared (ibClientStats ib) stats \<and> ib1 = ib\<lparr>ibClientStats := stats\<rparr>)"
  using assms
proof (induction t arbitrary: ib w)
  case Nil
  then show ?case by (auto intro: exI [of _ "ibClientStats ib1"])
next
  case (Cons c cs)
  show ?case
  proof (cases "xResetSeq c \<le> reset_of (wState w) (xEmail c)")
    case True
    with Cons show ?thesis by simp
  next
    case due: False
    define found where "found = list_ex (\<lambda>st. stEmail st = xEmail c) (ibClientStats ib)"
    define v where "v = (if found then snd (call e (ResetTraffic (ibID ib) (xEmail c)) w) else w)"
    define ib' where "ib' = (if found then ib\<lparr>ibClientStats := zero_stat (xEmail c) (ibClientStats ib)\<rparr> else ib)"
    note eq = reset_all_due [OF due found_def v_def ib'_def]
    have v: "quiet w v" by (auto simp: v_def intro: quiet_call)
    have ib': "\<exists>stats. list_all2 cleared (ibClientStats ib) stats \<and> ib' = ib\<lparr>ibClientStats := stats\<rparr>"
    proof (cases found)
      case True
      then show ?thesis using zero_stat_cleared [of "ibClientStats ib" "xEmail c"] by (auto simp: ib'_def)
    next
      case False
      then show ?thesis by (intro exI [of _ "ibClientStats ib"]) (simp add: ib'_def)
    qed
    let ?set = "w_setReset e (xEmail c) (xResetSeq c) v"
    have q: "quiet w (snd ?set)" using v quiet_saves(2) by (rule quiet_trans)
    consider "w1 = v" "ib1 = ib" | "w1 = snd ?set" "ib1 = ib'" | "reset_all e ib' cs (snd ?set) = (err, ib1, w1)"
      using Cons.prems unfolding eq by (auto split: if_splits)
    then show ?thesis
    proof cases
      case 1
      with v show ?thesis by (auto intro: exI [of _ "ibClientStats ib"])
    next
      case 2
      with q ib' show ?thesis by simp
    next
      case 3
      from ib' obtain s1 where s1: "list_all2 cleared (ibClientStats ib) s1" "ib' = ib\<lparr>ibClientStats := s1\<rparr>" by blast
      from Cons.IH [OF 3] s1(2) obtain s2 where s2: "list_all2 cleared s1 s2" "ib1 = ib\<lparr>ibClientStats := s2\<rparr>"
        and r: "quiet (snd ?set) w1" by auto
      from cleared_trans [OF s1(1) s2(1)] s2(2) quiet_trans [OF q r] show ?thesis by blast
    qed
  qed
qed

lemma run_actions_result:
  assumes "run_actions e n i as w = (changed, err, v)"
  shows "0 < i \<Longrightarrow> changed" "\<not> changed \<Longrightarrow> quiet w v" "\<not> changed \<Longrightarrow> err = None \<Longrightarrow> as = [] \<and> i = 0" "err \<noteq> Some []"
proof -
  have "(0 < i \<longrightarrow> changed) \<and> (\<not> changed \<longrightarrow> quiet w v) \<and> (\<not> changed \<and> err = None \<longrightarrow> as = [] \<and> i = 0) \<and> err \<noteq> Some []"
    using assms
  proof (induction as arbitrary: i w)
    case (Cons a as)
    show ?case
    proof (cases "rErr (fst (call e (action_call n a) w)) = None")
      case True
      with Cons.prems have "run_actions e n (Suc i) as (snd (call e (action_call n a) w)) = (changed, err, v)" by (simp add: split_beta)
      from Cons.IH [OF this] show ?thesis by simp
    next
      case False
      with Cons.prems quiet_call [of e "action_call n a" w] show ?thesis by (auto simp: split_beta)
    qed
  qed auto
  then show "0 < i \<Longrightarrow> changed" "\<not> changed \<Longrightarrow> quiet w v" "\<not> changed \<Longrightarrow> err = None \<Longrightarrow> as = [] \<and> i = 0" "err \<noteq> Some []" by auto
qed

lemma write_plan_result:
  assumes "write_plan e ib as w = (changed, err, v)"
  shows "\<not> changed \<Longrightarrow> quiet w v" "\<not> changed \<Longrightarrow> err = None \<Longrightarrow> as = []" "err \<noteq> Some []"
proof -
  let ?mark = "w_setRestartPending e True w"
  consider "changed = False" "err = Some ''xui_state_failed''" "v = snd ?mark"
    | u where "quiet w u" "run_actions e (ibID ib) 0 as u = (changed, err, v)"
  proof (cases "as \<noteq> [] \<and> ss2022 (ibProtocol ib) (method_of ib)")
    case True
    have "quiet w ((snd ?mark)\<lparr>wLog := wLog (snd ?mark) @ [SSWrite]\<rparr>)" by (rule quiet_trans [OF quiet_saves(3) quiet_saves(5)])
    with True assms that(1) that(2) [of "(snd ?mark)\<lparr>wLog := wLog (snd ?mark) @ [SSWrite]\<rparr>"] show ?thesis
      by (cases "fst ?mark") (simp_all add: write_plan_def split_beta)
  next
    case False
    with assms that(2) [of w] show ?thesis by (auto simp: write_plan_def)
  qed
  then have "(\<not> changed \<longrightarrow> quiet w v) \<and> (\<not> changed \<and> err = None \<longrightarrow> as = []) \<and> err \<noteq> Some []"
  proof cases
    case (2 u)
    with run_actions_result [OF 2(2)] quiet_trans [OF 2(1)] show ?thesis by blast
  qed simp
  then show "\<not> changed \<Longrightarrow> quiet w v" "\<not> changed \<Longrightarrow> err = None \<Longrightarrow> as = []" "err \<noteq> Some []" by auto
qed

lemma plan_error_text: "plan pf ib t = Inl x \<Longrightarrow> x \<noteq> []"
  by (auto simp: plan_def compatible_def Let_def split: option.splits if_splits)

lemma reset_all_error_text: "reset_all e ib t w = (Some x, ib1, w1) \<Longrightarrow> x \<noteq> []"
proof (induction t arbitrary: ib w)
  case (Cons c cs)
  show ?case
  proof (cases "xResetSeq c \<le> reset_of (wState w) (xEmail c)")
    case True
    with Cons show ?thesis by simp
  next
    case False
    from Cons.prems Cons.IH show ?thesis unfolding reset_all_due [OF False refl refl refl] by (auto split: if_splits)
  qed
qed simp

lemma converge_result:
  assumes "converge e ib t named w = (changed, err, v)"
  shows "\<not> changed \<Longrightarrow> quiet w v" "\<not> changed \<Longrightarrow> err = None \<Longrightarrow> named \<Longrightarrow> settled (xfloat e) ib t" "err \<noteq> Some []"
proof -
  consider "changed = False" "err = None" "v = w" "\<not> named"
    | x where "changed = False" "err = Some x" "v = w" "x \<noteq> []"
    | as where "plan (xfloat e) ib t = Inr as" "write_plan e ib as w = (changed, err, v)"
    | x ib1 where "changed = False" "err = Some x" "quiet w v" "x \<noteq> []"
    | ib1 w1 as1 where "reset_all e ib t w = (None, ib1, w1)" "plan (xfloat e) ib1 t = Inr as1" "write_plan e ib1 as1 w1 = (changed, err, v)"
    using assms
    by (auto simp: converge_def dest: plan_error_text reset_all_error_text reset_all_result split: if_splits sum.splits prod.splits option.splits)
  then have "(\<not> changed \<longrightarrow> quiet w v) \<and> (\<not> changed \<and> err = None \<and> named \<longrightarrow> settled (xfloat e) ib t) \<and> err \<noteq> Some []"
  proof cases
    case (3 as)
    with write_plan_result [OF 3(2)] show ?thesis by (auto intro: settled_now)
  next
    case (5 ib1 w1 as1)
    from reset_all_result [OF 5(1)] obtain stats where r: "quiet w w1" "list_all2 cleared (ibClientStats ib) stats"
      "ib1 = ib\<lparr>ibClientStats := stats\<rparr>" by blast
    with write_plan_result [OF 5(3)] 5(2) quiet_trans [OF r(1)] show ?thesis by (auto simp: settled_def)
  qed auto
  then show "\<not> changed \<Longrightarrow> quiet w v" "\<not> changed \<Longrightarrow> err = None \<Longrightarrow> named \<Longrightarrow> settled (xfloat e) ib t" "err \<noteq> Some []" by auto
qed

section \<open>Error codes are never taken back\<close>

lemma code_of_update: "code_of (AList.update k x codes) k' = (if k' = k then x else code_of codes k')"
  by (simp add: code_of_def gm_get_def map_of_update_gm)

lemma converge_all_cons:
  assumes "ibID ib \<notin> set (pHeld p)" "target = map_of (pTargets p) (ibID ib)"
    and "converge e ib (case target of None \<Rightarrow> [] | Some t \<Rightarrow> t) (target \<noteq> None) w = (changed, err, w1)"
  shows "converge_all e p (ib # ibs) (codes, wrote, cleanup) w =
    converge_all e p ibs (if err \<noteq> None \<and> target \<noteq> None then AList.update (key_of p (ibID ib)) (the err) codes else codes,
      wrote \<or> changed, if err \<noteq> None \<and> target = None \<and> cleanup = None then err else cleanup) w1"
  using assms by (cases err; cases target) (simp_all add: Let_def)

lemma converge_all_keeps:
  assumes "converge_all e p ibs (codes, wrote, cleanup) w = ((codes', wrote', cleanup'), v)" "code_of codes k \<noteq> []"
  shows "code_of codes' k \<noteq> []"
  using assms
proof (induction ibs arbitrary: codes wrote cleanup w)
  case (Cons ib ibs)
  show ?case
  proof (cases "ibID ib \<in> set (pHeld p)")
    case True
    with Cons show ?thesis by auto
  next
    case held: False
    let ?target = "map_of (pTargets p) (ibID ib)"
    obtain changed err w1 where c: "converge e ib (case ?target of None \<Rightarrow> [] | Some t \<Rightarrow> t) (?target \<noteq> None) w = (changed, err, w1)"
      by (metis prod_cases3)
    show ?thesis
      by (rule Cons.IH [OF Cons.prems(1) [unfolded converge_all_cons [OF held refl c]]])
        (use Cons.prems(2) converge_result(3) [OF c] in \<open>auto simp: code_of_update\<close>)
  qed
qed simp

lemma converge_all_result:
  assumes "converge_all e p ibs (codes, wrote, cleanup) w = ((codes', wrote', cleanup'), v)"
  shows "(code_of codes k \<noteq> [] \<longrightarrow> code_of codes' k \<noteq> []) \<and> (wrote \<longrightarrow> wrote') \<and> (\<not> wrote' \<longrightarrow> quiet w v) \<and>
    (\<not> wrote' \<and> n \<notin> set (pHeld p) \<and> map_of (pTargets p) n = Some t \<and> code_of codes' (key_of p n) = [] \<longrightarrow>
      (\<forall>ib \<in> set ibs. ibID ib = n \<longrightarrow> settled (xfloat e) ib t))"
  using assms
proof (induction ibs arbitrary: codes wrote cleanup w)
  case (Cons ib ibs)
  show ?case
  proof (cases "ibID ib \<in> set (pHeld p)")
    case True
    with Cons show ?thesis by auto
  next
    case held: False
    let ?target = "map_of (pTargets p) (ibID ib)"
    obtain changed err w1 where c: "converge e ib (case ?target of None \<Rightarrow> [] | Some t \<Rightarrow> t) (?target \<noteq> None) w = (changed, err, w1)"
      by (metis prod_cases3)
    note r = converge_result [OF c]
    let ?codes = "if err \<noteq> None \<and> ?target \<noteq> None then AList.update (key_of p (ibID ib)) (the err) codes else codes"
    from Cons.prems have rest: "converge_all e p ibs (?codes, wrote \<or> changed,
        if err \<noteq> None \<and> ?target = None \<and> cleanup = None then err else cleanup) w1 = ((codes', wrote', cleanup'), v)"
      unfolding converge_all_cons [OF held refl c] .
    have keep: "code_of ?codes k' = [] \<Longrightarrow> code_of codes k' = []" for k'
      using r(3) by (cases err) (auto simp: code_of_update split: if_splits)
    note ih = Cons.IH [OF rest]
    have clean: "err = None" if "?target \<noteq> None" "code_of codes' (key_of p (ibID ib)) = []"
    proof (rule ccontr)
      assume "err \<noteq> None"
      with that(1) r(3) have "code_of ?codes (key_of p (ibID ib)) \<noteq> []" by (auto simp: code_of_update)
      with converge_all_keeps [OF rest] that(2) show False by blast
    qed
    show ?thesis
      using ih keep r(1,2) clean quiet_trans [of w w1 v] by auto
  qed
qed auto

lemma missing_codes_result:
  assumes "code_of (missing_codes p ibs codes) k = []"
  shows "code_of codes k = []" "(n, t) \<in> set (pTargets p) \<Longrightarrow> k = key_of p n \<Longrightarrow> t \<noteq> [] \<Longrightarrow> n \<in> ibID ` set ibs"
proof -
  let ?f = "\<lambda>(n, t) cs. if n \<notin> ibID ` set ibs \<and> t \<noteq> [] then AList.update (key_of p n) ''xui_inbound_missing'' cs else cs"
  have "code_of (fold ?f ts cs) k = [] \<Longrightarrow> code_of cs k = [] \<and>
    (\<forall>(n, t) \<in> set ts. k = key_of p n \<and> t \<noteq> [] \<longrightarrow> n \<in> ibID ` set ibs)" for ts cs
  proof (induction ts arbitrary: cs)
    case (Cons x ts)
    obtain m s where x: "x = (m, s)" by (cases x)
    from Cons.IH [OF Cons.prems [simplified]] show ?case by (auto simp: x code_of_update split: if_splits)
  qed simp
  from this [OF assms [unfolded missing_codes_def]]
  show "code_of codes k = []" "(n, t) \<in> set (pTargets p) \<Longrightarrow> k = key_of p n \<Longrightarrow> t \<noteq> [] \<Longrightarrow> n \<in> ibID ` set ibs" by auto
qed

lemma confirm_result:
  assumes "code_of (confirm e p ibs codes) k = []"
  shows "code_of codes k = []"
    "ib \<in> set ibs \<Longrightarrow> map_of (pTargets p) (ibID ib) = Some t \<Longrightarrow> k = key_of p (ibID ib) \<Longrightarrow> plan (xfloat e) ib t = Inr []"
proof -
  have "code_of (confirm e p ibs codes) k = [] \<Longrightarrow> code_of codes k = [] \<and>
    (\<forall>ib \<in> set ibs. \<forall>t. map_of (pTargets p) (ibID ib) = Some t \<and> k = key_of p (ibID ib) \<longrightarrow> plan (xfloat e) ib t = Inr [])" for codes
  proof (induction ibs arbitrary: codes)
    case (Cons ib ibs)
    from Cons.IH [OF Cons.prems [simplified]] show ?case
      by (auto simp: code_of_update split: option.splits if_splits)
  qed simp
  from this [OF assms] show "code_of codes k = []"
    "ib \<in> set ibs \<Longrightarrow> map_of (pTargets p) (ibID ib) = Some t \<Longrightarrow> k = key_of p (ibID ib) \<Longrightarrow> plan (xfloat e) ib t = Inr []" by auto
qed

lemma fail_codes_result:
  assumes "x \<noteq> []" "(n, t) \<in> set (pTargets p)"
  shows "code_of (fail_codes p x codes) (key_of p n) \<noteq> []"
proof -
  let ?f = "\<lambda>(n, t) cs. if code_of cs (key_of p n) = [] then AList.update (key_of p n) x cs else cs"
  have keep: "code_of cs k \<noteq> [] \<Longrightarrow> code_of (fold ?f ts cs) k \<noteq> []" for ts cs k
  proof (induction ts arbitrary: cs)
    case (Cons y ts)
    obtain m s where y: "y = (m, s)" by (cases y)
    have "code_of (?f y cs) k \<noteq> []" using Cons.prems assms(1) by (simp add: y code_of_update)
    from Cons.IH [OF this] show ?case by simp
  qed simp
  have "(n, t) \<in> set ts \<Longrightarrow> code_of (fold ?f ts cs) (key_of p n) \<noteq> []" for ts cs
  proof (induction ts arbitrary: cs)
    case (Cons y ts)
    show ?case
    proof (cases "y = (n, t)")
      case True
      then show ?thesis using keep [of "?f y cs" "key_of p n" ts] assms(1) by (simp add: code_of_update)
    next
      case False
      with Cons show ?thesis by simp
    qed
  qed simp
  with assms(2) show ?thesis by (simp add: fail_codes_def)
qed

section \<open>The end of a pass\<close>

text \<open>The panel was read at \<open>log\<close> and no client was written afterwards.\<close>

definition read_at :: "xui_env \<Rightarrow> xevent list \<Rightarrow> Inbound_panel list \<Rightarrow> xworld \<Rightarrow> bool" where
  "read_at e log listing v \<longleftrightarrow> listing = rInbounds (xpanel e log ListInbounds) \<and>
     (\<exists>ys. wLog v = log @ Called ListInbounds True # ys \<and> (\<forall>y \<in> set ys. \<not> client_write y))"

lemma read_at_call: "rErr (fst (call e ListInbounds w)) = None \<Longrightarrow> read_at e (wLog w) (rInbounds (fst (call e ListInbounds w))) (snd (call e ListInbounds w))"
  by (simp add: read_at_def call_def Let_def)

lemma read_at_quiet: "read_at e log listing v \<Longrightarrow> quiet v u \<Longrightarrow> read_at e log listing u"
  by (fastforce simp: read_at_def quiet_def)

lemma apply_tail_result:
  assumes "apply_tail e p codes cleanup w = (codes', err, v)" "(n, t) \<in> set (pTargets p)" "code_of codes' (key_of p n) = []"
  shows "quiet w v" "code_of codes (key_of p n) = []"
proof -
  have q: "quiet w (snd (w_keepOnly e emails w))" for emails by simp
  from assms(1) show "quiet w v"
    using q by (auto simp: apply_tail_def split_beta split: if_splits option.splits)
  show "code_of codes (key_of p n) = []"
    using assms fail_codes_result [OF _ assms(2), of "''xui_state_failed''" codes]
    by (auto simp: apply_tail_def split_beta split: if_splits option.splits)
qed

lemma apply_confirm_result:
  assumes "apply_confirm e p codes wrote cleanup w = (codes', err, v)" "(n, t) \<in> set (pTargets p)" "code_of codes' (key_of p n) = []"
    and says: "\<And>log c. rErr (xpanel e log c) \<noteq> Some []"
  shows "code_of codes (key_of p n) = []" "\<not> wrote \<Longrightarrow> quiet w v"
    "wrote \<Longrightarrow> \<exists>listing. read_at e (wLog w) listing v \<and> (\<forall>ib \<in> set listing. ibID ib = n \<and> map_of (pTargets p) n = Some t \<longrightarrow> plan (xfloat e) ib t = Inr [])"
proof -
  consider "\<not> wrote" "apply_tail e p codes cleanup w = (codes', err, v)"
    | x where "wrote" "rErr (fst (call e ListInbounds w)) = Some x" "codes' = fail_codes p x codes"
    | "wrote" "rErr (fst (call e ListInbounds w)) = None"
        "apply_tail e p (confirm e p (rInbounds (fst (call e ListInbounds w))) codes) cleanup (snd (call e ListInbounds w)) = (codes', err, v)"
    using assms(1) by (auto simp: apply_confirm_def split_beta split: if_splits option.splits)
  then have "code_of codes (key_of p n) = [] \<and> (\<not> wrote \<longrightarrow> quiet w v) \<and>
    (wrote \<longrightarrow> (\<exists>listing. read_at e (wLog w) listing v \<and> (\<forall>ib \<in> set listing. ibID ib = n \<and> map_of (pTargets p) n = Some t \<longrightarrow> plan (xfloat e) ib t = Inr [])))"
  proof cases
    case 1
    with apply_tail_result [OF 1(2) assms(2,3)] show ?thesis by simp
  next
    case (2 x)
    have "x \<noteq> []" using 2(2) says [of "wLog w" ListInbounds] by (auto simp: call_def Let_def)
    with fail_codes_result [OF this assms(2), of codes] 2(3) assms(3) show ?thesis by simp
  next
    case 3
    from apply_tail_result [OF 3(3) assms(2,3)] have a: "quiet (snd (call e ListInbounds w)) v"
      "code_of (confirm e p (rInbounds (fst (call e ListInbounds w))) codes) (key_of p n) = []" by simp_all
    from confirm_result [OF a(2)] read_at_quiet [OF read_at_call [OF 3(2)] a(1)] 3(1) show ?thesis by auto
  qed
  then show "code_of codes (key_of p n) = []" "\<not> wrote \<Longrightarrow> quiet w v"
    "wrote \<Longrightarrow> \<exists>listing. read_at e (wLog w) listing v \<and> (\<forall>ib \<in> set listing. ibID ib = n \<and> map_of (pTargets p) n = Some t \<longrightarrow> plan (xfloat e) ib t = Inr [])"
    by auto
qed

section \<open>Keys and inbounds\<close>

definition canonical_keys :: "(string, raw option) gomap \<Rightarrow> bool" where
  "canonical_keys targets \<longleftrightarrow> gm_ok targets \<and> (\<forall>k \<in> fst ` set targets. \<forall>n. Atoi k = Some n \<longrightarrow> Itoa n = k)"

lemma parse_held:
  "n \<in> set (pHeld (parse_targets xs)) \<Longrightarrow> \<exists>k st. (k, st) \<in> set xs \<and> Atoi k = Some n \<and> (\<forall>r. st = Some r \<longrightarrow> decodeTarget k r = None)"
proof (induction xs rule: rev_induct)
  case (snoc x xs)
  obtain k st where x: "x = (k, st)" by (cases x)
  show ?case
  proof (cases "n \<in> set (pHeld (parse_targets xs))")
    case True
    with snoc.IH show ?thesis by auto
  next
    case False
    with snoc.prems have "Atoi k = Some n \<and> (\<forall>r. st = Some r \<longrightarrow> decodeTarget k r = None)"
      by (auto simp: x parse_targets_snoc parse_target_def Let_def split: option.splits)
    then show ?thesis by (auto simp: x)
  qed
qed (simp add: parse_targets_def)

lemma parse_keys:
  "map_of (pKeys (parse_targets xs)) n = Some k \<Longrightarrow> k \<in> fst ` set xs \<and> Atoi k = Some n"
  "k \<in> fst ` set xs \<Longrightarrow> Atoi k = Some n \<Longrightarrow> map_of (pKeys (parse_targets xs)) n \<noteq> None"
proof -
  have snoc: "map_of (pKeys (parse_targets (xs @ [x]))) n =
    (if Atoi (fst x) = Some n then Some (fst x) else map_of (pKeys (parse_targets xs)) n)" for xs x
    by (cases x) (auto simp: parse_targets_snoc parse_target_def Let_def map_of_update_gm split: option.split)
  show "map_of (pKeys (parse_targets xs)) n = Some k \<Longrightarrow> k \<in> fst ` set xs \<and> Atoi k = Some n"
    by (induction xs rule: rev_induct) (auto simp: parse_targets_def [of "[]"] snoc split: if_splits)
  show "k \<in> fst ` set xs \<Longrightarrow> Atoi k = Some n \<Longrightarrow> map_of (pKeys (parse_targets xs)) n \<noteq> None"
    by (induction xs rule: rev_induct) (auto simp: snoc)
qed

lemma parse_has_target:
  "(k, Some r) \<in> set xs \<Longrightarrow> decodeTarget k r = Some (n, t) \<Longrightarrow> map_of (pTargets (parse_targets xs)) n \<noteq> None"
proof (induction xs rule: rev_induct)
  case (snoc x xs)
  have keep: "map_of (pTargets p) n \<noteq> None \<Longrightarrow> map_of (pTargets (parse_target x p)) n \<noteq> None" for p
    by (cases x) (auto simp: parse_target_def Let_def map_of_update_gm split: option.splits)
  show ?case
  proof (cases "x = (k, Some r)")
    case True
    with snoc.prems(2) decodeTarget_id [OF snoc.prems(2)] show ?thesis
      by (simp add: parse_targets_snoc parse_target_def Let_def map_of_update_gm)
  next
    case False
    with snoc keep show ?thesis by (simp add: parse_targets_snoc)
  qed
qed simp

lemma parse_canonical:
  assumes "canonical_keys targets" "(k, Some r) \<in> set targets" "decodeTarget k r = Some (n, t)"
  shows "map_of (pTargets (parse_targets targets)) n = Some t" "key_of (parse_targets targets) n = k" "n \<notin> set (pHeld (parse_targets targets))"
proof -
  have k: "Itoa n = k" "Atoi k = Some n" using decodeTarget_ok [OF assms(3)] decodeTarget_id [OF assms(3)] by auto
  have same: "k' = k" if "k' \<in> fst ` set targets" "Atoi k' = Some n" for k'
    using assms(1) that k(1) by (auto simp: canonical_keys_def)
  have one: "st = Some r" if "(k, st) \<in> set targets" for st
    using assms(1,2) that by (auto simp: canonical_keys_def gm_in_set)
  obtain t' where t': "map_of (pTargets (parse_targets targets)) n = Some t'" using parse_has_target [OF assms(2,3)] by auto
  then obtain k' r' where kr: "(k', Some r') \<in> set targets" "decodeTarget k' r' = Some (n, t')" using parse_targets_target by blast
  have "k' = k" using same [of k'] kr decodeTarget_id [OF kr(2)] by (force simp: rev_image_eqI)
  with kr one [of "Some r'"] assms(3) t' show "map_of (pTargets (parse_targets targets)) n = Some t" by simp
  obtain k'' where "map_of (pKeys (parse_targets targets)) n = Some k''"
    using parse_keys(2) [OF _ k(2), of targets] assms(2) by (fastforce simp: rev_image_eqI)
  with parse_keys(1) same show "key_of (parse_targets targets) n = k" by (simp add: key_of_def gm_get_def)
  show "n \<notin> set (pHeld (parse_targets targets))"
  proof
    assume "n \<in> set (pHeld (parse_targets targets))"
    then obtain k3 st where h: "(k3, st) \<in> set targets" "Atoi k3 = Some n" "\<forall>r. st = Some r \<longrightarrow> decodeTarget k3 r = None"
      using parse_held by blast
    then have "k3 = k" using same [of k3] by (force simp: rev_image_eqI)
    with h one [of st] assms(3) show False by simp
  qed
qed

section \<open>Success was seen in the panel\<close>

definition extends :: "xevent list \<Rightarrow> xworld \<Rightarrow> bool" where
  "extends log w \<longleftrightarrow> (\<exists>ys. wLog w = log @ ys)"

lemma extends_ops:
  "extends log w \<Longrightarrow> extends log (snd (call e c w))" "extends log w \<Longrightarrow> extends log (snd (w_flush e w))"
  "extends log w \<Longrightarrow> extends log (snd (w_setReset e email seq w))" "extends log w \<Longrightarrow> extends log (snd (w_setRestartPending e p w))"
  "extends log w \<Longrightarrow> extends log (snd (w_keepOnly e emails w))" "extends log w \<Longrightarrow> extends log (log_event x w)"
  by (auto simp: extends_def call_def w_flush_def w_setReset_def w_setRestartPending_def w_keepOnly_def log_event_def split_beta Let_def)

interpretation log_run: xui_world_property e "extends log" for e log
  by unfold_locales (simp_all add: extends_ops)

lemma apply_restart_result:
  assumes "apply_restart e p codes wrote cleanup w = (codes', err, v)" "(n, t) \<in> set (pTargets p)" "code_of codes' (key_of p n) = []"
  obtains u where "quiet w u" "apply_confirm e p codes wrote cleanup u = (codes', err, v)"
proof (cases "restartPending (wState w)")
  case False
  with assms that [of w] show ?thesis by (simp add: apply_restart_def)
next
  case True
  let ?u = "snd (w_setRestartPending e False (snd (call e Restart w)))"
  have q: "quiet w ?u" by (rule quiet_trans [OF quiet_call quiet_saves(3)]) simp
  have "\<not> (codes' = fail_codes p ''xui_restart_failed'' codes \<or> codes' = fail_codes p ''xui_state_failed'' codes)"
    using assms(3) fail_codes_result [OF _ assms(2), of "''xui_restart_failed''" codes] fail_codes_result [OF _ assms(2), of "''xui_state_failed''" codes]
    by auto
  with assms(1) True have "apply_confirm e p codes wrote cleanup ?u = (codes', err, v)"
    by (auto simp: apply_restart_def split_beta split: if_splits option.splits)
  with q that show ?thesis by blast
qed

lemma xui_Apply_cases:
  assumes "xui_Apply e targets w = (codes', err, v)" "(n, t) \<in> set (pTargets (parse_targets targets))"
    and "code_of codes' (key_of (parse_targets targets) n) = []" and says: "\<And>log c. rErr (xpanel e log c) \<noteq> Some []"
  obtains u codes wrote cleanup x where "u = snd (w_flush e w)" "rErr (fst (call e ListInbounds u)) = None"
    "converge_all e (parse_targets targets) (rInbounds (fst (call e ListInbounds u))) (pCodes (parse_targets targets), False, None)
       (snd (call e ListInbounds u)) = ((codes, wrote, cleanup), x)"
    "apply_restart e (parse_targets targets) (missing_codes (parse_targets targets) (rInbounds (fst (call e ListInbounds u))) codes) wrote cleanup x
       = (codes', err, v)"
proof -
  let ?p = "parse_targets targets" and ?u = "snd (w_flush e w)"
  let ?r = "call e ListInbounds ?u"
  have no: "codes' \<noteq> fail_codes ?p x cs" if "x \<noteq> []" for x cs
    using fail_codes_result [OF that assms(2), of cs] assms(3) by auto
  have flush: "fst (w_flush e w) = None"
    using assms(1) no [of "''xui_state_failed''"] by (cases "fst (w_flush e w)") (auto simp: xui_Apply_def Let_def split_beta)
  have list: "rErr (fst ?r) = None"
  proof (rule ccontr)
    assume "rErr (fst ?r) \<noteq> None"
    then obtain x where x: "rErr (fst ?r) = Some x" by auto
    then have "x \<noteq> []" using says [of "wLog ?u" ListInbounds] by (auto simp: call_def Let_def)
    with x flush assms(1) no [of x] show False by (auto simp: xui_Apply_def Let_def split_beta)
  qed
  obtain codes wrote cleanup x where c: "converge_all e ?p (rInbounds (fst ?r)) (pCodes ?p, False, None) (snd ?r) = ((codes, wrote, cleanup), x)"
    by (metis prod.exhaust)
  show ?thesis
    by (rule that [OF refl list c]) (use assms(1) flush list c in \<open>simp add: xui_Apply_def Let_def split_beta\<close>)
qed


text \<open>A pass over the example panel that finds its inbound in target.\<close>

definition ex_done_inbound :: Inbound_panel where
  "ex_done_inbound = ex_ss_inbound\<lparr>ibSettings := Doc (JObj [(''clients'', JArr [JObj [(''email'', JStr ''ak-a''),
     (''password'', JStr ''AAAAAAAAAAAAAAAAAAAAAA==''), (''enable'', JBool True), (''totalGB'', JNum ''0''), (''expiryTime'', JNum ''0'')]]),
     (''method'', JStr ''2022-blake3-aes-128-gcm'')])\<rparr>"

definition ex_done_env :: xui_env where
  "ex_done_env = ex_good_env\<lparr>xpanel := (\<lambda>log c. \<lparr>rErr = None, rInbounds = [ex_done_inbound]\<rparr>)\<rparr>"

lemma ex_done_codes: "fst (xui_Apply ex_done_env ex_ss_target ex_world) = []"
  by code_simp

lemma ex_done_target: "\<exists>t. decodeTarget ''1'' (Doc (JObj [(''clients'', JArr [ex_ss_client])])) = Some (1, t)"
proof -
  have "map_option fst (decodeTarget ''1'' (Doc (JObj [(''clients'', JArr [ex_ss_client])]))) = Some 1" by code_simp
  then show ?thesis by (cases "decodeTarget ''1'' (Doc (JObj [(''clients'', JArr [ex_ss_client])]))") auto
qed


end
