(* ===== verification/Connection_Records.thy ===== *)
theory Connection_Records
  imports Ledger Xui_Target "HOL-Library.Sublist"
begin

text \<open>
  The records of requests and connections reported to Cloud,
  \<open>src/internal/modules/connectionrecords/module.go\<close>. A record shows its times to the microsecond
  (\<open>timeLayout\<close>), here as the number of microseconds, and its source as an address and port without
  a zone. Report ids are arguments: \<open>protocol.NewUUID\<close> makes them.
\<close>

section \<open>State\<close>

record ending =
  gEndedAt :: int
  gUp :: nat
  gDown :: nat
  gRequests :: int

record crecord =
  cAt :: int
  cEmail :: string
  cSource :: AddrPort
  cNetwork :: string
  cHost :: string
  cDestPort :: nat
  cOutbound :: string
  cBlocked :: bool
  cEnding :: "ending option"

record batch =
  bRecords :: "crecord list"
  bDropped :: nat

record Records =
  queue :: "crecord list"
  dropped :: nat
  waiting_batch :: "(string \<times> batch) option"
  woken :: bool

definition maxBatch :: nat where "maxBatch = 1000"
definition maxQueued :: nat where "maxQueued = 20000"
definition maxOutbound :: nat where "maxOutbound = 128"

definition newRecords :: Records where
  "newRecords = \<lparr>queue = [], dropped = 0, waiting_batch = None, woken = False\<rparr>"

section \<open>Operations\<close>

definition shown :: "gotime \<Rightarrow> int" where "shown t = t div 1000"

definition withoutZone :: "AddrPort \<Rightarrow> AddrPort" where
  "withoutZone ap = ((case fst ap of V4 a \<Rightarrow> V4 a | V6 a z \<Rightarrow> V6 a []), snd ap)"

definition readable_line :: "Line \<Rightarrow> bool" where
  "readable_line l \<longleftrightarrow> \<not> (\<not> Owned (lEmail l) \<or> IsZero (lWritten l) \<or> dHost (lDest l) = [] \<or> lOutbound l = [] \<or> maxOutbound < length (lOutbound l))"

definition record_of :: "Line \<Rightarrow> ending option \<Rightarrow> crecord" where
  "record_of l e = \<lparr>cAt = shown (lWritten l), cEmail = lEmail l, cSource = withoutZone (cRemote (lConn l)), cNetwork = dNetwork (lDest l),
     cHost = dHost (lDest l), cDestPort = dPort (lDest l), cOutbound = lOutbound l, cBlocked = lBlocked l, cEnding = e\<rparr>"

definition wake :: "Records \<Rightarrow> Records" where "wake r = r\<lparr>woken := True\<rparr>"

text \<open>Beyond \<open>maxQueued\<close> the oldest tenth is dropped and counted.\<close>

definition push :: "crecord \<Rightarrow> Records \<Rightarrow> Records" where
  "push c r =
     (let q = queue r @ [c] in
      if maxQueued < length q then
        (let n = length q - maxQueued * 9 div 10 in r\<lparr>queue := drop n q, dropped := dropped r + n\<rparr>)
      else r\<lparr>queue := q\<rparr>)"

definition add_record :: "Line \<Rightarrow> ending option \<Rightarrow> Records \<Rightarrow> Records" where
  "add_record l e r =
     (if \<not> readable_line l then r
      else (let s = push (record_of l e) r in
            if maxBatch \<le> length (queue s) \<and> waiting_batch s = None then wake s else s))"

definition record_Lines :: "Line list \<Rightarrow> Records \<Rightarrow> Records" where
  "record_Lines ls r = fold (\<lambda>l s. if lBacklog l then s else add_record l None s) ls r"

definition ended_line :: "Ended \<Rightarrow> Line" where
  "ended_line e = (let l = nLine e in
     if dNetwork (lDest l) = [] then l\<lparr>lDest := (lDest l)\<lparr>dNetwork := ''tcp''\<rparr>\<rparr> else l)"

definition record_Ended :: "Ended \<Rightarrow> Records \<Rightarrow> Records" where
  "record_Ended e r = add_record (ended_line e)
     (Some \<lparr>gEndedAt = shown (nAt e), gUp = nUp e, gDown = nDown e, gRequests = nRequests e\<rparr>) r"

text \<open>\<open>send\<close> up to publishing: the batch waiting, or the next one under a fresh id.\<close>

definition send_batch :: "string \<Rightarrow> Records \<Rightarrow> (string \<times> batch) option \<times> Records" where
  "send_batch fresh r =
     (let s = (if waiting_batch r = None \<and> (queue r \<noteq> [] \<or> 0 < dropped r) then
                 (let n = min (length (queue r)) maxBatch in
                  r\<lparr>waiting_batch := Some (fresh, \<lparr>bRecords = take n (queue r), bDropped = dropped r\<rparr>),
                    queue := drop n (queue r), dropped := 0\<rparr>)
               else r)
      in (waiting_batch s, s))"

definition record_Acknowledge :: "string \<Rightarrow> Records \<Rightarrow> bool \<times> Records" where
  "record_Acknowledge rid r = (case waiting_batch r of
      None \<Rightarrow> (False, r)
    | Some (i, b) \<Rightarrow> if i \<noteq> rid then (False, r)
        else (let s = r\<lparr>waiting_batch := None\<rparr> in (True, if maxBatch \<le> length (queue s) then wake s else s)))"

section \<open>What happens to every record\<close>

datatype record_event = TakeLines "Line list" | TakeEnded Ended | SendBatch string | AckBatch string

fun records_step :: "record_event \<Rightarrow> Records \<Rightarrow> Records" where
  "records_step (TakeLines ls) r = record_Lines ls r"
| "records_step (TakeEnded e) r = record_Ended e r"
| "records_step (SendBatch i) r = snd (send_batch i r)"
| "records_step (AckBatch i) r = snd (record_Acknowledge i r)"

text \<open>The records an event makes, and the batch an acknowledgement settles.\<close>

fun made :: "record_event \<Rightarrow> crecord list" where
  "made (TakeLines ls) = map (\<lambda>l. record_of l None) (filter (\<lambda>l. \<not> lBacklog l \<and> readable_line l) ls)"
| "made (TakeEnded e) = (if readable_line (ended_line e) then
     [record_of (ended_line e) (Some \<lparr>gEndedAt = shown (nAt e), gUp = nUp e, gDown = nDown e, gRequests = nRequests e\<rparr>)] else [])"
| "made _ = []"

fun stored_by :: "record_event \<Rightarrow> Records \<Rightarrow> batch list" where
  "stored_by (AckBatch i) r = (case waiting_batch r of None \<Rightarrow> [] | Some (j, b) \<Rightarrow> if j = i then [b] else [])"
| "stored_by _ r = []"

text \<open>A run with all records made so far and all batches Cloud has stored.\<close>

fun records_run :: "record_event list \<Rightarrow> crecord list \<times> batch list \<times> Records \<Rightarrow> crecord list \<times> batch list \<times> Records" where
  "records_run [] x = x"
| "records_run (ev # evs) (ms, bs, r) = records_run evs (ms @ made ev, bs @ stored_by ev r, records_step ev r)"

definition in_flight :: "batch list \<Rightarrow> Records \<Rightarrow> batch list" where
  "in_flight bs r = bs @ (case waiting_batch r of None \<Rightarrow> [] | Some (i, b) \<Rightarrow> [b])"

definition reported :: "batch list \<Rightarrow> Records \<Rightarrow> crecord list" where
  "reported bs r = concat (map bRecords (in_flight bs r)) @ queue r"

definition admitted_loss :: "batch list \<Rightarrow> Records \<Rightarrow> nat" where
  "admitted_loss bs r = sum_list (map bDropped (in_flight bs r)) + dropped r"

definition accounted :: "crecord list \<Rightarrow> batch list \<Rightarrow> Records \<Rightarrow> bool" where
  "accounted ms bs r \<longleftrightarrow> subseq (reported bs r) ms \<and> length ms = length (reported bs r) + admitted_loss bs r \<and>
     length (queue r) \<le> maxQueued \<and> (\<forall>b \<in> set (in_flight bs r). length (bRecords b) \<le> maxBatch)"

lemma push_accounted:
  assumes "accounted ms bs r"
  shows "accounted (ms @ [c]) bs (push c r)"
proof -
  let ?b = "concat (map bRecords (in_flight bs r))" and ?n = "length (queue r @ [c]) - maxQueued * 9 div 10"
  have fl: "in_flight bs (push c r) = in_flight bs r" by (simp add: in_flight_def push_def Let_def)
  have full: "subseq (?b @ queue r @ [c]) (ms @ [c])" using assms by (simp add: accounted_def reported_def list_emb_append_mono flip: append_assoc)
  have part: "subseq (?b @ drop ?n (queue r @ [c])) (?b @ queue r @ [c])"
    by (rule list_emb_append_mono [OF _ suffix_imp_subseq [OF suffix_drop]]) simp
  show ?thesis
  proof (cases "maxQueued < length (queue r @ [c])")
    case True
    then have q: "queue (push c r) = drop ?n (queue r @ [c])" "dropped (push c r) = dropped r + ?n" by (simp_all add: push_def Let_def)
    have "?n \<le> length (queue r @ [c])" "length (queue r @ [c]) - ?n \<le> maxQueued" by (simp_all add: maxQueued_def)
    with assms subseq_order.order_trans [OF part full] show ?thesis
      unfolding accounted_def reported_def admitted_loss_def fl q by (simp del: drop_append)
  next
    case False
    then have "queue (push c r) = queue r @ [c]" "dropped (push c r) = dropped r" by (simp_all add: push_def Let_def)
    with assms full False show ?thesis by (simp add: accounted_def reported_def admitted_loss_def fl)
  qed
qed

lemma accounted_cong: "queue s = queue r \<Longrightarrow> dropped s = dropped r \<Longrightarrow> waiting_batch s = waiting_batch r \<Longrightarrow> accounted ms bs s = accounted ms bs r"
  by (simp add: accounted_def reported_def admitted_loss_def in_flight_def)

lemma accounted_wake [simp]: "accounted ms bs (wake r) = accounted ms bs r"
  by (rule accounted_cong) (simp_all add: wake_def)

lemma add_accounted:
  "accounted ms bs r \<Longrightarrow> accounted (ms @ (if readable_line l then [record_of l e] else [])) bs (add_record l e r)"
  by (simp add: add_record_def Let_def push_accounted)

lemma lines_accounted:
  "accounted ms bs r \<Longrightarrow> accounted (ms @ made (TakeLines ls)) bs (record_Lines ls r)"
proof (induction ls arbitrary: ms r)
  case (Cons l ls)
  show ?case
  proof (cases "lBacklog l")
    case True
    with Cons show ?thesis by (simp add: record_Lines_def)
  next
    case False
    with Cons.IH [OF add_accounted [OF Cons.prems, of l None]] show ?thesis by (simp add: record_Lines_def split: if_splits)
  qed
qed (simp add: record_Lines_def)

lemma send_accounted: "accounted ms bs r \<Longrightarrow> accounted ms bs (snd (send_batch i r))"
  by (auto simp: send_batch_def Let_def accounted_def reported_def admitted_loss_def in_flight_def)

lemma ack_accounted: "accounted ms bs r \<Longrightarrow> accounted ms (bs @ stored_by (AckBatch i) r) (snd (record_Acknowledge i r))"
proof (cases "waiting_batch r")
  case None
  then show "accounted ms bs r \<Longrightarrow> ?thesis" by (simp add: record_Acknowledge_def)
next
  case (Some x)
  obtain j b where x: "x = (j, b)" by (cases x)
  assume a: "accounted ms bs r"
  show ?thesis
  proof (cases "j = i")
    case True
    have "accounted ms (bs @ [b]) (r\<lparr>waiting_batch := None\<rparr>)"
      using a Some x by (simp add: accounted_def reported_def admitted_loss_def in_flight_def)
    with True Some x show ?thesis by (simp add: record_Acknowledge_def Let_def)
  next
    case False
    with a Some x show ?thesis by (simp add: record_Acknowledge_def)
  qed
qed

lemma step_accounted: "accounted ms bs r \<Longrightarrow> accounted (ms @ made ev) (bs @ stored_by ev r) (records_step ev r)"
proof (cases ev)
  case (TakeLines ls)
  moreover assume "accounted ms bs r"
  ultimately show ?thesis using lines_accounted [of ms bs r ls] by simp
next
  case (TakeEnded e)
  moreover assume "accounted ms bs r"
  ultimately show ?thesis using add_accounted by (simp add: record_Ended_def split: if_splits)
next
  case (AckBatch i)
  moreover assume "accounted ms bs r"
  ultimately show ?thesis using ack_accounted [of ms bs r i] by simp
qed (simp_all add: send_accounted)

lemma run_accounted: "accounted ms bs r \<Longrightarrow> records_run evs (ms, bs, r) = (ms', bs', r') \<Longrightarrow> accounted ms' bs' r'"
proof (induction evs arbitrary: ms bs r)
  case (Cons ev evs)
  from Cons.IH [OF step_accounted [OF Cons.prems(1)]] Cons.prems(2) show ?case by simp
qed simp

lemma accounted_new: "accounted [] [] newRecords"
  by (simp add: accounted_def reported_def admitted_loss_def in_flight_def newRecords_def)

text \<open>
  C25. No record is lost silently or sent twice. However lines, ended connections, sends and
  acknowledgements follow one another, what Cloud has stored, then the batch waiting for its
  acknowledgement, then the queue are, in this order, some of the records made, in the order they
  were made, and every other record made is counted as dropped in one of those batches or in the
  count the next batch will carry; the queue never holds more than 20000 records and no batch more
  than 1000.
\<close>

theorem records_accounted:
  assumes "records_run evs ([], [], newRecords) = (ms, bs, r)"
  shows "subseq (reported bs r) ms \<and> length ms = length (reported bs r) + admitted_loss bs r \<and>
    length (queue r) \<le> 20000 \<and> (\<forall>b \<in> set (in_flight bs r). length (bRecords b) \<le> 1000)"
  using run_accounted [OF accounted_new assms] by (simp add: accounted_def maxQueued_def maxBatch_def)

definition ex_record_line :: Line where
  "ex_record_line = noLine\<lparr>lEmail := ''ak-a'', lWritten := 5000, lDest := \<lparr>dNetwork = ''tcp'', dHost = ''example.com'', dPort = 443\<rparr>, lOutbound := ''direct''\<rparr>"

lemma ex_record_run:
  "records_run [TakeLines [ex_record_line], SendBatch ''b1'', TakeLines [ex_record_line], AckBatch ''b1''] ([], [], newRecords) =
     ([record_of ex_record_line None, record_of ex_record_line None], [\<lparr>bRecords = [record_of ex_record_line None], bDropped = 0\<rparr>],
      newRecords\<lparr>queue := [record_of ex_record_line None]\<rparr>)"
  by code_simp

theorem records_accounted_witness:
  "subseq (reported [\<lparr>bRecords = [record_of ex_record_line None], bDropped = 0\<rparr>] (newRecords\<lparr>queue := [record_of ex_record_line None]\<rparr>))
     [record_of ex_record_line None, record_of ex_record_line None]"
  using records_accounted [OF ex_record_run] by blast

end
