(* ===== verification/Rate_Rules.thy ===== *)
theory Rate_Rules
  imports Ledger Strconv "HOL-Library.List_Lexorder" "HOL-Library.Char_ord" "HOL-Library.Product_Lexorder"
begin

text \<open>
  The traffic rules of the download limits: \<open>src/internal/modules/ratelimit/rules.go\<close>. A rule is
  one flower filter; \<open>plan\<close> makes the wanted rules from the limits and the users' connections and
  \<open>converge\<close> changes what is installed with one batch of \<open>tc\<close>. Every call of \<open>tc\<close> is recorded in
  a log; what it answers is a function of the log, so that any call may fail at any time. Handles
  and police indexes are \<open>uint32\<close>, here natural numbers with the wrap-around of the handle written
  out; the indexes never leave their range.
\<close>

section \<open>Rules\<close>

record rule =
  uDev :: string
  uProto :: string
  uLocal :: "Addr option \<times> nat"
  uRemote :: AddrPort

record rlTarget =
  DownMbps :: int
  Emails :: "string list"

record desired_rules =
  dRates :: "(string, int) gomap"
  dRules :: "(rule, string) gomap"

definition prefIPv4 :: nat where "prefIPv4 = 49001"
definition prefIPv6 :: nat where "prefIPv6 = 49002"
definition actionBase :: nat where "actionBase = 0xAC000000"
definition maxUsers :: nat where "maxUsers = 4096"
definition maxFilters :: nat where "maxFilters = 16384"

definition family :: "AddrPort \<Rightarrow> string" where
  "family a = (if Is6 (fst a) then ''ipv6'' else ''ip'')"

definition pref :: "AddrPort \<Rightarrow> nat" where
  "pref a = (if Is6 (fst a) then prefIPv6 else prefIPv4)"

text \<open>The match of a rule: a UDP flow's local address is unknown, so it matches by port only.\<close>

definition match_text :: "rule \<Rightarrow> string" where
  "match_text k = ''ip_proto '' @ uProto k @ '' '' @
     (case fst (uLocal k) of None \<Rightarrow> [] | Some a \<Rightarrow> ''src_ip '' @ Addr_String a @ '' '') @
     ''src_port '' @ nat_text (snd (uLocal k)) @ '' dst_ip '' @ Addr_String (fst (uRemote k)) @ '' dst_port '' @ nat_text (snd (uRemote k))"

text \<open>About 100 ms of traffic at once, at least 64 KiB; rates are at most 10000.\<close>

definition burst :: "int \<Rightarrow> int" where
  "burst mbps = max (mbps * 1000000 div 8 div 10) 65536"

section \<open>The wanted rules\<close>

text \<open>\<open>netip\<close> orders addresses by their length, then their value, then their zone; the address
  missing in a UDP flow's local end comes first.\<close>

definition addr_key :: "Addr option \<Rightarrow> nat \<times> nat \<times> string" where
  "addr_key a = (case a of None \<Rightarrow> (0, 0, []) | Some (V4 w) \<Rightarrow> (32, unat w, []) | Some (V6 w z) \<Rightarrow> (128, unat w, z))"

definition flow_key :: "Flow \<Rightarrow> ((nat \<times> nat \<times> string) \<times> nat) \<times> ((nat \<times> nat \<times> string) \<times> nat) \<times> string" where
  "flow_key f = ((addr_key (Some (fst (fRemote f))), snd (fRemote f)), (addr_key (fst (fLocal f)), snd (fLocal f)), fProto f)"

definition rule_key :: "rule \<Rightarrow> string \<times> ((nat \<times> nat \<times> string) \<times> nat) \<times> ((nat \<times> nat \<times> string) \<times> nat) \<times> string" where
  "rule_key k = (uDev k, (addr_key (Some (fst (uRemote k))), snd (uRemote k)), (addr_key (fst (uLocal k)), snd (uLocal k)), uProto k)"

definition noTarget :: rlTarget where "noTarget = \<lparr>DownMbps = 0, Emails = []\<rparr>"

abbreviation limit_of :: "(string, rlTarget) gomap \<Rightarrow> string \<Rightarrow> rlTarget" where
  "limit_of \<equiv> gm_get noTarget"

definition take_owner :: "(string, rlTarget) gomap \<Rightarrow> string \<Rightarrow> string \<Rightarrow> (string, string) gomap \<Rightarrow> (string, string) gomap" where
  "take_owner limits g email owner = (case map_of owner email of
      None \<Rightarrow> AList.update email g owner
    | Some c \<Rightarrow> if DownMbps (limit_of limits g) < DownMbps (limit_of limits c) then AList.update email g owner else owner)"

definition owners :: "(string, rlTarget) gomap \<Rightarrow> string list \<Rightarrow> (string, string) gomap" where
  "owners limits gs = fold (\<lambda>g. fold (take_owner limits g) (Emails (limit_of limits g))) gs []"

definition devs_of :: "string list \<Rightarrow> string list \<Rightarrow> Flow \<Rightarrow> string list" where
  "devs_of v4 v6 f = (if Is6 (fst (fRemote f)) then v6 else v4)"

definition rule_of :: "Flow \<Rightarrow> string \<Rightarrow> rule" where
  "rule_of f dev = \<lparr>uDev = dev, uProto = fProto f, uLocal = fLocal f, uRemote = fRemote f\<rparr>"

definition group_rules :: "(string, rlTarget) gomap \<Rightarrow> (string, string) gomap \<Rightarrow> (string, Flow list) gomap \<Rightarrow> string list \<Rightarrow> string list \<Rightarrow> string \<Rightarrow> rule list" where
  "group_rules limits owner flows v4 v6 g =
     concat (map (\<lambda>email. concat (map (\<lambda>f. map (rule_of f) (devs_of v4 v6 f)) (sort_key flow_key (gm_get [] flows email))))
       (filter (\<lambda>email. gm_get [] owner email = g) (sort (Emails (limit_of limits g)))))"

text \<open>Whether the limit of filters ended the plan, and the rules so far.\<close>

fun plan_rules :: "string \<Rightarrow> rule list \<Rightarrow> desired_rules \<Rightarrow> bool \<times> desired_rules" where
  "plan_rules g [] d = (False, d)"
| "plan_rules g (k # ks) d = (if maxFilters \<le> length (dRules d) then (True, d)
     else plan_rules g ks (d\<lparr>dRules := AList.update k g (dRules d)\<rparr>))"

fun plan_groups :: "(string, rlTarget) gomap \<Rightarrow> (string, string) gomap \<Rightarrow> (string, Flow list) gomap \<Rightarrow> string list \<Rightarrow> string list
    \<Rightarrow> string list \<Rightarrow> desired_rules \<Rightarrow> desired_rules" where
  "plan_groups limits owner flows v4 v6 [] d = d"
| "plan_groups limits owner flows v4 v6 (g # gs) d =
     (case plan_rules g (group_rules limits owner flows v4 v6 g) (d\<lparr>dRates := AList.update g (DownMbps (limit_of limits g)) (dRates d)\<rparr>) of
        (True, r) \<Rightarrow> r
      | (False, r) \<Rightarrow> plan_groups limits owner flows v4 v6 gs r)"

definition plan_limits :: "(string, rlTarget) gomap \<Rightarrow> (string, Flow list) gomap \<Rightarrow> string list \<Rightarrow> string list \<Rightarrow> desired_rules" where
  "plan_limits limits flows v4 v6 =
     (let groups = sort (gm_keys limits) in
      plan_groups limits (owners limits groups) flows v4 v6 groups \<lparr>dRates = [], dRules = []\<rparr>)"

section \<open>The installed rules\<close>

record installed =
  iHandle :: nat
  iIndex :: nat

record rules =
  clsact :: "string list"
  actions :: "(string, nat) gomap"
  rates :: "(nat, int) gomap"
  filters :: "(rule, installed) gomap"
  orphans :: "nat list"
  nextHandle :: nat

definition newRules :: rules where
  "newRules = \<lparr>clsact = [], actions = [], rates = [], filters = [], orphans = [], nextHandle = 0\<rparr>"

text \<open>One line of a batch, and one call of \<open>tc\<close>.\<close>

datatype tc_line = QdiscAdd string | PoliceReplace int nat | FilterDel string string nat nat | FilterAdd rule nat nat

datatype tc_call = Batch "tc_line list" | PoliceDel nat | QdiscShow string | FilterDelPref string nat
  | FilterShow string string | QdiscDel string | PoliceList

definition line_text :: "tc_line \<Rightarrow> string" where
  "line_text l = (case l of
      QdiscAdd dev \<Rightarrow> ''qdisc add dev '' @ dev @ '' clsact''
    | PoliceReplace rate i \<Rightarrow> ''actions replace action police rate '' @ Itoa rate @ ''mbit burst '' @ Itoa (burst rate) @
        '' conform-exceed drop/continue index '' @ nat_text i
    | FilterDel dev fam p h \<Rightarrow> ''filter del dev '' @ dev @ '' egress protocol '' @ fam @ '' pref '' @ nat_text p @ '' handle '' @ nat_text h @ '' flower''
    | FilterAdd k h i \<Rightarrow> ''filter add dev '' @ uDev k @ '' egress protocol '' @ family (uRemote k) @ '' pref '' @ nat_text (pref (uRemote k)) @
        '' handle '' @ nat_text h @ '' flower '' @ match_text k @ '' action police index '' @ nat_text i)"

text \<open>The text on standard input and the arguments of a call.\<close>

definition call_text :: "tc_call \<Rightarrow> string \<times> string list" where
  "call_text c = (case c of
      Batch ls \<Rightarrow> (Join [CHR 0x0A] (map line_text ls) @ [CHR 0x0A], [''-batch'', ''-''])
    | PoliceDel i \<Rightarrow> ([], [''actions'', ''del'', ''action'', ''police'', ''index'', nat_text i])
    | QdiscShow dev \<Rightarrow> ([], [''qdisc'', ''show'', ''dev'', dev])
    | FilterDelPref dev p \<Rightarrow> ([], [''filter'', ''del'', ''dev'', dev, ''egress'', ''pref'', nat_text p])
    | FilterShow dev dir \<Rightarrow> ([], [''filter'', ''show'', ''dev'', dev, dir])
    | QdiscDel dev \<Rightarrow> ([], [''qdisc'', ''del'', ''dev'', dev, ''clsact''])
    | PoliceList \<Rightarrow> ([], [''actions'', ''ls'', ''action'', ''police'']))"

text \<open>What happened: a call of \<open>tc\<close> and whether it succeeded, and a cleanup that found every rule gone.\<close>

datatype tc_event = Ran tc_call bool | Cleaned

type_synonym tc_oracle = "tc_event list \<Rightarrow> tc_call \<Rightarrow> string option"

definition tc_run :: "tc_oracle \<Rightarrow> tc_call \<Rightarrow> tc_event list \<Rightarrow> string option \<times> tc_event list" where
  "tc_run tc c log = (let out = tc log c in (out, log @ [Ran c (out \<noteq> None)]))"

section \<open>Police indexes\<close>

function free_index :: "nat list \<Rightarrow> nat \<Rightarrow> nat" where
  "free_index used n = (if n \<le> maxUsers \<and> actionBase + n \<in> set used then free_index used (n + 1) else n)"
  by pat_completeness auto
termination by (relation "measure (\<lambda>(used, n). maxUsers + 1 - n)") auto

declare free_index.simps [simp del]

fun assign_new :: "nat list \<Rightarrow> nat \<Rightarrow> string list \<Rightarrow> (string, nat) gomap \<Rightarrow> (string, nat) gomap" where
  "assign_new used n [] m = m"
| "assign_new used n (g # gs) m =
     (let i = free_index used n in
      if maxUsers < i then m else assign_new used (i + 1) gs (AList.update g (actionBase + i) m))"

definition assign :: "rules \<Rightarrow> desired_rules \<Rightarrow> (string, nat) gomap" where
  "assign r want =
     (let kept = filter (\<lambda>(g, i). gm_has (dRates want) g) (actions r);
          newcomers = sort (filter (\<lambda>g. \<not> gm_has kept g) (gm_keys (dRates want)))
      in assign_new (orphans r @ map snd (actions r)) 1 newcomers kept)"

section \<open>Converging\<close>

fun drop_orphans :: "tc_oracle \<Rightarrow> nat list \<Rightarrow> tc_event list \<Rightarrow> nat list \<times> tc_event list" where
  "drop_orphans tc [] log = ([], log)"
| "drop_orphans tc (i # is) log =
     (case tc_run tc (PoliceDel i) log of (out, log1) \<Rightarrow>
        (case drop_orphans tc is log1 of (left, log2) \<Rightarrow> (if out = None then i # left else left, log2)))"

definition wanted_index :: "(string, nat) gomap \<Rightarrow> desired_rules \<Rightarrow> rule \<Rightarrow> nat" where
  "wanted_index idx want k = gm_get 0 idx (gm_get [] (dRules want) k)"

definition used_devs :: "(string, nat) gomap \<Rightarrow> desired_rules \<Rightarrow> string list" where
  "used_devs idx want = remdups (map (uDev \<circ> fst) (filter (\<lambda>(k, g). gm_get 0 idx g \<noteq> 0) (dRules want)))"

text \<open>The hooks missing on the devices, or the failure to read one.\<close>

fun hook_lines :: "tc_oracle \<Rightarrow> string list \<Rightarrow> string list \<Rightarrow> tc_event list \<Rightarrow> tc_line list option \<times> tc_event list" where
  "hook_lines tc have [] log = (Some [], log)"
| "hook_lines tc have (dev # devs) log =
     (if dev \<in> set have then hook_lines tc have devs log
      else (case tc_run tc (QdiscShow dev) log of
          (None, log1) \<Rightarrow> (None, log1)
        | (Some out, log1) \<Rightarrow> (case hook_lines tc have devs log1 of
              (None, log2) \<Rightarrow> (None, log2)
            | (Some ls, log2) \<Rightarrow> (Some (if Contains out ''clsact'' then ls else QdiscAdd dev # ls), log2))))"

definition police_lines :: "rules \<Rightarrow> desired_rules \<Rightarrow> (string, nat) gomap \<Rightarrow> tc_line list" where
  "police_lines r want idx =
     map (\<lambda>(g, i). PoliceReplace (gm_get 0 (dRates want) g) i)
       (filter (\<lambda>(g, i). gm_get 0 (actions r) g \<noteq> i \<or> gm_get 0 (rates r) i \<noteq> gm_get 0 (dRates want) g) idx)"

definition stale :: "desired_rules \<Rightarrow> (string, nat) gomap \<Rightarrow> rule \<times> installed \<Rightarrow> bool" where
  "stale want idx x \<longleftrightarrow> wanted_index idx want (fst x) \<noteq> iIndex (snd x)"

definition del_lines :: "rules \<Rightarrow> desired_rules \<Rightarrow> (string, nat) gomap \<Rightarrow> tc_line list" where
  "del_lines r want idx =
     map (\<lambda>(k, h). FilterDel (uDev k) (family (uRemote k)) (pref (uRemote k)) (iHandle h)) (filter (stale want idx) (filters r))"

fun added_filters :: "rules \<Rightarrow> desired_rules \<Rightarrow> (string, nat) gomap \<Rightarrow> rule list \<Rightarrow> nat \<Rightarrow> (rule \<times> installed) list \<times> nat" where
  "added_filters r want idx [] h = ([], h)"
| "added_filters r want idx (k # ks) h =
     (let i = wanted_index idx want k in
      if i = 0 \<or> (\<exists>x \<in> set_option (map_of (filters r) k). iIndex x = i) then added_filters r want idx ks h
      else (let h1 = (h + 1) mod 2 ^ 32; (xs, h2) = added_filters r want idx ks h1
            in ((k, \<lparr>iHandle = h1, iIndex = i\<rparr>) # xs, h2)))"

definition add_lines :: "(rule \<times> installed) list \<Rightarrow> tc_line list" where
  "add_lines xs = map (\<lambda>(k, x). FilterAdd k (iHandle x) (iIndex x)) xs"

definition record_batch :: "rules \<Rightarrow> desired_rules \<Rightarrow> (string, nat) gomap \<Rightarrow> (rule \<times> installed) list \<Rightarrow> rules" where
  "record_batch r want idx added =
     (let gone = map snd (filter (\<lambda>(g, i). gm_get 0 idx g \<noteq> i) (actions r)) in
      r\<lparr>clsact := used_devs idx want @ clsact r,
        filters := fold (\<lambda>(k, x). AList.update k x) added (filter (\<lambda>x. \<not> stale want idx x) (filters r)),
        orphans := gone @ orphans r,
        actions := idx,
        rates := fold (\<lambda>(g, i). AList.update i (gm_get 0 (dRates want) g)) idx (filter (\<lambda>(i, v). i \<notin> set gone) (rates r))\<rparr>)"

text \<open>Whether the convergence succeeded.\<close>

definition rl_converge :: "tc_oracle \<Rightarrow> desired_rules \<Rightarrow> rules \<times> tc_event list \<Rightarrow> bool \<times> rules \<times> tc_event list" where
  "rl_converge tc want w =
     (case w of (r, log) \<Rightarrow> case drop_orphans tc (orphans r) log of (left, log1) \<Rightarrow>
      let r1 = r\<lparr>orphans := left\<rparr>; idx = assign r1 want in
      case hook_lines tc (clsact r1) (used_devs idx want) log1 of
        (None, log2) \<Rightarrow> (False, r1, log2)
      | (Some hooks, log2) \<Rightarrow>
          let (added, h) = added_filters r1 want idx (sort_key rule_key (gm_keys (dRules want))) (nextHandle r1);
              r2 = r1\<lparr>nextHandle := h\<rparr>;
              batch = hooks @ police_lines r1 want idx @ del_lines r1 want idx @ add_lines added
          in if batch = [] then (True, record_batch r2 want idx added, log2)
             else (case tc_run tc (Batch batch) log2 of
                 (None, log3) \<Rightarrow> (False, r2, log3)
               | (Some out, log3) \<Rightarrow> (True, record_batch r2 want idx added, log3)))"

section \<open>Drift\<close>

definition hasOwnFilter :: "string \<Rightarrow> bool" where
  "hasOwnFilter out \<longleftrightarrow> Contains out (''pref '' @ nat_text prefIPv4 @ '' '') \<or> Contains out (''pref '' @ nat_text prefIPv6 @ '' '')"

definition own_lines :: "string \<Rightarrow> nat" where
  "own_lines out = length (filter (\<lambda>l. hasOwnFilter l \<and> Contains l ''handle 0x'') (Split (CHR 0x0A) out))"

fun drifted_devs :: "tc_oracle \<Rightarrow> rules \<Rightarrow> string list \<Rightarrow> tc_event list \<Rightarrow> bool \<times> tc_event list" where
  "drifted_devs tc r [] log = (False, log)"
| "drifted_devs tc r (dev # devs) log =
     (case tc_run tc (FilterShow dev ''egress'') log of
        (None, log1) \<Rightarrow> (True, log1)
      | (Some out, log1) \<Rightarrow>
          if own_lines out \<noteq> length (filter (\<lambda>(k, x). uDev k = dev) (filters r)) then (True, log1)
          else drifted_devs tc r devs log1)"

definition drifted :: "tc_oracle \<Rightarrow> rules \<Rightarrow> tc_event list \<Rightarrow> bool \<times> tc_event list" where
  "drifted tc r log = drifted_devs tc r (remdups (clsact r)) log"


section \<open>The plan\<close>

lemma take_owners:
  "map_of (fold (take_owner limits g) es m) email =
     (if email \<notin> set es then map_of m email
      else case map_of m email of None \<Rightarrow> Some g
        | Some c \<Rightarrow> Some (if DownMbps (limit_of limits g) < DownMbps (limit_of limits c) then g else c))"
  by (induction es arbitrary: m) (auto simp: take_owner_def map_of_update_gm split: option.splits)

text \<open>The group an email follows: the first with the lowest limit.\<close>

definition follows_limit :: "(string, rlTarget) gomap \<Rightarrow> string set \<Rightarrow> string \<Rightarrow> string \<Rightarrow> bool" where
  "follows_limit limits gs email g \<longleftrightarrow> g \<in> gs \<and> email \<in> set (Emails (limit_of limits g)) \<and>
     (\<forall>h \<in> gs. email \<in> set (Emails (limit_of limits h)) \<longrightarrow> DownMbps (limit_of limits g) \<le> DownMbps (limit_of limits h))"

lemma owners_lowest:
  "(case map_of (owners limits gs) email of
      None \<Rightarrow> \<forall>h \<in> set gs. email \<notin> set (Emails (limit_of limits h))
    | Some g \<Rightarrow> follows_limit limits (set gs) email g)"
proof (induction gs rule: rev_induct)
  case (snoc g gs)
  then show ?case
    by (auto simp: owners_def take_owners follows_limit_def split: option.splits if_splits)
qed (simp add: owners_def)

lemma owners_Some: "map_of (owners limits gs) email = Some g \<Longrightarrow> follows_limit limits (set gs) email g"
  using owners_lowest [where limits = limits and gs = gs and email = email] by simp

lemma owners_exist:
  "g \<in> set gs \<Longrightarrow> email \<in> set (Emails (limit_of limits g)) \<Longrightarrow> \<exists>h. map_of (owners limits gs) email = Some h"
  using owners_lowest [where limits = limits and gs = gs and email = email] by (cases "map_of (owners limits gs) email") auto

lemma length_update_le: "length (AList.update k v m) \<le> Suc (length m)"
  by (induction m) auto

lemma plan_rules_result:
  assumes "plan_rules g ks d = (full, r)" "length (dRules d) \<le> maxFilters"
  shows "length (dRules r) \<le> maxFilters \<and> dRates r = dRates d \<and>
    (\<forall>k h. map_of (dRules r) k = Some h \<longrightarrow> map_of (dRules d) k = Some h \<or> k \<in> set ks \<and> h = g) \<and>
    (\<forall>k. map_of (dRules d) k \<noteq> None \<longrightarrow> map_of (dRules r) k \<noteq> None) \<and>
    (if full then length (dRules r) = maxFilters else \<forall>k \<in> set ks. map_of (dRules r) k \<noteq> None)"
  using assms
proof (induction ks arbitrary: d)
  case (Cons k ks)
  show ?case
  proof (cases "maxFilters \<le> length (dRules d)")
    case True
    with Cons.prems show ?thesis by auto
  next
    case False
    let ?d = "d\<lparr>dRules := AList.update k g (dRules d)\<rparr>"
    from False have run: "plan_rules g ks ?d = (full, r)" using Cons.prems(1) by simp
    have len: "length (dRules ?d) \<le> maxFilters" using False length_update_le [of k g "dRules d"] by simp
    from Cons.IH [OF run len] show ?thesis
      by (auto simp: map_of_update_gm split: if_splits)
  qed
qed simp

lemma gm_ok_plan_rules: "gm_ok (dRules d) \<Longrightarrow> gm_ok (dRules (snd (plan_rules g ks d)))"
  by (induction ks arbitrary: d) auto

definition planned :: "(string, rlTarget) gomap \<Rightarrow> (string, string) gomap \<Rightarrow> (string, Flow list) gomap \<Rightarrow> string list \<Rightarrow> string list \<Rightarrow> string list \<Rightarrow> desired_rules \<Rightarrow> bool" where
  "planned limits owner flows v4 v6 gs d \<longleftrightarrow> length (dRules d) \<le> maxFilters \<and> gm_ok (dRules d) \<and> gm_ok (dRates d) \<and>
     (\<forall>g. map_of (dRates d) g = (if g \<in> set gs then Some (DownMbps (limit_of limits g)) else None)) \<and>
     (\<forall>k g. map_of (dRules d) k = Some g \<longrightarrow> g \<in> set gs \<and> k \<in> set (group_rules limits owner flows v4 v6 g))"

lemma plan_groups_result:
  assumes "planned limits owner flows v4 v6 done d"
    and "\<forall>g \<in> set done. \<forall>k \<in> set (group_rules limits owner flows v4 v6 g). map_of (dRules d) k \<noteq> None"
  shows "\<exists>rs. set rs \<subseteq> set (done @ gs) \<and> planned limits owner flows v4 v6 rs (plan_groups limits owner flows v4 v6 gs d) \<and>
    (length (dRules (plan_groups limits owner flows v4 v6 gs d)) = maxFilters \<or>
     set rs = set (done @ gs) \<and> (\<forall>g \<in> set rs. \<forall>k \<in> set (group_rules limits owner flows v4 v6 g).
       map_of (dRules (plan_groups limits owner flows v4 v6 gs d)) k \<noteq> None))"
  using assms
proof (induction gs arbitrary: "done" d)
  case Nil
  then show ?case by (intro exI [of _ "done"]) simp
next
  case (Cons g gs)
  let ?d = "d\<lparr>dRates := AList.update g (DownMbps (limit_of limits g)) (dRates d)\<rparr>"
  obtain full r where run: "plan_rules g (group_rules limits owner flows v4 v6 g) ?d = (full, r)" by (metis prod.exhaust)
  have len: "length (dRules ?d) \<le> maxFilters" using Cons.prems(1) by (simp add: planned_def)
  note res = plan_rules_result [OF run len]
  have ok: "gm_ok (dRules r)" using gm_ok_plan_rules [of ?d g "group_rules limits owner flows v4 v6 g"] run Cons.prems(1)
    by (simp add: planned_def)
  have step: "planned limits owner flows v4 v6 (done @ [g]) r"
    unfolding planned_def
  proof (intro conjI allI impI)
    fix h
    show "map_of (dRates r) h = (if h \<in> set (done @ [g]) then Some (DownMbps (limit_of limits h)) else None)"
      using res Cons.prems(1) by (simp add: planned_def map_of_update_gm)
  next
    fix k h assume "map_of (dRules r) k = Some h"
    with res have "map_of (dRules d) k = Some h \<or> k \<in> set (group_rules limits owner flows v4 v6 g) \<and> h = g" by simp
    then show "h \<in> set (done @ [g])" "k \<in> set (group_rules limits owner flows v4 v6 h)"
      using Cons.prems(1) by (auto simp: planned_def)
  qed (use res ok Cons.prems(1) in \<open>auto simp: planned_def\<close>)
  show ?case
  proof (cases full)
    case True
    then have "plan_groups limits owner flows v4 v6 (g # gs) d = r" using run by simp
    then show ?thesis using step res True by (intro exI [of _ "done @ [g]"]) auto
  next
    case False
    have "\<forall>h \<in> set (done @ [g]). \<forall>k \<in> set (group_rules limits owner flows v4 v6 h). map_of (dRules r) k \<noteq> None"
      using res False Cons.prems(2) by auto
    from Cons.IH [OF step this] show ?thesis using run False by simp
  qed
qed

lemma set_group_rules:
  "k \<in> set (group_rules limits owner flows v4 v6 g) \<longleftrightarrow>
     (\<exists>email f dev. email \<in> set (Emails (limit_of limits g)) \<and> gm_get [] owner email = g \<and> f \<in> set (gm_get [] flows email) \<and>
        dev \<in> set (devs_of v4 v6 f) \<and> k = rule_of f dev)"
  by (auto simp: group_rules_def)

lemma plan_limits_planned:
  obtains rs where "set rs \<subseteq> set (gm_keys limits)" "planned limits (owners limits (sort (gm_keys limits))) flows v4 v6 rs (plan_limits limits flows v4 v6)"
    "length (dRules (plan_limits limits flows v4 v6)) = maxFilters \<or> set rs = set (gm_keys limits) \<and>
      (\<forall>g \<in> set rs. \<forall>k \<in> set (group_rules limits (owners limits (sort (gm_keys limits))) flows v4 v6 g).
        map_of (dRules (plan_limits limits flows v4 v6)) k \<noteq> None)"
proof -
  have start: "planned limits (owners limits (sort (gm_keys limits))) flows v4 v6 [] \<lparr>dRates = [], dRules = []\<rparr>" by (simp add: planned_def)
  show ?thesis
    using that plan_groups_result [OF start, of "sort (gm_keys limits)"] by (auto simp: plan_limits_def Let_def)
qed

text \<open>
  The plan of a limit: no more than 16384 rules; every rule is for a connection of a client
  that its group names, on an interface of the connection's family, and of all groups that name
  this client none has a lower limit; the group's rate is its limit. Unless the plan is full, every
  connection of every client named in a group has its rule on every interface of its family.
\<close>

theorem plan_limits_exact:
  "length (dRules (plan_limits limits flows v4 v6)) \<le> 16384 \<and>
   (\<forall>k g. map_of (dRules (plan_limits limits flows v4 v6)) k = Some g \<longrightarrow>
      map_of (dRates (plan_limits limits flows v4 v6)) g = Some (DownMbps (limit_of limits g)) \<and>
      (\<exists>email f dev. follows_limit limits (set (gm_keys limits)) email g \<and> f \<in> set (gm_get [] flows email) \<and>
         dev \<in> set (devs_of v4 v6 f) \<and> k = rule_of f dev)) \<and>
   (length (dRules (plan_limits limits flows v4 v6)) = 16384 \<or>
      (\<forall>g email f dev. g \<in> set (gm_keys limits) \<and> email \<in> set (Emails (limit_of limits g)) \<and> f \<in> set (gm_get [] flows email) \<and>
         dev \<in> set (devs_of v4 v6 f) \<longrightarrow> map_of (dRules (plan_limits limits flows v4 v6)) (rule_of f dev) \<noteq> None))"
proof -
  let ?d = "plan_limits limits flows v4 v6" and ?gs = "sort (gm_keys limits)"
  obtain rs where rs: "set rs \<subseteq> set (gm_keys limits)" "planned limits (owners limits ?gs) flows v4 v6 rs ?d"
    "length (dRules ?d) = maxFilters \<or> set rs = set (gm_keys limits) \<and>
      (\<forall>g \<in> set rs. \<forall>k \<in> set (group_rules limits (owners limits ?gs) flows v4 v6 g). map_of (dRules ?d) k \<noteq> None)"
    by (rule plan_limits_planned)
  have sound: "map_of (dRates ?d) g = Some (DownMbps (limit_of limits g)) \<and>
      (\<exists>email f dev. follows_limit limits (set (gm_keys limits)) email g \<and> f \<in> set (gm_get [] flows email) \<and>
         dev \<in> set (devs_of v4 v6 f) \<and> k = rule_of f dev)" if k: "map_of (dRules ?d) k = Some g" for k g
  proof -
    from k rs(2) have g: "g \<in> set rs" and "k \<in> set (group_rules limits (owners limits ?gs) flows v4 v6 g)" by (auto simp: planned_def)
    then obtain email f dev where e: "email \<in> set (Emails (limit_of limits g))" "gm_get [] (owners limits ?gs) email = g"
      "f \<in> set (gm_get [] flows email)" "dev \<in> set (devs_of v4 v6 f)" "k = rule_of f dev"
      by (auto simp: set_group_rules)
    from g rs(1) have in_gs: "g \<in> set ?gs" by auto
    from owners_exist [OF in_gs e(1)] e(2) have "map_of (owners limits ?gs) email = Some g" by (auto simp: gm_get_def)
    from owners_Some [OF this] have "follows_limit limits (set (gm_keys limits)) email g" by simp
    with e(3-5) g rs(2) show ?thesis by (auto simp: planned_def)
  qed
  have complete: "map_of (dRules ?d) (rule_of f dev) \<noteq> None"
    if few: "length (dRules ?d) \<noteq> maxFilters" and g: "g \<in> set (gm_keys limits)" "email \<in> set (Emails (limit_of limits g))"
      and f: "f \<in> set (gm_get [] flows email)" "dev \<in> set (devs_of v4 v6 f)" for g email f dev
  proof -
    from g(1) have "g \<in> set ?gs" by simp
    from owners_exist [OF this g(2)] obtain h where h: "map_of (owners limits ?gs) email = Some h" by blast
    from owners_Some [OF this] have "h \<in> set (gm_keys limits)" "email \<in> set (Emails (limit_of limits h))" by (auto simp: follows_limit_def)
    moreover from h have "gm_get [] (owners limits ?gs) email = h" by (simp add: gm_get_def)
    ultimately have "rule_of f dev \<in> set (group_rules limits (owners limits ?gs) flows v4 v6 h)" using f by (auto simp: set_group_rules)
    with few rs(3) \<open>h \<in> set (gm_keys limits)\<close> show ?thesis by auto
  qed
  have "length (dRules ?d) \<le> maxFilters" using rs(2) by (simp add: planned_def)
  with sound complete show ?thesis unfolding maxFilters_def by blast
qed


definition ex_limits :: "(string, rlTarget) gomap" where
  "ex_limits = [(''g'', \<lparr>DownMbps = 50, Emails = [''ak-a'']\<rparr>), (''h'', \<lparr>DownMbps = 20, Emails = [''ak-a'']\<rparr>)]"

definition ex_flow :: Flow where
  "ex_flow = \<lparr>fProto = ''tcp'', fLocal = (Some (V4 0x01020304), 443), fRemote = (V4 0x08080808, 50000)\<rparr>"

lemma ex_plan_limits: "plan_limits ex_limits [(''ak-a'', [ex_flow])] [''eth0''] [] =
    \<lparr>dRates = [(''g'', 50), (''h'', 20)], dRules = [(rule_of ex_flow ''eth0'', ''h'')]\<rparr>"
  by (simp add: ex_limits_def ex_flow_def plan_limits_def owners_def take_owner_def group_rules_def gm_get_def devs_of_def Is6_def Is4_def
      maxFilters_def Let_def)

theorem plan_limits_exact_witness:
  "map_of (dRules (plan_limits ex_limits [(''ak-a'', [ex_flow])] [''eth0''] [])) (rule_of ex_flow ''eth0'') \<noteq> None \<and>
   follows_limit ex_limits {''g'', ''h''} ''ak-a'' ''h''"
proof -
  note e = plan_limits_exact [of ex_limits "[(''ak-a'', [ex_flow])]" "[''eth0'']" "[]"]
  have "map_of (dRules (plan_limits ex_limits [(''ak-a'', [ex_flow])] [''eth0''] [])) (rule_of ex_flow ''eth0'') = Some ''h''"
    by (simp add: ex_plan_limits)
  moreover from this e obtain email f where "follows_limit ex_limits (set (gm_keys ex_limits)) email ''h''"
    "f \<in> set (gm_get [] [(''ak-a'', [ex_flow])] email)" by blast
  then have "follows_limit ex_limits {''g'', ''h''} ''ak-a'' ''h''"
    by (cases "email = ''ak-a''") (auto simp: ex_limits_def gm_get_def insert_commute)
  ultimately show ?thesis by simp
qed

end
