(* ===== verification/Rate_Table.thy ===== *)
theory Rate_Table
  imports Rate_Rules
begin

text \<open>
  What the calls of \<open>tc\<close> amount to. The table replays the log: it is known again after a cleanup
  that found every rule gone, each successful batch changes it line by line, and it is unknown
  after a failed batch or while a cleanup is under way. The theory shows that a successful
  \<open>converge\<close> leaves exactly the wanted rules in it, and that the module's records say the same.
\<close>

section \<open>Police indexes\<close>

lemma free_index_ge: "n \<le> free_index used n"
  by (induction used n rule: free_index.induct) (subst free_index.simps, auto)

lemma free_index_free: "free_index used n \<le> maxUsers \<Longrightarrow> actionBase + free_index used n \<notin> set used"
proof (induction used n rule: free_index.induct)
  case (1 used n)
  then show ?case by (cases "n \<le> maxUsers \<and> actionBase + n \<in> set used") (simp_all add: free_index.simps [of used n])
qed

lemma free_index_skips: "n \<le> j \<Longrightarrow> j < free_index used n \<Longrightarrow> actionBase + j \<in> set used"
proof (induction used n rule: free_index.induct)
  case (1 used n)
  then show ?case
    by (cases "n \<le> maxUsers \<and> actionBase + n \<in> set used"; cases "j = n") (simp_all add: free_index.simps [of used n])
qed

definition index_range :: "nat \<Rightarrow> bool" where
  "index_range i \<longleftrightarrow> actionBase < i \<and> i \<le> actionBase + maxUsers"

definition indexes_ok :: "(string, nat) gomap \<Rightarrow> bool" where
  "indexes_ok m \<longleftrightarrow> gm_ok m \<and> distinct (map snd m) \<and> (\<forall>i \<in> set (map snd m). index_range i)"

lemma assign_new_ok:
  assumes "indexes_ok m" "distinct gs" "set gs \<inter> set (gm_keys m) = {}" "1 \<le> n"
    and "\<forall>i \<in> set (map snd m). i \<in> set used \<or> i < actionBase + n"
  shows "\<exists>new. assign_new used n gs m = m @ new \<and> indexes_ok (m @ new) \<and> set (gm_keys new) \<subseteq> set gs \<and>
    (\<forall>i \<in> set (map snd new). i \<notin> set used)"
  using assms
proof (induction gs arbitrary: n m)
  case Nil
  then show ?case by simp
next
  case (Cons g gs)
  let ?i = "free_index used n"
  show ?case
  proof (cases "maxUsers < ?i")
    case True
    with Cons.prems show ?thesis by simp
  next
    case False
    have g: "g \<notin> set (gm_keys m)" using Cons.prems(3) by auto
    have free: "actionBase + ?i \<notin> set used" using False free_index_free by simp
    have i: "n \<le> ?i" by (rule free_index_ge)
    have ok: "indexes_ok (m @ [(g, actionBase + ?i)])"
      using Cons.prems(1,4,5) False free i g by (force simp: indexes_ok_def index_range_def gm_ok_def)
    have "\<exists>new. assign_new used (?i + 1) gs (m @ [(g, actionBase + ?i)]) = (m @ [(g, actionBase + ?i)]) @ new \<and>
      indexes_ok ((m @ [(g, actionBase + ?i)]) @ new) \<and> set (gm_keys new) \<subseteq> set gs \<and> (\<forall>i \<in> set (map snd new). i \<notin> set used)"
    proof (rule Cons.IH [OF ok])
      show "\<forall>j \<in> set (map snd (m @ [(g, actionBase + ?i)])). j \<in> set used \<or> j < actionBase + (?i + 1)"
        using Cons.prems(5) i by fastforce
    qed (use Cons.prems in auto)
    then obtain new where new: "assign_new used (?i + 1) gs (m @ [(g, actionBase + ?i)]) = (m @ [(g, actionBase + ?i)]) @ new"
      "indexes_ok ((m @ [(g, actionBase + ?i)]) @ new)" "set (gm_keys new) \<subseteq> set gs" "\<forall>i \<in> set (map snd new). i \<notin> set used" by blast
    show ?thesis
      by (rule exI [of _ "(g, actionBase + ?i) # new"]) (use new False g free in \<open>auto simp: Let_def update_new\<close>)
  qed
qed

lemma gm_has_update [simp]: "gm_has (AList.update k v m) x \<longleftrightarrow> x = k \<or> gm_has m x"
  by (simp add: gm_has_def gm_simps)

lemma assign_new_keeps: "gm_has m x \<Longrightarrow> gm_has (assign_new used n gs m) x"
  by (induction gs arbitrary: n m) (simp_all add: Let_def)

text \<open>A newcomer is left without an index only when every index is in use.\<close>

lemma assign_new_total:
  assumes "g \<in> set gs" "\<not> gm_has (assign_new used n gs m) g" "distinct gs" "set gs \<inter> set (gm_keys m) = {}"
    and "\<forall>j. 1 \<le> j \<and> j < n \<longrightarrow> actionBase + j \<in> set used \<union> set (map snd m)"
  shows "\<forall>j. 1 \<le> j \<and> j \<le> maxUsers \<longrightarrow> actionBase + j \<in> set used \<union> set (map snd (assign_new used n gs m))"
  using assms
proof (induction gs arbitrary: n m)
  case (Cons h gs)
  let ?i = "free_index used n" and ?m = "AList.update h (actionBase + free_index used n) m"
  have skip: "actionBase + j \<in> set used \<union> set (map snd m)" if "1 \<le> j" "j < ?i" for j
    using Cons.prems(5) free_index_skips [of n j used] that by (cases "j < n") auto
  show ?case
  proof (cases "maxUsers < ?i")
    case True
    with skip show ?thesis by auto
  next
    case False
    have new: "?m = m @ [(h, actionBase + ?i)]" using Cons.prems(4) by (intro update_new) auto
    have "g \<noteq> h" using Cons.prems(2) False assign_new_keeps [of ?m h used "?i + 1" gs] by (auto simp: Let_def)
    moreover have "actionBase + j \<in> set used \<union> set (map snd ?m)" if "1 \<le> j" "j < ?i + 1" for j
      using skip [of j] that unfolding new by (cases "j = ?i") auto
    ultimately show ?thesis
      using Cons.IH [of "?i + 1" ?m] Cons.prems(1-4) False by (auto simp: Let_def new)
  qed
qed simp

lemma index_range_pos: "index_range i \<Longrightarrow> i \<noteq> 0"
  by (simp add: index_range_def)

lemma indexes_ok_get: "indexes_ok m \<Longrightarrow> map_of m g = Some i \<Longrightarrow> index_range i"
  by (force simp: indexes_ok_def dest: map_of_SomeD)

lemma indexes_ok_inj: "indexes_ok m \<Longrightarrow> map_of m g = Some i \<Longrightarrow> map_of m h = Some i \<Longrightarrow> g = h"
  by (auto simp: indexes_ok_def dest!: map_of_SomeD dest: distinct_map_inj_on_eq)

lemma gm_get_index: "indexes_ok m \<Longrightarrow> i \<noteq> 0 \<Longrightarrow> gm_get 0 m g = i \<longleftrightarrow> map_of m g = Some i"
  by (auto simp: gm_get_def split: option.splits)

lemma gm_get_in: "gm_get 0 m g = i \<Longrightarrow> i \<noteq> (0::nat) \<Longrightarrow> i \<in> set (map snd m)"
  by (cases "map_of m g") (force simp: gm_get_def dest: map_of_SomeD)+

lemma gm_get_index_0: "indexes_ok m \<Longrightarrow> gm_get 0 m g = 0 \<longleftrightarrow> map_of m g = None"
  by (auto simp: gm_get_def dest: indexes_ok_get index_range_pos split: option.splits)

section \<open>Well-formed records\<close>

definition rules_ok :: "rules \<Rightarrow> bool" where
  "rules_ok r \<longleftrightarrow> gm_ok (filters r) \<and> indexes_ok (actions r) \<and> gm_ok (rates r) \<and>
     (\<forall>k x. map_of (filters r) k = Some x \<longrightarrow> 0 < iHandle x \<and> iHandle x \<le> nextHandle r \<and> iIndex x \<in> set (map snd (actions r))) \<and>
     (\<forall>k x l y. map_of (filters r) k = Some x \<and> map_of (filters r) l = Some y \<and> iHandle x = iHandle y \<longrightarrow> k = l) \<and>
     (\<forall>i \<in> set (orphans r). index_range i \<and> i \<notin> set (map snd (actions r))) \<and>
     (\<forall>i. map_of (rates r) i \<noteq> None \<longleftrightarrow> i \<in> set (map snd (actions r)))"

lemma rules_ok_action: "rules_ok r \<Longrightarrow> (g, i) \<in> set (actions r) \<Longrightarrow> index_range i"
proof -
  assume ok: "rules_ok r" and "(g, i) \<in> set (actions r)"
  then have "i \<in> set (map snd (actions r))" by force
  with ok show "index_range i" unfolding rules_ok_def indexes_ok_def by blast
qed

lemma rules_ok_rates: "rules_ok r \<Longrightarrow> map_of (rates r) i \<noteq> None \<longleftrightarrow> i \<in> set (map snd (actions r))"
  unfolding rules_ok_def by blast

lemma rules_ok_orphans: "rules_ok r \<Longrightarrow> i \<in> set (orphans r) \<Longrightarrow> i \<notin> set (map snd (actions r))"
  unfolding rules_ok_def by blast

lemma rules_ok_new [simp]: "rules_ok newRules"
  by (simp add: rules_ok_def newRules_def indexes_ok_def)

definition wants_ok :: "desired_rules \<Rightarrow> bool" where
  "wants_ok d \<longleftrightarrow> gm_ok (dRates d) \<and> gm_ok (dRules d) \<and> \<not> gm_has (dRates d) [] \<and>
     (\<forall>k g. map_of (dRules d) k = Some g \<longrightarrow> gm_has (dRates d) g)"

lemma assign_result:
  assumes "rules_ok r" "wants_ok want"
  shows "indexes_ok (assign r want) \<and>
    (\<forall>g i. map_of (assign r want) g = Some i \<longrightarrow> gm_has (dRates want) g \<and> i \<notin> set (orphans r) \<and>
       (map_of (actions r) g = Some i \<or> i \<notin> set (map snd (actions r)) \<and> map_of (actions r) g = None)) \<and>
    (\<forall>g i. map_of (actions r) g = Some i \<and> gm_has (dRates want) g \<longrightarrow> map_of (assign r want) g = Some i) \<and>
    (\<forall>g. gm_has (dRates want) g \<longrightarrow> gm_has (assign r want) g \<or>
       (\<forall>i. index_range i \<longrightarrow> i \<in> set (orphans r) \<union> set (map snd (actions r)) \<union> set (map snd (assign r want))))"
proof -
  let ?kept = "filter (\<lambda>(g, i). gm_has (dRates want) g) (actions r)"
  let ?new = "sort (filter (\<lambda>g. \<not> gm_has ?kept g) (gm_keys (dRates want)))" and ?used = "orphans r @ map snd (actions r)"
  have acts: "gm_ok (actions r)" "distinct (map snd (actions r))" using assms(1) by (simp_all add: rules_ok_def indexes_ok_def)
  have kept: "indexes_ok ?kept"
    using assms(1) by (auto simp: rules_ok_def indexes_ok_def distinct_map_filter)
  have of_kept: "map_of ?kept g = (if gm_has (dRates want) g then map_of (actions r) g else None)" for g
    by (rule map_of_filter_key)
  have "\<exists>new. assign_new ?used 1 ?new ?kept = ?kept @ new \<and> indexes_ok (?kept @ new) \<and> set (gm_keys new) \<subseteq> set ?new \<and>
    (\<forall>i \<in> set (map snd new). i \<notin> set ?used)"
    by (rule assign_new_ok [OF kept]) (use assms(2) in \<open>auto simp: wants_ok_def gm_ok_def gm_has_iff\<close>)
  then obtain new where new: "assign r want = ?kept @ new" "indexes_ok (?kept @ new)" "set (gm_keys new) \<subseteq> set ?new"
    "\<forall>i \<in> set (map snd new). i \<notin> set ?used" by (auto simp: assign_def Let_def)
  have in_new: "gm_has (dRates want) g \<and> i \<notin> set (orphans r) \<and> i \<notin> set (map snd (actions r)) \<and> map_of (actions r) g = None"
    if "map_of new g = Some i" for g i
  proof -
    from that have m: "(g, i) \<in> set new" by (rule map_of_SomeD)
    then have "g \<in> set ?new" using new(3) by force
    then have "g \<in> set (gm_keys (dRates want))" "\<not> gm_has ?kept g" by simp_all
    then have "gm_has (dRates want) g" "map_of ?kept g = None" by (simp add: gm_has_iff, simp add: gm_has_def)
    moreover have "i \<notin> set ?used" using new(4) m by force
    ultimately show ?thesis using of_kept by auto
  qed
  have in_kept: "gm_has (dRates want) g \<and> i \<notin> set (orphans r) \<and> map_of (actions r) g = Some i" if "map_of ?kept g = Some i" for g i
  proof -
    from that of_kept [of g] have g: "gm_has (dRates want) g" "map_of (actions r) g = Some i" by (simp_all split: if_splits)
    from g(2) have "i \<in> set (map snd (actions r))" by (force dest: map_of_SomeD)
    with g assms(1) show ?thesis by (auto simp: rules_ok_def)
  qed
  have full: "i \<in> set (orphans r) \<union> set (map snd (actions r)) \<union> set (map snd (assign r want))"
    if g: "gm_has (dRates want) g" "\<not> gm_has (assign r want) g" and i: "index_range i" for g i
  proof -
    have a: "assign r want = assign_new ?used 1 ?new ?kept" by (simp add: assign_def Let_def)
    have "\<not> gm_has ?kept g" using g(2) unfolding a by (meson assign_new_keeps)
    then have "g \<in> set ?new" using g(1) by (simp add: gm_has_iff [of "dRates want"])
    then have "\<forall>j. 1 \<le> j \<and> j \<le> maxUsers \<longrightarrow> actionBase + j \<in> set ?used \<union> set (map snd (assign_new ?used 1 ?new ?kept))"
      by (rule assign_new_total) (use g(2) a assms(2) in \<open>auto simp: wants_ok_def gm_ok_def gm_has_iff\<close>)
    moreover obtain j where "1 \<le> j" "j \<le> maxUsers" "i = actionBase + j" using i by (metis index_range_def add_le_cancel_left le_add_diff_inverse less_imp_le_nat less_eq_Suc_le One_nat_def zero_less_diff)
    ultimately show ?thesis unfolding a by auto
  qed
  have got: "map_of (assign r want) g = (case map_of ?kept g of None \<Rightarrow> map_of new g | Some i \<Rightarrow> Some i)" for g
    using new(1) by (simp add: map_add_def)
  show ?thesis
  proof (intro conjI allI impI; (elim conjE)?)
    fix g i assume "map_of (assign r want) g = Some i"
    then consider "map_of new g = Some i" | "map_of ?kept g = Some i" by (auto simp: got split: option.splits)
    then have "gm_has (dRates want) g \<and> i \<notin> set (orphans r) \<and>
       (map_of (actions r) g = Some i \<or> i \<notin> set (map snd (actions r)) \<and> map_of (actions r) g = None)"
      using in_new in_kept by cases blast+
    then show "gm_has (dRates want) g" "i \<notin> set (orphans r)"
      "map_of (actions r) g = Some i \<or> i \<notin> set (map snd (actions r)) \<and> map_of (actions r) g = None" by blast+
  next
    fix g i assume "map_of (actions r) g = Some i" "gm_has (dRates want) g"
    then show "map_of (assign r want) g = Some i" by (simp add: got of_kept)
  next
    fix g assume "gm_has (dRates want) g"
    with full show "gm_has (assign r want) g \<or>
       (\<forall>i. index_range i \<longrightarrow> i \<in> set (orphans r) \<union> set (map snd (actions r)) \<union> set (map snd (assign r want)))" by blast
  qed (use new(1,2) in simp)
qed


section \<open>The table\<close>

record tc_table =
  tFilters :: "string \<times> nat \<times> nat \<Rightarrow> (rule \<times> nat) option"
  tRates :: "nat \<Rightarrow> int option"

definition emptyTable :: tc_table where
  "emptyTable = \<lparr>tFilters = (\<lambda>_. None), tRates = (\<lambda>_. None)\<rparr>"

definition apply_line :: "tc_line \<Rightarrow> tc_table \<Rightarrow> tc_table" where
  "apply_line l t = (case l of
      QdiscAdd dev \<Rightarrow> t
    | PoliceReplace rate i \<Rightarrow> t\<lparr>tRates := (tRates t)(i \<mapsto> rate)\<rparr>
    | FilterDel dev fam p h \<Rightarrow> t\<lparr>tFilters := (tFilters t)((dev, p, h) := None)\<rparr>
    | FilterAdd k h i \<Rightarrow> t\<lparr>tFilters := (tFilters t)((uDev k, pref (uRemote k), h) \<mapsto> (k, i))\<rparr>)"

lemma apply_line_simps [simp]:
  "apply_line (QdiscAdd dev) t = t"
  "apply_line (PoliceReplace rate i) t = t\<lparr>tRates := (tRates t)(i \<mapsto> rate)\<rparr>"
  "apply_line (FilterDel dev fam p h) t = t\<lparr>tFilters := (tFilters t)((dev, p, h) := None)\<rparr>"
  "apply_line (FilterAdd k h i) t = t\<lparr>tFilters := (tFilters t)((uDev k, pref (uRemote k), h) \<mapsto> (k, i))\<rparr>"
  by (simp_all add: apply_line_def)

definition table_step :: "tc_event \<Rightarrow> tc_table option \<Rightarrow> tc_table option" where
  "table_step ev t = (case ev of
      Cleaned \<Rightarrow> Some emptyTable
    | Ran c ok \<Rightarrow> (case c of
          Batch ls \<Rightarrow> if ok then map_option (fold apply_line ls) t else None
        | PoliceDel i \<Rightarrow> if ok then map_option (\<lambda>t. t\<lparr>tRates := (tRates t)(i := None)\<rparr>) t else t
        | FilterDelPref dev p \<Rightarrow> None
        | QdiscDel dev \<Rightarrow> None
        | _ \<Rightarrow> t))"

definition table_after :: "tc_event list \<Rightarrow> tc_table option" where
  "table_after log = fold table_step log None"

lemma table_after_snoc [simp]: "table_after (log @ [ev]) = table_step ev (table_after log)"
  by (simp add: table_after_def)

definition filter_at :: "rule \<Rightarrow> installed \<Rightarrow> string \<times> nat \<times> nat" where
  "filter_at k x = (uDev k, pref (uRemote k), iHandle x)"

text \<open>The records say what is in the table.\<close>

definition rec_table :: "rules \<Rightarrow> tc_table \<Rightarrow> bool" where
  "rec_table r t \<longleftrightarrow>
     (\<forall>a k i. tFilters t a = Some (k, i) \<longleftrightarrow> (\<exists>x. map_of (filters r) k = Some x \<and> a = filter_at k x \<and> iIndex x = i)) \<and>
     (\<forall>i v. map_of (rates r) i = Some v \<longrightarrow> tRates t i = Some v)"

lemma rec_table_filter: "rec_table r t \<Longrightarrow> tFilters t a = Some (k, i) \<longleftrightarrow> (\<exists>x. map_of (filters r) k = Some x \<and> a = filter_at k x \<and> iIndex x = i)"
  unfolding rec_table_def by blast

lemma rec_table_new [simp]: "rec_table newRules emptyTable"
  by (simp add: rec_table_def newRules_def emptyTable_def)

lemma drop_orphans_log:
  assumes "drop_orphans tc is log = (left, log1)" "table_after log = Some t"
  shows "set left \<subseteq> set is \<and> (\<exists>t1. table_after log1 = Some t1 \<and> tFilters t1 = tFilters t \<and> (\<forall>i. i \<notin> set is \<longrightarrow> tRates t1 i = tRates t i))"
  using assms
proof (induction "is" arbitrary: log t left)
  case (Cons i "is")
  obtain out logm where run: "tc_run tc (PoliceDel i) log = (out, logm)" by (metis prod.exhaust)
  obtain left2 where rest: "drop_orphans tc is logm = (left2, log1)" and left: "left = (if out = None then i # left2 else left2)"
    using Cons.prems(1) run by (auto split: prod.splits)
  define tm where "tm = (if out = None then t else t\<lparr>tRates := (tRates t)(i := None)\<rparr>)"
  have "table_after logm = Some tm" using run Cons.prems(2) by (auto simp: tc_run_def Let_def table_step_def tm_def)
  from Cons.IH [OF rest this] left show ?case by (auto simp: tm_def)
qed simp

lemma hook_lines_log:
  assumes "hook_lines tc have devs log = (res, log1)"
  shows "table_after log1 = table_after log \<and> (\<forall>ls. res = Some ls \<longrightarrow> (\<forall>l \<in> set ls. \<exists>dev. l = QdiscAdd dev))"
  using assms
proof (induction devs arbitrary: log res log1)
  case (Cons dev devs)
  show ?case
  proof (cases "dev \<in> set have")
    case True
    with Cons show ?thesis by simp
  next
    case False
    obtain out logm where run: "tc_run tc (QdiscShow dev) log = (out, logm)" by (metis prod.exhaust)
    then have tm: "table_after logm = table_after log" by (auto simp: tc_run_def Let_def table_step_def)
    obtain res2 log2 where rest: "hook_lines tc have devs logm = (res2, log2)" by (metis prod.exhaust)
    from Cons.prems False run rest Cons.IH [OF rest] tm show ?thesis
      by (cases out; cases res2) (auto split: if_splits)
  qed
qed simp

lemma apply_hooks: "\<forall>l \<in> set ls. \<exists>dev. l = QdiscAdd dev \<Longrightarrow> fold apply_line ls t = t"
  by (induction ls) auto

lemma apply_police:
  "distinct (map snd xs) \<Longrightarrow>
     tFilters (fold apply_line (map (\<lambda>(g, i). PoliceReplace (f g) i) xs) t) = tFilters t \<and>
     (\<forall>g i. (g, i) \<in> set xs \<longrightarrow> tRates (fold apply_line (map (\<lambda>(g, i). PoliceReplace (f g) i) xs) t) i = Some (f g)) \<and>
     (\<forall>i. i \<notin> snd ` set xs \<longrightarrow> tRates (fold apply_line (map (\<lambda>(g, i). PoliceReplace (f g) i) xs) t) i = tRates t i)"
proof (induction xs arbitrary: t)
  case (Cons x xs)
  obtain g i where x: "x = (g, i)" by (cases x)
  have "distinct (map snd xs)" "i \<notin> snd ` set xs" using Cons.prems by (auto simp: x)
  with Cons.IH [of "t\<lparr>tRates := (tRates t)(i \<mapsto> f g)\<rparr>"] show ?case by (auto simp: x)
qed simp

lemma apply_dels:
  "tRates (fold apply_line (map (\<lambda>(k, h). FilterDel (uDev k) (family (uRemote k)) (pref (uRemote k)) (iHandle h)) xs) t) = tRates t \<and>
   tFilters (fold apply_line (map (\<lambda>(k, h). FilterDel (uDev k) (family (uRemote k)) (pref (uRemote k)) (iHandle h)) xs) t) a =
     (if a \<in> (\<lambda>(k, x). filter_at k x) ` set xs then None else tFilters t a)"
  by (induction xs arbitrary: t) (auto simp: filter_at_def)

lemma apply_adds:
  "distinct (map (\<lambda>(k, x). filter_at k x) xs) \<Longrightarrow>
     tRates (fold apply_line (add_lines xs) t) = tRates t \<and>
     (\<forall>k x. (k, x) \<in> set xs \<longrightarrow> tFilters (fold apply_line (add_lines xs) t) (filter_at k x) = Some (k, iIndex x)) \<and>
     (\<forall>a. a \<notin> (\<lambda>(k, x). filter_at k x) ` set xs \<longrightarrow> tFilters (fold apply_line (add_lines xs) t) a = tFilters t a)"
proof (induction xs arbitrary: t)
  case (Cons x xs)
  obtain k h where x: "x = (k, h)" by (cases x)
  have d: "distinct (map (\<lambda>(k, x). filter_at k x) xs)" "filter_at k h \<notin> (\<lambda>(k, x). filter_at k x) ` set xs" using Cons.prems by (auto simp: x)
  have e: "fold apply_line (add_lines (x # xs)) t = fold apply_line (add_lines xs) (t\<lparr>tFilters := (tFilters t)(filter_at k h \<mapsto> (k, iIndex h))\<rparr>)"
    by (simp add: x add_lines_def filter_at_def)
  from Cons.IH [OF d(1)] d(2) show ?case unfolding e by (auto simp: x simp del: split_paired_All)
qed (simp add: add_lines_def)

lemma map_of_fold_update:
  "distinct (map fst xs) \<Longrightarrow> map_of (fold (\<lambda>(k, v). AList.update k v) xs m) z = (case map_of xs z of None \<Rightarrow> map_of m z | Some v \<Rightarrow> Some v)"
proof (induction xs arbitrary: m)
  case (Cons x xs)
  obtain k v where x: "x = (k, v)" by (cases x)
  have "map_of xs k = None" using Cons.prems by (simp add: x map_of_eq_None_iff)
  with Cons show ?case by (cases "z = k"; cases "map_of xs z") (simp_all add: x map_of_update_gm)
qed simp

lemma gm_ok_fold_update: "gm_ok m \<Longrightarrow> gm_ok (fold (\<lambda>(k, v). AList.update k v) xs m)"
  by (induction xs arbitrary: m) auto

lemma map_of_filter_ok: "gm_ok m \<Longrightarrow> map_of (filter P m) k = Some v \<longleftrightarrow> map_of m k = Some v \<and> P (k, v)"
  using gm_in_set [of "filter P m" k v] gm_in_set [of m k v] by auto

section \<open>The added filters\<close>

definition missing_filter :: "rules \<Rightarrow> desired_rules \<Rightarrow> (string, nat) gomap \<Rightarrow> rule \<Rightarrow> bool" where
  "missing_filter r want idx k \<longleftrightarrow> wanted_index idx want k \<noteq> 0 \<and> \<not> (\<exists>x \<in> set_option (map_of (filters r) k). iIndex x = wanted_index idx want k)"

lemma added_filters_count:
  "length (fst (added_filters r want idx ks h)) = length (filter (missing_filter r want idx) ks)"
  by (induction ks arbitrary: h) (auto simp: missing_filter_def Let_def split: prod.splits, metis fst_conv)

lemma added_filters_closed:
  "h + length (filter (missing_filter r want idx) ks) < 2 ^ 32 \<Longrightarrow> added_filters r want idx ks h =
     (map (\<lambda>(n, k). (k, \<lparr>iHandle = n, iIndex = wanted_index idx want k\<rparr>)) (enumerate (Suc h) (filter (missing_filter r want idx) ks)),
      h + length (filter (missing_filter r want idx) ks))"
proof (induction ks arbitrary: h)
  case (Cons k ks)
  show ?case
  proof (cases "missing_filter r want idx k")
    case True
    then have less: "Suc h + length (filter (missing_filter r want idx) ks) < 2 ^ 32" using Cons.prems by simp
    then have "(h + 1) mod 2 ^ 32 = Suc h" by simp
    with Cons.IH [OF less] True show ?thesis by (auto simp: missing_filter_def Let_def)
  next
    case False
    with Cons show ?thesis by (auto simp: missing_filter_def)
  qed
qed simp


lemma enumerate_handles:
  assumes "(n, k) \<in> set (enumerate s ks)"
  shows "s \<le> n \<and> n < s + length ks \<and> k \<in> set ks"
  using assms by (auto simp: in_set_enumerate_eq)

text \<open>One convergence: the records before, the indexes it gives out and the filters it adds.\<close>

definition converging :: "rules \<Rightarrow> desired_rules \<Rightarrow> (string, nat) gomap \<Rightarrow> (rule \<times> installed) list \<Rightarrow> nat \<Rightarrow> bool" where
  "converging r want idx added h \<longleftrightarrow> rules_ok r \<and> wants_ok want \<and> idx = assign r want \<and>
     (added, h) = added_filters r want idx (sort_key rule_key (gm_keys (dRules want))) (nextHandle r) \<and>
     nextHandle r + length added < 2 ^ 32"

lemma idx_ok: "converging r want idx added h \<Longrightarrow> indexes_ok idx"
  using assign_result [of r want] by (auto simp: converging_def)

lemma idx_actions: "converging r want idx added h \<Longrightarrow> map_of idx g = Some i \<Longrightarrow> gm_has (dRates want) g \<and> i \<notin> set (orphans r) \<and>
    (map_of (actions r) g = Some i \<or> i \<notin> set (map snd (actions r)) \<and> map_of (actions r) g = None)"
  using assign_result [of r want] unfolding converging_def by blast

lemma added_eq:
  assumes "converging r want idx added h"
  shows "added = map (\<lambda>(n, k). (k, \<lparr>iHandle = n, iIndex = wanted_index idx want k\<rparr>))
      (enumerate (Suc (nextHandle r)) (filter (missing_filter r want idx) (sort_key rule_key (gm_keys (dRules want)))))"
    and "h = nextHandle r + length added"
proof -
  let ?ks = "sort_key rule_key (gm_keys (dRules want))"
  have e: "added_filters r want idx ?ks (nextHandle r) = (added, h)" and room: "nextHandle r + length added < 2 ^ 32"
    using assms by (simp_all add: converging_def)
  have "length added = length (filter (missing_filter r want idx) ?ks)"
    using added_filters_count [of r want idx ?ks "nextHandle r"] e by simp
  with room have "nextHandle r + length (filter (missing_filter r want idx) ?ks) < 2 ^ 32" by simp
  from added_filters_closed [OF this] e
  show "added = map (\<lambda>(n, k). (k, \<lparr>iHandle = n, iIndex = wanted_index idx want k\<rparr>))
    (enumerate (Suc (nextHandle r)) (filter (missing_filter r want idx) ?ks))" "h = nextHandle r + length added" by auto
qed

lemma map_enumerate: "map (\<lambda>x. fst (case x of (n, k) \<Rightarrow> (k, f n k))) (enumerate s ks) = ks"
  by (induction ks arbitrary: s) simp_all

lemma keys_added: "converging r want idx added h \<Longrightarrow> map fst added = filter (missing_filter r want idx) (sort_key rule_key (gm_keys (dRules want)))"
  by (subst added_eq(1), assumption) (simp add: comp_def map_enumerate)

lemma distinct_added: "converging r want idx added h \<Longrightarrow> distinct (map fst added)"
  by (simp add: keys_added) (simp add: converging_def wants_ok_def gm_ok_def)

lemma wanted_in_rules:
  assumes c: "converging r want idx added h" and i: "wanted_index idx want k = i" "i \<noteq> 0"
  shows "\<exists>g. map_of (dRules want) k = Some g \<and> map_of idx g = Some i"
proof -
  let ?g = "gm_get [] (dRules want) k"
  have g: "map_of idx ?g = Some i" using i by (simp add: wanted_index_def gm_get_index [OF idx_ok [OF c]])
  then have "?g \<noteq> []" using idx_actions [OF c g] c by (auto simp: converging_def wants_ok_def)
  then have "map_of (dRules want) k = Some ?g" by (auto simp: gm_get_def split: option.splits)
  with g show ?thesis by blast
qed

lemma wanted_index_Some: "map_of (dRules want) k = Some g \<Longrightarrow> map_of idx g = Some i \<Longrightarrow> wanted_index idx want k = i"
  by (simp add: wanted_index_def gm_get_def)

lemma added_Some: "converging r want idx added h \<Longrightarrow> (k, x) \<in> set added \<Longrightarrow>
    missing_filter r want idx k \<and> iIndex x = wanted_index idx want k \<and> nextHandle r < iHandle x \<and> iHandle x \<le> h"
  by (frule added_eq(1), drule added_eq(2)) (auto dest!: enumerate_handles)

lemma added_iff:
  assumes c: "converging r want idx added h"
  shows "(\<exists>x. map_of added k = Some x) \<longleftrightarrow> missing_filter r want idx k"
proof -
  have "(\<exists>x. map_of added k = Some x) \<longleftrightarrow> k \<in> set (map fst added)" by (simp add: weak_map_of_SomeI dom_map_of_conv_image_fst [symmetric] dom_def)
  moreover have "k \<in> set (gm_keys (dRules want))" if "missing_filter r want idx k"
    using wanted_in_rules [OF c refl, of k] that by (force simp: missing_filter_def dest: map_of_SomeD)
  ultimately show ?thesis by (auto simp: keys_added [OF c])
qed

lemma added_handles_inj:
  "converging r want idx added h \<Longrightarrow> (k, x) \<in> set added \<Longrightarrow> (l, y) \<in> set added \<Longrightarrow> iHandle x = iHandle y \<Longrightarrow> k = l"
  by (drule added_eq(1)) (auto simp: in_set_enumerate_eq)


section \<open>After a batch\<close>

definition batch_of :: "tc_line list \<Rightarrow> rules \<Rightarrow> desired_rules \<Rightarrow> (string, nat) gomap \<Rightarrow> (rule \<times> installed) list \<Rightarrow> tc_line list" where
  "batch_of hooks r want idx added = hooks @ police_lines r want idx @ del_lines r want idx @ add_lines added"

definition after_batch :: "rules \<Rightarrow> desired_rules \<Rightarrow> (string, nat) gomap \<Rightarrow> (rule \<times> installed) list \<Rightarrow> nat \<Rightarrow> rules" where
  "after_batch r want idx added h = record_batch (r\<lparr>nextHandle := h\<rparr>) want idx added"

lemma after_batch_fields [simp]:
  "actions (after_batch r want idx added h) = idx" "nextHandle (after_batch r want idx added h) = h"
  by (simp_all add: after_batch_def record_batch_def Let_def)

lemma filters_after:
  assumes c: "converging r want idx added h"
  shows "map_of (filters (after_batch r want idx added h)) k = Some x \<longleftrightarrow>
    (k, x) \<in> set added \<or> map_of (filters r) k = Some x \<and> \<not> stale want idx (k, x)"
proof -
  have ok: "gm_ok (filters r)" using c by (simp add: converging_def rules_ok_def)
  have old: "\<not> (map_of (filters r) k = Some x \<and> \<not> stale want idx (k, x))" if "map_of added k \<noteq> None" for x
    using added_iff [OF c, of k] that by (auto simp: missing_filter_def stale_def)
  have "(k, x) \<in> set added \<longleftrightarrow> map_of added k = Some x" using distinct_added [OF c] by simp
  moreover have "map_of (filters (after_batch r want idx added h)) k =
    (case map_of added k of None \<Rightarrow> map_of (filter (\<lambda>x. \<not> stale want idx x) (filters r)) k | Some v \<Rightarrow> Some v)"
    by (simp add: after_batch_def record_batch_def Let_def map_of_fold_update [OF distinct_added [OF c]])
  ultimately show ?thesis using old map_of_filter_ok [OF ok, of "\<lambda>x. \<not> stale want idx x" k x] by (cases "map_of added k") auto
qed

text \<open>After the batch the filter of every rule has the index wanted for it.\<close>

lemma index_after:
  assumes c: "converging r want idx added h"
  shows "map_option iIndex (map_of (filters (after_batch r want idx added h)) k) =
    (case map_of (dRules want) k of None \<Rightarrow> None | Some g \<Rightarrow> map_of idx g)"
proof -
  let ?i = "wanted_index idx want k" and ?f = "map_of (filters (after_batch r want idx added h)) k"
  have index: "iIndex x = ?i" if "?f = Some x" for x
    using that added_Some [OF c, of k x] by (auto simp: filters_after [OF c] stale_def)
  have pos: "?i \<noteq> 0" if "?f = Some x" for x
  proof -
    have "index_range (iIndex x)" if "map_of (filters r) k = Some x"
    proof -
      from that c have "iIndex x \<in> set (map snd (actions r))" by (auto simp: converging_def rules_ok_def)
      with c show ?thesis by (auto simp: converging_def rules_ok_def indexes_ok_def)
    qed
    with that index [OF that] added_Some [OF c, of k x] show ?thesis
      by (auto simp: filters_after [OF c] missing_filter_def dest: index_range_pos)
  qed
  have present: "?f \<noteq> None" if i: "?i \<noteq> 0"
  proof (cases "missing_filter r want idx k")
    case True
    then obtain x where "map_of added k = Some x" using added_iff [OF c] by blast
    then have "?f = Some x" by (simp add: filters_after [OF c] map_of_SomeD)
    then show ?thesis by simp
  next
    case False
    with i obtain x where "map_of (filters r) k = Some x" "iIndex x = ?i" by (auto simp: missing_filter_def)
    then have "?f = Some x" by (simp add: filters_after [OF c] stale_def)
    then show ?thesis by simp
  qed
  have wanted: "(case map_of (dRules want) k of None \<Rightarrow> None | Some g \<Rightarrow> map_of idx g) = (if ?i = 0 then None else Some ?i)"
  proof (cases "?i = 0")
    case True
    have "(case map_of (dRules want) k of None \<Rightarrow> None | Some g \<Rightarrow> map_of idx g) \<noteq> Some j" for j
      using wanted_index_Some [of want k _ idx j] True idx_ok [OF c, THEN indexes_ok_get, THEN index_range_pos]
      by (auto split: option.splits)
    then have "(case map_of (dRules want) k of None \<Rightarrow> None | Some g \<Rightarrow> map_of idx g) = None" by (meson not_None_eq)
    with True show ?thesis by simp
  next
    case False
    with wanted_in_rules [OF c refl False] show ?thesis by auto
  qed
  show ?thesis using index pos present unfolding wanted by (cases ?f) auto
qed

lemma rates_after:
  assumes c: "converging r want idx added h"
  shows "map_of idx g = Some i \<Longrightarrow> map_of (rates (after_batch r want idx added h)) i = map_of (dRates want) g"
    and "i \<notin> set (map snd idx) \<Longrightarrow> map_of (rates (after_batch r want idx added h)) i = None"
proof -
  let ?gone = "map snd (filter (\<lambda>(g, i). gm_get 0 idx g \<noteq> i) (actions r))"
  let ?new = "map (\<lambda>(g, i). (i, gm_get 0 (dRates want) g)) idx"
  have snds: "map fst ?new = map snd idx" by (induction idx) auto
  then have d: "distinct (map fst ?new)" using idx_ok [OF c] by (simp only: indexes_ok_def)
  have fold: "fold (\<lambda>(g, i). AList.update i (gm_get 0 (dRates want) g)) xs m = fold (\<lambda>(k, v). AList.update k v) (map (\<lambda>(g, i). (i, gm_get 0 (dRates want) g)) xs) m" for xs m
    by (induction xs arbitrary: m) auto
  have rates: "rates (after_batch r want idx added h) = fold (\<lambda>(k, v). AList.update k v) ?new (filter (\<lambda>(i, v). i \<notin> set ?gone) (rates r))"
    unfolding fold [symmetric] by (simp add: after_batch_def record_batch_def Let_def)
  have eq: "map_of (rates (after_batch r want idx added h)) i =
    (case map_of ?new i of None \<Rightarrow> map_of (filter (\<lambda>(i, v). i \<notin> set ?gone) (rates r)) i | Some v \<Rightarrow> Some v)" for i
    unfolding rates by (rule map_of_fold_update [OF d])
  show "map_of (rates (after_batch r want idx added h)) i = map_of (dRates want) g" if "map_of idx g = Some i"
  proof -
    have "(i, gm_get 0 (dRates want) g) \<in> set ?new" using that by (force dest: map_of_SomeD)
    then have "map_of ?new i = Some (gm_get 0 (dRates want) g)" by (rule map_of_is_SomeI [OF d])
    then show ?thesis using idx_actions [OF c that] by (auto simp: eq gm_get_def gm_has_def split: option.splits)
  qed
  show "map_of (rates (after_batch r want idx added h)) i = None" if i: "i \<notin> set (map snd idx)"
  proof -
    have "i \<notin> set (map fst ?new)" using i unfolding snds .
    then have "map_of ?new i = None" unfolding map_of_eq_None_iff set_map .
    moreover have "map_of (filter (\<lambda>(i, v). i \<notin> set ?gone) (rates r)) i = None"
    proof (cases "i \<in> set (map snd (actions r))")
      case True
      then obtain g where g: "(g, i) \<in> set (actions r)" by auto
      then have "i \<noteq> 0" using c rules_ok_action index_range_pos by (auto simp: converging_def)
      then have "gm_get 0 idx g \<noteq> i" using i gm_get_in [of idx g i] by auto
      with g have "i \<in> set ?gone" by force
      then show ?thesis by (subst map_of_filter_key) simp
    next
      case False
      with c have "map_of (rates r) i = None" by (auto simp: converging_def rules_ok_def)
      then show ?thesis by (subst map_of_filter_key) simp
    qed
    ultimately show ?thesis by (simp add: eq)
  qed
qed


lemma rules_ok_after:
  assumes c: "converging r want idx added h"
  shows "rules_ok (after_batch r want idx added h)"
proof -
  let ?r = "after_batch r want idx added h"
  note fa = filters_after [OF c]
  have old: "map_of (filters r) k = Some x \<Longrightarrow> 0 < iHandle x \<and> iHandle x \<le> nextHandle r" for k x
    using c by (auto simp: converging_def rules_ok_def)
  have new: "(k, x) \<in> set added \<Longrightarrow> nextHandle r < iHandle x \<and> iHandle x \<le> h" for k x
    using added_Some [OF c] by blast
  have h: "nextHandle r \<le> h" using added_eq(2) [OF c] by simp
  have handles: "0 < iHandle x \<and> iHandle x \<le> nextHandle ?r \<and> iIndex x \<in> set (map snd (actions ?r))" if x: "map_of (filters ?r) k = Some x" for k x
  proof -
    have "map_option iIndex (map_of (filters ?r) k) = Some (iIndex x)" using x by simp
    then obtain g where "map_of idx g = Some (iIndex x)" by (auto simp: index_after [OF c] split: option.splits)
    then have "iIndex x \<in> set (map snd idx)" by (force dest: map_of_SomeD)
    with x old [of k x] new [of k x] h show ?thesis by (fastforce simp: fa)
  qed
  have inj: "k = l" if "map_of (filters ?r) k = Some x" "map_of (filters ?r) l = Some y" "iHandle x = iHandle y" for k l x y
  proof -
    have "\<And>k x l y. map_of (filters r) k = Some x \<Longrightarrow> map_of (filters r) l = Some y \<Longrightarrow> iHandle x = iHandle y \<Longrightarrow> k = l"
      using c by (auto simp: converging_def rules_ok_def)
    with that added_handles_inj [OF c] old [of k x] old [of l y] new [of k x] new [of l y] show ?thesis by (fastforce simp: fa)
  qed
  have gone: "index_range i \<and> i \<notin> set (map snd idx)" if "(g, i) \<in> set (actions r)" "gm_get 0 idx g \<noteq> i" for g i
  proof -
    have acts: "indexes_ok (actions r)" using c by (simp add: converging_def rules_ok_def)
    then have g: "map_of (actions r) g = Some i" using that(1) by (simp add: indexes_ok_def gm_in_set)
    have "i \<notin> set (map snd idx)"
    proof
      assume "i \<in> set (map snd idx)"
      then obtain l where l: "map_of idx l = Some i" using idx_ok [OF c] by (auto simp: indexes_ok_def gm_in_set)
      from idx_actions [OF c l] that(1) have "map_of (actions r) l = Some i" by force
      from indexes_ok_inj [OF acts this g] l that(2) show False by (simp add: gm_get_def)
    qed
    with indexes_ok_get [OF acts g] show ?thesis by simp
  qed
  have orphan: "index_range i \<and> i \<notin> set (map snd idx)" if "i \<in> set (orphans ?r)" for i
  proof (cases "i \<in> set (orphans r)")
    case True
    then have "index_range i" using c by (auto simp: converging_def rules_ok_def)
    moreover have "i \<notin> set (map snd idx)"
    proof
      assume "i \<in> set (map snd idx)"
      then obtain l where l: "map_of idx l = Some i" using idx_ok [OF c] by (auto simp: indexes_ok_def gm_in_set)
      from idx_actions [OF c l] True show False by blast
    qed
    ultimately show ?thesis by blast
  next
    case False
    with that obtain g where "(g, i) \<in> set (actions r)" "gm_get 0 idx g \<noteq> i" by (auto simp: after_batch_def record_batch_def Let_def)
    then show ?thesis by (rule gone)
  qed
  have rates: "map_of (rates ?r) i \<noteq> None \<longleftrightarrow> i \<in> set (map snd (actions ?r))" for i
  proof (cases "i \<in> set (map snd idx)")
    case True
    then obtain g where g: "map_of idx g = Some i" using idx_ok [OF c] by (auto simp: indexes_ok_def gm_in_set)
    with rates_after(1) [OF c g] idx_actions [OF c g] True show ?thesis by (simp add: gm_has_def)
  next
    case False
    with rates_after(2) [OF c False] show ?thesis by simp
  qed
  have "gm_ok (filters r)" "gm_ok (rates r)" using c by (simp_all add: converging_def rules_ok_def)
  moreover have "gm_ok (fold (\<lambda>(g, i). AList.update i (f g)) xs m)" if "gm_ok m" for f :: "string \<Rightarrow> int" and xs :: "(string \<times> nat) list" and m
    using that by (induction xs arbitrary: m) auto
  ultimately have "gm_ok (filters ?r)" "gm_ok (rates ?r)"
    by (simp_all add: after_batch_def record_batch_def Let_def gm_ok_fold_update)
  with handles inj orphan rates idx_ok [OF c] show ?thesis unfolding rules_ok_def by auto
qed

lemma distinct_filter_at:
  assumes c: "converging r want idx added h"
  shows "distinct (map (\<lambda>(k, x). filter_at k x) added)"
proof -
  have "inj_on (\<lambda>(k, x). filter_at k x) (set added)"
  proof (rule inj_onI, clarify)
    fix k x l y assume m: "(k, x) \<in> set added" "(l, y) \<in> set added" "filter_at k x = filter_at l y"
    then have "iHandle x = iHandle y" by (simp add: filter_at_def)
    from added_handles_inj [OF c m(1,2) this] have "k = l" .
    with m distinct_added [OF c] show "k = l \<and> x = y" by (auto dest: eq_key_imp_eq_value)
  qed
  moreover have "distinct added" using distinct_added [OF c] by (simp add: distinct_map)
  ultimately show ?thesis by (simp add: distinct_map)
qed


lemma rec_table_after:
  assumes c: "converging r want idx added h" and t: "rec_table r t" and hooks: "\<forall>l \<in> set hooks. \<exists>dev. l = QdiscAdd dev"
  shows "rec_table (after_batch r want idx added h) (fold apply_line (batch_of hooks r want idx added) t)"
proof -
  let ?r = "after_batch r want idx added h"
  let ?xs = "filter (\<lambda>(g, i). gm_get 0 (actions r) g \<noteq> i \<or> gm_get 0 (rates r) i \<noteq> gm_get 0 (dRates want) g) idx"
  let ?t1 = "fold apply_line (police_lines r want idx) t"
  let ?t2 = "fold apply_line (del_lines r want idx) ?t1"
  let ?t3 = "fold apply_line (add_lines added) ?t2"
  have t3: "fold apply_line (batch_of hooks r want idx added) t = ?t3" by (simp add: batch_of_def apply_hooks [OF hooks])
  have "distinct (map snd ?xs)" using idx_ok [OF c] by (simp add: indexes_ok_def distinct_map_filter)
  note police = apply_police [OF this, of "gm_get 0 (dRates want)" t, folded police_lines_def]
  note dels = apply_dels [of "filter (stale want idx) (filters r)" ?t1, folded del_lines_def]
  note adds = apply_adds [OF distinct_filter_at [OF c], of ?t2]
  have gm: "gm_ok (filters r)" using c by (simp add: converging_def rules_ok_def)
  have t2: "tFilters ?t2 a = Some (k, i) \<longleftrightarrow> (\<exists>x. map_of (filters r) k = Some x \<and> a = filter_at k x \<and> iIndex x = i \<and> \<not> stale want idx (k, x))" for a k i
  proof
    assume a: "tFilters ?t2 a = Some (k, i)"
    then have "a \<notin> (\<lambda>(k, x). filter_at k x) ` set (filter (stale want idx) (filters r))" "tFilters t a = Some (k, i)"
      using dels police by (simp_all split: if_splits)
    moreover from this(2) t obtain x where "map_of (filters r) k = Some x" "a = filter_at k x" "iIndex x = i"
      by (auto simp: rec_table_filter [OF t])
    ultimately show "\<exists>x. map_of (filters r) k = Some x \<and> a = filter_at k x \<and> iIndex x = i \<and> \<not> stale want idx (k, x)"
      using map_of_SomeD [of "filters r" k x] by (intro exI [of _ x]) auto
  next
    assume "\<exists>x. map_of (filters r) k = Some x \<and> a = filter_at k x \<and> iIndex x = i \<and> \<not> stale want idx (k, x)"
    then obtain x where x: "map_of (filters r) k = Some x" "a = filter_at k x" "iIndex x = i" "\<not> stale want idx (k, x)" by blast
    have "a \<notin> (\<lambda>(k, x). filter_at k x) ` set (filter (stale want idx) (filters r))"
    proof
      assume "a \<in> (\<lambda>(k, x). filter_at k x) ` set (filter (stale want idx) (filters r))"
      then obtain l y where l: "(l, y) \<in> set (filters r)" "stale want idx (l, y)" "a = filter_at l y" by auto
      then have "map_of (filters r) l = Some y" using gm by (simp add: gm_in_set)
      moreover have "iHandle x = iHandle y" using x(2) l(3) by (simp add: filter_at_def)
      ultimately have "k = l" using c x(1) by (auto simp: converging_def rules_ok_def)
      with \<open>map_of (filters r) l = Some y\<close> x(1) have "x = y" by simp
      with \<open>k = l\<close> x(4) l(2) show False by simp
    qed
    with dels police have "tFilters ?t2 a = tFilters t a" by simp
    with x show "tFilters ?t2 a = Some (k, i)" by (auto simp: rec_table_filter [OF t])
  qed
  have filters: "tFilters ?t3 a = Some (k, i) \<longleftrightarrow> (\<exists>x. map_of (filters ?r) k = Some x \<and> a = filter_at k x \<and> iIndex x = i)" for a k i
  proof (cases "a \<in> (\<lambda>(k, x). filter_at k x) ` set added")
    case True
    then obtain l y where l: "(l, y) \<in> set added" "a = filter_at l y" by auto
    then have t3: "tFilters ?t3 a = Some (l, iIndex y)" using adds by blast
    have only: "k = l \<and> x = y" if x: "map_of (filters ?r) k = Some x" "a = filter_at k x" for x
    proof -
      have "iHandle x = iHandle y" using x(2) l(2) by (simp add: filter_at_def)
      moreover have y: "map_of (filters ?r) l = Some y" using l(1) by (simp add: filters_after [OF c])
      ultimately have "k = l" using rules_ok_after [OF c] x(1) by (auto simp: rules_ok_def)
      with x(1) y show ?thesis by simp
    qed
    then show ?thesis using t3 l by (auto simp: filters_after [OF c] simp del: split_paired_Ex)
  next
    case False
    then have "tFilters ?t3 a = tFilters ?t2 a" using adds by blast
    with False show ?thesis by (auto simp: t2 filters_after [OF c] image_iff)
  qed
  have rates: "tRates ?t3 i = Some v" if v: "map_of (rates ?r) i = Some v" for i v
  proof -
    have "tRates ?t3 i = tRates ?t1 i" using adds dels by simp
    moreover obtain g where g: "map_of idx g = Some i" "map_of (dRates want) g = Some v"
    proof -
      have "i \<in> set (map snd idx)" using v rates_after(2) [OF c, of i] by force
      then obtain g where "map_of idx g = Some i" using idx_ok [OF c] by (auto simp: indexes_ok_def gm_in_set)
      with that rates_after(1) [OF c this] v show thesis by simp
    qed
    moreover have "tRates ?t1 i = Some v"
    proof (cases "(g, i) \<in> set ?xs")
      case True
      with police have "tRates ?t1 i = Some (gm_get 0 (dRates want) g)" by blast
      with g(2) show ?thesis by (simp add: gm_get_def)
    next
      case False
      have in_idx: "(g, i) \<in> set idx" using g(1) by (rule map_of_SomeD)
      with False have same: "gm_get 0 (actions r) g = i" "gm_get 0 (rates r) i = v" using g(2) by (auto simp: gm_get_def)
      have "i \<notin> snd ` set ?xs"
      proof
        assume "i \<in> snd ` set ?xs"
        then obtain l where "(l, i) \<in> set ?xs" by force
        moreover from this have "l = g" using in_idx idx_ok [OF c] by (auto simp: indexes_ok_def dest: distinct_map_inj_on_eq)
        ultimately show False using False by simp
      qed
      then have "tRates ?t1 i = tRates t i" using police by blast
      moreover have pos: "i \<noteq> 0" using indexes_ok_get [OF idx_ok [OF c] g(1)] by (rule index_range_pos)
      moreover have "map_of (actions r) g = Some i" using same(1) pos by (auto simp: gm_get_def split: option.splits)
      then have "i \<in> set (map snd (actions r))" by (force dest: map_of_SomeD)
      then have "map_of (rates r) i \<noteq> None" using c by (simp only: converging_def rules_ok_rates)
      then have "map_of (rates r) i = Some v" using same(2) by (auto simp: gm_get_def)
      ultimately show ?thesis using t by (simp add: rec_table_def)
    qed
    ultimately show ?thesis by simp
  qed
  show ?thesis unfolding rec_table_def t3 using filters rates by blast
qed


section \<open>Converging\<close>

text \<open>The filters a log adds, in batches that ran or failed.\<close>

definition added_by :: "tc_event \<Rightarrow> nat" where
  "added_by ev = (case ev of Ran (Batch ls) ok \<Rightarrow> length (filter (\<lambda>l. case l of FilterAdd k h i \<Rightarrow> True | _ \<Rightarrow> False) ls) | _ \<Rightarrow> 0)"

definition adds :: "tc_event list \<Rightarrow> nat" where
  "adds log = sum_list (map added_by log)"

lemma adds_append [simp]: "adds (log @ log') = adds log + adds log'"
  by (simp add: adds_def)

lemma drop_orphans_adds: "adds (snd (drop_orphans tc is log)) = adds log"
  by (induction "is" arbitrary: log) (auto simp: tc_run_def Let_def adds_def added_by_def split_beta)

lemma hook_lines_adds: "adds (snd (hook_lines tc have devs log)) = adds log"
proof (induction devs arbitrary: log)
  case (Cons dev devs)
  obtain out logm where run: "tc_run tc (QdiscShow dev) log = (out, logm)" by (metis prod.exhaust)
  then have "adds logm = adds log" by (auto simp: tc_run_def Let_def adds_def added_by_def)
  moreover obtain res2 log2 where rest: "hook_lines tc have devs logm = (res2, log2)" by (metis prod.exhaust)
  ultimately show ?case using Cons.IH [of log] Cons.IH [of logm] by (cases out; cases res2) (simp_all add: run)
qed simp

lemma filter_adds: "length (filter (\<lambda>l. case l of FilterAdd k h i \<Rightarrow> True | _ \<Rightarrow> False) (add_lines xs)) = length xs"
  by (induction xs) (auto simp: add_lines_def)

lemma batch_adds: "length added \<le> added_by (Ran (Batch (batch_of hooks r want idx added)) ok)"
  by (simp add: added_by_def batch_of_def filter_adds)

text \<open>What a successful convergence leaves.\<close>

definition exhausted :: "rules \<Rightarrow> bool" where
  "exhausted r \<longleftrightarrow> (\<forall>i. index_range i \<longrightarrow> i \<in> set (orphans r) \<union> set (map snd (actions r)))"

definition converged :: "rules \<Rightarrow> desired_rules \<Rightarrow> bool" where
  "converged r want \<longleftrightarrow>
     (\<forall>k. map_option iIndex (map_of (filters r) k) = (case map_of (dRules want) k of None \<Rightarrow> None | Some g \<Rightarrow> map_of (actions r) g)) \<and>
     (\<forall>g i. map_of (actions r) g = Some i \<longrightarrow> map_of (rates r) i = map_of (dRates want) g) \<and>
     (\<forall>g. gm_has (dRates want) g \<longrightarrow> gm_has (actions r) g \<or> exhausted r)"

lemma all_indexed:
  assumes c: "converging r want idx added h" and g: "gm_has (dRates want) g"
  shows "gm_has idx g \<or> exhausted (after_batch r want idx added h)"
proof -
  have "i \<in> set (orphans (after_batch r want idx added h)) \<union> set (map snd idx)"
    if "i \<in> set (orphans r) \<union> set (map snd (actions r)) \<union> set (map snd idx)" for i
  proof (cases "i \<in> set (map snd (actions r)) \<and> i \<notin> set (map snd idx)")
    case True
    then obtain h where h: "(h, i) \<in> set (actions r)" by auto
    have "i \<noteq> 0" using c h rules_ok_action index_range_pos by (auto simp: converging_def)
    then have "gm_get 0 idx h \<noteq> i" using True gm_get_in [of idx h i] by auto
    with h have "i \<in> snd ` {x \<in> set (actions r). case x of (g, i) \<Rightarrow> gm_get 0 idx g \<noteq> i}" by (intro image_eqI [of _ _ "(h, i)"]) auto
    then show ?thesis by (simp add: after_batch_def record_batch_def Let_def)
  next
    case False
    with that show ?thesis by (auto simp: after_batch_def record_batch_def Let_def)
  qed
  moreover have "gm_has idx g \<or> (\<forall>i. index_range i \<longrightarrow> i \<in> set (orphans r) \<union> set (map snd (actions r)) \<union> set (map snd idx))"
    using assign_result [of r want] c g unfolding converging_def by blast
  ultimately show ?thesis unfolding exhausted_def after_batch_fields by blast
qed

lemma rules_ok_fewer_orphans: "rules_ok r \<Longrightarrow> set left \<subseteq> set (orphans r) \<Longrightarrow> rules_ok (r\<lparr>orphans := left\<rparr>)"
  by (auto simp: rules_ok_def)

lemma converge_ok:
  assumes run: "rl_converge tc want (r, log) = (True, r', log')" and ok: "rules_ok r" and wants: "wants_ok want"
    and table: "table_after log = Some t" "rec_table r t" and room: "nextHandle r \<le> adds log" "adds log' < 2 ^ 32"
  shows "rules_ok r' \<and> converged r' want \<and> nextHandle r' \<le> adds log' \<and> (\<exists>t'. table_after log' = Some t' \<and> rec_table r' t')"
proof -
  obtain left log1 where o: "drop_orphans tc (orphans r) log = (left, log1)" by (metis prod.exhaust)
  from drop_orphans_log [OF o table(1)] obtain t1 where left: "set left \<subseteq> set (orphans r)"
    and t1: "table_after log1 = Some t1" "tFilters t1 = tFilters t" "\<forall>i. i \<notin> set (orphans r) \<longrightarrow> tRates t1 i = tRates t i" by blast
  define r1 where "r1 = r\<lparr>orphans := left\<rparr>"
  have r1: "rules_ok r1" using rules_ok_fewer_orphans [OF ok left] by (simp add: r1_def)
  have rec1: "rec_table r1 t1"
  proof -
    have "tRates t1 i = Some v" if "map_of (rates r) i = Some v" for i v
    proof -
      have "i \<in> set (map snd (actions r))" using that rules_ok_rates [OF ok, of i] by simp
      then have "i \<notin> set (orphans r)" using rules_ok_orphans [OF ok] by blast
      with t1(3) that table(2) show ?thesis by (simp add: rec_table_def)
    qed
    then show ?thesis using table(2) t1(2) unfolding rec_table_def r1_def by simp
  qed
  define idx where "idx = assign r1 want"
  obtain hooks log2 where hk: "hook_lines tc (clsact r1) (used_devs idx want) log1 = (Some hooks, log2)"
    using run o by (auto simp: rl_converge_def Let_def r1_def idx_def split: prod.splits option.splits)
  have hooks: "table_after log2 = Some t1" "\<forall>l \<in> set hooks. \<exists>dev. l = QdiscAdd dev" using hook_lines_log [OF hk] t1(1) by simp_all
  obtain added h where a: "added_filters r1 want idx (sort_key rule_key (gm_keys (dRules want))) (nextHandle r1) = (added, h)" by (metis prod.exhaust)
  let ?batch = "batch_of hooks r1 want idx added"
  have adds2: "adds log2 = adds log"
    using drop_orphans_adds [of tc "orphans r" log] o hook_lines_adds [of tc "clsact r1" "used_devs idx want" log1] hk by simp
  have r': "r' = after_batch r1 want idx added h" and log': "log' = (if ?batch = [] then log2 else log2 @ [Ran (Batch ?batch) True])"
    using run o hk a unfolding r1_def idx_def
    by (auto simp: rl_converge_def Let_def after_batch_def batch_of_def tc_run_def split: if_splits option.splits)
  have more: "adds log + length added \<le> adds log'"
  proof (cases "?batch = []")
    case True
    then have "added = []" by (simp add: batch_of_def add_lines_def)
    with True log' adds2 show ?thesis by simp
  next
    case False
    with log' adds2 batch_adds [of added hooks r1 want idx True] show ?thesis by (simp add: adds_def)
  qed
  have c: "converging r1 want idx added h"
    using r1 wants a more room by (simp add: converging_def idx_def r1_def)
  have t': "table_after log' = Some (fold apply_line ?batch t1)" using hooks(1) by (simp add: log' table_step_def)
  have "h \<le> adds log'" using added_eq(2) [OF c] more room(1) by (simp add: r1_def)
  moreover have "converged r' want" using rates_after(1) [OF c]
    by (simp add: r' converged_def index_after [OF c] all_indexed [OF c] split: option.split)
  ultimately show ?thesis using rules_ok_after [OF c] rec_table_after [OF c rec1 hooks(2)] t' by (simp add: r')
qed

text \<open>The log only grows.\<close>

definition grows :: "tc_event list \<Rightarrow> tc_event list \<Rightarrow> bool" where
  "grows log log' \<longleftrightarrow> (\<exists>more. log' = log @ more)"

lemma grows_refl [simp]: "grows log log"
  by (simp add: grows_def)

lemma grows_trans: "grows a b \<Longrightarrow> grows b c \<Longrightarrow> grows a c"
  by (auto simp: grows_def)

lemma grows_adds: "grows a b \<Longrightarrow> adds a \<le> adds b"
  by (auto simp: grows_def)

lemma grows_run: "tc_run tc c log = (out, log') \<Longrightarrow> grows log log'"
  by (auto simp: tc_run_def Let_def grows_def)

lemma grows_orphans: "grows log (snd (drop_orphans tc is log))"
proof (induction "is" arbitrary: log)
  case (Cons i "is")
  obtain out logm where run: "tc_run tc (PoliceDel i) log = (out, logm)" by (metis prod.exhaust)
  with grows_trans [OF grows_run [OF run] Cons.IH] show ?case by (simp add: split_beta)
qed simp

lemma grows_hooks: "grows log (snd (hook_lines tc have devs log))"
proof (induction devs arbitrary: log)
  case (Cons dev devs)
  obtain out logm where run: "tc_run tc (QdiscShow dev) log = (out, logm)" by (metis prod.exhaust)
  obtain res2 log2 where rest: "hook_lines tc have devs logm = (res2, log2)" by (metis prod.exhaust)
  have "grows log log2" using grows_trans [OF grows_run [OF run] Cons.IH] rest by (metis snd_conv)
  with grows_run [OF run] Cons.IH [of log] show ?case by (cases out; cases res2) (simp_all add: run rest)
qed simp

lemma grows_converge:
  assumes "rl_converge tc want (r, log) = (b, r', log')"
  shows "grows log log'"
proof -
  obtain left log1 where o: "drop_orphans tc (orphans r) log = (left, log1)" by (metis prod.exhaust)
  let ?r = "r\<lparr>orphans := left\<rparr>"
  obtain res log2 where hk: "hook_lines tc (clsact ?r) (used_devs (assign ?r want) want) log1 = (res, log2)" by (metis prod.exhaust)
  have "grows log log2" using grows_trans [OF grows_orphans [of log tc "orphans r"] grows_hooks] o hk by (metis snd_conv)
  moreover have "log' = log2 \<or> (\<exists>ls ok. log' = log2 @ [Ran (Batch ls) ok])"
    using assms o hk by (auto simp: rl_converge_def Let_def tc_run_def split: option.splits prod.splits if_splits)
  ultimately show ?thesis by (auto simp: grows_def)
qed

end
