(* ===== verification/Rate_Limit.thy ===== *)
theory Rate_Limit
  imports Rate_Table Xui_Target Text_Tools
begin

text \<open>
  The download limits: \<open>src/internal/modules/ratelimit/ratelimit.go\<close> and the host side of
  \<open>host.go\<close>. \<open>Apply\<close> takes Cloud's complete set, \<open>Run\<close> synchronises every two seconds; both hold
  the lock for a whole pass, so a run is a sequence of them. The routes, the interfaces, the
  ledger's answers and whether the context has ended are functions of the log of \<open>tc\<close> calls.
\<close>

section \<open>Targets\<close>

definition maxMbps :: int where "maxMbps = 10000"

fun as_strings :: "json list \<Rightarrow> string list option" where
  "as_strings [] = Some []"
| "as_strings (j # js) = (case (as_string j, as_strings js) of (Some x, Some xs) \<Rightarrow> Some (x # xs) | _ \<Rightarrow> None)"

definition typed_limit :: "(string \<Rightarrow> json option) \<Rightarrow> rlTarget option" where
  "typed_limit get = (case (Option.bind (get ''down_mbps'') as_int, Option.bind (Option.bind (get ''emails'') as_array) as_strings) of
      (Some n, Some es) \<Rightarrow> Some \<lparr>DownMbps = n, Emails = es\<rparr> | _ \<Rightarrow> None)"

definition rl_decodeTarget :: "raw \<Rightarrow> rlTarget option" where
  "rl_decodeTarget r = (case DecodeStrict typed_limit r [''down_mbps'', ''emails''] of
      None \<Rightarrow> None
    | Some t \<Rightarrow> if DownMbps t < 0 \<or> maxMbps < DownMbps t \<or> \<not> list_all Owned (Emails t) \<or> \<not> distinct (Emails t) then None else Some t)"

section \<open>The host\<close>

definition up :: "string \<Rightarrow> bool" where
  "up flags = (case ParseUint 16 32 flags of None \<Rightarrow> False | Some v \<Rightarrow> odd v)"

definition reject :: "string \<Rightarrow> bool" where
  "reject flags = (case ParseUint 16 32 flags of None \<Rightarrow> True | Some v \<Rightarrow> odd (v div 0x200))"

definition route4 :: "string list \<Rightarrow> string option" where
  "route4 f = (if 8 \<le> length f \<and> f ! 1 = ''00000000'' \<and> f ! 7 = ''00000000'' \<and> up (f ! 3) then Some (f ! 0) else None)"

definition route6 :: "string list \<Rightarrow> string option" where
  "route6 f = (if 10 \<le> length f \<and> f ! 0 = replicate 32 CHR ''0'' \<and> f ! 1 = ''00'' \<and> up (f ! 8) \<and> \<not> reject (f ! 8) \<and> f ! 9 \<noteq> ''lo''
     then Some (f ! 9) else None)"

fun seen_once :: "string list \<Rightarrow> string option list \<Rightarrow> string list" where
  "seen_once seen [] = []"
| "seen_once seen (None # xs) = seen_once seen xs"
| "seen_once seen (Some d # xs) = (if d \<in> set seen then seen_once seen xs else d # seen_once (d # seen) xs)"

text \<open>A table of the kernel: its lines up to an error, if one ended the reading.\<close>

datatype scan_error = NotExist | OtherError

type_synonym scanned = "string list \<times> scan_error option"

definition defaultRoutes :: "scanned \<Rightarrow> scanned \<Rightarrow> (string list \<times> string list) option" where
  "defaultRoutes route ipv6_route = (case snd route of
      Some _ \<Rightarrow> None
    | None \<Rightarrow> if snd ipv6_route = Some OtherError then None
        else Some (seen_once [] (map (route4 \<circ> Fields) (fst route)), seen_once [] (map (route6 \<circ> Fields) (fst ipv6_route))))"

text \<open>\<open>ownIndex.FindAllStringSubmatch\<close>: the digits of every \<open>police 0x...\<close>, from left to right.\<close>

function own_index_texts :: "string \<Rightarrow> string list" where
  "own_index_texts [] = []"
| "own_index_texts (c # cs) =
     (let d = takeWhile (\<lambda>x. x \<in> set hexits) (drop 9 (c # cs)) in
      if HasPrefix (c # cs) ''police 0x'' \<and> d \<noteq> [] then d # own_index_texts (drop (9 + length d) (c # cs)) else own_index_texts cs)"
  by pat_completeness auto
termination by (relation "measure length") auto

definition own_indexes :: "string \<Rightarrow> nat list" where
  "own_indexes out = filter (\<lambda>i. actionBase < i \<and> i \<le> actionBase + maxUsers) (List.map_filter (ParseUint 16 32) (own_index_texts out))"

text \<open>One interface of a cleanup: whether it failed there.\<close>

definition cleanup_dev :: "tc_oracle \<Rightarrow> string \<Rightarrow> tc_event list \<Rightarrow> bool \<times> tc_event list" where
  "cleanup_dev tc dev log = (case tc_run tc (QdiscShow dev) log of
      (None, log1) \<Rightarrow> (True, log1)
    | (Some out, log1) \<Rightarrow>
        if \<not> Contains out ''clsact'' then (False, log1)
        else (let log2 = snd (tc_run tc (FilterDelPref dev prefIPv4) log1); log3 = snd (tc_run tc (FilterDelPref dev prefIPv6) log2);
                  (egress, log4) = tc_run tc (FilterShow dev ''egress'') log3;
                  (ingress, log5) = tc_run tc (FilterShow dev ''ingress'') log4
              in case (egress, ingress) of
                   (Some eg, Some ing) \<Rightarrow>
                     if hasOwnFilter eg then (True, log5)
                     else if TrimSpace eg = [] \<and> TrimSpace ing = [] then
                       (case tc_run tc (QdiscDel dev) log5 of (out2, log6) \<Rightarrow> (out2 = None, log6))
                     else (False, log5)
                 | _ \<Rightarrow> (True, log5)))"

fun cleanup_devs :: "tc_oracle \<Rightarrow> string list \<Rightarrow> tc_event list \<Rightarrow> string list \<times> tc_event list" where
  "cleanup_devs tc [] log = ([], log)"
| "cleanup_devs tc (d # ds) log =
     (case cleanup_dev tc d log of (failed, log1) \<Rightarrow>
        (case cleanup_devs tc ds log1 of (fs, log2) \<Rightarrow> (if failed then d # fs else fs, log2)))"

fun delete_police :: "tc_oracle \<Rightarrow> nat list \<Rightarrow> tc_event list \<Rightarrow> nat \<times> tc_event list" where
  "delete_police tc [] log = (0, log)"
| "delete_police tc (i # is) log =
     (case tc_run tc (PoliceDel i) log of (out, log1) \<Rightarrow>
        (case delete_police tc is log1 of (n, log2) \<Rightarrow> ((if out = None then 1 else 0) + n, log2)))"

datatype police_end = PoliceGone | PoliceFailed | PoliceCancelled

text \<open>Up to five attempts, 250 ms apart; \<open>left\<close> is how many more there are.\<close>

fun cleanup_police :: "tc_oracle \<Rightarrow> (tc_event list \<Rightarrow> bool) \<Rightarrow> nat \<Rightarrow> tc_event list \<Rightarrow> police_end \<times> tc_event list" where
  "cleanup_police tc ended left log = (case tc_run tc PoliceList log of
      (None, log1) \<Rightarrow> (PoliceFailed, log1)
    | (Some out, log1) \<Rightarrow> (case delete_police tc (own_indexes out) log1 of (n, log2) \<Rightarrow>
          if n = 0 then (PoliceGone, log2)
          else (case left of 0 \<Rightarrow> (PoliceFailed, log2)
                | Suc m \<Rightarrow> if ended log2 then (PoliceCancelled, log2) else cleanup_police tc ended m log2)))"

declare cleanup_police.simps [simp del]

text \<open>Whether every rule is gone.\<close>

definition cleanup :: "tc_oracle \<Rightarrow> (tc_event list \<Rightarrow> bool) \<Rightarrow> string list \<Rightarrow> tc_event list \<Rightarrow> bool \<times> tc_event list" where
  "cleanup tc ended devs log = (case cleanup_devs tc devs log of (fs, log1) \<Rightarrow>
      case cleanup_police tc ended 4 log1 of (p, log2) \<Rightarrow>
        if p = PoliceGone \<and> fs = [] then (True, log2 @ [Cleaned]) else (False, log2))"

section \<open>The limiter\<close>

record rl_env =
  etc :: tc_oracle
  eroutes :: "tc_event list \<Rightarrow> (string list \<times> string list) option"
  elinks :: "tc_event list \<Rightarrow> string list option"
  eflows :: "tc_event list \<Rightarrow> string list \<Rightarrow> (string, Flow list) gomap"
  eflowsErr :: "tc_event list \<Rightarrow> bool"
  eended :: "tc_event list \<Rightarrow> bool"

record Limiter =
  limits :: "(string, rlTarget) gomap"
  clean :: bool
  lrules :: rules
  lcode :: string

type_synonym lworld = "Limiter \<times> tc_event list"

definition codeLogUnavailable :: string where "codeLogUnavailable = ''rate_limit_log_unavailable''"
definition codeApplyFailed :: string where "codeApplyFailed = ''rate_limit_apply_failed''"

definition newLimiter :: Limiter where
  "newLimiter = \<lparr>limits = [], clean = False, lrules = newRules, lcode = []\<rparr>"

definition setCode :: "string \<Rightarrow> Limiter \<Rightarrow> Limiter" where
  "setCode code l = l\<lparr>lcode := code\<rparr>"

text \<open>Whether the removal failed.\<close>

definition removeAll :: "rl_env \<Rightarrow> lworld \<Rightarrow> bool \<times> lworld" where
  "removeAll e w = (case w of (l, log) \<Rightarrow>
     (case elinks e log of
        None \<Rightarrow> (True, (l\<lparr>lrules := newRules, clean := False\<rparr>, log))
      | Some devs \<Rightarrow> (case cleanup (etc e) (eended e) devs log of (ok, log1) \<Rightarrow>
            (\<not> ok, (l\<lparr>lrules := newRules, clean := ok\<rparr>, log1)))))"

definition noRules :: desired_rules where "noRules = \<lparr>dRates = [], dRules = []\<rparr>"

definition want_rules :: "rl_env \<Rightarrow> lworld \<Rightarrow> desired_rules \<times> string" where
  "want_rules e w = (case w of (l, log) \<Rightarrow>
     if limits l = [] then (noRules, [])
     else (case eroutes e log of
         None \<Rightarrow> (noRules, codeApplyFailed)
       | Some (v4, v6) \<Rightarrow>
           if v4 = [] \<and> v6 = [] then (noRules, codeApplyFailed)
           else (plan_limits (limits l) (eflows e log (concat (map (Emails \<circ> snd) (limits l)))) v4 v6,
                 if eflowsErr e log then codeLogUnavailable else [])))"

text \<open>\<open>sync\<close> after its leftovers are gone.\<close>

definition sync_clean :: "rl_env \<Rightarrow> lworld \<Rightarrow> bool \<times> lworld" where
  "sync_clean e w = (case w of (l, log) \<Rightarrow> case want_rules e (l, log) of (want, code) \<Rightarrow>
     if code = codeApplyFailed then removeAll e (setCode code l, log)
     else (case rl_converge (etc e) want (lrules l, log) of
         (True, r, log1) \<Rightarrow> (False, (setCode code (l\<lparr>lrules := r\<rparr>), log1))
       | (False, r, log1) \<Rightarrow> removeAll e (setCode codeApplyFailed (l\<lparr>lrules := r\<rparr>), log1)))"

definition sync :: "rl_env \<Rightarrow> lworld \<Rightarrow> bool \<times> lworld" where
  "sync e w = (case w of (l, log) \<Rightarrow>
     if clean l then sync_clean e (l, log)
     else (case removeAll e (l, log) of
         (True, (l1, log1)) \<Rightarrow> (True, (setCode codeApplyFailed l1, log1))
       | (False, (l1, log1)) \<Rightarrow> sync_clean e (l1\<lparr>clean := True\<rparr>, log1)))"

definition take_limit :: "(string, rlTarget) gomap \<Rightarrow> string \<times> raw option \<Rightarrow> (string, rlTarget) gomap \<Rightarrow> (string, rlTarget) gomap" where
  "take_limit old x m = (case x of
      (key, None) \<Rightarrow> (case map_of old key of Some t \<Rightarrow> AList.update key t m | None \<Rightarrow> m)
    | (key, Some r) \<Rightarrow> (case rl_decodeTarget r of
          Some t \<Rightarrow> if 0 < DownMbps t \<and> Emails t \<noteq> [] then AList.update key t m else m
        | None \<Rightarrow> m))"

definition take_limits :: "(string, rlTarget) gomap \<Rightarrow> (string, raw option) gomap \<Rightarrow> (string, rlTarget) gomap" where
  "take_limits old targets = fold (take_limit old) targets []"

definition check_drift :: "rl_env \<Rightarrow> lworld \<Rightarrow> lworld" where
  "check_drift e w = (case w of (l, log) \<Rightarrow>
     if clean l then (case drifted (etc e) (lrules l) log of (d, log1) \<Rightarrow> (if d then l\<lparr>clean := False\<rparr> else l, log1)) else (l, log))"

text \<open>The codes, whether an error is returned, and the state.\<close>

definition rl_Apply :: "rl_env \<Rightarrow> (string, raw option) gomap \<Rightarrow> lworld \<Rightarrow> (string, string) gomap \<times> bool \<times> lworld" where
  "rl_Apply e targets w = (case w of (l, log) \<Rightarrow>
     (case sync e (check_drift e (l\<lparr>limits := take_limits (limits l) targets\<rparr>, log)) of
        (True, w1) \<Rightarrow> (map (\<lambda>(key, _). (key, codeApplyFailed)) targets, True, w1)
      | (False, (l1, log1)) \<Rightarrow> (if lcode l1 = [] then [] else map (\<lambda>(key, _). (key, lcode l1)) (limits l1), False, (l1, log1))))"

text \<open>One turn of \<open>Run\<close>, and its end.\<close>

definition run_tick :: "rl_env \<Rightarrow> lworld \<Rightarrow> lworld" where
  "run_tick e w = (if lcode (fst w) = codeApplyFailed then w else snd (sync e w))"

definition run_stop :: "rl_env \<Rightarrow> lworld \<Rightarrow> lworld" where
  "run_stop e w = snd (removeAll e w)"


definition leftover_try :: "rl_env \<Rightarrow> tc_event list \<Rightarrow> bool \<times> tc_event list" where
  "leftover_try e log = (case elinks e log of None \<Rightarrow> (False, log) | Some devs \<Rightarrow> cleanup (etc e) (eended e) devs log)"

section \<open>Cleaning up\<close>

lemma delete_police_grows: "grows log (snd (delete_police tc is log))"
proof (induction "is" arbitrary: log)
  case (Cons i "is")
  obtain out logm where run: "tc_run tc (PoliceDel i) log = (out, logm)" by (metis prod.exhaust)
  with grows_trans [OF grows_run [OF run] Cons.IH] show ?case by (simp add: split_beta)
qed simp

lemma cleanup_police_grows: "grows log (snd (cleanup_police tc ended left log))"
proof (induction left arbitrary: log)
  case 0
  obtain out logm where run: "tc_run tc PoliceList log = (out, logm)" by (metis prod.exhaust)
  with grows_run [OF run] grows_trans [OF grows_run [OF run] delete_police_grows] show ?case
    by (subst cleanup_police.simps) (cases out; simp add: run split_beta)
next
  case (Suc n)
  obtain out logm where run: "tc_run tc PoliceList log = (out, logm)" by (metis prod.exhaust)
  note g = grows_trans [OF grows_run [OF run] delete_police_grows]
  show ?case
    by (subst cleanup_police.simps) (cases out; use grows_run [OF run] g grows_trans [OF g Suc.IH] in \<open>simp add: run split_beta\<close>)
qed

lemma cleanup_dev_grows: "grows log (snd (cleanup_dev tc dev log))"
  by (auto simp: cleanup_dev_def tc_run_def Let_def grows_def split: option.split)

lemma cleanup_devs_grows: "grows log (snd (cleanup_devs tc devs log))"
proof (induction devs arbitrary: log)
  case (Cons d ds)
  from grows_trans [OF cleanup_dev_grows Cons.IH] show ?case by (simp add: split_beta)
qed simp

lemma cleanup_log:
  assumes "cleanup tc ended devs log = (ok, log')"
  shows "grows log log' \<and> (ok \<longrightarrow> table_after log' = Some emptyTable)"
proof -
  let ?log1 = "snd (cleanup_devs tc devs log)"
  define log2 where "log2 = snd (cleanup_police tc ended 4 ?log1)"
  have g: "grows log log2" unfolding log2_def by (rule grows_trans [OF cleanup_devs_grows cleanup_police_grows])
  have "grows log2 (log2 @ [Cleaned])" by (simp add: grows_def)
  moreover have "log' = (if ok then log2 @ [Cleaned] else log2)"
    using assms by (auto simp: cleanup_def split_beta log2_def split: if_splits)
  ultimately show ?thesis using g grows_trans by (auto simp: table_step_def)
qed

lemma removeAll_result:
  assumes "removeAll e (l, log) = (err, (l', log'))"
  shows "grows log log' \<and> limits l' = limits l \<and> lcode l' = lcode l \<and> lrules l' = newRules \<and> clean l' = (\<not> err) \<and>
    (\<not> err \<longrightarrow> table_after log' = Some emptyTable)"
  using assms by (auto simp: removeAll_def dest!: cleanup_log split: option.splits prod.splits)

section \<open>The rules follow the limits\<close>

text \<open>When the leftovers are gone the records and the table agree.\<close>

definition tracks :: "lworld \<Rightarrow> bool" where
  "tracks w \<longleftrightarrow> [] \<notin> set (gm_keys (limits (fst w))) \<and>
     (adds (snd w) < 2 ^ 32 \<and> clean (fst w) \<longrightarrow> rules_ok (lrules (fst w)) \<and> nextHandle (lrules (fst w)) \<le> adds (snd w) \<and>
        (\<exists>t. table_after (snd w) = Some t \<and> rec_table (lrules (fst w)) t))"

text \<open>The table holds exactly the wanted rules: each once, on its interface, policed by the one
  action of its group at the group's rate; a group has no action only when all 4096 are taken.\<close>

definition enforces :: "tc_table \<Rightarrow> rules \<Rightarrow> desired_rules \<Rightarrow> bool" where
  "enforces t r d \<longleftrightarrow> indexes_ok (actions r) \<and>
     (\<forall>k i. (\<exists>a. tFilters t a = Some (k, i)) \<longleftrightarrow> (\<exists>g. map_of (dRules d) k = Some g \<and> map_of (actions r) g = Some i)) \<and>
     (\<forall>a b k i j. tFilters t a = Some (k, i) \<and> tFilters t b = Some (k, j) \<longrightarrow> a = b) \<and>
     (\<forall>a k i. tFilters t a = Some (k, i) \<longrightarrow> fst a = uDev k) \<and>
     (\<forall>g i. map_of (actions r) g = Some i \<longrightarrow> gm_has (dRates d) g \<and> tRates t i = map_of (dRates d) g) \<and>
     (\<forall>g. gm_has (dRates d) g \<longrightarrow> gm_has (actions r) g \<or> exhausted r)"

lemma converged_enforces:
  assumes "rules_ok r" "converged r d" "rec_table r t"
  shows "enforces t r d"
proof -
  note filter = rec_table_filter [OF assms(3)]
  have index: "map_option iIndex (map_of (filters r) k) = (case map_of (dRules d) k of None \<Rightarrow> None | Some g \<Rightarrow> map_of (actions r) g)" for k
    using assms(2) unfolding converged_def by blast
  have rate: "map_of (rates r) i = map_of (dRates d) g" if "map_of (actions r) g = Some i" for g i
    using assms(2) that unfolding converged_def by blast
  have has: "map_of (rates r) i \<noteq> None" if "map_of (actions r) g = Some i" for g i
  proof -
    have "i \<in> set (map snd (actions r))" using map_of_SomeD [OF that] by force
    with rules_ok_rates [OF assms(1)] show ?thesis by blast
  qed
  have "(\<exists>a. tFilters t a = Some (k, i)) \<longleftrightarrow> map_option iIndex (map_of (filters r) k) = Some i" for k i
    unfolding filter by (auto simp del: split_paired_Ex)
  then have "(\<exists>a. tFilters t a = Some (k, i)) \<longleftrightarrow> (\<exists>g. map_of (dRules d) k = Some g \<and> map_of (actions r) g = Some i)" for k i
    unfolding index by (auto split: option.splits)
  moreover have "gm_has (dRates d) g \<and> tRates t i = map_of (dRates d) g" if "map_of (actions r) g = Some i" for g i
  proof -
    from has [OF that] obtain v where v: "map_of (rates r) i = Some v" by blast
    with assms(3) have "tRates t i = Some v" unfolding rec_table_def by blast
    with v rate [OF that] show ?thesis by (simp add: gm_has_def)
  qed
  moreover have "a = b" if "tFilters t a = Some (k, i)" "tFilters t b = Some (k, j)" for a b k i j using that unfolding filter by auto
  moreover have "fst a = uDev k" if "tFilters t a = Some (k, i)" for a k i using that unfolding filter by (auto simp: filter_at_def)
  moreover have "indexes_ok (actions r)" using assms(1) by (simp add: rules_ok_def)
  moreover have "\<forall>g. gm_has (dRates d) g \<longrightarrow> gm_has (actions r) g \<or> exhausted r" using assms(2) unfolding converged_def by blast
  ultimately show ?thesis unfolding enforces_def by blast
qed

lemma newRules_handle [simp]: "nextHandle newRules = 0"
  by (simp add: newRules_def)

lemma wants_ok_plan:
  assumes "[] \<notin> set (gm_keys m)"
  shows "wants_ok (plan_limits m flows v4 v6)"
proof -
  obtain rs where "set rs \<subseteq> set (gm_keys m)" "planned m (owners m (sort (gm_keys m))) flows v4 v6 rs (plan_limits m flows v4 v6)"
    by (rule plan_limits_planned)
  with assms show ?thesis by (auto simp: planned_def wants_ok_def gm_has_def)
qed

lemma wants_ok_want: "[] \<notin> set (gm_keys (limits l)) \<Longrightarrow> wants_ok (fst (want_rules e (l, log)))"
  by (auto simp: want_rules_def wants_ok_plan split: option.split) (simp_all add: noRules_def wants_ok_def gm_has_def)

text \<open>After a pass without an error: nothing, or exactly the rules wanted when it looked.\<close>

definition pass_done :: "rl_env \<Rightarrow> lworld \<Rightarrow> bool" where
  "pass_done e w \<longleftrightarrow> (\<exists>t. table_after (snd w) = Some t \<and>
     (if lcode (fst w) = codeApplyFailed then t = emptyTable
      else \<exists>log1. grows log1 (snd w) \<and> snd (want_rules e (fst w, log1)) = lcode (fst w) \<and>
         enforces t (lrules (fst w)) (fst (want_rules e (fst w, log1)))))"

lemma want_rules_cong: "limits l = limits l' \<Longrightarrow> want_rules e (l, log) = want_rules e (l', log)"
  by (simp add: want_rules_def split: option.split)

lemma removed_result:
  assumes "removeAll e (setCode codeApplyFailed l, log) = (err, (l', log'))" "[] \<notin> set (gm_keys (limits l))"
  shows "grows log log' \<and> limits l' = limits l \<and> tracks (l', log') \<and> (\<not> err \<longrightarrow> pass_done e (l', log'))"
  using removeAll_result [OF assms(1)] assms(2)
  by (auto simp: tracks_def pass_done_def setCode_def)

lemma sync_clean_result:
  assumes run: "sync_clean e (l, log) = (err, (l', log'))" and inv: "tracks (l, log)" "clean l" and few: "adds log' < 2 ^ 32"
  shows "grows log log' \<and> limits l' = limits l \<and> tracks (l', log') \<and> (\<not> err \<longrightarrow> pass_done e (l', log'))"
proof -
  obtain want code where want: "want_rules e (l, log) = (want, code)" by (metis prod.exhaust)
  have ne: "[] \<notin> set (gm_keys (limits l))" using inv(1) by (simp add: tracks_def)
  show ?thesis
  proof (cases "code = codeApplyFailed")
    case True
    with run want have "removeAll e (setCode codeApplyFailed l, log) = (err, (l', log'))" by (simp add: sync_clean_def)
    from removed_result [OF this ne] show ?thesis .
  next
    case False
    obtain b r log1 where conv: "rl_converge (etc e) want (lrules l, log) = (b, r, log1)" by (metis prod.exhaust)
    note g1 = grows_converge [OF conv]
    show ?thesis
    proof (cases b)
      case True
      with run want False conv have res: "err = False" "l' = setCode code (l\<lparr>lrules := r\<rparr>)" "log' = log1" by (auto simp: sync_clean_def)
      have "adds log < 2 ^ 32" using grows_adds [OF g1] few res(3) by simp
      with inv obtain t where t: "rules_ok (lrules l)" "nextHandle (lrules l) \<le> adds log" "table_after log = Some t" "rec_table (lrules l) t"
        by (auto simp: tracks_def)
      have w: "wants_ok want" using wants_ok_want [OF ne, of e log] want by simp
      have conv': "rl_converge (etc e) want (lrules l, log) = (True, r, log1)" using conv True by simp
      from converge_ok [OF conv' t(1) w t(3) t(4) t(2)] few res(3) obtain t' where r: "rules_ok r" "converged r want" "nextHandle r \<le> adds log1"
        "table_after log1 = Some t'" "rec_table r t'" by auto
      have "enforces t' r want" by (rule converged_enforces [OF r(1,2,5)])
      moreover have "want_rules e (l', log) = (want, code)" using want want_rules_cong [of l' l e log] by (simp add: res(2) setCode_def)
      ultimately have "pass_done e (l', log')"
        using r g1 False unfolding pass_done_def by (auto simp: res setCode_def intro!: exI [of _ log])
      with g1 r ne show ?thesis by (auto simp: res tracks_def setCode_def)
    next
      case b: False
      with run want False conv have "removeAll e (setCode codeApplyFailed (l\<lparr>lrules := r\<rparr>), log1) = (err, (l', log'))" by (simp add: sync_clean_def)
      from removed_result [OF this] ne grows_trans [OF g1] show ?thesis by auto
    qed
  qed
qed

lemma sync_result:
  assumes run: "sync e (l, log) = (err, (l', log'))" and inv: "tracks (l, log)" and few: "adds log' < 2 ^ 32"
  shows "grows log log' \<and> limits l' = limits l \<and> tracks (l', log') \<and> (\<not> err \<longrightarrow> pass_done e (l', log'))"
proof (cases "clean l")
  case True
  with sync_clean_result [OF _ inv _ few] run show ?thesis by (simp add: sync_def)
next
  case False
  obtain b l1 log1 where rem: "removeAll e (l, log) = (b, (l1, log1))" by (metis prod.exhaust)
  note r = removeAll_result [OF rem]
  show ?thesis
  proof (cases b)
    case True
    with run False rem r inv show ?thesis by (auto simp: sync_def tracks_def setCode_def)
  next
    case b: False
    with run False rem have s: "sync_clean e (l1\<lparr>clean := True\<rparr>, log1) = (err, (l', log'))" by (simp add: sync_def)
    have "tracks (l1\<lparr>clean := True\<rparr>, log1)" using inv r b by (simp add: tracks_def)
    from sync_clean_result [OF s this _ few] r grows_trans show ?thesis by auto
  qed
qed


lemma drifted_log: "drifted tc r log = (d, log') \<Longrightarrow> grows log log' \<and> table_after log' = table_after log \<and> adds log' = adds log"
proof -
  have "grows log (snd (drifted_devs tc r devs log)) \<and> table_after (snd (drifted_devs tc r devs log)) = table_after log \<and>
    adds (snd (drifted_devs tc r devs log)) = adds log" for devs
  proof (induction devs arbitrary: log)
    case (Cons dev devs)
    obtain out logm where run: "tc_run tc (FilterShow dev ''egress'') log = (out, logm)" by (metis prod.exhaust)
    then have m: "table_after logm = table_after log" "adds logm = adds log"
      by (auto simp: tc_run_def Let_def table_step_def adds_def added_by_def)
    note grows_run [OF run]
    with m Cons.IH [of logm] grows_trans show ?case by (cases out) (auto simp: run)
  qed simp
  then show "drifted tc r log = (d, log') \<Longrightarrow> ?thesis" by (metis drifted_def snd_conv)
qed

lemma check_drift_tracks: "tracks w \<Longrightarrow> tracks (check_drift e w) \<and> grows (snd w) (snd (check_drift e w)) \<and> limits (fst (check_drift e w)) = limits (fst w)"
  by (cases w) (auto simp: check_drift_def tracks_def dest!: drifted_log split: prod.split)

lemma take_limit_has: "gm_has (take_limit old x m) k \<Longrightarrow> k = fst x \<or> gm_has m k"
proof -
  obtain key st where x: "x = (key, st)" by (cases x)
  show "gm_has (take_limit old x m) k \<Longrightarrow> ?thesis"
  proof (cases st)
    case None
    then show "gm_has (take_limit old x m) k \<Longrightarrow> ?thesis" by (cases "map_of old key") (auto simp: x take_limit_def)
  next
    case (Some r)
    then show "gm_has (take_limit old x m) k \<Longrightarrow> ?thesis" by (cases "rl_decodeTarget r") (auto simp: x take_limit_def split: if_splits)
  qed
qed

lemma take_limits_has: "gm_has (take_limits old targets) k \<Longrightarrow> k \<in> set (gm_keys targets)"
proof (induction targets rule: rev_induct)
  case (snoc x xs)
  from snoc.prems have "gm_has (take_limit old x (take_limits old xs)) k" by (simp add: take_limits_def)
  from take_limit_has [OF this] snoc.IH show ?case by auto
qed (simp add: take_limits_def gm_has_def)

lemma Apply_result:
  assumes run: "rl_Apply e targets w = (codes, err, (l, log))" and inv: "tracks w" and keys: "[] \<notin> set (gm_keys targets)"
    and few: "adds log < 2 ^ 32"
  shows "grows (snd w) log \<and> limits l = take_limits (limits (fst w)) targets \<and> tracks (l, log) \<and> (\<not> err \<longrightarrow> pass_done e (l, log)) \<and>
    codes = (if err then map (\<lambda>(key, _). (key, codeApplyFailed)) targets
             else if lcode l = [] then [] else map (\<lambda>(key, _). (key, lcode l)) (limits l))"
proof -
  obtain l0 log0 where w: "w = (l0, log0)" by (cases w)
  let ?w = "(l0\<lparr>limits := take_limits (limits l0) targets\<rparr>, log0)"
  have "tracks ?w" using inv keys take_limits_has [of "limits l0" targets "[]"] by (auto simp: tracks_def w gm_has_iff)
  note d = check_drift_tracks [OF this, of e]
  obtain l2 log2 where c: "check_drift e ?w = (l2, log2)" by (metis prod.exhaust)
  obtain b l1 log1 where s: "sync e (l2, log2) = (b, (l1, log1))" by (metis prod.exhaust)
  have res: "l = l1" "log = log1" "err = b" using run c s by (auto simp: rl_Apply_def w split: bool.splits)
  from sync_result [OF s] d c few res have r: "grows log2 log1 \<and> limits l1 = limits l2 \<and> tracks (l1, log1) \<and> (\<not> b \<longrightarrow> pass_done e (l1, log1))" by simp
  with d c grows_trans have "grows log0 log" by (auto simp: res)
  with r d c run s show ?thesis by (auto simp: res w rl_Apply_def split: bool.splits)
qed

section \<open>Runs\<close>

datatype rl_step = LimitApply "(string, raw option) gomap" | LimitTick | LimitStop | LimitStart

text \<open>\<open>LimitStart\<close>: a new process, whatever the old one left.\<close>

definition rl_run_step :: "rl_env \<Rightarrow> rl_step \<Rightarrow> lworld \<Rightarrow> lworld" where
  "rl_run_step e st w = (case st of
      LimitApply targets \<Rightarrow> snd (snd (rl_Apply e targets w))
    | LimitTick \<Rightarrow> run_tick e w
    | LimitStop \<Rightarrow> run_stop e w
    | LimitStart \<Rightarrow> (newLimiter, snd w))"

fun step_keys_ok :: "rl_step \<Rightarrow> bool" where
  "step_keys_ok (LimitApply targets) = ([] \<notin> set (gm_keys targets))"
| "step_keys_ok _ = True"

lemma sync_grows: "sync e w = (err, w') \<Longrightarrow> grows (snd w) (snd w')"
proof -
  have rem: "removeAll e (l, log) = (b, v) \<Longrightarrow> grows log (snd v)" for l log b v
    by (cases v) (auto dest!: removeAll_result)
  have sc: "grows log (snd v)" if "sync_clean e (l, log) = (b, v)" for l log b v
  proof -
    obtain want code where want: "want_rules e (l, log) = (want, code)" by (metis prod.exhaust)
    obtain c r log1 where conv: "rl_converge (etc e) want (lrules l, log) = (c, r, log1)" by (metis prod.exhaust)
    from that want conv grows_converge [OF conv] show ?thesis
      by (cases c) (auto simp: sync_clean_def split: if_splits dest!: rem intro: grows_trans)
  qed
  assume "sync e w = (err, w')"
  then show ?thesis
    by (cases w) (auto simp: sync_def split: if_splits prod.splits bool.splits dest!: rem sc intro: grows_trans)
qed


lemma run_step_grows: "grows (snd w) (snd (rl_run_step e st w))"
proof (cases st)
  case (LimitApply targets)
  obtain l log where w: "w = (l, log)" by (cases w)
  let ?v = "check_drift e (l\<lparr>limits := take_limits (limits l) targets\<rparr>, log)"
  obtain b l1 log1 where s: "sync e ?v = (b, (l1, log1))" by (metis prod.exhaust)
  have "grows log (snd ?v)" by (auto simp: check_drift_def dest!: drifted_log split: prod.split)
  from grows_trans [OF this sync_grows [OF s]] show ?thesis
    by (cases b) (simp_all add: LimitApply rl_run_step_def rl_Apply_def w s)
next
  case LimitTick
  then show ?thesis using sync_grows [of e w "fst (sync e w)" "snd (sync e w)"] by (simp add: rl_run_step_def run_tick_def)
next
  case LimitStop
  obtain l log where w: "w = (l, log)" by (cases w)
  obtain b l1 log1 where "removeAll e (l, log) = (b, (l1, log1))" by (metis prod.exhaust)
  with removeAll_result [OF this] LimitStop show ?thesis by (simp add: rl_run_step_def run_stop_def w)
qed (simp add: rl_run_step_def)

lemma run_step_tracks:
  assumes inv: "tracks w" and ok: "step_keys_ok st" and few: "adds (snd (rl_run_step e st w)) < 2 ^ 32"
  shows "tracks (rl_run_step e st w)"
proof (cases st)
  case (LimitApply targets)
  obtain codes err l log where r: "rl_Apply e targets w = (codes, err, (l, log))" by (metis prod.exhaust)
  with Apply_result [OF r inv] ok few show ?thesis by (simp add: LimitApply rl_run_step_def)
next
  case LimitTick
  obtain l log where w: "w = (l, log)" by (cases w)
  obtain b l1 log1 where s: "sync e (l, log) = (b, (l1, log1))" by (metis prod.exhaust)
  from sync_result [OF s] inv few LimitTick s show ?thesis by (auto simp: rl_run_step_def run_tick_def w split: if_splits)
next
  case LimitStop
  obtain l log where w: "w = (l, log)" by (cases w)
  obtain b l1 log1 where r: "removeAll e (l, log) = (b, (l1, log1))" by (metis prod.exhaust)
  from removeAll_result [OF r] inv r LimitStop show ?thesis by (auto simp: rl_run_step_def run_stop_def w tracks_def)
next
  case LimitStart
  then show ?thesis by (simp add: rl_run_step_def tracks_def newLimiter_def)
qed

lemma run_tracks:
  "list_all step_keys_ok steps \<Longrightarrow> adds (snd (fold (rl_run_step e) steps (newLimiter, []))) < 2 ^ 32 \<Longrightarrow>
     tracks (fold (rl_run_step e) steps (newLimiter, []))"
proof (induction steps rule: rev_induct)
  case Nil
  then show ?case by (simp add: tracks_def newLimiter_def)
next
  case (snoc st steps)
  let ?w = "fold (rl_run_step e) steps (newLimiter, [])"
  have "adds (snd ?w) < 2 ^ 32" using snoc.prems(2) grows_adds [OF run_step_grows [of ?w e st]] by simp
  with snoc run_step_tracks [of ?w st e] show ?case by simp
qed

lemma map_of_const: "k \<in> set (gm_keys m) \<Longrightarrow> map_of (map (\<lambda>(key, _). (key, c)) m) k = Some c"
  by (induction m) auto


definition ex_rl_env :: rl_env where
  "ex_rl_env = \<lparr>etc = (\<lambda>log c. Some []), eroutes = (\<lambda>log. Some ([''eth0''], [])), elinks = (\<lambda>log. Some [''lo'', ''eth0'']),
     eflows = (\<lambda>log emails. [(''ak-a'', [\<lparr>fProto = ''tcp'', fLocal = (Some (V4 0x01020304), 443), fRemote = (V4 0x08080808, 50000)\<rparr>])]),
     eflowsErr = (\<lambda>log. False), eended = (\<lambda>log. False)\<rparr>"

definition ex_rl_targets :: "(string, raw option) gomap" where
  "ex_rl_targets = [(''g'', Some (Doc (JObj [(''down_mbps'', JNum ''50''), (''emails'', JArr [JStr ''ak-a''])])))]"

definition ex_rl_run :: "(string, string) gomap \<times> bool \<times> lworld" where
  "ex_rl_run = rl_Apply ex_rl_env ex_rl_targets (newLimiter, [])"

lemma ex_rl_limits: "take_limits [] ex_rl_targets = [(''g'', \<lparr>DownMbps = 50, Emails = [''ak-a'']\<rparr>)]"
  by code_simp

lemma ex_rl_removed: "removeAll ex_rl_env (l, []) =
    (False, (l\<lparr>lrules := newRules, clean := True\<rparr>, [Ran (QdiscShow ''lo'') True, Ran (QdiscShow ''eth0'') True, Ran PoliceList True, Cleaned]))"
  by (simp add: removeAll_def ex_rl_env_def cleanup_def cleanup_dev_def tc_run_def Let_def Contains_def cleanup_police.simps own_indexes_def List.map_filter_simps)

definition ex_rule :: rule where
  "ex_rule = \<lparr>uDev = ''eth0'', uProto = ''tcp'', uLocal = (Some (V4 0x01020304), 443), uRemote = (V4 0x08080808, 50000)\<rparr>"

lemma ex_rule_dev [simp]: "uDev ex_rule = ''eth0''"
  by (simp add: ex_rule_def)

lemma ex_rl_want: "limits l = [(''g'', \<lparr>DownMbps = 50, Emails = [''ak-a'']\<rparr>)] \<Longrightarrow>
    want_rules ex_rl_env (l, log) = (\<lparr>dRates = [(''g'', 50)], dRules = [(ex_rule, ''g'')]\<rparr>, [])"
  by (simp add: want_rules_def ex_rl_env_def plan_limits_def owners_def take_owner_def group_rules_def gm_get_def devs_of_def Is6_def Is4_def rule_of_def
      ex_rule_def maxFilters_def Let_def)

lemma free_index_none: "free_index [] 1 = 1"
  by (subst free_index.simps) simp

lemma ex_rl_converge: "rl_converge (etc ex_rl_env) \<lparr>dRates = [(''g'', 50)], dRules = [(ex_rule, ''g'')]\<rparr> (newRules, log) =
    (True, newRules\<lparr>clsact := [''eth0''], actions := [(''g'', 0xAC000001)], rates := [(0xAC000001, 50)],
       filters := [(ex_rule, \<lparr>iHandle = 1, iIndex = 0xAC000001\<rparr>)], nextHandle := 1\<rparr>,
     log @ [Ran (QdiscShow ''eth0'') True,
       Ran (Batch [QdiscAdd ''eth0'', PoliceReplace 50 0xAC000001, FilterAdd ex_rule 1 0xAC000001]) True])"
  by (simp add: rl_converge_def newRules_def assign_def Let_def gm_has_def free_index_none [simplified] actionBase_def maxUsers_def used_devs_def gm_get_def ex_rl_env_def
      tc_run_def Contains_def police_lines_def del_lines_def add_lines_def wanted_index_def record_batch_def ex_rule_dev)

lemma ex_rl_run: "\<exists>l log. ex_rl_run = ([], False, (l, log)) \<and> lcode l = [] \<and> adds log = 1"
  by (simp add: ex_rl_run_def rl_Apply_def newLimiter_def ex_rl_limits check_drift_def sync_def ex_rl_removed sync_clean_def ex_rl_want ex_rl_converge
      setCode_def codeApplyFailed_def adds_def added_by_def)


end
