(* ===== verification/Routing_Template.thy ===== *)
theory Routing_Template
  imports Xui_Plan Protocol
begin

text \<open>
  The routing target and the parts of the panel's Xray template it manages:
  \<open>decodeTarget\<close>, \<open>validRule\<close> and \<open>xrayRules\<close> of \<open>src/internal/modules/routing/routing.go\<close> and all of
  \<open>template.go\<close>. The sections of a template are JSON values, a missing section being no value;
  what \<open>json.Marshal\<close> writes for a map is the object with its keys in order.
\<close>

section \<open>Targets\<close>

definition direct :: string where "direct = ''direct''"
definition blocked :: string where "blocked = ''blocked''"
definition routeOwnedPrefix :: string where "routeOwnedPrefix = ''ak-o-''"
definition rulePrefix :: string where "rulePrefix = ''ak-r-''"
definition routingService :: string where "routingService = ''RoutingService''"

record Outbound =
  obTag :: string
  obConfig :: "(string, json) gomap"

record Rule =
  ruInbounds :: "int list"
  ruUsers :: "string list"
  ruSources :: "string list"
  ruDomains :: "string list"
  ruIPs :: "string list"
  ruPorts :: string
  ruNetworks :: string
  ruProtocols :: "string list"
  ruOutbound :: string

record rTarget =
  DefaultOutbound :: string
  Outbounds :: "Outbound list"
  Rules :: "Rule list"

text \<open>\<open>^ak-o-[a-z0-9-]{1,100}$\<close>\<close>

definition ownedTag :: "string \<Rightarrow> bool" where
  "ownedTag s \<longleftrightarrow> HasPrefix s routeOwnedPrefix \<and>
     (let r = drop 5 s in 1 \<le> length r \<and> length r \<le> 100 \<and> list_all (\<lambda>c. c \<in> set (lower @ digits @ ''-'')) r)"

text \<open>\<open>json.Unmarshal\<close> into a map, a list and lists of typed values: null leaves the zero value.\<close>

definition un_object :: "json \<Rightarrow> (string, json) gomap option" where
  "un_object j = (case j of JNull \<Rightarrow> Some [] | JObj kvs \<Rightarrow> Some (obj_map kvs) | _ \<Rightarrow> None)"

definition un_list :: "json \<Rightarrow> json list option" where
  "un_list j = (case j of JNull \<Rightarrow> Some [] | JArr xs \<Rightarrow> Some xs | _ \<Rightarrow> None)"

definition un_string :: "json \<Rightarrow> string option" where
  "un_string j = (case j of JNull \<Rightarrow> Some [] | JStr s \<Rightarrow> Some s | _ \<Rightarrow> None)"

definition un_int :: "json \<Rightarrow> int option" where
  "un_int j = (case j of JNull \<Rightarrow> Some 0 | _ \<Rightarrow> as_int j)"

fun each :: "('a \<Rightarrow> 'b option) \<Rightarrow> 'a list \<Rightarrow> 'b list option" where
  "each f [] = Some []"
| "each f (x # xs) = (case (f x, each f xs) of (Some y, Some ys) \<Rightarrow> Some (y # ys) | _ \<Rightarrow> None)"

definition un_strings :: "json \<Rightarrow> string list option" where
  "un_strings j = Option.bind (un_list j) (each un_string)"

definition un_ints :: "json \<Rightarrow> int list option" where
  "un_ints j = Option.bind (un_list j) (each un_int)"

definition decode_outbound :: "string list \<Rightarrow> json \<Rightarrow> Outbound option" where
  "decode_outbound tags item =
     (case DecodeStrict (\<lambda>get. case (Option.bind (get ''tag'') as_string, get ''config'') of (Some t, Some c) \<Rightarrow> Some (t, c) | _ \<Rightarrow> None)
        (Doc item) [''tag'', ''config''] of
        None \<Rightarrow> None
      | Some (tag, c) \<Rightarrow>
          (case un_object c of None \<Rightarrow> None
           | Some config \<Rightarrow>
               if \<not> ownedTag tag \<or> tag \<in> set tags then None
               else if gm_has config ''tag'' then None
               else (case Option.bind (map_of config ''protocol'') un_string of
                   None \<Rightarrow> None
                 | Some proto \<Rightarrow> if proto = [] then None else Some \<lparr>obTag = tag, obConfig = config\<rparr>)))"

fun decode_outbounds :: "string list \<Rightarrow> json list \<Rightarrow> Outbound list option" where
  "decode_outbounds tags [] = Some []"
| "decode_outbounds tags (item # items) = (case decode_outbound tags item of
      None \<Rightarrow> None
    | Some ob \<Rightarrow> map_option (\<lambda>os. ob # os) (decode_outbounds (obTag ob # tags) items))"

definition ruleFields :: "string list" where
  "ruleFields = [''inbounds'', ''users'', ''sources'', ''domains'', ''ips'', ''ports'', ''networks'', ''protocols'', ''outbound'']"

definition noRule :: Rule where
  "noRule = \<lparr>ruInbounds = [], ruUsers = [], ruSources = [], ruDomains = [], ruIPs = [], ruPorts = [], ruNetworks = [], ruProtocols = [], ruOutbound = []\<rparr>"

text \<open>\<open>DecodeKnown\<close>: fields may be missing, none may be unknown.\<close>

definition decode_rule :: "json \<Rightarrow> Rule option" where
  "decode_rule j = (case j of
      JNull \<Rightarrow> Some noRule
    | JObj kvs \<Rightarrow>
        if \<not> list_all (\<lambda>k. fold_key k \<in> set ruleFields) (map fst kvs) then None
        else (case (field [] un_ints kvs ''inbounds'', field [] un_strings kvs ''users'', field [] un_strings kvs ''sources'',
                    field [] un_strings kvs ''domains'', field [] un_strings kvs ''ips'', field [] as_string kvs ''ports'',
                    field [] as_string kvs ''networks'', field [] un_strings kvs ''protocols'', field [] as_string kvs ''outbound'') of
            (Some i, Some u, Some s, Some d, Some ip, Some p, Some n, Some pr, Some ob) \<Rightarrow>
              Some \<lparr>ruInbounds = i, ruUsers = u, ruSources = s, ruDomains = d, ruIPs = ip, ruPorts = p, ruNetworks = n, ruProtocols = pr, ruOutbound = ob\<rparr>
          | _ \<Rightarrow> None)
    | _ \<Rightarrow> None)"

definition validRule :: "Rule \<Rightarrow> bool" where
  "validRule r \<longleftrightarrow>
     \<not> (length (ruInbounds r) + length (ruUsers r) + length (ruSources r) + length (ruDomains r) + length (ruIPs r) + length (ruProtocols r) = 0 \<and>
        ruPorts r = [] \<and> ruNetworks r = []) \<and>
     list_all (\<lambda>n. \<not> n < 1) (ruInbounds r) \<and> list_all Owned (ruUsers r) \<and>
     list_all (\<lambda>xs. [] \<notin> set xs) [ruSources r, ruDomains r, ruIPs r, ruProtocols r]"

definition decode_rules :: "string list \<Rightarrow> json list \<Rightarrow> Rule list option" where
  "decode_rules tags items = each (\<lambda>j. case decode_rule j of None \<Rightarrow> None
     | Some r \<Rightarrow> if ruOutbound r \<notin> set tags \<or> \<not> validRule r then None else Some r) items"

definition routing_decodeTarget :: "raw \<Rightarrow> rTarget option" where
  "routing_decodeTarget r =
     (case DecodeStrict (\<lambda>get. case (Option.bind (get ''default_outbound'') as_string, Option.bind (get ''outbounds'') as_array, Option.bind (get ''rules'') as_array) of
          (Some d, Some os, Some rs) \<Rightarrow> Some (d, os, rs) | _ \<Rightarrow> None) r [''default_outbound'', ''outbounds'', ''rules''] of
        None \<Rightarrow> None
      | Some (d, os, rs) \<Rightarrow> (case decode_outbounds [direct, blocked] os of
            None \<Rightarrow> None
          | Some obs \<Rightarrow>
              let tags = [direct, blocked] @ map obTag obs in
              if d = blocked \<or> d \<notin> set tags then None
              else map_option (\<lambda>rules. \<lparr>DefaultOutbound = d, Outbounds = obs, Rules = rules\<rparr>) (decode_rules tags rs)))"

section \<open>Rules as Xray takes them\<close>

definition omit_list :: "string \<Rightarrow> string list \<Rightarrow> (string \<times> json) list" where
  "omit_list k xs = (if xs = [] then [] else [(k, JArr (map JStr xs))])"

definition omit_text :: "string \<Rightarrow> string \<Rightarrow> (string \<times> json) list" where
  "omit_text k s = (if s = [] then [] else [(k, JStr s)])"

definition xray_rule :: "nat \<Rightarrow> string list \<Rightarrow> Rule \<Rightarrow> json" where
  "xray_rule i tags r = JObj ([(''ruleTag'', JStr (rulePrefix @ Itoa (int i)))] @ omit_list ''inboundTag'' tags @ omit_list ''user'' (ruUsers r) @
     omit_list ''sourceIP'' (ruSources r) @ omit_list ''domain'' (ruDomains r) @ omit_list ''ip'' (ruIPs r) @ omit_text ''port'' (ruPorts r) @
     omit_text ''network'' (ruNetworks r) @ omit_list ''protocol'' (ruProtocols r) @ [(''outboundTag'', JStr (ruOutbound r))])"

definition inbound_tags :: "Inbound_panel list \<Rightarrow> (int, string) gomap" where
  "inbound_tags ibs = fold (\<lambda>ib. AList.update (ibID ib) (ibTag ib)) ibs []"

fun rules_from :: "(int, string) gomap \<Rightarrow> nat \<Rightarrow> Rule list \<Rightarrow> json list option" where
  "rules_from tags i [] = Some []"
| "rules_from tags i (r # rs) = (case each (map_of tags) (ruInbounds r) of
      None \<Rightarrow> None
    | Some ts \<Rightarrow> map_option (\<lambda>js. xray_rule (i + 1) ts r # js) (rules_from tags (i + 1) rs))"

definition xrayRules :: "Rule list \<Rightarrow> Inbound_panel list \<Rightarrow> json list option" where
  "xrayRules rs ibs = rules_from (inbound_tags ibs) 0 rs"

section \<open>The template\<close>

type_synonym xconfig = "(string, json) gomap"

definition managedKeys :: "string list" where "managedKeys = [''outbounds'', ''routing'', ''api'']"

definition directOutbound :: json where "directOutbound = JObj [(''tag'', JStr ''direct''), (''protocol'', JStr ''freedom'')]"
definition blockedOutbound :: json where "blockedOutbound = JObj [(''tag'', JStr ''blocked''), (''protocol'', JStr ''blackhole'')]"
definition defaultAPIRule :: json where
  "defaultAPIRule = JObj [(''type'', JStr ''field''), (''inboundTag'', JArr [JStr ''api'']), (''outboundTag'', JStr ''api'')]"

definition outboundJSON :: "Outbound \<Rightarrow> json" where
  "outboundJSON ob = obj_of (AList.update ''tag'' (JStr (obTag ob)) (obConfig ob))"

definition managed_outbounds :: "rTarget \<Rightarrow> json list" where
  "managed_outbounds t = map outboundJSON (filter (\<lambda>ob. obTag ob = DefaultOutbound t) (Outbounds t)) @ [directOutbound, blockedOutbound] @
     map outboundJSON (filter (\<lambda>ob. obTag ob \<noteq> DefaultOutbound t) (Outbounds t))"

definition decodeObject :: "json option \<Rightarrow> xconfig option" where
  "decodeObject sec = (case sec of None \<Rightarrow> Some [] | Some j \<Rightarrow> un_object j)"

definition isAPIRule :: "json \<Rightarrow> bool" where
  "isAPIRule j = (case j of
      JObj kvs \<Rightarrow> field [] as_string kvs ''outboundTag'' = Some ''api'' \<and>
        (case struct_get kvs ''inboundTag'' of
           Some (JStr s) \<Rightarrow> s = ''api''
         | Some (JArr xs) \<Rightarrow> JStr ''api'' \<in> set xs
         | _ \<Rightarrow> False)
    | _ \<Rightarrow> False)"

definition api_rule_of :: "json list \<Rightarrow> json" where
  "api_rule_of rs = (case filter isAPIRule rs of [] \<Rightarrow> defaultAPIRule | r # _ \<Rightarrow> r)"

definition managed_routing :: "xconfig \<Rightarrow> json list \<Rightarrow> json option" where
  "managed_routing template rules = (case decodeObject (map_of template ''routing'') of
      None \<Rightarrow> None
    | Some routing \<Rightarrow> (case (case map_of routing ''rules'' of None \<Rightarrow> Some [] | Some j \<Rightarrow> un_list j) of
          None \<Rightarrow> None
        | Some current \<Rightarrow> Some (obj_of (AList.delete ''balancers'' (AList.update ''rules'' (JArr (api_rule_of current # rules)) routing)))))"

definition managed_api :: "xconfig \<Rightarrow> json option" where
  "managed_api template = (case decodeObject (map_of template ''api'') of
      None \<Rightarrow> None
    | Some api \<Rightarrow> (case (case map_of api ''services'' of None \<Rightarrow> Some [] | Some j \<Rightarrow> un_strings j) of
          None \<Rightarrow> None
        | Some services \<Rightarrow>
            Some (obj_of (AList.update ''services'' (JArr (map JStr (if routingService \<in> set services then services else services @ [routingService]))) api))))"

definition managedTemplate :: "xconfig \<Rightarrow> rTarget \<Rightarrow> json list \<Rightarrow> xconfig option" where
  "managedTemplate template t rules = (case managed_routing template rules of
      None \<Rightarrow> None
    | Some routing \<Rightarrow> (case managed_api template of
          None \<Rightarrow> None
        | Some api \<Rightarrow> Some (AList.update ''api'' api (AList.update ''routing'' routing (AList.update ''outbounds'' (JArr (managed_outbounds t)) template)))))"

text \<open>The first rule of a template \<open>managedTemplate\<close> built.\<close>

definition apiRule :: "xconfig \<Rightarrow> json" where
  "apiRule template = (case map_of template ''routing'' of
      Some (JObj kvs) \<Rightarrow> (case field [] un_list kvs ''rules'' of Some (r # _) \<Rightarrow> r | _ \<Rightarrow> JNull)
    | _ \<Rightarrow> JNull)"

definition testConfig :: "xconfig \<Rightarrow> xconfig \<Rightarrow> json" where
  "testConfig config template = obj_of (AList.delete ''log'' (AList.delete ''inbounds''
     (fold (\<lambda>k. AList.update k (gm_get JNull template k)) managedKeys config)))"

text \<open>One spelling of a value: keys once and in order.\<close>

fun canonical :: "json \<Rightarrow> json" where
  "canonical (JArr xs) = JArr (map canonical xs)"
| "canonical (JObj kvs) = obj_of (obj_map (map (\<lambda>(k, v). (k, canonical v)) kvs))"
| "canonical j = j"

definition sameManaged :: "xconfig \<Rightarrow> xconfig \<Rightarrow> bool" where
  "sameManaged a b = list_all (\<lambda>k. map_option canonical (map_of a k) = map_option canonical (map_of b k)) managedKeys"

definition hasService :: "xconfig \<Rightarrow> string \<Rightarrow> bool" where
  "hasService config service = (case map_of config ''api'' of
      Some (JObj kvs) \<Rightarrow> (case field [] un_strings kvs ''services'' of Some ss \<Rightarrow> service \<in> set ss | None \<Rightarrow> False)
    | _ \<Rightarrow> False)"

text \<open>\<open>json.Unmarshal\<close> into a struct with a tag.\<close>

definition un_tag :: "json \<Rightarrow> string option" where
  "un_tag j = (case j of JNull \<Rightarrow> Some [] | JObj kvs \<Rightarrow> field [] as_string kvs ''tag'' | _ \<Rightarrow> None)"

definition builtinOutbounds :: "xconfig \<Rightarrow> json" where
  "builtinOutbounds config =
     (let obs = (case Option.bind (map_of config ''outbounds'') un_list of None \<Rightarrow> [] | Some xs \<Rightarrow> xs)
      in canonical (JArr (filter (\<lambda>ob. case un_tag ob of None \<Rightarrow> True | Some tag \<Rightarrow> \<not> HasPrefix tag routeOwnedPrefix) obs)))"

definition firstOutbound :: "xconfig \<Rightarrow> string" where
  "firstOutbound config = (case Option.bind (Option.bind (map_of config ''outbounds'') un_list) (each un_tag) of
      Some (tag # _) \<Rightarrow> tag | _ \<Rightarrow> [])"


section \<open>Reading back what was written\<close>

lemma fold_char_ge: "c \<le> fold_char c"
proof (cases "map_of (zip upper lower) c")
  case None
  then show ?thesis by (simp add: fold_char_def)
next
  case (Some d)
  then have "(c, d) \<in> set (zip upper lower)" by (rule map_of_SomeD)
  then have "c \<le> d" by (auto simp: upper_def lower_def less_eq_char_def)
  with Some show ?thesis by (simp add: fold_char_def)
qed

lemma fold_key_ge: "s \<le> fold_key s"
proof (induction s)
  case (Cons c s)
  with fold_char_ge [of c] show ?case by (auto simp: fold_key_def Cons_le_Cons order.order_iff_strict)
qed (simp add: fold_key_def)

lemma obj_map_distinct: "gm_ok kvs \<Longrightarrow> obj_map kvs = kvs"
proof (induction kvs rule: rev_induct)
  case (snoc x xs)
  obtain k v where x: "x = (k, v)" by (cases x)
  have "obj_map xs = xs" "k \<notin> set (gm_keys xs)" using snoc by (auto simp: gm_ok_def x)
  moreover have "k \<notin> set (gm_keys m) \<Longrightarrow> AList.update k v m = m @ [(k, v)]" for m by (induction m) auto
  ultimately show ?case by (simp add: obj_map_def x)
qed (simp add: obj_map_def)

lemma gm_ok_obj_map: "gm_ok (obj_map kvs)"
proof -
  have "gm_ok m \<Longrightarrow> gm_ok (fold (\<lambda>(k, v). AList.update k v) kvs m)" for m by (induction kvs arbitrary: m) auto
  then show ?thesis by (simp add: obj_map_def)
qed

lemma gm_ok_sort [simp]: "gm_ok (sort_key fst m) = gm_ok m"
  by (simp add: gm_ok_def distinct_map)

lemma map_of_sort: "gm_ok m \<Longrightarrow> map_of (sort_key fst m) k = map_of m k"
  using gm_in_set [of m k] gm_in_set [of "sort_key fst m" k] by (cases "map_of m k"; cases "map_of (sort_key fst m) k") auto

lemma un_object_of: "gm_ok m \<Longrightarrow> un_object (obj_of m) = Some (sort_key fst m)"
  by (simp add: un_object_def obj_of_def obj_map_distinct)

lemma obj_of_sorted: "obj_of (sort_key fst m) = obj_of m"
  by (simp add: obj_of_def sort_key_id_if_sorted)

text \<open>A struct field reads a key in lower case back: every other spelling sorts before it.\<close>

lemma struct_get_sorted:
  assumes ok: "gm_ok m" and k: "fold_key k = k" "map_of m k = Some v"
  shows "struct_get (sort_key fst m) k = Some v"
proof -
  let ?l = "sort_key fst m"
  have "(k, v) \<in> set ?l" using k(2) by (auto dest: map_of_SomeD)
  then obtain xs ys where l: "?l = xs @ (k, v) # ys" by (metis split_list)
  have "gm_ok ?l" "sorted (map fst ?l)" using ok by simp_all
  then have after: "k < k'" if "(k', v') \<in> set ys" for k' v'
    using that unfolding l by (force simp: gm_ok_def sorted_append order.order_iff_strict)
  have "k \<notin> fst ` (\<lambda>(k, v). (fold_key k, v)) ` set ys"
  proof
    assume "k \<in> fst ` (\<lambda>(k, v). (fold_key k, v)) ` set ys"
    then obtain k' v' where y: "(k', v') \<in> set ys" "fold_key k' = k" by auto
    with after [OF y(1)] fold_key_ge [of k'] show False by simp
  qed
  then have "map_of (rev (map (\<lambda>(k, v). (fold_key k, v)) ys)) k = None" by (simp add: map_of_eq_None_iff)
  then show ?thesis
    unfolding struct_get_def obj_get_def l by (simp add: k(1) map_add_def)
qed

lemma field_sorted: "gm_ok m \<Longrightarrow> fold_key k = k \<Longrightarrow> map_of m k = Some v \<Longrightarrow> v \<noteq> JNull \<Longrightarrow> field z conv (sort_key fst m) k = conv v"
  by (simp add: field_def struct_get_sorted)

lemma fold_known [simp]: "fold_key ''tag'' = ''tag''" "fold_key ''rules'' = ''rules''" "fold_key ''services'' = ''services''"
  by code_simp+

lemma un_tag_outbound: "gm_ok (obConfig ob) \<Longrightarrow> un_tag (outboundJSON ob) = Some (obTag ob)"
  by (simp add: outboundJSON_def obj_of_def un_tag_def field_sorted map_of_update_gm)

lemma each_append: "each f (xs @ ys) = (case (each f xs, each f ys) of (Some a, Some b) \<Rightarrow> Some (a @ b) | _ \<Rightarrow> None)"
  by (induction xs) (auto split: option.splits)

lemma each_map: "(\<And>x. x \<in> set xs \<Longrightarrow> f (g x) = Some (h x)) \<Longrightarrow> each f (map g xs) = Some (map h xs)"
  by (induction xs) auto

lemma each_Some: "each f xs = Some ys \<Longrightarrow> list_all2 (\<lambda>x y. f x = Some y) xs ys"
  by (induction xs arbitrary: ys) (auto split: option.splits)

section \<open>Decoded targets\<close>

lemma decode_outbounds_ok:
  "decode_outbounds tags items = Some obs \<Longrightarrow> distinct (map obTag obs) \<and> set (map obTag obs) \<inter> set tags = {} \<and>
     (\<forall>ob \<in> set obs. ownedTag (obTag ob) \<and> gm_ok (obConfig ob))"
proof (induction items arbitrary: tags obs)
  case (Cons item items)
  from Cons.prems obtain ob rest where ob: "decode_outbound tags item = Some ob" and rest: "decode_outbounds (obTag ob # tags) items = Some rest" "obs = ob # rest"
    by (auto split: option.splits)
  from ob have "ownedTag (obTag ob)" "obTag ob \<notin> set tags" "gm_ok (obConfig ob)"
    by (auto simp: decode_outbound_def un_object_def gm_ok_obj_map split: option.splits prod.splits if_splits json.splits)
  with Cons.IH [OF rest(1)] rest(2) show ?case by auto
qed simp

definition route_ok :: "rTarget \<Rightarrow> bool" where
  "route_ok t \<longleftrightarrow> distinct (map obTag (Outbounds t)) \<and> (\<forall>ob \<in> set (Outbounds t). ownedTag (obTag ob) \<and> gm_ok (obConfig ob)) \<and>
     DefaultOutbound t \<in> set (direct # map obTag (Outbounds t)) \<and>
     (\<forall>r \<in> set (Rules t). validRule r \<and> ruOutbound r \<in> set (direct # blocked # map obTag (Outbounds t)))"

lemma decode_rules_ok: "decode_rules tags items = Some rs \<Longrightarrow> \<forall>r \<in> set rs. validRule r \<and> ruOutbound r \<in> set tags"
  by (induction items arbitrary: rs) (auto simp: decode_rules_def split: option.splits if_splits)

lemma routing_decodeTarget_ok: "routing_decodeTarget r = Some t \<Longrightarrow> route_ok t"
  by (auto simp: routing_decodeTarget_def route_ok_def Let_def dest!: decode_outbounds_ok decode_rules_ok split: option.splits prod.splits if_splits)

lemma owned_not_builtin: "ownedTag s \<Longrightarrow> s \<noteq> direct \<and> s \<noteq> blocked"
  by (auto simp: ownedTag_def direct_def blocked_def routeOwnedPrefix_def HasPrefix_def)


section \<open>The managed template\<close>

lemma api_rule_ok: "isAPIRule (api_rule_of rs)"
proof (cases "filter isAPIRule rs")
  case Nil
  have "isAPIRule defaultAPIRule" by code_simp
  with Nil show ?thesis by (simp add: api_rule_of_def)
next
  case (Cons r rest)
  have "r \<in> set (filter isAPIRule rs)" unfolding Cons by simp
  then have "isAPIRule r" by simp
  with Cons show ?thesis by (simp add: api_rule_of_def)
qed

lemma decodeObject_ok: "decodeObject sec = Some m \<Longrightarrow> gm_ok m"
  by (auto simp: decodeObject_def un_object_def gm_ok_obj_map split: option.splits json.splits)

text \<open>The routing section: the api rule and the target's rules, everything else but the balancers kept.\<close>

lemma managed_routing_result:
  assumes "managed_routing c rules = Some j"
  obtains R R' api where "decodeObject (map_of c ''routing'') = Some R" "j = obj_of R'" "gm_ok R'" "isAPIRule api"
    "map_of R' ''rules'' = Some (JArr (api # rules))" "map_of R' ''balancers'' = None"
    "\<forall>k. k \<noteq> ''rules'' \<and> k \<noteq> ''balancers'' \<longrightarrow> map_of R' k = map_of R k"
proof -
  from assms obtain R cur where R: "decodeObject (map_of c ''routing'') = Some R"
    and j: "j = obj_of (AList.delete ''balancers'' (AList.update ''rules'' (JArr (api_rule_of cur # rules)) R))"
    by (auto simp: managed_routing_def split: option.splits)
  show ?thesis
    by (rule that [OF R j]) (use decodeObject_ok [OF R] api_rule_ok in \<open>auto simp: gm_simps\<close>)
qed

lemma managed_routing_again:
  assumes "gm_ok R'" "isAPIRule api" "map_of R' ''rules'' = Some (JArr (api # rules))" "map_of R' ''balancers'' = None"
    and "map_of c ''routing'' = Some (obj_of R')"
  shows "managed_routing c rules = Some (obj_of R')"
proof -
  have d: "decodeObject (map_of c ''routing'') = Some (sort_key fst R')" using assms(1,5) by (simp add: decodeObject_def un_object_of)
  have r: "map_of (sort_key fst R') ''rules'' = Some (JArr (api # rules))" using assms(1,3) by (simp add: map_of_sort)
  have "''balancers'' \<notin> fst ` set (sort_key fst R')" using assms(4) by (simp add: map_of_eq_None_iff)
  then have b: "AList.delete ''balancers'' (sort_key fst R') = sort_key fst R'" by (simp add: AList.delete_id)
  have "api_rule_of (api # rules) = api" using assms(2) by (simp add: api_rule_of_def)
  then show ?thesis by (simp add: managed_routing_def d r un_list_def AList.update_triv b obj_of_sorted)
qed

lemma managed_api_result:
  assumes "managed_api c = Some j"
  obtains A where "j = obj_of A" "gm_ok A" "\<exists>ss. map_of A ''services'' = Some (JArr (map JStr ss)) \<and> routingService \<in> set ss"
proof -
  from assms obtain A where A: "decodeObject (map_of c ''api'') = Some A" by (auto simp: managed_api_def split: option.splits)
  with assms obtain ss where "(case map_of A ''services'' of None \<Rightarrow> Some [] | Some j \<Rightarrow> un_strings j) = Some ss"
    by (cases "case map_of A ''services'' of None \<Rightarrow> Some [] | Some j \<Rightarrow> un_strings j") (simp_all add: managed_api_def)
  with assms A have j: "j = obj_of (AList.update ''services'' (JArr (map JStr (if routingService \<in> set ss then ss else ss @ [routingService]))) A)"
    by (simp add: managed_api_def)
  show ?thesis
    by (rule that [OF j]) (use decodeObject_ok [OF A] in \<open>auto simp: gm_simps intro!: exI [of _ "if routingService \<in> set ss then ss else ss @ [routingService]"]\<close>)
qed

lemma un_strings_JStr: "un_strings (JArr (map JStr ss)) = Some ss"
  by (simp add: un_strings_def un_list_def each_map [of ss un_string JStr "\<lambda>s. s"] un_string_def)

lemma managed_api_again:
  assumes "gm_ok A" "map_of A ''services'' = Some (JArr (map JStr ss))" "routingService \<in> set ss" and "map_of c ''api'' = Some (obj_of A)"
  shows "managed_api c = Some (obj_of A)"
proof -
  have d: "decodeObject (map_of c ''api'') = Some (sort_key fst A)" using assms(1,4) by (simp add: decodeObject_def un_object_of)
  have "map_of (sort_key fst A) ''services'' = Some (JArr (map JStr ss))" using assms(1,2) by (simp add: map_of_sort)
  then show ?thesis using assms(3) by (simp add: managed_api_def d un_strings_JStr AList.update_triv obj_of_sorted)
qed

lemma managed_outbound_tags:
  assumes "route_ok t"
  shows "each un_tag (managed_outbounds t) = Some ((if DefaultOutbound t = direct then [] else [DefaultOutbound t]) @ [direct, blocked] @
    filter (\<lambda>tag. tag \<noteq> DefaultOutbound t) (map obTag (Outbounds t)))"
proof -
  let ?D = "\<lambda>ob. obTag ob = DefaultOutbound t"
  have tags: "each un_tag (map outboundJSON (filter P (Outbounds t))) = Some (map obTag (filter P (Outbounds t)))" for P
    by (rule each_map) (use assms un_tag_outbound in \<open>auto simp: route_ok_def\<close>)
  have "un_tag directOutbound = Some direct" "un_tag blockedOutbound = Some blocked" by code_simp+
  moreover have "map obTag (filter ?D (Outbounds t)) = (if DefaultOutbound t = direct then [] else [DefaultOutbound t])"
  proof (cases "DefaultOutbound t = direct")
    case True
    with assms show ?thesis using owned_not_builtin by (auto simp: route_ok_def filter_empty_conv)
  next
    case False
    with assms have "DefaultOutbound t \<in> set (map obTag (Outbounds t))" "distinct (map obTag (Outbounds t))" by (auto simp: route_ok_def)
    moreover have "x \<in> set xs \<Longrightarrow> distinct xs \<Longrightarrow> filter (\<lambda>y. y = x) xs = [x]" for x and xs :: "string list"
      by (induction xs) (auto simp: filter_empty_conv)
    ultimately have "filter (\<lambda>tag. tag = DefaultOutbound t) (map obTag (Outbounds t)) = [DefaultOutbound t]" by blast
    with False show ?thesis by (simp add: filter_map comp_def)
  qed
  ultimately show ?thesis using tags [of ?D] tags [of "\<lambda>ob. \<not> ?D ob"]
    by (simp add: managed_outbounds_def each_append filter_map comp_def)
qed



definition ex_route_target :: raw where
  "ex_route_target = Doc (JObj [(''default_outbound'', JStr ''ak-o-1''),
     (''outbounds'', JArr [JObj [(''tag'', JStr ''ak-o-1''), (''config'', JObj [(''protocol'', JStr ''socks'')])]]),
     (''rules'', JArr [JObj [(''users'', JArr [JStr ''ak-a'']), (''outbound'', JStr ''direct'')]])])"

definition ex_route :: rTarget where
  "ex_route = \<lparr>DefaultOutbound = ''ak-o-1'', Outbounds = [\<lparr>obTag = ''ak-o-1'', obConfig = [(''protocol'', JStr ''socks'')]\<rparr>],
     Rules = [noRule\<lparr>ruUsers := [''ak-a''], ruOutbound := ''direct''\<rparr>]\<rparr>"

lemma ex_route_decoded: "routing_decodeTarget ex_route_target = Some ex_route"
  by code_simp

definition ex_template :: xconfig where
  "ex_template = [(''routing'', JObj [(''domainStrategy'', JStr ''AsIs''), (''balancers'', JArr [])]), (''dns'', JObj [])]"

lemma ex_template_managed: "managedTemplate ex_template ex_route [] \<noteq> None"
  by code_simp


end
