(* ===== verification/Routing.thy ===== *)
theory Routing
  imports Routing_Template
begin

text \<open>
  Bringing the panel's template and the running Xray to a routing target: \<open>Apply\<close>, \<open>apply\<close>,
  \<open>hotUpdate\<close> and \<open>restart\<close> of \<open>src/internal/modules/routing/routing.go\<close>. The module keeps no state;
  the panel and the Xray are oracles over the log of one pass, so that anything may fail or change
  at any time. How often the wait for a restarted Xray polls before its deadline is one of them.
\<close>

record xrun =
  xPid :: string
  xConfig :: xconfig

record Template =
  tplConfig :: xconfig
  tplURL :: string

datatype test_result = TestOk | TestInvalid | TestError

datatype route_event = Located | ListedInbounds | ReadTemplate "Template option" | Tested json test_result | SavedTemplate Template bool
  | PanelRestart bool | AskedRules bool | ListedOutbounds "string list option" | AddedOutbounds "json list" bool
  | ReplacedRules "json list" bool | RemovedOutbounds "string list" bool

type_synonym rlog = "route_event list"

record route_env =
  qLocate :: "rlog \<Rightarrow> xrun option"
  qInbounds :: "rlog \<Rightarrow> Inbound_panel list option"
  qTemplate :: "rlog \<Rightarrow> Template option"
  qTest :: "rlog \<Rightarrow> json \<Rightarrow> test_result"
  qSave :: "rlog \<Rightarrow> Template \<Rightarrow> bool"
  qRestart :: "rlog \<Rightarrow> bool"
  qRules :: "rlog \<Rightarrow> xrun \<Rightarrow> bool"
  qOutbounds :: "rlog \<Rightarrow> xrun \<Rightarrow> string list option"
  qAdd :: "rlog \<Rightarrow> xrun \<Rightarrow> json list \<Rightarrow> bool"
  qReplace :: "rlog \<Rightarrow> xrun \<Rightarrow> json list \<Rightarrow> bool"
  qRemove :: "rlog \<Rightarrow> xrun \<Rightarrow> string list \<Rightarrow> bool"
  qPolls :: "rlog \<Rightarrow> nat"
  qDone :: "rlog \<Rightarrow> bool"

definition codeInboundMissing :: string where "codeInboundMissing = ''routing_inbound_missing''"
definition codeConfigInvalid :: string where "codeConfigInvalid = ''routing_config_invalid''"
definition codePanelFailed :: string where "codePanelFailed = ''routing_panel_failed''"
definition codeXrayUnavailable :: string where "codeXrayUnavailable = ''routing_xray_unavailable''"
definition codeRouteFailed :: string where "codeRouteFailed = ''routing_apply_failed''"
definition codeRestartFailed :: string where "codeRestartFailed = ''routing_restart_failed''"
definition codeTargetInvalid :: string where "codeTargetInvalid = ''target_invalid''"
definition Key :: string where "Key = ''node''"

lemmas route_codes = codeInboundMissing_def codeConfigInvalid_def codePanelFailed_def codeXrayUnavailable_def codeRouteFailed_def
  codeRestartFailed_def codeTargetInvalid_def

section \<open>Restarting\<close>

fun wait_new :: "route_env \<Rightarrow> xrun \<Rightarrow> nat \<Rightarrow> rlog \<Rightarrow> xrun option \<times> rlog" where
  "wait_new e old n log =
     (let log1 = log @ [Located];
          found = (case qLocate e log of Some now \<Rightarrow> xPid now \<noteq> xPid old | None \<Rightarrow> False);
          now = the (qLocate e log);
          answers = found \<and> qRules e log1 now;
          log2 = (if found then log1 @ [AskedRules answers] else log1)
      in if answers then (if hasService (xConfig now) routingService then Some now else None, log2)
         else (case n of 0 \<Rightarrow> (None, log2)
               | Suc m \<Rightarrow> if qDone e log2 then (None, log2) else wait_new e old m log2))"

declare wait_new.simps [simp del]

definition restart_xray :: "route_env \<Rightarrow> xrun \<Rightarrow> rlog \<Rightarrow> xrun option \<times> rlog" where
  "restart_xray e old log =
     (let ok = qRestart e log; log1 = log @ [PanelRestart ok] in
      if \<not> ok then (None, log1) else wait_new e old (qPolls e log1) log1)"

section \<open>The running Xray\<close>

definition missing_outbounds :: "rTarget \<Rightarrow> string list \<Rightarrow> json list" where
  "missing_outbounds t present = map outboundJSON (filter (\<lambda>ob. obTag ob \<notin> set present) (Outbounds t))"

definition stale_outbounds :: "rTarget \<Rightarrow> string list \<Rightarrow> string list" where
  "stale_outbounds t present = filter (\<lambda>tag. HasPrefix tag routeOwnedPrefix \<and> tag \<notin> set (map obTag (Outbounds t))) present"

text \<open>A failed replacement may leave no rules at all: unless another process already runs or the
  Xray still answers, it is restarted.\<close>

definition recover_rules :: "route_env \<Rightarrow> xrun \<Rightarrow> rlog \<Rightarrow> rlog" where
  "recover_rules e running log =
     (let log1 = log @ [Located] in
      case qLocate e log of
        None \<Rightarrow> log1
      | Some now \<Rightarrow>
          if xPid now \<noteq> xPid running then log1
          else (let ok = qRules e log1 running; log2 = log1 @ [AskedRules ok]
                in if ok then log2 else snd (restart_xray e running log2)))"

definition remove_stale :: "route_env \<Rightarrow> xrun \<Rightarrow> string list \<Rightarrow> rlog \<Rightarrow> string \<times> rlog" where
  "remove_stale e running stale log =
     (if stale = [] then ([], log)
      else (let ok = qRemove e log running stale in (if ok then [] else codeRouteFailed, log @ [RemovedOutbounds stale ok])))"

definition replace_rules :: "route_env \<Rightarrow> xrun \<Rightarrow> rTarget \<Rightarrow> string list \<Rightarrow> json list \<Rightarrow> rlog \<Rightarrow> string \<times> rlog" where
  "replace_rules e running t present rules log =
     (let ok = qReplace e log running rules; log1 = log @ [ReplacedRules rules ok] in
      if \<not> ok then (codeRouteFailed, recover_rules e running log1)
      else remove_stale e running (stale_outbounds t present) log1)"

definition hotUpdate :: "route_env \<Rightarrow> xrun \<Rightarrow> rTarget \<Rightarrow> json \<Rightarrow> json list \<Rightarrow> rlog \<Rightarrow> string \<times> rlog" where
  "hotUpdate e running t api rules log =
     (let log1 = log @ [ListedOutbounds (qOutbounds e log running)] in
      case qOutbounds e log running of
        None \<Rightarrow> (codeXrayUnavailable, log1)
      | Some present \<Rightarrow>
          let add = missing_outbounds t present in
          if add = [] then replace_rules e running t present (api # rules) log1
          else (let ok = qAdd e log1 running add; log2 = log1 @ [AddedOutbounds add ok] in
                if \<not> ok then (codeRouteFailed, log2) else replace_rules e running t present (api # rules) log2))"

section \<open>One pass\<close>

text \<open>Writing the template: the code of a failure, or none.\<close>

definition write_template :: "route_env \<Rightarrow> xrun \<Rightarrow> Template \<Rightarrow> xconfig \<Rightarrow> rlog \<Rightarrow> string \<times> rlog" where
  "write_template e running current new log =
     (if sameManaged (tplConfig current) new then ([], log)
      else (let c = testConfig (xConfig running) new; res = qTest e log c; log1 = log @ [Tested c res] in
            case res of TestInvalid \<Rightarrow> (codeConfigInvalid, log1) | TestError \<Rightarrow> (codeXrayUnavailable, log1)
            | TestOk \<Rightarrow>
                let tpl = \<lparr>tplConfig = new, tplURL = tplURL current\<rparr>; ok = qSave e log1 tpl; log2 = log1 @ [SavedTemplate tpl ok] in
                if \<not> ok then (codePanelFailed, log2)
                else (let saved = qTemplate e log2; log3 = log2 @ [ReadTemplate saved] in
                      case saved of None \<Rightarrow> (codePanelFailed, log3)
                      | Some s \<Rightarrow> if sameManaged (tplConfig s) new then ([], log3) else (codePanelFailed, log3))))"

definition needs_restart :: "xrun \<Rightarrow> rTarget \<Rightarrow> xconfig \<Rightarrow> bool" where
  "needs_restart running t new \<longleftrightarrow> \<not> hasService (xConfig running) routingService \<or> firstOutbound (xConfig running) \<noteq> DefaultOutbound t \<or>
     builtinOutbounds (xConfig running) \<noteq> builtinOutbounds new"

definition run_target :: "route_env \<Rightarrow> xrun \<Rightarrow> rTarget \<Rightarrow> xconfig \<Rightarrow> json list \<Rightarrow> rlog \<Rightarrow> string \<times> rlog" where
  "run_target e running t new rules log =
     (if needs_restart running t new then
        (case restart_xray e running log of
           (None, log1) \<Rightarrow> (codeRestartFailed, log1)
         | (Some now, log1) \<Rightarrow>
             if firstOutbound (xConfig now) \<noteq> DefaultOutbound t then (codeRestartFailed, log1)
             else hotUpdate e now t (apiRule new) rules log1)
      else hotUpdate e running t (apiRule new) rules log)"

definition apply_rules :: "route_env \<Rightarrow> xrun \<Rightarrow> rTarget \<Rightarrow> json list \<Rightarrow> rlog \<Rightarrow> string \<times> rlog" where
  "apply_rules e running t rules log =
     (let log1 = log @ [ReadTemplate (qTemplate e log)] in
      case qTemplate e log of
        None \<Rightarrow> (codePanelFailed, log1)
      | Some current \<Rightarrow> (case managedTemplate (tplConfig current) t rules of
            None \<Rightarrow> (codePanelFailed, log1)
          | Some new \<Rightarrow> (case write_template e running current new log1 of
                (code, log2) \<Rightarrow> if code \<noteq> [] then (code, log2) else run_target e running t new rules log2)))"

definition route_apply :: "route_env \<Rightarrow> rTarget \<Rightarrow> string \<times> rlog" where
  "route_apply e t =
     (case qLocate e [] of
        None \<Rightarrow> (codeXrayUnavailable, [Located])
      | Some running \<Rightarrow> (case qInbounds e [Located] of
            None \<Rightarrow> (codePanelFailed, [Located, ListedInbounds])
          | Some inbounds \<Rightarrow> (case xrayRules (Rules t) inbounds of
                None \<Rightarrow> (codeInboundMissing, [Located, ListedInbounds])
              | Some rules \<Rightarrow> apply_rules e running t rules [Located, ListedInbounds])))"

definition route_Validate :: "string \<Rightarrow> raw \<Rightarrow> bool" where
  "route_Validate key r \<longleftrightarrow> key = Key \<and> routing_decodeTarget r \<noteq> None"

definition route_Apply :: "route_env \<Rightarrow> (string, raw option) gomap \<Rightarrow> (string, string) gomap \<times> rlog" where
  "route_Apply e targets = (case gm_get None targets Key of
      None \<Rightarrow> ([], [])
    | Some r \<Rightarrow> (case routing_decodeTarget r of
          None \<Rightarrow> ([(Key, codeTargetInvalid)], [])
        | Some t \<Rightarrow> (case route_apply e t of (code, log) \<Rightarrow> (if code \<noteq> [] then [(Key, code)] else [], log))))"

section \<open>The order of a pass\<close>

definition last_read :: "rlog \<Rightarrow> Template option" where
  "last_read log = fold (\<lambda>ev t. case ev of ReadTemplate r \<Rightarrow> r | _ \<Rightarrow> t) log None"

lemma last_read_snoc [simp]: "last_read (log @ [ev]) = (case ev of ReadTemplate r \<Rightarrow> r | _ \<Rightarrow> last_read log)"
  by (simp add: last_read_def split: route_event.split)

text \<open>The template holds the target with these rules: its managed parts are what \<open>managedTemplate\<close>
  makes of some template.\<close>

definition holds_target :: "rTarget \<Rightarrow> json list \<Rightarrow> Template \<Rightarrow> bool" where
  "holds_target t rules tpl \<longleftrightarrow> (\<exists>c new rs. managedTemplate c t rs = Some new \<and> rules = apiRule new # rs \<and> sameManaged (tplConfig tpl) new)"

definition uses_outbound :: "string \<Rightarrow> json \<Rightarrow> bool" where
  "uses_outbound tag j \<longleftrightarrow> (case j of JObj kvs \<Rightarrow> obj_get kvs ''outboundTag'' = Some (JStr tag) | _ \<Rightarrow> False)"

definition event_allowed :: "rTarget \<Rightarrow> rlog \<Rightarrow> route_event \<Rightarrow> bool" where
  "event_allowed t before ev \<longleftrightarrow> (case ev of
      SavedTemplate tpl ok \<Rightarrow> \<exists>cur rs running. last_read before = Some cur \<and> managedTemplate (tplConfig cur) t rs = Some (tplConfig tpl) \<and>
        tplURL tpl = tplURL cur \<and> before \<noteq> [] \<and> last before = Tested (testConfig running (tplConfig tpl)) TestOk
    | ReplacedRules rules ok \<Rightarrow> \<exists>cur present. last_read before = Some cur \<and> holds_target t rules cur \<and>
        ListedOutbounds (Some present) \<in> set before \<and>
        (\<forall>ob \<in> set (Outbounds t). obTag ob \<in> set present \<or> (\<exists>js. AddedOutbounds js True \<in> set before \<and> outboundJSON ob \<in> set js))
    | RemovedOutbounds tags ok \<Rightarrow> \<exists>rules. before \<noteq> [] \<and> last before = ReplacedRules rules True \<and>
        (\<forall>tag \<in> set tags. HasPrefix tag routeOwnedPrefix \<and> tag \<notin> set (map obTag (Outbounds t)) \<and> list_all (\<lambda>r. \<not> uses_outbound tag r) (tl rules))
    | _ \<Rightarrow> True)"

definition orderly :: "rTarget \<Rightarrow> rlog \<Rightarrow> bool" where
  "orderly t log \<longleftrightarrow> (\<forall>i < length log. event_allowed t (take i log) (log ! i))"

lemma orderly_Nil [simp]: "orderly t []"
  by (simp add: orderly_def)

lemma orderly_snoc [simp]: "orderly t (log @ [ev]) \<longleftrightarrow> orderly t log \<and> event_allowed t log ev"
  by (auto simp: orderly_def nth_append less_Suc_eq)


text \<open>What waiting and restarting add to the log never matters to the order.\<close>

definition idle_event :: "route_event \<Rightarrow> bool" where
  "idle_event ev \<longleftrightarrow> (case ev of Located \<Rightarrow> True | PanelRestart ok \<Rightarrow> True | AskedRules ok \<Rightarrow> True | _ \<Rightarrow> False)"

definition idles :: "rlog \<Rightarrow> rlog \<Rightarrow> bool" where
  "idles log log' \<longleftrightarrow> (\<exists>more. log' = log @ more \<and> list_all idle_event more)"

lemma idles_refl [simp]: "idles log log"
  by (simp add: idles_def)

lemma idles_trans: "idles a b \<Longrightarrow> idles b c \<Longrightarrow> idles a c"
  by (auto simp: idles_def)

lemma idles_step: "idle_event ev \<Longrightarrow> idles log (log @ [ev])"
  by (simp add: idles_def)

lemma idle_events [simp]: "idle_event Located" "idle_event (PanelRestart ok)" "idle_event (AskedRules ok)"
  by (simp_all add: idle_event_def)

lemma idles_keeps: "idles log log' \<Longrightarrow> orderly t log \<Longrightarrow> orderly t log' \<and> last_read log' = last_read log \<and> set log \<subseteq> set log'"
proof -
  have "list_all idle_event more \<Longrightarrow> orderly t log \<Longrightarrow> orderly t (log @ more) \<and> last_read (log @ more) = last_read log" for more
  proof (induction more rule: rev_induct)
    case (snoc ev more)
    then have "orderly t ((log @ more) @ [ev])" "last_read ((log @ more) @ [ev]) = last_read log"
      by (simp_all add: event_allowed_def idle_event_def del: append_assoc split: route_event.splits)
    then show ?case by simp
  qed simp
  then show "idles log log' \<Longrightarrow> orderly t log \<Longrightarrow> ?thesis" by (auto simp: idles_def)
qed

lemma wait_new_idles: "idles log (snd (wait_new e old n log))"
proof (induction n arbitrary: log)
  case 0
  have "idles log (log @ [Located])" "idles log ((log @ [Located]) @ [AskedRules b])" for b
    using idles_trans [OF idles_step idles_step] by (simp_all add: idles_step del: append_assoc)
  then show ?case by (subst wait_new.simps) (simp add: Let_def)
next
  case (Suc n)
  have i: "idles log (log @ [Located])" "idles log ((log @ [Located]) @ [AskedRules b])" for b
    using idles_trans [OF idles_step idles_step] by (simp_all add: idles_step del: append_assoc)
  show ?case
    by (subst wait_new.simps) (use i idles_trans [OF i(1) Suc.IH] idles_trans [OF i(2) Suc.IH] in \<open>simp add: Let_def\<close>)
qed

lemma restart_idles: "idles log (snd (restart_xray e old log))"
  using idles_trans [OF idles_step wait_new_idles] by (auto simp: restart_xray_def Let_def idles_step)

lemma recover_idles: "idles log (recover_rules e running log)"
proof -
  have i: "idles log (log @ [Located])" "idles log ((log @ [Located]) @ [AskedRules b])" for b
    using idles_trans [OF idles_step idles_step] by (simp_all add: idles_step del: append_assoc)
  show "idles log (recover_rules e running log)"
    using i idles_trans [OF i(2) restart_idles] by (simp add: recover_rules_def Let_def split: option.split)
qed

lemma uses_rule: "uses_outbound tag (xray_rule i ts r) \<longleftrightarrow> ruOutbound r = tag"
  by (simp add: uses_outbound_def xray_rule_def obj_get_def)

lemma rules_from_uses:
  "rules_from tags i rs = Some js \<Longrightarrow> uses_outbound tag j \<Longrightarrow> j \<in> set js \<Longrightarrow> \<exists>r \<in> set rs. ruOutbound r = tag"
proof (induction rs arbitrary: i js)
  case (Cons r rs)
  from Cons.prems(1) obtain ts rest where r: "rules_from tags (i + 1) rs = Some rest" "js = xray_rule (i + 1) ts r # rest"
    by (auto split: option.splits)
  with Cons.prems(2,3) Cons.IH [OF r(1)] show ?case by (auto simp: uses_rule)
qed simp

lemma rules_spare_stale:
  assumes "route_ok t" "xrayRules (Rules t) ibs = Some rules" "tag \<in> set (stale_outbounds t present)"
  shows "list_all (\<lambda>r. \<not> uses_outbound tag r) rules"
proof -
  have tag: "HasPrefix tag routeOwnedPrefix" "tag \<notin> set (map obTag (Outbounds t))" using assms(3) by (auto simp: stale_outbounds_def)
  have "tag \<noteq> direct" "tag \<noteq> blocked" using tag(1) by (auto simp: HasPrefix_def routeOwnedPrefix_def direct_def blocked_def)
  moreover have "\<exists>r \<in> set (Rules t). ruOutbound r = tag" if "j \<in> set rules" "uses_outbound tag j" for j
    using rules_from_uses assms(2) that unfolding xrayRules_def by blast
  ultimately show ?thesis using assms(1) tag(2) by (force simp: route_ok_def list_all_iff)
qed

lemma replace_orderly:
  assumes ok: "orderly t log" and cur: "last_read log = Some cur" "holds_target t rules cur"
    and obs: "ListedOutbounds (Some present) \<in> set log"
      "\<forall>ob \<in> set (Outbounds t). obTag ob \<in> set present \<or> (\<exists>js. AddedOutbounds js True \<in> set log \<and> outboundJSON ob \<in> set js)"
    and spare: "\<forall>tag \<in> set (stale_outbounds t present). list_all (\<lambda>r. \<not> uses_outbound tag r) (tl rules)"
  shows "orderly t (snd (replace_rules e running t present rules log))"
proof -
  have rep: "orderly t (log @ [ReplacedRules rules ok])" for ok
    using ok cur obs by (auto simp: event_allowed_def)
  show ?thesis
  proof (cases "qReplace e log running rules")
    case True
    have "event_allowed t (log @ [ReplacedRules rules True]) (RemovedOutbounds (stale_outbounds t present) ok)" for ok
      using spare by (auto simp: event_allowed_def stale_outbounds_def)
    then have "orderly t ((log @ [ReplacedRules rules True]) @ [RemovedOutbounds (stale_outbounds t present) ok])" for ok
      using rep [of True] by (simp del: append_assoc)
    with True rep [of True] show ?thesis by (simp add: replace_rules_def remove_stale_def Let_def)
  next
    case False
    with idles_keeps [OF recover_idles rep] show ?thesis by (simp add: replace_rules_def Let_def)
  qed
qed

lemma hotUpdate_orderly:
  assumes ok: "orderly t log" and cur: "last_read log = Some cur" "holds_target t (api # rules) cur"
    and t: "route_ok t" "xrayRules (Rules t) ibs = Some rules"
  shows "orderly t (snd (hotUpdate e running t api rules log))"
proof (cases "qOutbounds e log running")
  case None
  with ok show ?thesis by (simp add: hotUpdate_def event_allowed_def)
next
  case (Some present)
  let ?log1 = "log @ [ListedOutbounds (Some present)]" and ?add = "missing_outbounds t present"
  let ?log2 = "\<lambda>b. ?log1 @ [AddedOutbounds ?add b]"
  have spare: "\<forall>tag \<in> set (stale_outbounds t present). list_all (\<lambda>r. \<not> uses_outbound tag r) (tl (api # rules))"
    using rules_spare_stale [OF t] by simp
  have l1: "orderly t ?log1" "last_read ?log1 = Some cur" using ok cur by (simp_all add: event_allowed_def)
  have l2: "orderly t (?log2 b)" "last_read (?log2 b) = Some cur" for b using l1 by (simp_all add: event_allowed_def del: append_assoc)
  have all: "obTag ob \<in> set present \<or> outboundJSON ob \<in> set ?add" if "ob \<in> set (Outbounds t)" for ob
    using that by (auto simp: missing_outbounds_def)
  have r1: "orderly t (snd (replace_rules e running t present (api # rules) ?log1))" if "?add = []"
    by (rule replace_orderly [OF l1 cur(2) _ _ spare]) (use all that in auto)
  have r2: "orderly t (snd (replace_rules e running t present (api # rules) (?log2 True)))"
    by (rule replace_orderly [OF l2 cur(2) _ _ spare]) (use all in auto)
  show ?thesis using Some r1 r2 l2 [of False] by (simp add: hotUpdate_def Let_def)
qed


lemma write_result:
  assumes run: "write_template e running current new log = (code, log')" and ok: "orderly t log" and cur: "last_read log = Some current"
    and new: "managedTemplate (tplConfig current) t rules = Some new"
  shows "orderly t log' \<and> (code = [] \<longrightarrow> (\<exists>tpl. last_read log' = Some tpl \<and> sameManaged (tplConfig tpl) new))"
proof (cases "sameManaged (tplConfig current) new")
  case True
  with run ok cur show ?thesis by (auto simp: write_template_def)
next
  case False
  let ?c = "testConfig (xConfig running) new" and ?tpl = "\<lparr>tplConfig = new, tplURL = tplURL current\<rparr>"
  have l1: "orderly t (log @ [Tested ?c r])" for r using ok by (simp add: event_allowed_def)
  have l2: "orderly t ((log @ [Tested ?c TestOk]) @ [SavedTemplate ?tpl b])" for b
    using l1 [of TestOk] new cur by (auto simp: event_allowed_def simp del: append_assoc)
  have l3: "orderly t (((log @ [Tested ?c TestOk]) @ [SavedTemplate ?tpl b]) @ [ReadTemplate r])" for b r
    using l2 [of b] by (simp add: event_allowed_def del: append_assoc)
  have nil: "codeConfigInvalid \<noteq> []" "codeXrayUnavailable \<noteq> []" "codePanelFailed \<noteq> []" by (simp_all add: route_codes)
  have last: "last_read (((log @ [Tested ?c TestOk]) @ [SavedTemplate ?tpl b]) @ [ReadTemplate r]) = r" for b r by (simp del: append_assoc)
  from run False l1 l2 l3 last nil show ?thesis
    by (auto simp: write_template_def Let_def simp del: append_assoc last_read_snoc orderly_snoc split: test_result.splits option.splits if_splits)
qed

lemma run_target_orderly:
  assumes ok: "orderly t log" and cur: "last_read log = Some cur" "holds_target t (apiRule new # rules) cur"
    and t: "route_ok t" "xrayRules (Rules t) ibs = Some rules"
  shows "orderly t (snd (run_target e running t new rules log))"
proof -
  note keep = idles_keeps [OF restart_idles [of log e running] ok]
  have "orderly t (snd (hotUpdate e now t (apiRule new) rules (snd (restart_xray e running log))))" for now
    by (rule hotUpdate_orderly [OF _ _ cur(2) t]) (use keep cur(1) in simp_all)
  with keep hotUpdate_orderly [OF ok cur t] show ?thesis by (auto simp: run_target_def split: prod.splits option.splits)
qed

lemma orderly_start: "orderly t [Located]" "orderly t [Located, ListedInbounds]"
  using orderly_snoc [of t "[]" Located] orderly_snoc [of t "[Located]" ListedInbounds] by (simp_all add: event_allowed_def)

lemma route_apply_orderly:
  assumes "route_ok t"
  shows "orderly t (snd (route_apply e t))"
proof -
  note start = orderly_start [of t]
  have "orderly t (snd (apply_rules e running t rules [Located, ListedInbounds]))" if rules: "xrayRules (Rules t) ibs = Some rules" for running rules ibs
  proof -
    let ?log = "[Located, ListedInbounds]"
    let ?log1 = "?log @ [ReadTemplate (qTemplate e ?log)]"
    have l1: "orderly t ?log1" unfolding orderly_snoc using start(2) by (simp add: event_allowed_def)
    have "orderly t (snd (apply_rules e running t rules ?log))"
    proof (cases "qTemplate e ?log")
      case None
      with l1 show ?thesis by (simp add: apply_rules_def)
    next
      case (Some current)
      show ?thesis
      proof (cases "managedTemplate (tplConfig current) t rules")
        case None
        with Some l1 show ?thesis by (simp add: apply_rules_def)
      next
        case new: (Some new)
        obtain code log2 where w: "write_template e running current new ?log1 = (code, log2)" by (metis prod.exhaust)
        have "last_read ?log1 = Some current" using Some by (simp only: last_read_snoc route_event.case)
        from write_result [OF w l1 this new] have w2: "orderly t log2" "code = [] \<longrightarrow> (\<exists>tpl. last_read log2 = Some tpl \<and> sameManaged (tplConfig tpl) new)" by simp_all
        have "orderly t (snd (run_target e running t new rules log2))" if c: "code = []"
        proof -
          from w2(2) c obtain tpl where tpl: "last_read log2 = Some tpl" "sameManaged (tplConfig tpl) new" by blast
          have "holds_target t (apiRule new # rules) tpl" using new tpl(2) by (auto simp: holds_target_def)
          from run_target_orderly [OF w2(1) tpl(1) this assms rules] show ?thesis .
        qed
        with w Some new w2(1) show ?thesis by (simp add: apply_rules_def)
      qed
    qed
    then show ?thesis .
  qed
  with start show ?thesis by (auto simp: route_apply_def split: option.split)
qed


section \<open>A pass that succeeds\<close>

definition outbounds_settled :: "rTarget \<Rightarrow> rlog \<Rightarrow> bool" where
  "outbounds_settled t log \<longleftrightarrow> (\<exists>present. ListedOutbounds (Some present) \<in> set log \<and>
     (\<forall>ob \<in> set (Outbounds t). obTag ob \<in> set present \<or> (\<exists>js. AddedOutbounds js True \<in> set log \<and> outboundJSON ob \<in> set js)) \<and>
     (\<forall>tag \<in> set present. HasPrefix tag routeOwnedPrefix \<longrightarrow> tag \<in> set (map obTag (Outbounds t)) \<or>
        (\<exists>tags. RemovedOutbounds tags True \<in> set log \<and> tag \<in> set tags)))"

lemma replace_success:
  assumes "replace_rules e running t present rules log = ([], log')"
  shows "ReplacedRules rules True \<in> set log' \<and> set log \<subseteq> set log' \<and> last_read log' = last_read log \<and>
    (\<forall>tag \<in> set (stale_outbounds t present). \<exists>tags. RemovedOutbounds tags True \<in> set log' \<and> tag \<in> set tags)"
proof -
  have "codeRouteFailed \<noteq> []" by (simp add: route_codes)
  with assms show ?thesis
    by (auto simp: replace_rules_def remove_stale_def Let_def last_read_def split: if_splits)
qed

lemma hot_success:
  assumes "hotUpdate e running t api rules log = ([], log')"
  shows "ReplacedRules (api # rules) True \<in> set log' \<and> last_read log' = last_read log \<and> outbounds_settled t log'"
proof -
  have nil: "codeRouteFailed \<noteq> []" "codeXrayUnavailable \<noteq> []" by (simp_all add: route_codes)
  with assms obtain present where present: "qOutbounds e log running = Some present" by (auto simp: hotUpdate_def Let_def split: option.splits)
  let ?log1 = "log @ [ListedOutbounds (Some present)]" and ?add = "missing_outbounds t present"
  define log2 where "log2 = (if ?add = [] then ?log1 else ?log1 @ [AddedOutbounds ?add True])"
  have rep: "replace_rules e running t present (api # rules) log2 = ([], log')"
    using assms nil present by (auto simp: hotUpdate_def Let_def log2_def split: if_splits)
  note r = replace_success [OF rep]
  have "ListedOutbounds (Some present) \<in> set log2" by (simp add: log2_def)
  moreover have "obTag ob \<in> set present \<or> AddedOutbounds ?add True \<in> set log2 \<and> outboundJSON ob \<in> set ?add" if "ob \<in> set (Outbounds t)" for ob
    using that by (auto simp: log2_def missing_outbounds_def filter_empty_conv)
  moreover have "last_read log2 = last_read log" by (simp add: log2_def last_read_def)
  moreover have "tag \<in> set (map obTag (Outbounds t)) \<or> tag \<in> set (stale_outbounds t present)" if "tag \<in> set present" "HasPrefix tag routeOwnedPrefix" for tag
    using that by (auto simp: stale_outbounds_def)
  ultimately have "outbounds_settled t log'" using r unfolding outbounds_settled_def by (intro exI [of _ present]) blast
  with r \<open>last_read log2 = last_read log\<close> show ?thesis by simp
qed

lemma run_target_success:
  assumes "run_target e running t new rules log = ([], log')" "orderly t log"
  shows "ReplacedRules (apiRule new # rules) True \<in> set log' \<and> last_read log' = last_read log \<and> outbounds_settled t log'"
proof (cases "needs_restart running t new")
  case True
  have "codeRestartFailed \<noteq> []" by (simp add: route_codes)
  with True assms(1) obtain now log1 where r: "restart_xray e running log = (Some now, log1)" "hotUpdate e now t (apiRule new) rules log1 = ([], log')"
    by (auto simp: run_target_def split: prod.splits option.splits if_splits)
  have "last_read log1 = last_read log" using idles_keeps [OF restart_idles [of log e running] assms(2)] r(1) by simp
  with hot_success [OF r(2)] show ?thesis by simp
next
  case False
  with assms(1) hot_success show ?thesis by (simp add: run_target_def)
qed

lemma route_apply_success:
  assumes run: "route_apply e t = ([], log)"
  shows "\<exists>rules tpl. last_read log = Some tpl \<and> holds_target t rules tpl \<and> ReplacedRules rules True \<in> set log \<and> outbounds_settled t log"
proof -
  let ?log = "[Located, ListedInbounds]"
  have nil: "codeXrayUnavailable \<noteq> []" "codePanelFailed \<noteq> []" "codeInboundMissing \<noteq> []" by (simp_all add: route_codes)
  with run obtain running rules where a: "apply_rules e running t rules ?log = ([], log)"
    by (auto simp: route_apply_def split: option.splits)
  with nil obtain current new where c: "qTemplate e ?log = Some current" "managedTemplate (tplConfig current) t rules = Some new"
    by (auto simp: apply_rules_def Let_def split: option.splits)
  let ?log1 = "?log @ [ReadTemplate (Some current)]"
  obtain code log2 where w: "write_template e running current new ?log1 = (code, log2)" by (metis prod.exhaust)
  from a c w have r: "code = []" "run_target e running t new rules log2 = ([], log)" by (auto simp: apply_rules_def Let_def split: if_splits)
  have start: "orderly t ?log1" unfolding orderly_snoc using orderly_start(2) [of t] by (simp add: event_allowed_def)
  have "last_read ?log1 = Some current" by (simp only: last_read_snoc route_event.case)
  from write_result [OF w start this c(2)] r(1) obtain tpl where o: "orderly t log2" and tpl: "last_read log2 = Some tpl" "sameManaged (tplConfig tpl) new" by auto
  have "holds_target t (apiRule new # rules) tpl" using c(2) tpl(2) by (auto simp: holds_target_def)
  with run_target_success [OF r(2) o] tpl(1) show ?thesis by auto
qed

text \<open>
  C23. A routing pass, whatever the panel and the Xray answer. A template is saved only right
  after Xray accepted it, and only as the template just read with the target in its managed parts.
  The rules of the running Xray are replaced only when the panel's template, as last read, already
  holds exactly these rules, so a restart at any moment starts with them, and only when every
  outbound of the target is there or was added. Outbounds are removed only right after the rules
  were replaced, only ones Cloud owns, and none that the target or one of its rules names. When the
  pass reports no code, all of it was done: the template holds the target, the rules were replaced,
  every outbound of the target is there and every other owned outbound was removed.
\<close>

theorem routing_pass:
  assumes run: "route_Apply e targets = (codes, log)" and r: "gm_get None targets Key = Some r" "routing_decodeTarget r = Some t"
  shows "(\<forall>i < length log. event_allowed t (take i log) (log ! i)) \<and>
    (codes = [] \<longrightarrow> (\<exists>rules tpl. last_read log = Some tpl \<and> holds_target t rules tpl \<and> ReplacedRules rules True \<in> set log \<and> outbounds_settled t log))"
proof -
  obtain code where c: "route_apply e t = (code, log)" "codes = (if code \<noteq> [] then [(Key, code)] else [])"
    using run r by (auto simp: route_Apply_def split: prod.splits)
  with route_apply_orderly [OF routing_decodeTarget_ok [OF r(2)], of e] route_apply_success [of e t log] show ?thesis
    by (auto simp: orderly_def)
qed

definition ex_route_env :: route_env where
  "ex_route_env = \<lparr>qLocate = (\<lambda>log. Some \<lparr>xPid = (if length log < 6 then ''1'' else ''2''), xConfig = (if length log < 6 then [] else
        [(''api'', JObj [(''services'', JArr [JStr ''RoutingService''])]), (''outbounds'', JArr [JObj [(''tag'', JStr ''ak-o-1'')]])])\<rparr>),
     qInbounds = (\<lambda>log. Some []),
     qTemplate = (\<lambda>log. Some \<lparr>tplConfig = (if length log < 4 then ex_template
        else the (managedTemplate ex_template ex_route (the (xrayRules (Rules ex_route) [])))), tplURL = ''u''\<rparr>),
     qTest = (\<lambda>log c. TestOk), qSave = (\<lambda>log t. True), qRestart = (\<lambda>log. True), qRules = (\<lambda>log r. True),
     qOutbounds = (\<lambda>log r. Some [''ak-o-1'', ''ak-o-9'']), qAdd = (\<lambda>log r js. True), qReplace = (\<lambda>log r js. True), qRemove = (\<lambda>log r ts. True),
     qPolls = (\<lambda>log. 60), qDone = (\<lambda>log. False)\<rparr>"

lemma ex_route_run: "fst (route_Apply ex_route_env [(Key, Some ex_route_target)]) = []"
  by code_simp

theorem routing_pass_witness:
  "outbounds_settled ex_route (snd (route_Apply ex_route_env [(Key, Some ex_route_target)]))"
proof -
  let ?r = "route_Apply ex_route_env [(Key, Some ex_route_target)]"
  have "?r = (fst ?r, snd ?r)" by simp
  moreover have "gm_get None [(Key, Some ex_route_target)] Key = Some ex_route_target" by (simp add: gm_get_def)
  ultimately have "fst ?r = [] \<longrightarrow> (\<exists>rules tpl. last_read (snd ?r) = Some tpl \<and> holds_target ex_route rules tpl \<and> ReplacedRules rules True \<in> set (snd ?r) \<and>
    outbounds_settled ex_route (snd ?r))" using routing_pass [OF _ _ ex_route_decoded] by blast
  with ex_route_run show ?thesis by blast
qed

end
