(* ===== verification/Xui_Snapshot.thy ===== *)
theory Xui_Snapshot
  imports Xui_State Xui_Plan Ledger
begin

text \<open>
  The minute snapshots of the panel: \<open>src/internal/modules/xui/snapshot.go\<close>. The panel's answer,
  whether Xray splices and the ledger's counts are arguments, report ids as well. The text of a
  snapshot is that of its JSON value.
\<close>

section \<open>What of an inbound is public\<close>

definition pick :: "(string, json) gomap \<Rightarrow> string list \<Rightarrow> (string, json) gomap" where
  "pick source keys = fold (\<lambda>k m. case map_of source k of None \<Rightarrow> m | Some v \<Rightarrow> AList.update k v m) keys []"

text \<open>\<open>json.Unmarshal\<close> into \<open>map[string]any\<close> with the error ignored, and \<open>m[k].(map[string]any)\<close>.\<close>

definition any_map :: "raw \<Rightarrow> (string, json) gomap" where
  "any_map r = (case r of Doc (JObj kvs) \<Rightarrow> obj_map kvs | _ \<Rightarrow> [])"

definition sub_map :: "(string, json) gomap \<Rightarrow> string \<Rightarrow> (string, json) gomap option" where
  "sub_map m k = (case map_of m k of Some (JObj kvs) \<Rightarrow> Some (obj_map kvs) | _ \<Rightarrow> None)"

definition public_settings :: "string \<Rightarrow> string list" where
  "public_settings proto = (if proto = ''vless'' then [''encryption'']
     else if proto = ''shadowsocks'' then [''method'', ''password'', ''network'']
     else if proto \<in> {''hysteria'', ''hysteria2''} then [''version''] else [])"

definition deliverable :: "string \<Rightarrow> bool" where
  "deliverable proto \<longleftrightarrow> proto \<in> {''vless'', ''shadowsocks'', ''hysteria'', ''hysteria2''}"

definition tcp_block :: "(string, json) gomap \<Rightarrow> (string, json) gomap" where
  "tcp_block m = (case sub_map m ''header'' of None \<Rightarrow> [] | Some header \<Rightarrow> [(''header'', obj_of (pick header [''type'']))])"

definition hint_block :: "string list \<Rightarrow> string list \<Rightarrow> (string, json) gomap \<Rightarrow> (string, json) gomap" where
  "hint_block keys hints m = (case sub_map m ''settings'' of
      None \<Rightarrow> pick m keys
    | Some h \<Rightarrow> AList.update ''settings'' (obj_of (pick h hints)) (pick m keys))"

definition tls_block :: "(string, json) gomap \<Rightarrow> (string, json) gomap" where
  "tls_block = hint_block [''serverName'', ''alpn''] [''fingerprint'', ''allowInsecure'', ''echConfigList'']"

definition reality_block :: "(string, json) gomap \<Rightarrow> (string, json) gomap" where
  "reality_block = hint_block [''serverNames'', ''shortIds''] [''publicKey'', ''fingerprint'', ''serverName'', ''spiderX'', ''mldsa65Verify'']"

definition add_block :: "(string, json) gomap \<Rightarrow> string \<Rightarrow> ((string, json) gomap \<Rightarrow> (string, json) gomap) \<Rightarrow> (string, json) gomap \<Rightarrow> (string, json) gomap" where
  "add_block stream k f m = (case sub_map stream k of None \<Rightarrow> m | Some b \<Rightarrow> AList.update k (obj_of (f b)) m)"

definition publicConfig :: "Inbound_panel \<Rightarrow> json \<times> json" where
  "publicConfig ib =
     (let proto = ibProtocol ib; settings = any_map (ibSettings ib); stream = any_map (ibStreamSettings ib);
          public = pick settings (public_settings proto);
          transport = [(''network'', gm_get JNull stream ''network''), (''security'', gm_get JNull stream ''security'')]
      in if \<not> deliverable proto then (obj_of [], obj_of transport)
         else (obj_of public,
               obj_of (add_block stream ''realitySettings'' reality_block (add_block stream ''tlsSettings'' tls_block
                 (add_block stream ''tcpSettings'' tcp_block
                   (fold (\<lambda>(k, v). AList.update k v) (pick stream [''externalProxy'', ''finalmask'']) transport))))))"

section \<open>Snapshots\<close>

record snapshotInbound =
  siID :: int
  siRemark :: string
  siProtocol :: string
  siListen :: string
  siPort :: int
  siEnable :: bool
  siSettings :: json
  siStream :: json

record clientTraffic =
  ctEmail :: string
  ctUp :: int
  ctDown :: int
  ctResetSeq :: int

record counts =
  coErrorCode :: "string option"
  coClients :: "(string \<times> nat) list"

record snapshot =
  snInbounds :: "snapshotInbound list"
  snTraffic :: "clientTraffic list"
  snSplice :: "string option"
  snConnections :: counts

text \<open>\<open>ledger.Connections\<close>: why the kernel's and the log's part cannot be read, and the counts.\<close>

record ledger_counts =
  lcKernel :: bool
  lcLog :: bool
  lcUsers :: "(string, nat) gomap"

definition ownedConnections :: "ledger_counts \<Rightarrow> counts" where
  "ownedConnections c = \<lparr>coErrorCode = (if lcKernel c then Some ''xui_connections_unavailable'' else if lcLog c then Some ''xui_log_unavailable'' else None),
     coClients = sort_key fst (filter (\<lambda>(email, n). Owned email) (lcUsers c))\<rparr>"

definition inbound_shown :: "Inbound_panel \<Rightarrow> snapshotInbound" where
  "inbound_shown ib = \<lparr>siID = ibID ib, siRemark = ibRemark ib, siProtocol = ibProtocol ib, siListen = ibListen ib, siPort = ibPort ib,
     siEnable = ibEnable ib, siSettings = fst (publicConfig ib), siStream = snd (publicConfig ib)\<rparr>"

definition traffic_of :: "localState \<Rightarrow> Inbound_panel \<Rightarrow> clientTraffic list" where
  "traffic_of st ib = map (\<lambda>s. \<lparr>ctEmail = stEmail s, ctUp = stUp s, ctDown = stDown s, ctResetSeq = reset_of st (stEmail s)\<rparr>)
     (filter (\<lambda>s. HasPrefix (stEmail s) ownedPrefix) (ibClientStats ib))"

definition readPanel :: "localState \<Rightarrow> Inbound_panel list \<Rightarrow> snapshot" where
  "readPanel st ibs = \<lparr>snInbounds = map inbound_shown ibs, snTraffic = concat (map (traffic_of st) ibs), snSplice = None,
     snConnections = \<lparr>coErrorCode = None, coClients = []\<rparr>\<rparr>"

definition opt_json :: "string option \<Rightarrow> json" where
  "opt_json x = (case x of None \<Rightarrow> JNull | Some s \<Rightarrow> JStr s)"

definition int_json :: "int \<Rightarrow> json" where "int_json i = JNum (Itoa i)"

definition snapshot_json :: "snapshot \<Rightarrow> json" where
  "snapshot_json s = JObj [
     (''inbounds'', JArr (map (\<lambda>i. JObj [(''id'', int_json (siID i)), (''remark'', JStr (siRemark i)), (''protocol'', JStr (siProtocol i)),
        (''listen'', JStr (siListen i)), (''port'', int_json (siPort i)), (''enable'', JBool (siEnable i)), (''settings'', siSettings i),
        (''stream_settings'', siStream i)]) (snInbounds s))),
     (''traffic'', JArr (map (\<lambda>c. JObj [(''email'', JStr (ctEmail c)), (''up'', int_json (ctUp c)), (''down'', int_json (ctDown c)),
        (''reset_seq'', int_json (ctResetSeq c))]) (snTraffic s))),
     (''splice'', opt_json (snSplice s)),
     (''connections'', JObj [(''error_code'', opt_json (coErrorCode (snConnections s))),
        (''clients'', JArr (map (\<lambda>(email, n). JObj [(''email'', JStr email), (''connections'', int_json (int n))]) (coClients (snConnections s))))])]"

definition maxSnapshotBytes :: nat where "maxSnapshotBytes = 900 * 1024"

text \<open>\<open>read\<close>: the panel's answer, the splice check's result if it worked, and the counts.\<close>

definition read_snapshot :: "localState \<Rightarrow> string + Inbound_panel list \<Rightarrow> bool option \<Rightarrow> ledger_counts \<Rightarrow> string + json" where
  "read_snapshot st panel spliced c = (case panel of
      Inl err \<Rightarrow> Inl err
    | Inr ibs \<Rightarrow>
        let s = (readPanel st ibs)\<lparr>snSplice := map_option (\<lambda>b. if b then ''on'' else ''off'') spliced, snConnections := ownedConnections c\<rparr>;
            data = snapshot_json s
        in if maxSnapshotBytes < length (json_text data) then Inl ''xui_snapshot_too_large'' else Inr data)"

record Snapshots =
  snPending :: "(string \<times> json) option"
  snWoken :: bool

definition newSnapshots :: Snapshots where "newSnapshots = \<lparr>snPending = None, snWoken = False\<rparr>"

text \<open>\<open>tick\<close>: the report sent, if the snapshot could be read; an unacknowledged one that says the
  same is sent again.\<close>

definition tick :: "string \<Rightarrow> string + json \<Rightarrow> Snapshots \<Rightarrow> (string \<times> json) option \<times> Snapshots" where
  "tick fresh res s = (case res of
      Inl _ \<Rightarrow> (None, s)
    | Inr data \<Rightarrow>
        let s' = (if (\<exists>p \<in> set_option (snPending s). json_text (snd p) = json_text data) then s else s\<lparr>snPending := Some (fresh, data)\<rparr>)
        in (snPending s', s'))"

definition snapshots_Acknowledge :: "string \<Rightarrow> Snapshots \<Rightarrow> bool \<times> Snapshots" where
  "snapshots_Acknowledge rid s = (case snPending s of
      None \<Rightarrow> (False, s)
    | Some (i, d) \<Rightarrow> if i \<noteq> rid then (False, s) else (True, s\<lparr>snPending := None\<rparr>))"

text \<open>The inbounds the access log is read with.\<close>

definition network_of :: "raw \<Rightarrow> string" where
  "network_of r = (case r of Doc (JObj kvs) \<Rightarrow> (case field [] as_string kvs ''network'' of Some s \<Rightarrow> s | None \<Rightarrow> []) | _ \<Rightarrow> [])"

definition panel_Inbounds :: "Inbound_panel list \<Rightarrow> Inbound list" where
  "panel_Inbounds ibs = map (\<lambda>ib. \<lparr>iTag = ibTag ib, iProtocol = ibProtocol ib, iPort = ibPort ib,
     iNetwork = network_of (ibSettings ib), iTransport = network_of (ibStreamSettings ib)\<rparr>) ibs"

section \<open>Nothing else leaves the node\<close>

definition agree :: "string list \<Rightarrow> (string, json) gomap \<Rightarrow> (string, json) gomap \<Rightarrow> bool" where
  "agree keys m m' \<longleftrightarrow> (\<forall>k \<in> set keys. map_of m k = map_of m' k)"

definition agree_sub :: "string \<Rightarrow> ((string, json) gomap \<Rightarrow> (string, json) gomap \<Rightarrow> bool) \<Rightarrow> (string, json) gomap \<Rightarrow> (string, json) gomap \<Rightarrow> bool" where
  "agree_sub k P m m' \<longleftrightarrow> rel_option P (sub_map m k) (sub_map m' k)"

text \<open>Two inbounds a reader of the snapshot may not tell apart: they agree on the listed paths.\<close>

definition same_public :: "Inbound_panel \<Rightarrow> Inbound_panel \<Rightarrow> bool" where
  "same_public a b \<longleftrightarrow> ibProtocol a = ibProtocol b \<and>
     (let s = any_map (ibSettings a); s' = any_map (ibSettings b); t = any_map (ibStreamSettings a); t' = any_map (ibStreamSettings b) in
      agree [''network'', ''security''] t t' \<and>
      (deliverable (ibProtocol a) \<longrightarrow>
        agree (public_settings (ibProtocol a)) s s' \<and> agree [''externalProxy'', ''finalmask''] t t' \<and>
        agree_sub ''tcpSettings'' (agree_sub ''header'' (agree [''type''])) t t' \<and>
        agree_sub ''tlsSettings'' (\<lambda>m m'. agree [''serverName'', ''alpn''] m m' \<and>
          agree_sub ''settings'' (agree [''fingerprint'', ''allowInsecure'', ''echConfigList'']) m m') t t' \<and>
        agree_sub ''realitySettings'' (\<lambda>m m'. agree [''serverNames'', ''shortIds''] m m' \<and>
          agree_sub ''settings'' (agree [''publicKey'', ''fingerprint'', ''serverName'', ''spiderX'', ''mldsa65Verify'']) m m') t t'))"

lemma pick_agree: "agree keys m m' \<Longrightarrow> pick m keys = pick m' keys"
  unfolding pick_def by (rule fold_cong) (auto simp: agree_def)

lemma tcp_block_agree: "agree_sub ''header'' (agree [''type'']) m m' \<Longrightarrow> tcp_block m = tcp_block m'"
  unfolding agree_sub_def
proof (erule option.rel_cases)
  fix x y assume "sub_map m ''header'' = Some x" "sub_map m' ''header'' = Some y" "agree [''type''] x y"
  then show ?thesis using pick_agree [of "[''type'']" x y] by (simp add: tcp_block_def)
qed (simp add: tcp_block_def)

lemma hint_block_agree: "agree keys m m' \<Longrightarrow> agree_sub ''settings'' (agree hints) m m' \<Longrightarrow> hint_block keys hints m = hint_block keys hints m'"
  unfolding agree_sub_def
proof (erule option.rel_cases)
  fix x y assume "agree keys m m'" "sub_map m ''settings'' = Some x" "sub_map m' ''settings'' = Some y" "agree hints x y"
  then show ?thesis using pick_agree [of hints x y] pick_agree [of keys m m'] by (simp add: hint_block_def)
qed (simp add: hint_block_def pick_agree)

lemma add_block_agree: "agree_sub k P t t' \<Longrightarrow> (\<And>m m'. P m m' \<Longrightarrow> f m = f m') \<Longrightarrow> add_block t k f x = add_block t' k f x"
  by (auto simp: add_block_def agree_sub_def elim: option.rel_cases split: option.split)

lemma publicConfig_same:
  assumes "same_public a b"
  shows "publicConfig a = publicConfig b"
proof -
  have p: "ibProtocol a = ibProtocol b" using assms by (simp add: same_public_def)
  let ?t = "any_map (ibStreamSettings a)" and ?t' = "any_map (ibStreamSettings b)"
  have nets: "gm_get JNull ?t ''network'' = gm_get JNull ?t' ''network''" "gm_get JNull ?t ''security'' = gm_get JNull ?t' ''security''"
    using assms by (auto simp: same_public_def Let_def agree_def gm_get_def)
  show ?thesis
  proof (cases "deliverable (ibProtocol a)")
    case True
    with assms have s: "agree (public_settings (ibProtocol a)) (any_map (ibSettings a)) (any_map (ibSettings b))" "agree [''externalProxy'', ''finalmask''] ?t ?t'"
      and tcp: "agree_sub ''tcpSettings'' (agree_sub ''header'' (agree [''type''])) ?t ?t'"
      and tls: "agree_sub ''tlsSettings'' (\<lambda>m m'. agree [''serverName'', ''alpn''] m m' \<and>
          agree_sub ''settings'' (agree [''fingerprint'', ''allowInsecure'', ''echConfigList'']) m m') ?t ?t'"
      and reality: "agree_sub ''realitySettings'' (\<lambda>m m'. agree [''serverNames'', ''shortIds''] m m' \<and>
          agree_sub ''settings'' (agree [''publicKey'', ''fingerprint'', ''serverName'', ''spiderX'', ''mldsa65Verify'']) m m') ?t ?t'"
      unfolding same_public_def Let_def by blast+
    have "add_block ?t ''tcpSettings'' tcp_block x = add_block ?t' ''tcpSettings'' tcp_block x" for x
      by (rule add_block_agree [OF tcp tcp_block_agree])
    moreover have "add_block ?t ''tlsSettings'' tls_block x = add_block ?t' ''tlsSettings'' tls_block x" for x
      by (rule add_block_agree [OF tls]) (simp add: tls_block_def hint_block_agree)
    moreover have "add_block ?t ''realitySettings'' reality_block x = add_block ?t' ''realitySettings'' reality_block x" for x
      by (rule add_block_agree [OF reality]) (simp add: reality_block_def hint_block_agree)
    ultimately show ?thesis using p nets pick_agree [OF s(1)] pick_agree [OF s(2)] by (simp add: publicConfig_def Let_def)
  next
    case False
    with p nets show ?thesis by (simp add: publicConfig_def Let_def)
  qed
qed

text \<open>What a snapshot may depend on, beside the public parts: the listed fields of the inbound and
  the traffic of owned clients.\<close>

definition same_shown :: "Inbound_panel \<Rightarrow> Inbound_panel \<Rightarrow> bool" where
  "same_shown a b \<longleftrightarrow> ibID a = ibID b \<and> ibRemark a = ibRemark b \<and> ibListen a = ibListen b \<and> ibPort a = ibPort b \<and> ibEnable a = ibEnable b \<and>
     same_public a b \<and> filter (\<lambda>s. HasPrefix (stEmail s) ownedPrefix) (ibClientStats a) = filter (\<lambda>s. HasPrefix (stEmail s) ownedPrefix) (ibClientStats b)"

lemma shown_same: "same_shown a b \<Longrightarrow> inbound_shown a = inbound_shown b \<and> traffic_of st a = traffic_of st b"
  by (simp add: same_shown_def inbound_shown_def traffic_of_def publicConfig_same [of a b]) (simp add: same_public_def)

text \<open>
  C34. A snapshot reveals nothing but what a client needs to connect and the traffic of owned
  clients: two panels that list inbounds alike in their identity, in the allowed paths of their
  settings and transport and in the statistics of owned clients, and two ledgers that count owned
  clients alike, give the same snapshot, whatever private keys, passwords, certificates, other
  clients or fields unknown today the rest of the settings holds.
\<close>

theorem snapshot_public_only:
  assumes "list_all2 same_shown ibs ibs'" and "ownedConnections c = ownedConnections c'"
  shows "read_snapshot st (Inr ibs) spliced c = read_snapshot st (Inr ibs') spliced c'"
proof -
  have "map inbound_shown ibs = map inbound_shown ibs' \<and> map (traffic_of st) ibs = map (traffic_of st) ibs'"
    using assms(1) by (induction rule: list_all2_induct) (auto dest: shown_same)
  then have "readPanel st ibs = readPanel st ibs'" by (simp add: readPanel_def)
  with assms(2) show ?thesis by (simp add: read_snapshot_def)
qed

definition ex_secret_inbound :: "string \<Rightarrow> Inbound_panel" where
  "ex_secret_inbound secret = \<lparr>ibID = 1, ibRemark = ''a'', ibTag = ''in'', ibProtocol = ''vless'', ibListen = [], ibPort = 443, ibEnable = True,
     ibSettings = Doc (JObj [(''clients'', JArr [JObj [(''id'', JStr secret), (''email'', JStr ''bob'')]]), (''encryption'', JStr ''none'')]),
     ibStreamSettings = Doc (JObj [(''network'', JStr ''tcp''), (''security'', JStr ''reality''),
       (''realitySettings'', JObj [(''privateKey'', JStr secret), (''shortIds'', JArr [JStr ''ab''])])]),
     ibClientStats = [\<lparr>stEmail = secret, stUp = 1, stDown = 2\<rparr>]\<rparr>"

lemma ex_secret_same: "same_shown (ex_secret_inbound ''s1'') (ex_secret_inbound ''s2'')"
  by (simp add: same_shown_def same_public_def ex_secret_inbound_def any_map_def obj_map_def agree_def agree_sub_def sub_map_def Let_def
      HasPrefix_def ownedPrefix_def public_settings_def)

theorem snapshot_public_only_witness:
  "\<forall>st. read_snapshot st (Inr [ex_secret_inbound ''s1'']) None \<lparr>lcKernel = False, lcLog = False, lcUsers = [(''bob'', 3)]\<rparr> =
     read_snapshot st (Inr [ex_secret_inbound ''s2'']) None \<lparr>lcKernel = False, lcLog = False, lcUsers = []\<rparr>"
proof
  fix st
  have "\<not> Owned ''bob''" by code_simp
  then have "ownedConnections \<lparr>lcKernel = False, lcLog = False, lcUsers = [(''bob'', 3)]\<rparr> = ownedConnections \<lparr>lcKernel = False, lcLog = False, lcUsers = []\<rparr>"
    by (simp add: ownedConnections_def)
  then show "read_snapshot st (Inr [ex_secret_inbound ''s1'']) None \<lparr>lcKernel = False, lcLog = False, lcUsers = [(''bob'', 3)]\<rparr> =
     read_snapshot st (Inr [ex_secret_inbound ''s2'']) None \<lparr>lcKernel = False, lcLog = False, lcUsers = []\<rparr>"
    by (intro snapshot_public_only) (simp_all add: ex_secret_same)
qed

end
