(* ===== verification/Runtime.thy ===== *)
theory Runtime
  imports Ip_Monitor Connection_Records Xui_Snapshot Desired
begin

text \<open>
  The reporters of the running set of modules: \<open>Acknowledge\<close> and \<open>UpdateSafe\<close> of
  \<open>src/internal/app/runtime.go\<close>; the rest of the runtime is in \<open>Agent\<close>. What a reporter promises
  (\<open>module.Reporter\<close> of \<open>src/internal/module/module.go\<close>) is the locale \<open>reporter\<close>; the
  three reporters of the program and the runtime as a whole are interpretations of it.
\<close>

section \<open>Reporters\<close>

locale reporter =
  fixes ack :: "'e \<Rightarrow> string \<Rightarrow> 's \<Rightarrow> (bool \<times> 'x option) \<times> 's" and waiting :: "'s \<Rightarrow> string set"
  assumes ack_handled: "fst (fst (ack e i s)) \<longleftrightarrow> i \<in> waiting s"
    and ack_other: "i \<notin> waiting s \<Longrightarrow> ack e i s = ((False, None), s)"
    and ack_settled: "i \<in> waiting s \<Longrightarrow> snd (fst (ack e i s)) = None \<Longrightarrow> insert i (waiting (snd (ack e i s))) = waiting s"
    and ack_failed: "snd (fst (ack e i s)) \<noteq> None \<Longrightarrow> waiting (snd (ack e i s)) = waiting s"
begin

text \<open>An acknowledgement never makes a report wait, and repeated ones change nothing once settled.\<close>

lemma waiting_shrinks: "waiting (snd (ack e i s)) \<subseteq> waiting s"
  by (cases "i \<in> waiting s"; cases "snd (fst (ack e i s))") (use ack_settled ack_failed ack_other in auto)

lemma ack_repeat: "i \<notin> waiting (snd (ack e i s)) \<Longrightarrow> ack e' i (snd (ack e i s)) = ((False, None), snd (ack e i s))"
  by (rule ack_other)

end

definition ack_records :: "save_env \<Rightarrow> string \<Rightarrow> Records \<Rightarrow> (bool \<times> monitor_error option) \<times> Records" where
  "ack_records env i r = (case record_Acknowledge i r of (b, s) \<Rightarrow> ((b, None), s))"

definition records_waiting :: "Records \<Rightarrow> string set" where
  "records_waiting r = (case waiting_batch r of None \<Rightarrow> {} | Some (i, b) \<Rightarrow> {i})"

interpretation records: reporter ack_records records_waiting
  by unfold_locales (auto simp: ack_records_def records_waiting_def record_Acknowledge_def Connection_Records.wake_def Let_def split: option.splits prod.splits if_splits)

definition ack_snapshots :: "save_env \<Rightarrow> string \<Rightarrow> Snapshots \<Rightarrow> (bool \<times> monitor_error option) \<times> Snapshots" where
  "ack_snapshots env i s = (case snapshots_Acknowledge i s of (b, s') \<Rightarrow> ((b, None), s'))"

definition snapshots_waiting :: "Snapshots \<Rightarrow> string set" where
  "snapshots_waiting s = (case snPending s of None \<Rightarrow> {} | Some (i, d) \<Rightarrow> {i})"

interpretation snapshots: reporter ack_snapshots snapshots_waiting
  by unfold_locales (auto simp: ack_snapshots_def snapshots_waiting_def snapshots_Acknowledge_def split: option.splits prod.splits if_splits)

definition family_waiting :: "familyState \<Rightarrow> string set" where
  "family_waiting f = (case pending f of None \<Rightarrow> {} | Some r \<Rightarrow> {rId r})"

definition monitor_waiting :: "Monitor \<Rightarrow> string set" where
  "monitor_waiting m = (case attempt m of None \<Rightarrow> {} | Some a \<Rightarrow> (case aOutcome a of None \<Rightarrow> {} | Some r \<Rightarrow> {oReportID r})) \<union>
     family_waiting (fam4 m) \<union> family_waiting (fam6 m)"

definition outcome_waiting :: "Monitor \<Rightarrow> string set" where
  "outcome_waiting m = (case attempt m of None \<Rightarrow> {} | Some a \<Rightarrow> (case aOutcome a of None \<Rightarrow> {} | Some r \<Rightarrow> {oReportID r}))"

lemma monitor_waiting_parts: "monitor_waiting m = outcome_waiting m \<union> family_waiting (fam4 m) \<union> family_waiting (fam6 m)"
  by (simp add: monitor_waiting_def outcome_waiting_def)

lemma acks_waiting: "acks i m = Some r \<Longrightarrow> outcome_waiting m = {i}" "acks i m = None \<Longrightarrow> i \<notin> outcome_waiting m"
  by (auto simp: acks_def outcome_waiting_def split: option.splits if_splits)

lemma pends_waiting: "pends i f \<Longrightarrow> family_waiting f = {i} \<and> family_waiting (settle f) = {}" "\<not> pends i f \<Longrightarrow> i \<notin> family_waiting f"
  by (auto simp: pends_def family_waiting_def settle_def split: option.splits)

lemma commit_waiting:
  assumes "mcommit env (with_attempt None m) m = (err, m')"
  shows "fam4 m' = fam4 m \<and> fam6 m' = fam6 m \<and> (if err = None then outcome_waiting m' = {} else outcome_waiting m' = outcome_waiting m)"
  using assms by (auto simp: mcommit_def with_attempt_def outcome_waiting_def Let_def split: prod.splits option.splits)

lemma Acknowledge_result:
  "(fst (fst (Acknowledge env i m)) \<longleftrightarrow> i \<in> monitor_waiting m) \<and>
   (i \<notin> monitor_waiting m \<longrightarrow> Acknowledge env i m = ((False, None), m)) \<and>
   (i \<in> monitor_waiting m \<and> snd (fst (Acknowledge env i m)) = None \<longrightarrow> insert i (monitor_waiting (snd (Acknowledge env i m))) = monitor_waiting m) \<and>
   (snd (fst (Acknowledge env i m)) \<noteq> None \<longrightarrow> monitor_waiting (snd (Acknowledge env i m)) = monitor_waiting m)"
proof (cases "acks i m")
  case (Some r)
  obtain err m' where c: "mcommit env (with_attempt None m) m = (err, m')" by (metis prod.exhaust)
  have w: "outcome_waiting (m'\<lparr>fam4 := f, wakeIPv4 := True\<rparr>) = outcome_waiting m'" for f by (simp add: outcome_waiting_def)
  have r: "family_waiting (f\<lparr>reported := x\<rparr>) = family_waiting f" for f x by (simp add: family_waiting_def)
  show ?thesis using acks_waiting(1) [OF Some] commit_waiting [OF c]
    by (cases err) (simp_all add: Acknowledge_def Some c monitor_waiting_parts w r)
next
  case None
  have w: "outcome_waiting (m\<lparr>fam4 := f, wakeIPv4 := b\<rparr>) = outcome_waiting m" "outcome_waiting (m\<lparr>fam6 := f, wakeIPv6 := b\<rparr>) = outcome_waiting m" for f b
    by (simp_all add: outcome_waiting_def)
  show ?thesis using acks_waiting(2) [OF None] pends_waiting [of i "fam4 m"] pends_waiting [of i "fam6 m"]
    by (cases "pends i (fam4 m)"; cases "pends i (fam6 m)") (auto simp: Acknowledge_def None monitor_waiting_parts w)
qed

interpretation monitor: reporter Acknowledge monitor_waiting
  by unfold_locales (use Acknowledge_result in blast)+

section \<open>The runtime\<close>

datatype reporter_state = RRecords Records | RSnapshots Snapshots | RMonitor Monitor

fun reporter_ack :: "save_env \<Rightarrow> string \<Rightarrow> reporter_state \<Rightarrow> (bool \<times> monitor_error option) \<times> reporter_state" where
  "reporter_ack env i (RRecords r) = map_prod (\<lambda>x. x) RRecords (ack_records env i r)"
| "reporter_ack env i (RSnapshots s) = map_prod (\<lambda>x. x) RSnapshots (ack_snapshots env i s)"
| "reporter_ack env i (RMonitor m) = map_prod (\<lambda>x. x) RMonitor (Acknowledge env i m)"

fun reporter_waiting :: "reporter_state \<Rightarrow> string set" where
  "reporter_waiting (RRecords r) = records_waiting r"
| "reporter_waiting (RSnapshots s) = snapshots_waiting s"
| "reporter_waiting (RMonitor m) = monitor_waiting m"

interpretation any_reporter: reporter reporter_ack reporter_waiting
proof
  fix e i s
  show "fst (fst (reporter_ack e i s)) \<longleftrightarrow> i \<in> reporter_waiting s"
    by (cases s) (simp_all add: records.ack_handled snapshots.ack_handled monitor.ack_handled)
  show "i \<notin> reporter_waiting s \<Longrightarrow> reporter_ack e i s = ((False, None), s)"
    by (cases s) (simp_all add: records.ack_other snapshots.ack_other monitor.ack_other)
  show "i \<in> reporter_waiting s \<Longrightarrow> snd (fst (reporter_ack e i s)) = None \<Longrightarrow> insert i (reporter_waiting (snd (reporter_ack e i s))) = reporter_waiting s"
    by (cases s) (simp_all add: records.ack_settled snapshots.ack_settled monitor.ack_settled)
  show "snd (fst (reporter_ack e i s)) \<noteq> None \<Longrightarrow> reporter_waiting (snd (reporter_ack e i s)) = reporter_waiting s"
    by (cases s) (use records.ack_failed [of e i] snapshots.ack_failed [of e i] monitor.ack_failed [of e i] in auto)
qed

text \<open>\<open>Runtime.Acknowledge\<close>, with whether a module handled it.\<close>

fun runtime_Acknowledge :: "save_env \<Rightarrow> string \<Rightarrow> reporter_state list \<Rightarrow> (bool \<times> monitor_error option) \<times> reporter_state list" where
  "runtime_Acknowledge env i [] = ((False, None), [])"
| "runtime_Acknowledge env i (r # rs) = (case reporter_ack env i r of
      ((True, err), r') \<Rightarrow> ((True, err), r' # rs)
    | ((False, _), r') \<Rightarrow> (case runtime_Acknowledge env i rs of (res, rs') \<Rightarrow> (res, r' # rs')))"

fun reporter_UpdateSafe :: "reporter_state \<Rightarrow> bool" where
  "reporter_UpdateSafe (RMonitor m) = UpdateSafe m"
| "reporter_UpdateSafe _ = True"

definition runtime_UpdateSafe :: "reporter_state list \<Rightarrow> bool" where
  "runtime_UpdateSafe rs = list_all reporter_UpdateSafe rs"


lemma runtime_Acknowledge_Cons:
  "runtime_Acknowledge env i (r # rs) =
     (if i \<in> reporter_waiting r then (case reporter_ack env i r of (res, r') \<Rightarrow> (res, r' # rs))
      else (case runtime_Acknowledge env i rs of (res, rs') \<Rightarrow> (res, r # rs')))"
  using any_reporter.ack_handled [of env i r] any_reporter.ack_other [of i r env]
  by (auto split: prod.splits bool.splits)

declare runtime_Acknowledge.simps(2) [simp del]

definition runtime_waiting :: "reporter_state list \<Rightarrow> string set" where
  "runtime_waiting rs = (\<Union>r \<in> set rs. reporter_waiting r)"

lemma runtime_waiting_simps [simp]:
  "runtime_waiting [] = {}" "runtime_waiting (r # rs) = reporter_waiting r \<union> runtime_waiting rs"
  by (simp_all add: runtime_waiting_def)

text \<open>An acknowledgement reaches the first reporter that waits for it and no other.\<close>

lemma ack_reaches_first:
  "(\<forall>r \<in> set xs. i \<notin> reporter_waiting r) \<Longrightarrow> i \<in> reporter_waiting r \<Longrightarrow>
   runtime_Acknowledge env i (xs @ r # ys) = (case reporter_ack env i r of (res, r') \<Rightarrow> (res, xs @ r' # ys))"
  by (induction xs) (auto simp: runtime_Acknowledge_Cons split: prod.splits)

lemma ack_reaches_none: "i \<notin> runtime_waiting rs \<Longrightarrow> runtime_Acknowledge env i rs = ((False, None), rs)"
  by (induction rs) (auto simp: runtime_Acknowledge_Cons split: prod.splits)

lemma first_waiting:
  assumes "i \<in> runtime_waiting rs"
  shows "\<exists>xs r ys. rs = xs @ r # ys \<and> (\<forall>x \<in> set xs. i \<notin> reporter_waiting x) \<and> i \<in> reporter_waiting r"
proof -
  have "\<exists>r \<in> set rs. i \<in> reporter_waiting r" using assms by (auto simp: runtime_waiting_def)
  from split_list_first_prop [OF this] show ?thesis by blast
qed

lemma reporter_ack_others: "j \<noteq> i \<Longrightarrow> j \<in> reporter_waiting (snd (reporter_ack env i r)) \<longleftrightarrow> j \<in> reporter_waiting r"
  using any_reporter.ack_settled [of i r env] any_reporter.ack_failed [of env i r] any_reporter.ack_other [of i r env]
  by (cases "i \<in> reporter_waiting r"; cases "snd (fst (reporter_ack env i r))") auto

lemma ack_others: "j \<noteq> i \<Longrightarrow> j \<in> runtime_waiting (snd (runtime_Acknowledge env i rs)) \<longleftrightarrow> j \<in> runtime_waiting rs"
proof (induction rs)
  case (Cons r rs)
  then show ?case using reporter_ack_others [OF Cons.prems, of env r]
    by (auto simp: runtime_Acknowledge_Cons split: prod.splits)
qed simp

lemma ack_waiting_sub: "runtime_waiting (snd (runtime_Acknowledge env i rs)) \<subseteq> runtime_waiting rs"
proof (induction rs)
  case (Cons r rs)
  show ?case using Cons any_reporter.waiting_shrinks [of env i r]
    by (auto simp: runtime_Acknowledge_Cons split: prod.splits)
qed simp

text \<open>The modules after Cloud acknowledged the reports \<open>ids\<close>, in this order.\<close>

fun acknowledged :: "save_env \<Rightarrow> string list \<Rightarrow> reporter_state list \<Rightarrow> reporter_state list" where
  "acknowledged env [] rs = rs"
| "acknowledged env (i # ids) rs = acknowledged env ids (snd (runtime_Acknowledge env i rs))"

lemma acknowledged_others: "j \<notin> set ids \<Longrightarrow> j \<in> runtime_waiting (acknowledged env ids rs) \<longleftrightarrow> j \<in> runtime_waiting rs"
  by (induction ids arbitrary: rs) (simp_all add: ack_others)

lemma acknowledged_sub: "runtime_waiting (acknowledged env ids rs) \<subseteq> runtime_waiting rs"
proof (induction ids arbitrary: rs)
  case (Cons i ids)
  then show ?case using ack_waiting_sub [of env i rs] by (auto dest: subsetD)
qed simp

text \<open>
  An acknowledgement goes to the first module that waits for this report and to no other:
  that module's answer is the runtime's and every other module stays as it was. One that nobody
  waits for changes nothing. So, after any sequence of acknowledgements, a report that was not
  among them still waits, whatever saves failed, and no report waits that did not before.
\<close>

theorem ack_settles_one:
  assumes "runtime_Acknowledge env i rs = (res, rs')"
  shows "(if i \<in> runtime_waiting rs
          then \<exists>xs r r' ys. rs = xs @ r # ys \<and> rs' = xs @ r' # ys \<and> reporter_ack env i r = (res, r') \<and>
                 i \<in> reporter_waiting r \<and> (\<forall>x \<in> set xs. i \<notin> reporter_waiting x) \<and>
                 (if snd res = None then insert i (reporter_waiting r') = reporter_waiting r else reporter_waiting r' = reporter_waiting r)
          else res = (False, None) \<and> rs' = rs) \<and>
         (\<forall>ids j. j \<notin> set ids \<longrightarrow> (j \<in> runtime_waiting (acknowledged env ids rs) \<longleftrightarrow> j \<in> runtime_waiting rs)) \<and>
         (\<forall>ids. runtime_waiting (acknowledged env ids rs) \<subseteq> runtime_waiting rs)"
proof (cases "i \<in> runtime_waiting rs")
  case True
  then obtain xs r ys where s: "rs = xs @ r # ys" "\<forall>x \<in> set xs. i \<notin> reporter_waiting x" "i \<in> reporter_waiting r"
    using first_waiting by blast
  obtain r' where r: "reporter_ack env i r = (res, r')" "rs' = xs @ r' # ys"
    using assms ack_reaches_first [OF s(2,3), of env ys] s(1) by (auto split: prod.splits)
  have "if snd res = None then insert i (reporter_waiting r') = reporter_waiting r else reporter_waiting r' = reporter_waiting r"
    using any_reporter.ack_settled [OF s(3), of env] any_reporter.ack_failed [of env i r] r(1) by auto
  with True s r show ?thesis using acknowledged_others acknowledged_sub by metis
next
  case False
  then show ?thesis using assms ack_reaches_none [OF False, of env] acknowledged_others acknowledged_sub by auto
qed

definition ex_reporters :: "reporter_state list" where
  "ex_reporters = [RRecords (newRecords\<lparr>waiting_batch := Some (''b'', \<lparr>bRecords = [], bDropped = 0\<rparr>)\<rparr>), RSnapshots (newSnapshots\<lparr>snPending := Some (''s'', JNull)\<rparr>)]"

lemma ex_ack: "runtime_Acknowledge all_ok ''s'' ex_reporters =
    ((True, None), [RRecords (newRecords\<lparr>waiting_batch := Some (''b'', \<lparr>bRecords = [], bDropped = 0\<rparr>)\<rparr>), RSnapshots newSnapshots])"
  by (simp add: ex_reporters_def runtime_Acknowledge_Cons records_waiting_def snapshots_waiting_def ack_snapshots_def snapshots_Acknowledge_def newSnapshots_def)

theorem ack_settles_one_witness:
  "(''b'' \<in> runtime_waiting (acknowledged all_ok [''s''] ex_reporters)) \<and> ''b'' \<in> runtime_waiting ex_reporters"
proof -
  have w: "''b'' \<in> runtime_waiting ex_reporters" by (simp add: ex_reporters_def records_waiting_def)
  have "''b'' \<notin> set [''s'']" by simp
  then show ?thesis using ack_settles_one [OF ex_ack] w by blast
qed

end
