(* ===== verification/Layout.thy ===== *)
theory Layout
  imports Json_File
begin

text \<open>
  The two deployment slots of \<open>src/internal/layout/layout.go\<close>: the directories with a binary and a
  configuration each and the link that names the active one. A slot's path is the slot itself;
  every system call may fail as its environment says. A slot that does not exist is one without
  files.
\<close>

section \<open>The tree\<close>

datatype slot = SlotA | SlotB

definition slot_path :: "slot \<Rightarrow> string" where
  "slot_path s = (case s of SlotA \<Rightarrow> ''slots/a'' | SlotB \<Rightarrow> ''slots/b'')"

datatype link = NoLink | LinkUnreadable | LinkTo string

record slot_dir =
  slBinary :: "string option"
  slConfig :: "string option"

record Tree =
  tCurrent :: link
  tA :: slot_dir
  tB :: slot_dir

definition slot_dir_of :: "Tree \<Rightarrow> slot \<Rightarrow> slot_dir" where
  "slot_dir_of t s = (case s of SlotA \<Rightarrow> tA t | SlotB \<Rightarrow> tB t)"

definition set_slot :: "slot \<Rightarrow> slot_dir \<Rightarrow> Tree \<Rightarrow> Tree" where
  "set_slot s d t = (case s of SlotA \<Rightarrow> t\<lparr>tA := d\<rparr> | SlotB \<Rightarrow> t\<lparr>tB := d\<rparr>)"

definition emptySlot :: slot_dir where "emptySlot = \<lparr>slBinary = None, slConfig = None\<rparr>"

section \<open>Which slot is active\<close>

text \<open>\<open>None\<close> when the link cannot be read, \<open>Some None\<close> for no active slot.\<close>

definition ActiveSlot :: "Tree \<Rightarrow> slot option option" where
  "ActiveSlot t = (case tCurrent t of
      NoLink \<Rightarrow> Some None
    | LinkUnreadable \<Rightarrow> None
    | LinkTo target \<Rightarrow> Some (if target = slot_path SlotA then Some SlotA else if target = slot_path SlotB then Some SlotB else None))"

definition InactiveSlot :: "Tree \<Rightarrow> slot option" where
  "InactiveSlot t = (case ActiveSlot t of None \<Rightarrow> None | Some a \<Rightarrow> Some (if a = Some SlotA then SlotB else SlotA))"

text \<open>\<open>Candidate\<close> of a configuration in a slot directory, or elsewhere (\<open>None\<close>).\<close>

definition Candidate :: "slot option \<Rightarrow> Tree \<Rightarrow> (slot option \<times> bool) option" where
  "Candidate dir t = (case dir of None \<Rightarrow> Some (None, False)
     | Some s \<Rightarrow> (case ActiveSlot t of None \<Rightarrow> None | Some a \<Rightarrow> Some (Some s, Some s \<noteq> a)))"

section \<open>Writing a slot\<close>

record write_env =
  we_create :: bool
  we_chmod :: bool
  we_write :: bool
  we_sync :: bool
  we_close :: bool
  we_rename :: bool

text \<open>\<open>WriteFile\<close>: whether it succeeded and the file at the destination afterwards.\<close>

definition WriteFile :: "write_env \<Rightarrow> string \<Rightarrow> string option \<Rightarrow> bool \<times> string option" where
  "WriteFile e bytes old =
     (if \<not> we_create e then (False, old)
      else if \<not> we_chmod e then (False, old)
      else if \<not> we_write e then (False, old)
      else if \<not> we_sync e then (False, old)
      else if \<not> we_close e then (False, old)
      else if \<not> we_rename e then (False, old)
      else (True, Some bytes))"

text \<open>\<open>RemoveAll\<close> that fails leaves some of the files, \<open>Some d\<close>.\<close>

record slot_env =
  se_removeAll :: "slot_dir option"
  se_mkdir :: bool
  se_binary :: write_env
  se_config :: write_env
  se_sync :: dir_env

definition PrepareSlot :: "slot_env \<Rightarrow> slot \<Rightarrow> Tree \<Rightarrow> bool \<times> Tree" where
  "PrepareSlot e s t = (case se_removeAll e of Some d \<Rightarrow> (False, set_slot s d t)
     | None \<Rightarrow> (se_mkdir e, set_slot s emptySlot t))"

definition SyncDirectory :: "dir_env \<Rightarrow> bool" where
  "SyncDirectory e \<longleftrightarrow> dir_open e \<and> dir_sync e \<and> dir_close e"

text \<open>The sequence the updater and the installer write a slot with: empty it, the binary, the
  configuration, sync.\<close>

definition write_slot :: "slot_env \<Rightarrow> slot \<Rightarrow> string \<Rightarrow> string \<Rightarrow> Tree \<Rightarrow> bool \<times> Tree" where
  "write_slot e s binary config t = (case PrepareSlot e s t of
      (False, t1) \<Rightarrow> (False, t1)
    | (True, t1) \<Rightarrow> (case WriteFile (se_binary e) binary (slBinary (slot_dir_of t1 s)) of
        (False, b) \<Rightarrow> (False, t1)
      | (True, b) \<Rightarrow> (let t2 = set_slot s ((slot_dir_of t1 s)\<lparr>slBinary := b\<rparr>) t1 in
          case WriteFile (se_config e) config (slConfig (slot_dir_of t2 s)) of
            (False, c) \<Rightarrow> (False, t2)
          | (True, c) \<Rightarrow> (SyncDirectory (se_sync e), set_slot s ((slot_dir_of t2 s)\<lparr>slConfig := c\<rparr>) t2))))"

section \<open>Switching\<close>

record activate_env =
  ae_symlink :: bool
  ae_rename :: bool
  ae_sync :: dir_env

definition Activate :: "activate_env \<Rightarrow> slot \<Rightarrow> Tree \<Rightarrow> bool \<times> Tree" where
  "Activate e s t =
     (if \<not> ae_symlink e then (False, t)
      else if \<not> ae_rename e then (False, t)
      else (SyncDirectory (ae_sync e), t\<lparr>tCurrent := LinkTo (slot_path s)\<rparr>))"

datatype lock_result = Locked | LockBusy | LockFailed

section \<open>What each operation leaves\<close>

lemma slot_path_inj [simp]: "slot_path s = slot_path s' \<longleftrightarrow> s = s'"
  by (cases s; cases s') (simp_all add: slot_path_def)

lemma slot_dir_set [simp]: "slot_dir_of (set_slot s d t) s' = (if s = s' then d else slot_dir_of t s')"
  by (cases s; cases s') (simp_all add: slot_dir_of_def set_slot_def)

lemma current_set [simp]: "tCurrent (set_slot s d t) = tCurrent t"
  by (cases s) (simp_all add: set_slot_def)

lemma slot_dir_current [simp]: "slot_dir_of (t\<lparr>tCurrent := l\<rparr>) s = slot_dir_of t s"
  by (cases s) (simp_all add: slot_dir_of_def)

lemma ActiveSlot_cong: "tCurrent t = tCurrent t' \<Longrightarrow> ActiveSlot t = ActiveSlot t'"
  by (simp add: ActiveSlot_def)

lemma ActiveSlot_set [simp]: "ActiveSlot (set_slot s d t) = ActiveSlot t"
  by (rule ActiveSlot_cong) simp

lemma ActiveSlot_link [simp]: "ActiveSlot (t\<lparr>tCurrent := LinkTo (slot_path s)\<rparr>) = Some (Some s)"
  by (cases s) (simp_all add: ActiveSlot_def)

lemma InactiveSlot_not_active: "InactiveSlot t = Some s \<Longrightarrow> ActiveSlot t \<noteq> Some (Some s) \<and> ActiveSlot t \<noteq> None"
  by (auto simp: InactiveSlot_def split: option.splits if_splits)

lemma write_slot_only:
  assumes "write_slot e s b c t = (ok, t')"
  shows "tCurrent t' = tCurrent t" "s' \<noteq> s \<Longrightarrow> slot_dir_of t' s' = slot_dir_of t s'"
    "ok \<Longrightarrow> slot_dir_of t' s = \<lparr>slBinary = Some b, slConfig = Some c\<rparr>"
  using assms by (auto simp: write_slot_def PrepareSlot_def WriteFile_def Let_def emptySlot_def split: prod.splits option.splits if_splits bool.splits)

lemma Activate_result:
  assumes "Activate e s t = (ok, t')"
  shows "slot_dir_of t' s' = slot_dir_of t s'" "ok \<Longrightarrow> ActiveSlot t' = Some (Some s)"
    "ActiveSlot t' = ActiveSlot t \<or> ActiveSlot t' = Some (Some s)"
  using assms by (auto simp: Activate_def split: if_splits)

end
