(* ===== verification/Update_Target.thy ===== *)
theory Update_Target
  imports Protocol Json_File
begin

text \<open>
  What Cloud answers to an update check: \<open>src/internal/update/client.go\<close>. Versions, targets,
  their decoding and validation, and the text an update check signs. Sending the check over HTTPS
  is not modelled.
\<close>

section \<open>Versions\<close>

text \<open>One number of \<open>^v(0|[1-9][0-9]*)\.(0|[1-9][0-9]*)\.(0|[1-9][0-9]*)$\<close>\<close>

definition canonical_number :: "string \<Rightarrow> bool" where
  "canonical_number s \<longleftrightarrow> s \<noteq> [] \<and> list_all (\<lambda>c. c \<in> set digits) s \<and> (s = ''0'' \<or> hd s \<noteq> CHR ''0'')"

definition semanticVersion :: "string \<Rightarrow> (string \<times> string \<times> string) option" where
  "semanticVersion s = (case s of [] \<Rightarrow> None
     | c # cs \<Rightarrow> if c \<noteq> CHR ''v'' then None else
         (case Split (CHR ''.'') cs of
            [a, b, p] \<Rightarrow> if canonical_number a \<and> canonical_number b \<and> canonical_number p then Some (a, b, p) else None
          | _ \<Rightarrow> None))"

type_synonym versionParts = "nat \<times> nat \<times> nat"

definition parseVersion :: "string \<Rightarrow> versionParts option" where
  "parseVersion value = (case semanticVersion value of None \<Rightarrow> None
     | Some (a, b, p) \<Rightarrow> (case (ParseUint 10 64 a, ParseUint 10 64 b, ParseUint 10 64 p) of
          (Some x, Some y, Some z) \<Rightarrow> Some (x, y, z) | _ \<Rightarrow> None))"

fun compareVersion :: "versionParts \<Rightarrow> versionParts \<Rightarrow> int" where
  "compareVersion (a, b, c) (x, y, z) =
     (if a \<noteq> x then (if a < x then - 1 else 1)
      else if b \<noteq> y then (if b < y then - 1 else 1)
      else if c \<noteq> z then (if c < z then - 1 else 1) else 0)"

text \<open>\<open>^[0-9a-f]{64}$\<close> and \<open>^[a-z0-9][a-z0-9._-]{0,63}$\<close>\<close>

definition sha256Hex :: "string \<Rightarrow> bool" where
  "sha256Hex s \<longleftrightarrow> length s = 64 \<and> list_all (\<lambda>c. c \<in> set hexits) s"

abbreviation stableCode :: "string \<Rightarrow> bool" where
  "stableCode \<equiv> stableToken 63"

section \<open>Targets\<close>

definition CheckSchema :: string where "CheckSchema = ''akastr-agent-maintenance.v2''"
definition CheckContext :: string where "CheckContext = ''akastr-agent-maintenance-v2''"

record update_target =
  uSchema :: string
  uStatus :: string
  uVersion :: string
  uBinaryURL :: string
  uBinarySHA256 :: string
  uConfigurationRevision :: int
  uConfiguration :: raw

definition TargetName :: "string \<Rightarrow> int \<Rightarrow> string" where
  "TargetName version revision = version @ ''-r'' @ Itoa revision"

definition target_Name :: "update_target \<Rightarrow> string" where
  "target_Name t = TargetName (uVersion t) (uConfigurationRevision t)"

definition hasConfiguration :: "update_target \<Rightarrow> bool" where
  "hasConfiguration t \<longleftrightarrow> raw_len (uConfiguration t) \<noteq> 0 \<and> uConfiguration t \<noteq> Doc JNull"

definition binaryURL :: "string \<Rightarrow> string" where
  "binaryURL v = ''https://github.com/akastrmix/akastr-agent/releases/download/'' @ v @ ''/akastr-agent-linux-amd64''"

datatype target_error = StatusInvalid | VersionInvalid | SoftwareInvalid | MovesBackwards | StatusMismatch | ConfigurationPresence
  | TargetUndecodable | TrailingTarget

definition validate_target :: "string \<Rightarrow> int \<Rightarrow> update_target \<Rightarrow> target_error option" where
  "validate_target version revision t =
     (if uSchema t \<noteq> CheckSchema \<or> (uStatus t \<noteq> ''current'' \<and> uStatus t \<noteq> ''busy'' \<and> uStatus t \<noteq> ''update_available'')
      then Some StatusInvalid
      else case parseVersion version of None \<Rightarrow> Some VersionInvalid
      | Some current \<Rightarrow> (case parseVersion (uVersion t) of None \<Rightarrow> Some SoftwareInvalid
        | Some target \<Rightarrow>
            if \<not> sha256Hex (uBinarySHA256 t) \<or> uBinaryURL t \<noteq> binaryURL (uVersion t) then Some SoftwareInvalid
            else if compareVersion target current < 0 \<or> uConfigurationRevision t < revision then Some MovesBackwards
            else
              (let changed = (uVersion t \<noteq> version \<or> uConfigurationRevision t \<noteq> revision) in
               if (uStatus t = ''current'') = changed then Some StatusMismatch
               else if hasConfiguration t \<noteq> (uStatus t = ''update_available'' \<and> uConfigurationRevision t \<noteq> revision)
               then Some ConfigurationPresence
               else None)))"

text \<open>
  \<open>decodeTarget\<close> of a body whose JSON values are listed: exactly one object with no unknown field,
  then the end. A field left out keeps its zero value.
\<close>

definition targetFields :: "string list" where
  "targetFields = [''schema'', ''status'', ''version'', ''binary_url'', ''binary_sha256'', ''configuration_revision'', ''configuration'']"

definition typed_target :: "json \<Rightarrow> update_target option" where
  "typed_target j = (case j of
      JObj kvs \<Rightarrow>
        if \<not> list_all (\<lambda>k. fold_key k \<in> set targetFields) (map fst kvs) then None
        else (case (field [] as_string kvs ''schema'', field [] as_string kvs ''status'', field [] as_string kvs ''version'',
                    field [] as_string kvs ''binary_url'', field [] as_string kvs ''binary_sha256'',
                    field 0 as_int kvs ''configuration_revision'') of
            (Some s, Some st, Some v, Some u, Some h, Some r) \<Rightarrow>
              Some \<lparr>uSchema = s, uStatus = st, uVersion = v, uBinaryURL = u, uBinarySHA256 = h, uConfigurationRevision = r,
                uConfiguration = (case struct_get kvs ''configuration'' of None \<Rightarrow> NoRaw | Some c \<Rightarrow> Doc c)\<rparr>
          | _ \<Rightarrow> None)
    | JNull \<Rightarrow> Some \<lparr>uSchema = [], uStatus = [], uVersion = [], uBinaryURL = [], uBinarySHA256 = [], uConfigurationRevision = 0,
        uConfiguration = NoRaw\<rparr>
    | _ \<Rightarrow> None)"

definition update_decodeTarget :: "json decoded list \<Rightarrow> string \<Rightarrow> int \<Rightarrow> target_error + update_target" where
  "update_decodeTarget body version revision = (case body of
      Value j # rest \<Rightarrow> (case typed_target j of None \<Rightarrow> Inl TargetUndecodable
        | Some t \<Rightarrow> if rest \<noteq> [] then Inl TrailingTarget
            else (case validate_target version revision t of Some e \<Rightarrow> Inl e | None \<Rightarrow> Inr t))
    | _ \<Rightarrow> Inl TargetUndecodable)"

section \<open>The signed check\<close>

record CheckRequest =
  cAgentID :: string
  cAgentVersion :: string
  cRevision :: int
  cErrorCode :: string
  cNonce :: string
  cSentAt :: string

definition check_parts :: "CheckRequest \<Rightarrow> string list" where
  "check_parts r = [CheckContext, cAgentID r, cAgentVersion r, Itoa (cRevision r), cErrorCode r, cNonce r, cSentAt r]"

definition SigningText :: "CheckRequest \<Rightarrow> string" where
  "SigningText r = Join [CHR 0x0A] (check_parts r)"

section \<open>Version texts are canonical\<close>

lemma digit_cases: "c \<in> set digits \<Longrightarrow> \<exists>d < 10. c = digit_of d \<and> digit_val c = Some d"
proof -
  assume "c \<in> set digits"
  then have "\<exists>d \<in> set [0, 1, 2, 3, 4, 5, 6, 7, 8, 9]. c = digit_of d" by (auto simp: digits_def digit_of_def hexits_def)
  then obtain d where d: "d \<in> set [0, 1, 2, 3, 4, 5, 6, 7, 8, 9]" "c = digit_of d" by blast
  from d(1) have "d < 10" by auto
  with d(2) show ?thesis using digit_val_digit_of by blast
qed

lemma read_digits_canonical:
  "s \<noteq> [] \<Longrightarrow> list_all (\<lambda>c. c \<in> set digits) s \<Longrightarrow> hd s \<noteq> CHR ''0'' \<Longrightarrow>
   \<exists>n. read_digits 10 0 s = Some n \<and> 0 < n \<and> nat_text n = s"
proof (induction s rule: rev_induct)
  case (snoc c cs)
  obtain d where d: "d < 10" "c = digit_of d" "digit_val c = Some d" using snoc.prems digit_cases by auto
  show ?case
  proof (cases "cs = []")
    case True
    with snoc.prems d have "0 < d" by (auto simp: digit_of_zero_iff)
    with True d show ?thesis by (simp add: nat_text.simps [of d])
  next
    case False
    from False snoc.prems have "list_all (\<lambda>c. c \<in> set digits) cs" "hd cs \<noteq> CHR ''0''" by simp_all
    from snoc.IH [OF False this] obtain n where n: "read_digits 10 0 cs = Some n" "0 < n" "nat_text n = cs" by blast
    have "nat_text (10 * n + d) = nat_text n @ [digit_of d]" using n(2) d(1) by (subst nat_text.simps) simp
    moreover have "read_digits 10 0 (cs @ [c]) = Some (10 * n + d)" using n(1) d(1,3) by (simp add: read_digits_append)
    ultimately show ?thesis using n(2,3) d(2) by (intro exI [of _ "10 * n + d"]) simp
  qed
qed simp

lemma lower_hex_digit: "c \<in> set digits \<Longrightarrow> lower_hex c = c"
proof -
  have "list_all (\<lambda>c. lower_hex c = c) digits" by code_simp
  then show "c \<in> set digits \<Longrightarrow> lower_hex c = c" by (simp add: list_all_iff)
qed

lemma read_digits_lower: "list_all (\<lambda>c. c \<in> set digits) s \<Longrightarrow> map lower_hex s = s"
  by (rule map_idI) (simp add: list_all_iff lower_hex_digit)

lemma canonical_number_text:
  assumes "canonical_number s" "ParseUint 10 64 s = Some n"
  shows "s = nat_text n"
proof -
  have m: "map lower_hex s = s" using assms(1) by (intro read_digits_lower) (simp add: canonical_number_def)
  have r: "read_digits 10 0 s = Some n" using assms(2) by (auto simp: ParseUint_def m split: if_splits option.splits)
  show ?thesis
  proof (cases "s = ''0''")
    case True
    with r have "n = 0" by (simp add: digit_val_def hexits_def)
    with True show ?thesis by (simp add: nat_text.simps [of 0] digit_of_def hexits_def)
  next
    case False
    with assms(1) read_digits_canonical [of s] r show ?thesis by (auto simp: canonical_number_def)
  qed
qed

definition version_text :: "versionParts \<Rightarrow> string" where
  "version_text v = (case v of (a, b, p) \<Rightarrow> CHR ''v'' # Join [CHR ''.''] [nat_text a, nat_text b, nat_text p])"

lemma semanticVersion_Some:
  assumes "semanticVersion s = Some (a, b, p)"
  shows "s = CHR ''v'' # Join [CHR ''.''] [a, b, p]" "canonical_number a" "canonical_number b" "canonical_number p"
proof -
  from assms obtain cs where s: "s = CHR ''v'' # cs" "Split (CHR ''.'') cs = [a, b, p]"
    and c: "canonical_number a" "canonical_number b" "canonical_number p"
    by (auto simp: semanticVersion_def split: list.splits if_splits)
  show "s = CHR ''v'' # Join [CHR ''.''] [a, b, p]" using s Join_Split [of "CHR ''.''" cs] by simp
  show "canonical_number a" "canonical_number b" "canonical_number p" by (fact c)+
qed

lemma parseVersion_Some:
  assumes "parseVersion s = Some v"
  obtains a b p x y z where "v = (x, y, z)" "semanticVersion s = Some (a, b, p)"
    "ParseUint 10 64 a = Some x" "ParseUint 10 64 b = Some y" "ParseUint 10 64 p = Some z"
  using assms by (auto simp: parseVersion_def split: option.splits)

lemma parseVersion_text: "parseVersion s = Some v \<Longrightarrow> s = version_text v"
proof (elim parseVersion_Some)
  fix a b p x y z
  assume v: "v = (x, y, z)" and s: "semanticVersion s = Some (a, b, p)"
    and n: "ParseUint 10 64 a = Some x" "ParseUint 10 64 b = Some y" "ParseUint 10 64 p = Some z"
  show ?thesis using semanticVersion_Some(1) [OF s] canonical_number_text [OF semanticVersion_Some(2) [OF s] n(1)]
    canonical_number_text [OF semanticVersion_Some(3) [OF s] n(2)] canonical_number_text [OF semanticVersion_Some(4) [OF s] n(3)]
    by (simp add: v version_text_def)
qed

lemma canonical_nat_text: "canonical_number (nat_text n)"
proof (cases "n = 0")
  case True
  then have "nat_text n = ''0''" by (simp add: nat_text.simps [of 0] digit_of_def hexits_def)
  then show ?thesis by (simp add: canonical_number_def digits_def)
next
  case False
  then have "hd (nat_text n) \<noteq> CHR ''0''" by (simp add: nat_text_no_leading_zero)
  with nat_text_nonempty nat_text_digits show ?thesis unfolding canonical_number_def list_all_iff by blast
qed

lemma ParseUint_nat_text: "n < 2 ^ 64 \<Longrightarrow> ParseUint 10 64 (nat_text n) = Some n"
proof -
  assume n: "n < 2 ^ 64"
  have "list_all (\<lambda>c. c \<in> set digits) (nat_text n)" using nat_text_digits by (auto simp: list_all_iff)
  then have "map lower_hex (nat_text n) = nat_text n" by (rule read_digits_lower)
  with n show ?thesis by (simp add: ParseUint_def read_digits_nat_text nat_text_nonempty)
qed

lemma parse_version_text:
  "a < 2 ^ 64 \<Longrightarrow> b < 2 ^ 64 \<Longrightarrow> p < 2 ^ 64 \<Longrightarrow> parseVersion (version_text (a, b, p)) = Some (a, b, p)"
proof -
  assume r: "a < 2 ^ 64" "b < 2 ^ 64" "p < 2 ^ 64"
  have "CHR ''.'' \<notin> set (nat_text n)" for n using nat_text_digits [of n] by (auto simp: digits_def)
  then have "Split (CHR ''.'') (Join [CHR ''.''] [nat_text a, nat_text b, nat_text p]) = [nat_text a, nat_text b, nat_text p]"
    by (intro Split_Join) auto
  with r show ?thesis
    by (simp add: parseVersion_def semanticVersion_def version_text_def canonical_nat_text ParseUint_nat_text del: Join.simps)
qed


section \<open>Targets only move forward\<close>

text \<open>A deployment: the version of the software and the revision of the configuration.\<close>

type_synonym deployment = "string \<times> int"

text \<open>Not older in either part, and newer in one.\<close>

definition newer :: "deployment \<Rightarrow> deployment \<Rightarrow> bool" where
  "newer d d' \<longleftrightarrow> (\<exists>v v'. parseVersion (fst d) = Some v \<and> parseVersion (fst d') = Some v' \<and>
     compareVersion v v' \<le> 0 \<and> snd d \<le> snd d' \<and> (compareVersion v v' < 0 \<or> snd d < snd d'))"

lemma compareVersion_zero: "compareVersion v w = 0 \<longleftrightarrow> v = w"
  by (cases v; cases w) auto

lemma compareVersion_swap: "compareVersion v w = - compareVersion w v"
  by (cases v; cases w) auto

lemma compareVersion_trans: "compareVersion u v \<le> 0 \<Longrightarrow> compareVersion v w \<le> 0 \<Longrightarrow> compareVersion u w \<le> 0"
  by (cases u; cases v; cases w) (auto split: if_splits)

lemma compareVersion_trans_less: "compareVersion u v < 0 \<Longrightarrow> compareVersion v w \<le> 0 \<Longrightarrow> compareVersion u w < 0"
  by (cases u; cases v; cases w) (auto split: if_splits)

lemma compareVersion_less_trans: "compareVersion u v \<le> 0 \<Longrightarrow> compareVersion v w < 0 \<Longrightarrow> compareVersion u w < 0"
  by (cases u; cases v; cases w) (auto split: if_splits)

lemma newer_irrefl: "\<not> newer d d"
  using compareVersion_zero by (auto simp: newer_def)

lemma newer_trans: "newer a b \<Longrightarrow> newer b c \<Longrightarrow> newer a c"
proof -
  assume "newer a b" "newer b c"
  then obtain u v w where p: "parseVersion (fst a) = Some u" "parseVersion (fst b) = Some v" "parseVersion (fst c) = Some w"
    and l: "compareVersion u v \<le> 0" "compareVersion v w \<le> 0"
    and r: "snd a \<le> snd b" "snd b \<le> snd c" "compareVersion u v < 0 \<or> snd a < snd b" "compareVersion v w < 0 \<or> snd b < snd c"
    unfolding newer_def by auto
  have "compareVersion u w < 0 \<or> snd a < snd c"
    using r compareVersion_trans_less [OF _ l(2), of u] compareVersion_less_trans [OF l(1), of w] by linarith
  with p l r show ?thesis unfolding newer_def using compareVersion_trans [OF l] by fastforce
qed

lemma validate_target_None:
  assumes "validate_target v r t = None"
  obtains x y where "parseVersion v = Some x" "parseVersion (uVersion t) = Some y" "compareVersion x y \<le> 0"
    "r \<le> uConfigurationRevision t" "sha256Hex (uBinarySHA256 t)" "uBinaryURL t = binaryURL (uVersion t)"
    "uStatus t = ''current'' \<longleftrightarrow> uVersion t = v \<and> uConfigurationRevision t = r"
    "hasConfiguration t \<longleftrightarrow> uStatus t = ''update_available'' \<and> uConfigurationRevision t \<noteq> r"
    "uStatus t \<in> {''current'', ''busy'', ''update_available''}"
proof -
  from assms obtain x y where p: "parseVersion v = Some x" "parseVersion (uVersion t) = Some y"
    and c: "\<not> compareVersion y x < 0" and o: "r \<le> uConfigurationRevision t" "sha256Hex (uBinarySHA256 t)" "uBinaryURL t = binaryURL (uVersion t)"
      "uStatus t = ''current'' \<longleftrightarrow> uVersion t = v \<and> uConfigurationRevision t = r"
      "hasConfiguration t \<longleftrightarrow> uStatus t = ''update_available'' \<and> uConfigurationRevision t \<noteq> r"
      "uStatus t \<in> {''current'', ''busy'', ''update_available''}"
    by (auto simp: validate_target_def Let_def split: if_splits option.splits)
  have "compareVersion x y \<le> 0" using c compareVersion_swap [of x y] by simp
  with that p o show ?thesis by blast
qed

lemma accepted_newer:
  assumes "validate_target v r t = None" "uStatus t \<noteq> ''current''"
  shows "newer (v, r) (uVersion t, uConfigurationRevision t)"
proof -
  from assms(1) obtain x y where p: "parseVersion v = Some x" "parseVersion (uVersion t) = Some y" "compareVersion x y \<le> 0"
    "r \<le> uConfigurationRevision t" "uVersion t \<noteq> v \<or> uConfigurationRevision t \<noteq> r"
    by (rule validate_target_None) (use assms(2) in auto)
  have "x = y \<Longrightarrow> uVersion t = v" using parseVersion_text [OF p(1)] parseVersion_text [OF p(2)] by simp
  with p show ?thesis using compareVersion_zero [of x y] by (auto simp: newer_def)
qed

text \<open>The deployments of a node that follows Cloud's answers: each one is the target of an answer
  accepted by the one before.\<close>

definition follows_target :: "deployment \<Rightarrow> deployment \<Rightarrow> bool" where
  "follows_target d d' \<longleftrightarrow> (\<exists>body t. update_decodeTarget body (fst d) (snd d) = Inr t \<and> uStatus t \<noteq> ''current'' \<and>
     d' = (uVersion t, uConfigurationRevision t))"

fun deployments :: "deployment list \<Rightarrow> bool" where
  "deployments (d # d' # ds) \<longleftrightarrow> follows_target d d' \<and> deployments (d' # ds)"
| "deployments _ = True"

lemma decodeTarget_valid: "update_decodeTarget body v r = Inr t \<Longrightarrow> validate_target v r t = None"
  by (auto simp: update_decodeTarget_def split: list.splits decoded.splits option.splits if_splits)

lemma follows_newer: "follows_target d d' \<Longrightarrow> newer d d'"
  by (cases d) (auto simp: follows_target_def intro: accepted_newer decodeTarget_valid)

lemma deployments_sorted: "deployments ds \<Longrightarrow> sorted_wrt newer ds"
proof (induction ds rule: deployments.induct)
  case (1 d d' ds)
  then have "newer d d'" "sorted_wrt newer (d' # ds)" by (auto intro: follows_newer)
  then show ?case by (auto intro: newer_trans)
qed auto

text \<open>The name of a target names one target only: a version holds no dash.\<close>

lemma version_text_plain: "parseVersion s = Some v \<Longrightarrow> CHR ''-'' \<notin> set s"
proof -
  assume "parseVersion s = Some v"
  then have "s = version_text v" by (rule parseVersion_text)
  moreover have "CHR ''-'' \<notin> set (nat_text n)" for n using nat_text_digits [of n] by (auto simp: digits_def)
  ultimately show ?thesis by (cases v) (simp add: version_text_def)
qed

lemma first_char_unique: "c \<notin> set xs \<Longrightarrow> c \<notin> set ys \<Longrightarrow> xs @ c # us = ys @ c # vs \<Longrightarrow> xs = ys \<and> us = vs"
proof (induction xs arbitrary: ys)
  case Nil
  then show ?case by (cases ys) auto
next
  case (Cons x xs)
  then show ?case by (cases ys) auto
qed

lemma TargetName_inject:
  assumes "TargetName v r = TargetName v' r'" "parseVersion v \<noteq> None" "parseVersion v' \<noteq> None"
    "- (2 ^ 63) \<le> r" "r < 2 ^ 63" "- (2 ^ 63) \<le> r'" "r' < 2 ^ 63"
  shows "v = v' \<and> r = r'"
proof -
  have "v @ CHR ''-'' # (CHR ''r'' # Itoa r) = v' @ CHR ''-'' # (CHR ''r'' # Itoa r')" using assms(1) by (simp add: TargetName_def)
  then have "v = v' \<and> CHR ''r'' # Itoa r = CHR ''r'' # Itoa r'"
    using assms(2,3) version_text_plain by (intro first_char_unique) blast+
  then show ?thesis using Itoa_inject [of r r'] assms(4-7) by simp
qed

text \<open>
  C32. A node never goes back. An answer is accepted only if it names software at least as new as
  the running one and a configuration at least as new, from the release page of exactly that
  version and with a well-formed digest; unless it says the node is current, one of them is
  strictly newer. So along any sequence of deployments that each follow such an answer every
  later one is newer than every earlier one, and none comes back, although version texts are
  compared as text in one place and as numbers in another.
\<close>

theorem targets_move_forward:
  assumes "deployments ds"
  shows "sorted_wrt newer ds \<and> distinct ds \<and>
    (\<forall>body v r t. update_decodeTarget body v r = Inr t \<longrightarrow> uBinaryURL t = binaryURL (uVersion t) \<and> sha256Hex (uBinarySHA256 t) \<and>
       (uStatus t = ''current'' \<longleftrightarrow> uVersion t = v \<and> uConfigurationRevision t = r) \<and>
       (hasConfiguration t \<longleftrightarrow> uStatus t = ''update_available'' \<and> uConfigurationRevision t \<noteq> r))"
proof -
  have s: "sorted_wrt newer ds" by (rule deployments_sorted) (rule assms)
  then have "distinct ds" by (induction ds) (auto simp: newer_irrefl)
  moreover have "uBinaryURL t = binaryURL (uVersion t) \<and> sha256Hex (uBinarySHA256 t) \<and>
       (uStatus t = ''current'' \<longleftrightarrow> uVersion t = v \<and> uConfigurationRevision t = r) \<and>
       (hasConfiguration t \<longleftrightarrow> uStatus t = ''update_available'' \<and> uConfigurationRevision t \<noteq> r)"
    if "update_decodeTarget body v r = Inr t" for body v r t
    by (rule validate_target_None [OF decodeTarget_valid [OF that]]) blast
  ultimately show ?thesis using s by blast
qed

definition ex_update_doc :: json where
  "ex_update_doc = JObj [(''schema'', JStr CheckSchema), (''status'', JStr ''update_available''), (''version'', JStr ''v1.10.0''),
     (''binary_url'', JStr (binaryURL ''v1.10.0'')), (''binary_sha256'', JStr (replicate 64 CHR ''a'')),
     (''configuration_revision'', JNum ''7''), (''configuration'', JNull)]"

definition ex_update :: update_target where
  "ex_update = \<lparr>uSchema = CheckSchema, uStatus = ''update_available'', uVersion = ''v1.10.0'', uBinaryURL = binaryURL ''v1.10.0'',
     uBinarySHA256 = replicate 64 CHR ''a'', uConfigurationRevision = 7, uConfiguration = Doc JNull\<rparr>"

lemma ex_versions: "parseVersion ''v1.9.3'' = Some (1, 9, 3)" "parseVersion ''v1.10.0'' = Some (1, 10, 0)"
  using parse_version_text [of 1 9 3] parse_version_text [of 1 10 0]
  by (simp_all add: version_text_def nat_text.simps digit_of_def hexits_def)

lemma ex_update_decodes: "update_decodeTarget [Value ex_update_doc] ''v1.9.3'' 7 = Inr ex_update"
proof -
  have t: "typed_target ex_update_doc = Some ex_update" by code_simp
  have "sha256Hex (uBinarySHA256 ex_update)" by code_simp
  then have "validate_target ''v1.9.3'' 7 ex_update = None"
    by (simp add: validate_target_def ex_update_def ex_versions hasConfiguration_def)
  with t show ?thesis by (simp add: update_decodeTarget_def)
qed

theorem targets_move_forward_witness: "newer (''v1.9.3'', 7) (''v1.10.0'', 7)"
proof -
  have "deployments [(''v1.9.3'', 7), (''v1.10.0'', 7)]"
    using ex_update_decodes by (auto simp: follows_target_def ex_update_def intro!: exI [of _ "[Value ex_update_doc]"])
  from targets_move_forward [OF this] show ?thesis by simp
qed

section \<open>The signed text of a check\<close>

text \<open>A signed check determines its request: none of its parts holds a newline.\<close>

lemma SigningText_inject:
  assumes "SigningText a = SigningText b" "\<forall>p \<in> set (check_parts a). CHR 0x0A \<notin> set p" "\<forall>p \<in> set (check_parts b). CHR 0x0A \<notin> set p"
    and "- (2 ^ 63) \<le> cRevision a" "cRevision a < 2 ^ 63" "- (2 ^ 63) \<le> cRevision b" "cRevision b < 2 ^ 63"
  shows "a = b"
proof -
  have ne: "check_parts x \<noteq> []" for x by (simp add: check_parts_def)
  have "check_parts a = check_parts b"
    using Split_Join [OF ne assms(2)] Split_Join [OF ne assms(3)] assms(1) unfolding SigningText_def by metis
  moreover from this have "cRevision a = cRevision b" using Itoa_inject [OF assms(4-7)] by (simp add: check_parts_def)
  ultimately show ?thesis by (intro CheckRequest.equality) (simp_all add: check_parts_def)
qed

end
