(* ===== verification/Update_Download.thy ===== *)
theory Update_Download
  imports Update_Target
begin

text \<open>
  The download of a release: \<open>src/internal/update/download.go\<close>. A download that stops keeps what it
  received and the next attempt asks for the rest. The partial file is its bytes, \<open>None\<close> when
  it does not exist; what every system call and the server answer is an \<open>http_env\<close>. SHA-256 is a
  parameter. The stall timer only cuts the body, like any other failure.
\<close>

section \<open>One attempt\<close>

definition maxBinaryBytes :: nat where "maxBinaryBytes = 32 * 1024 * 1024"

text \<open>The answer of the server: the status, the \<open>Content-Range\<close> header, the bytes of the body that
  arrive and whether the body then fails instead of ending.\<close>

record http_response =
  hStatus :: int
  hContentRange :: string
  hReceived :: string
  hCut :: bool

record http_env =
  hMkdir :: bool
  hOpen :: bool
  hStat :: bool
  hTruncate :: bool
  hResponse :: "http_response option"
  hTruncateAll :: bool
  hSeek :: bool
  hRead :: bool
  hDrop :: bool
  hRemove :: bool

definition rangeStart :: "http_response \<Rightarrow> int" where
  "rangeStart r = (if \<not> HasPrefix (hContentRange r) ''bytes '' then - 1
     else (let value = drop (length ''bytes '') (hContentRange r);
               start = (case Cut ''-'' value of None \<Rightarrow> value | Some (a, b) \<Rightarrow> a)
           in case Atoi start of None \<Rightarrow> - 1 | Some n \<Rightarrow> n))"

text \<open>\<open>verified\<close> of the file with these bytes: the result and the file afterwards.\<close>

definition verified :: "(string \<Rightarrow> string) \<Rightarrow> http_env \<Rightarrow> string \<Rightarrow> string \<Rightarrow> string option \<times> string option" where
  "verified digest e want bytes =
     (if \<not> hRead e then (None, Some bytes)
      else if maxBinaryBytes < length bytes \<or> digest bytes \<noteq> want then (None, Some (if hDrop e then [] else bytes))
      else (Some bytes, if hRemove e then None else Some bytes))"

text \<open>The copy into the file from position \<open>have\<close> on, at most one byte more than is allowed.\<close>

definition copy_body :: "(string \<Rightarrow> string) \<Rightarrow> http_env \<Rightarrow> string \<Rightarrow> http_response \<Rightarrow> string \<Rightarrow> string option \<times> string option" where
  "copy_body digest e want r kept =
     (if \<not> hSeek e then (None, Some kept)
      else (let limit = maxBinaryBytes - length kept + 1; file = kept @ take limit (hReceived r)
            in if hCut r \<and> length (hReceived r) < limit then (None, Some file) else verified digest e want file))"

definition download :: "(string \<Rightarrow> string) \<Rightarrow> http_env \<Rightarrow> string \<Rightarrow> string option \<Rightarrow> string option \<times> string option" where
  "download digest e want partial =
     (if \<not> hMkdir e \<or> \<not> hOpen e then (None, partial)
      else
        (let old = (case partial of None \<Rightarrow> [] | Some f \<Rightarrow> f) in
         if \<not> hStat e \<or> \<not> hTruncate e then (None, Some old)
         else
           (let file = (if maxBinaryBytes < length old then [] else old); have' = length file in
            case hResponse e of None \<Rightarrow> (None, Some file)
            | Some r \<Rightarrow>
                if hStatus r = 206 \<and> 0 < have' \<and> rangeStart r = int have' then copy_body digest e want r file
                else if hStatus r = 416 \<and> 0 < have' then verified digest e want file
                else if hStatus r = 200 then
                  (if \<not> hTruncateAll e then (None, Some file) else copy_body digest e want r [])
                else (None, Some file))))"

section \<open>What comes back has the approved digest\<close>

lemma verified_digest: "verified digest e want c = (Some x, f) \<Longrightarrow> digest x = want \<and> length x \<le> maxBinaryBytes"
  by (auto simp: verified_def split: if_splits)

lemma download_digest: "download digest e want p = (Some x, f) \<Longrightarrow> digest x = want \<and> length x \<le> maxBinaryBytes"
  by (auto simp: download_def copy_body_def Let_def dest: verified_digest split: if_splits option.splits)

section \<open>A release is received in the end\<close>

text \<open>
  A server that serves the file \<open>body\<close>: what it sends is the beginning of the file or of its rest
  from the position asked for, all of it unless the transfer is cut; it refuses a range only past
  the end.
\<close>

definition serves :: "string \<Rightarrow> nat \<Rightarrow> http_response \<Rightarrow> bool" where
  "serves body n r \<longleftrightarrow>
     (hStatus r = 200 \<longrightarrow> (\<exists>k. hReceived r = take k body) \<and> (\<not> hCut r \<longrightarrow> hReceived r = body)) \<and>
     (hStatus r = 206 \<and> rangeStart r = int n \<longrightarrow> (\<exists>k. hReceived r = take k (drop n body)) \<and> (\<not> hCut r \<longrightarrow> hReceived r = drop n body)) \<and>
     (hStatus r = 416 \<longrightarrow> length body \<le> n)"

definition received :: "string option \<Rightarrow> string" where
  "received p = (case p of None \<Rightarrow> [] | Some f \<Rightarrow> f)"

abbreviation has_prefix_of :: "string \<Rightarrow> string option \<Rightarrow> bool" where
  "has_prefix_of body p \<equiv> received p = take (length (received p)) body"

lemma prefix_take: "x = take (length x) body \<Longrightarrow> x @ take k (drop (length x) body) = take (length x + k) body"
  by (metis take_add)

lemma take_self [simp]: "take (min (length xs) n) xs = take n xs"
  by (simp add: min_def)

lemma verified_body:
  assumes "verified digest e (digest body) (take n body) = (res, p)" "length body \<le> maxBinaryBytes"
  shows "has_prefix_of body p \<and> (length body \<le> n \<longrightarrow> res = (if hRead e then Some body else None))"
  using assms by (auto simp: verified_def received_def split: if_splits)

lemma copy_body_result:
  assumes run: "copy_body digest e (digest body) r kept = (res, p)" and kept: "kept = take (length kept) body" and len: "length body \<le> maxBinaryBytes"
    and got: "\<exists>k. hReceived r = take k (drop (length kept) body)" and whole: "\<not> hCut r \<Longrightarrow> hReceived r = drop (length kept) body"
  shows "has_prefix_of body p \<and> (res \<noteq> None \<longrightarrow> res = Some body) \<and>
    (hSeek e \<and> hRead e \<and> \<not> hCut r \<longrightarrow> res = Some body)"
proof -
  let ?limit = "maxBinaryBytes - length kept + 1"
  have le: "length kept \<le> length body" using kept by (metis length_take min.cobounded1)
  have short: "length (hReceived r) < ?limit" using got le len by auto
  then have all: "take ?limit (hReceived r) = hReceived r" by simp
  obtain n where n: "kept @ hReceived r = take n body" using got prefix_take [OF kept] by auto
  show ?thesis
  proof (cases "hSeek e")
    case False
    with run kept show ?thesis by (auto simp: copy_body_def received_def)
  next
    case True
    show ?thesis
    proof (cases "hCut r")
      case True
      with \<open>hSeek e\<close> run short all n show ?thesis by (auto simp: copy_body_def received_def Let_def)
    next
      case False
      have eq: "kept @ hReceived r = body" using whole [OF False] kept by (metis append_take_drop_id)
      have "verified digest e (digest body) body = (res, p)" using run True False all eq by (simp add: copy_body_def Let_def)
      with verified_body [of digest e body "length body" res p] len show ?thesis by auto
    qed
  qed
qed

lemma download_step:
  assumes run: "download digest e (digest body) p = (res, p')" and len: "length body \<le> maxBinaryBytes" and ok: "has_prefix_of body p"
    and server: "\<And>r. hResponse e = Some r \<Longrightarrow> serves body (length (received p)) r"
  shows "has_prefix_of body p' \<and> (res \<noteq> None \<longrightarrow> res = Some body)"
proof -
  have le: "length (received p) \<le> maxBinaryBytes" using ok len by (metis length_take min.cobounded1 le_trans)
  have old: "(case p of None \<Rightarrow> [] | Some f \<Rightarrow> f) = received p" by (simp add: received_def)
  have stays: "has_prefix_of body (Some (received p))" using ok by (simp add: received_def)
  show ?thesis
  proof (cases "hMkdir e \<and> hOpen e \<and> hStat e \<and> hTruncate e")
    case False
    with run ok stays show ?thesis by (auto simp: download_def old Let_def split: if_splits)
  next
    case True
    show ?thesis
    proof (cases "hResponse e")
      case None
      with run True le stays show ?thesis by (auto simp: download_def old Let_def)
    next
      case (Some r)
      note s = server [OF Some]
      consider (rest) "hStatus r = 206" "0 < length (received p)" "rangeStart r = int (length (received p))"
        | (over) "hStatus r = 416" "0 < length (received p)" | (fresh) "hStatus r = 200" | (other) "res = None" "p' = Some (received p)"
        using run True Some le by (auto simp: download_def old Let_def split: if_splits)
      then show ?thesis
      proof cases
        case rest
        then have "copy_body digest e (digest body) r (received p) = (res, p')" using run True Some le by (simp add: download_def old Let_def)
        from copy_body_result [OF this ok len] s rest show ?thesis by (auto simp: serves_def)
      next
        case over
        then have v: "verified digest e (digest body) (received p) = (res, p')" using run True Some le by (simp add: download_def old Let_def)
        have "length body \<le> length (received p)" using s over by (simp add: serves_def)
        then show ?thesis using verified_body [of digest e body "length (received p)" res p'] v ok len by auto
      next
        case fresh
        show ?thesis
        proof (cases "hTruncateAll e")
          case True
          with fresh \<open>hMkdir e \<and> _\<close> have "copy_body digest e (digest body) r [] = (res, p')" using run Some le by (simp add: download_def old Let_def)
          from copy_body_result [OF this _ len] s fresh show ?thesis by (auto simp: serves_def)
        next
          case False
          with fresh \<open>hMkdir e \<and> _\<close> run Some le stays show ?thesis by (auto simp: download_def old Let_def)
        qed
      next
        case other
        with stays show ?thesis by simp
      qed
    qed
  qed
qed

text \<open>An answer that is not cut is enough: the attempt returns the release.\<close>

definition smooth :: "http_env \<Rightarrow> bool" where
  "smooth e \<longleftrightarrow> hMkdir e \<and> hOpen e \<and> hStat e \<and> hTruncate e \<and> hTruncateAll e \<and> hSeek e \<and> hRead e"

lemma download_finishes:
  assumes len: "length body \<le> maxBinaryBytes" and ok: "has_prefix_of body p" and smooth: "smooth e"
    and r: "hResponse e = Some r" "serves body (length (received p)) r" "\<not> hCut r"
    and answer: "hStatus r = 200 \<or> (0 < length (received p) \<and> (hStatus r = 416 \<or> hStatus r = 206 \<and> rangeStart r = int (length (received p))))"
  shows "fst (download digest e (digest body) p) = Some body"
proof -
  have le: "length (received p) \<le> maxBinaryBytes" using ok len by (metis length_take min.cobounded1 le_trans)
  have old: "(case p of None \<Rightarrow> [] | Some f \<Rightarrow> f) = received p" by (simp add: received_def)
  note sm = smooth [unfolded smooth_def]
  from answer consider (fresh) "hStatus r = 200" | (over) "hStatus r = 416" "0 < length (received p)"
    | (rest) "hStatus r = 206" "0 < length (received p)" "rangeStart r = int (length (received p))" by blast
  then show ?thesis
  proof cases
    case fresh
    then have d: "download digest e (digest body) p = copy_body digest e (digest body) r []"
      using sm r(1) le by (simp add: download_def old Let_def)
    obtain res q where q: "copy_body digest e (digest body) r [] = (res, q)" by force
    from copy_body_result [OF q _ len] fresh r(2,3) sm d q show ?thesis by (auto simp: serves_def)
  next
    case over
    then have d: "download digest e (digest body) p = verified digest e (digest body) (received p)"
      using sm r(1) le by (simp add: download_def old Let_def)
    have "received p = body" using over r(2) ok by (metis serves_def take_all)
    with d len sm show ?thesis by (simp add: verified_def)
  next
    case rest
    then have d: "download digest e (digest body) p = copy_body digest e (digest body) r (received p)"
      using sm r(1) le by (simp add: download_def old Let_def)
    obtain res q where q: "copy_body digest e (digest body) r (received p) = (res, q)" by force
    have got: "\<exists>k. hReceived r = take k (drop (length (received p)) body)" and whole: "hReceived r = drop (length (received p)) body"
      using rest r(2,3) unfolding serves_def by blast+
    have "res = Some body" using copy_body_result [OF q ok len got whole] r(3) sm by blast
    with d q show ?thesis by simp
  qed
qed

section \<open>Any number of attempts\<close>

fun attempts :: "(string \<Rightarrow> string) \<Rightarrow> string \<Rightarrow> http_env list \<Rightarrow> string option \<Rightarrow> string option" where
  "attempts digest want [] p = p"
| "attempts digest want (e # es) p = attempts digest want es (snd (download digest e want p))"

text \<open>Every answer is that of a server of the file, for the position asked for at that time.\<close>

fun served :: "(string \<Rightarrow> string) \<Rightarrow> string \<Rightarrow> http_env list \<Rightarrow> string option \<Rightarrow> bool" where
  "served digest body [] p \<longleftrightarrow> True"
| "served digest body (e # es) p \<longleftrightarrow> (\<forall>r. hResponse e = Some r \<longrightarrow> serves body (length (received p)) r) \<and>
     served digest body es (snd (download digest e (digest body) p))"

lemma attempts_prefix:
  assumes "served digest body es p" "has_prefix_of body p" "length body \<le> maxBinaryBytes"
  shows "has_prefix_of body (attempts digest (digest body) es p)"
  using assms
proof (induction es arbitrary: p)
  case (Cons e es)
  obtain res q where q: "download digest e (digest body) p = (res, q)" by force
  have "has_prefix_of body q" using download_step [OF q Cons.prems(3,2)] Cons.prems(1) by auto
  with Cons.IH [of q] Cons.prems q show ?case by simp
qed simp

text \<open>
  A download never returns anything but bytes with the approved digest, at most 32 MiB. And a
  node with a bad connection still gets its update: however many attempts were cut wherever, what
  is kept is the beginning of the release, an attempt asks only for the rest, and the first
  attempt whose answer is not cut returns the release, provided the server serves one file with
  the approved digest.
\<close>

theorem download_resumes:
  assumes "served digest body es None" "length body \<le> maxBinaryBytes" and "smooth e" "hResponse e = Some r" "\<not> hCut r"
    and "serves body (length (received (attempts digest (digest body) es None))) r"
    and "hStatus r = 200 \<or> (0 < length (received (attempts digest (digest body) es None)) \<and> (hStatus r = 416 \<or>
      hStatus r = 206 \<and> rangeStart r = int (length (received (attempts digest (digest body) es None)))))"
  shows "has_prefix_of body (attempts digest (digest body) es None) \<and>
    fst (download digest e (digest body) (attempts digest (digest body) es None)) = Some body \<and>
    (\<forall>e' want p x. fst (download digest e' want p) = Some x \<longrightarrow> digest x = want \<and> length x \<le> maxBinaryBytes)"
proof -
  have p: "has_prefix_of body (attempts digest (digest body) es None)"
    by (rule attempts_prefix [OF assms(1) _ assms(2)]) (simp add: received_def)
  moreover have "fst (download digest e (digest body) (attempts digest (digest body) es None)) = Some body"
    by (rule download_finishes [OF assms(2) p assms(3,4,6,5,7)])
  moreover have "digest x = want \<and> length x \<le> maxBinaryBytes" if "fst (download digest e' want q) = Some x" for e' want q x
    using that by (cases "download digest e' want q") (auto dest: download_digest)
  ultimately show ?thesis by blast
qed

definition ex_http :: "http_response \<Rightarrow> http_env" where
  "ex_http r = \<lparr>hMkdir = True, hOpen = True, hStat = True, hTruncate = True, hResponse = Some r, hTruncateAll = True,
     hSeek = True, hRead = True, hDrop = True, hRemove = True\<rparr>"

definition ex_cut :: http_env where
  "ex_cut = ex_http \<lparr>hStatus = 200, hContentRange = [], hReceived = ''abc'', hCut = True\<rparr>"

definition ex_rest :: http_response where
  "ex_rest = \<lparr>hStatus = 206, hContentRange = ''bytes 3-5/6'', hReceived = ''def'', hCut = False\<rparr>"

lemma ex_cut_kept: "attempts id (id ''abcdef'') [ex_cut] None = Some ''abc''"
  by (simp add: download_def ex_cut_def ex_http_def copy_body_def maxBinaryBytes_def Let_def)

lemma ex_rest_start: "rangeStart ex_rest = 3"
  by (simp add: rangeStart_def ex_rest_def HasPrefix_def Atoi_def Let_def digit_val_def hexits_def)

theorem download_resumes_witness:
  "fst (download id (ex_http ex_rest) ''abcdef'' (attempts id ''abcdef'' [ex_cut] None)) = Some ''abcdef''"
proof -
  have served: "served id ''abcdef'' [ex_cut] None"
    by (auto simp: serves_def ex_cut_def ex_http_def intro!: exI [of _ 3])
  have n: "length (received (attempts id (id ''abcdef'') [ex_cut] None)) = 3" unfolding ex_cut_kept by (simp add: received_def)
  have "serves ''abcdef'' 3 ex_rest" by (auto simp: serves_def ex_rest_def intro!: exI [of _ 3])
  then have serves: "serves ''abcdef'' (length (received (attempts id (id ''abcdef'') [ex_cut] None))) ex_rest" unfolding n .
  have rest: "hStatus ex_rest = 206 \<and> rangeStart ex_rest = int (length (received (attempts id (id ''abcdef'') [ex_cut] None)))"
    unfolding n by (simp add: ex_rest_start) (simp add: ex_rest_def)
  have "length ''abcdef'' \<le> maxBinaryBytes" by (simp add: maxBinaryBytes_def)
  moreover have "smooth (ex_http ex_rest)" "hResponse (ex_http ex_rest) = Some ex_rest" "\<not> hCut ex_rest"
    by (simp_all add: smooth_def ex_http_def ex_rest_def)
  ultimately have "fst (download id (ex_http ex_rest) (id ''abcdef'') (attempts id (id ''abcdef'') [ex_cut] None)) = Some ''abcdef''"
    using download_resumes [OF served _ _ _ _ serves] rest n by (metis zero_less_numeral)
  then show ?thesis by (simp only: id_apply)
qed

end
