(* ===== verification/Updater.thy ===== *)
theory Updater
  imports Layout Update_Download Lifecycle
begin

text \<open>
  The updater: \<open>src/internal/update/updater.go\<close> and the attempt record of
  \<open>src/internal/update/attempts.go\<close>. One check asks Cloud for the target, prepares it in the inactive
  slot, lets the candidate check itself and replaces the process. What the host answers to every
  call is an \<open>apply_env\<close>; the clock readings of one check come in the order of its fields. What
  it did to the world is kept in a log.
\<close>

section \<open>The attempt record\<close>

record attemptRecord =
  at_Schema :: int
  at_Target :: string
  at_Attempts :: int
  at_LastAttemptAt :: gotime
  at_LastError :: string

definition maxConsecutiveAttempts :: int where "maxConsecutiveAttempts = 2"
definition retryExhaustedAfter :: duration where "retryExhaustedAfter = 6 * hour"

definition noAttempts :: "string \<Rightarrow> attemptRecord" where
  "noAttempts target = \<lparr>at_Schema = 1, at_Target = target, at_Attempts = 0, at_LastAttemptAt = 0, at_LastError = []\<rparr>"

definition loadAttempts :: "attemptRecord JSONFile \<Rightarrow> attemptRecord option" where
  "loadAttempts f = (case Load f of Inl _ \<Rightarrow> None
     | Inr None \<Rightarrow> Some (noAttempts [])
     | Inr (Some r) \<Rightarrow> if at_Schema r \<noteq> 1 \<or> at_Attempts r < 0 \<or> (at_LastError r \<noteq> [] \<and> \<not> stableCode (at_LastError r)) then None
                      else Some r)"

definition allowed :: "attemptRecord \<Rightarrow> gotime \<Rightarrow> bool" where
  "allowed r now \<longleftrightarrow> at_Attempts r < maxConsecutiveAttempts \<or> Sub now (at_LastAttemptAt r) \<ge> retryExhaustedAfter"

definition failureCode :: "attemptRecord \<Rightarrow> string" where
  "failureCode r = (if at_LastError r \<noteq> [] then at_LastError r else ''candidate_failed'')"

text \<open>Whether the failure was recorded, and the file.\<close>

definition RecordCandidateFailure :: "save_env \<Rightarrow> string \<Rightarrow> string \<Rightarrow> attemptRecord JSONFile \<Rightarrow> bool \<times> attemptRecord JSONFile" where
  "RecordCandidateFailure env target code f = (case loadAttempts f of None \<Rightarrow> (False, f)
     | Some r \<Rightarrow> if at_Target r \<noteq> target \<or> \<not> stableCode code then (False, f)
         else (case Save env (r\<lparr>at_LastError := code\<rparr>) f of (err, f') \<Rightarrow> (err = None, f')))"

section \<open>The updater and its world\<close>

record updater =
  upVersion :: string
  upRevision :: int
  upLastError :: string
  upRejected :: string
  upRejectedAt :: gotime

datatype uevent = Recorded string gotime | Started string slot string string gate_sys

record uworld =
  wTree :: Tree
  wAttempts :: "attemptRecord JSONFile"
  wPartial :: "string \<Rightarrow> string option"
  wEvents :: "uevent list"

record apply_env =
  xLock :: lock_result
  xAllowedAt :: gotime
  xSafe1 :: bool
  xCheckedAt :: gotime
  xReadSlot :: bool
  xRunning :: "string option"
  xDropOthers :: bool
  xHttp :: http_env
  xConfigFile :: "string option"
  xSlot :: slot_env
  xVersion :: "string option"
  xPrepare :: bool
  xRejectedAt :: gotime
  xGate :: gate_sys
  xSafe2 :: bool
  xAttemptAt :: gotime
  xSave :: save_env
  xExec :: bool

definition checkInterval :: duration where "checkInterval = minute"
definition retryInterval :: duration where "retryInterval = 10 * second"
definition busyInterval :: duration where "busyInterval = 15 * second"
definition rejectedRetry :: duration where "rejectedRetry = 30 * minute"

definition stateInvalid :: string where "stateInvalid = ''update_state_invalid''"
definition candidateInvalid :: string where "candidateInvalid = ''update_candidate_invalid''"
definition downloadFailed :: string where "downloadFailed = ''update_download_failed''"
definition execFailed :: string where "execFailed = ''update_exec_failed''"

lemmas update_codes = stateInvalid_def candidateInvalid_def downloadFailed_def execFailed_def

section \<open>One check\<close>

text \<open>\<open>binary\<close>: an identical binary on disk, else the download; other partial downloads go.\<close>

definition has_digest :: "(string \<Rightarrow> string) \<Rightarrow> string \<Rightarrow> string option \<Rightarrow> bool" where
  "has_digest digest want c = (case c of None \<Rightarrow> False | Some b \<Rightarrow> digest b = want)"

definition other_partials :: "apply_env \<Rightarrow> string \<Rightarrow> (string \<Rightarrow> string option) \<Rightarrow> string \<Rightarrow> string option" where
  "other_partials e sha p = (if hMkdir (xHttp e) \<and> xDropOthers e then (\<lambda>k. if k = sha then p k else None) else p)"

definition update_binary :: "(string \<Rightarrow> string) \<Rightarrow> apply_env \<Rightarrow> update_target \<Rightarrow> slot \<Rightarrow> uworld \<Rightarrow> string option \<times> uworld" where
  "update_binary digest e t s w =
     (let inSlot = (if xReadSlot e then slBinary (slot_dir_of (wTree w) s) else None); sha = uBinarySHA256 t in
      if has_digest digest sha inSlot then (inSlot, w)
      else if has_digest digest sha (xRunning e) then (xRunning e, w)
      else (case download digest (xHttp e) sha (wPartial w sha) of
          (res, p) \<Rightarrow> (res, w\<lparr>wPartial := (other_partials e sha (wPartial w))(sha := p)\<rparr>)))"

definition config_bytes :: "raw \<Rightarrow> string" where
  "config_bytes r = (case r of NoRaw \<Rightarrow> [] | BadRaw s \<Rightarrow> s | Doc j \<Rightarrow> json_text j)"

definition target_config :: "apply_env \<Rightarrow> update_target \<Rightarrow> string option" where
  "target_config e t = (if hasConfiguration t then Some (config_bytes (uConfiguration t)) else xConfigFile e)"

definition prepare :: "(string \<Rightarrow> string) \<Rightarrow> apply_env \<Rightarrow> update_target \<Rightarrow> uworld \<Rightarrow> (slot option \<times> string) \<times> uworld" where
  "prepare digest e t w = (case InactiveSlot (wTree w) of None \<Rightarrow> ((None, stateInvalid), w)
     | Some s \<Rightarrow> (case update_binary digest e t s w of
         (None, w1) \<Rightarrow> ((None, downloadFailed), w1)
       | (Some b, w1) \<Rightarrow> (case target_config e t of None \<Rightarrow> ((None, stateInvalid), w1)
         | Some c \<Rightarrow> (case write_slot (xSlot e) s b c (wTree w1) of
             (False, tree) \<Rightarrow> ((None, stateInvalid), w1\<lparr>wTree := tree\<rparr>)
           | (True, tree) \<Rightarrow>
               let w2 = w1\<lparr>wTree := tree\<rparr> in
               if (case xVersion e of None \<Rightarrow> True | Some v \<Rightarrow> TrimSpace v \<noteq> uVersion t) then ((None, candidateInvalid), w2)
               else if \<not> xPrepare e then ((None, candidateInvalid), w2)
               else ((Some s, []), w2)))))"

text \<open>The end of \<open>apply\<close>, with the update lease held: record the attempt, then replace the process.\<close>

definition record_attempt :: "apply_env \<Rightarrow> string \<Rightarrow> attemptRecord \<Rightarrow> uworld \<Rightarrow> bool \<times> uworld" where
  "record_attempt e name r w =
     (let r' = r\<lparr>at_Attempts := at_Attempts r + 1, at_LastAttemptAt := xAttemptAt e, at_LastError := []\<rparr> in
      case Save (xSave e) r' (wAttempts w) of (err, f) \<Rightarrow>
        (err = None, w\<lparr>wAttempts := f,
           wEvents := wEvents w @ (if contents f = Contents [Value r'] then [Recorded name (xAttemptAt e)] else [])\<rparr>))"

definition start_candidate :: "apply_env \<Rightarrow> string \<Rightarrow> slot \<Rightarrow> gate_sys \<Rightarrow> uworld \<Rightarrow> uworld" where
  "start_candidate e name s g w =
     (case (slBinary (slot_dir_of (wTree w) s), slConfig (slot_dir_of (wTree w) s)) of
        (Some b, Some c) \<Rightarrow> if xExec e then w\<lparr>wEvents := wEvents w @ [Started name s b c g]\<rparr> else w
      | _ \<Rightarrow> w)"

definition try_start :: "apply_env \<Rightarrow> string \<Rightarrow> attemptRecord \<Rightarrow> slot \<Rightarrow> uworld \<Rightarrow> (duration \<times> string) \<times> uworld" where
  "try_start e name r s w = (case TryUpdate (xGate e) of (None, g) \<Rightarrow> ((busyInterval, []), w)
     | (Some l, g) \<Rightarrow>
         if \<not> xSafe2 e then ((busyInterval, []), w)
         else (case record_attempt e name r w of (False, w1) \<Rightarrow> ((checkInterval, stateInvalid), w1)
           | (True, w1) \<Rightarrow> ((checkInterval, if xExec e then [] else execFailed), start_candidate e name s g w1)))"

definition update_apply :: "(string \<Rightarrow> string) \<Rightarrow> apply_env \<Rightarrow> update_target \<Rightarrow> updater \<times> uworld \<Rightarrow>
    (duration \<times> string) \<times> updater \<times> uworld" where
  "update_apply digest e t uw = (case uw of (u, w) \<Rightarrow>
     (case xLock e of
        LockBusy \<Rightarrow> ((busyInterval, []), u, w)
      | LockFailed \<Rightarrow> ((checkInterval, stateInvalid), u, w)
      | Locked \<Rightarrow> (case loadAttempts (wAttempts w) of None \<Rightarrow> ((checkInterval, stateInvalid), u, w)
        | Some r0 \<Rightarrow>
            let name = target_Name t; r = (if at_Target r0 \<noteq> name then noAttempts name else r0) in
            if \<not> allowed r (xAllowedAt e) then ((checkInterval, failureCode r), u, w)
            else if \<not> xSafe1 e then ((busyInterval, []), u, w)
            else if upRejected u = name \<and> Sub (xCheckedAt e) (upRejectedAt u) < rejectedRetry then ((checkInterval, candidateInvalid), u, w)
            else (case prepare digest e t w of ((slot, code), w1) \<Rightarrow>
              let u1 = (if code = candidateInvalid then u\<lparr>upRejected := name, upRejectedAt := xRejectedAt e\<rparr> else u) in
              case slot of None \<Rightarrow> ((checkInterval, code), u1, w1)
              | Some s \<Rightarrow> (case try_start e name r s w1 of (res, w2) \<Rightarrow> (res, u1, w2))))))"

text \<open>\<open>check\<close>, with the answer of Cloud when the request succeeded.\<close>

definition update_check :: "(string \<Rightarrow> string) \<Rightarrow> apply_env \<Rightarrow> json decoded list option \<Rightarrow> updater \<times> uworld \<Rightarrow> duration \<times> updater \<times> uworld" where
  "update_check digest e answer uw = (case uw of (u, w) \<Rightarrow>
     if upLastError u \<noteq> [] \<and> \<not> stableCode (upLastError u) then (retryInterval, u, w)
     else (case answer of None \<Rightarrow> (retryInterval, u, w)
       | Some body \<Rightarrow> (case update_decodeTarget body (upVersion u) (upRevision u) of
           Inl _ \<Rightarrow> (retryInterval, u, w)
         | Inr t \<Rightarrow>
             if uStatus t = ''current'' then (checkInterval, u\<lparr>upLastError := []\<rparr>, w)
             else if uStatus t = ''busy'' then (busyInterval, u, w)
             else (case update_apply digest e t (u, w) of ((delay, code), u1, w1) \<Rightarrow>
               (delay, if code \<noteq> [] then u1\<lparr>upLastError := code\<rparr> else u1, w1)))))"

section \<open>What a check leaves alone\<close>

lemma update_binary_world:
  assumes "update_binary digest e t s w = (res, w')"
  shows "wTree w' = wTree w" "wAttempts w' = wAttempts w" "wEvents w' = wEvents w"
    "res = Some b \<Longrightarrow> digest b = uBinarySHA256 t"
  using assms by (auto simp: update_binary_def has_digest_def Let_def dest: download_digest split: if_splits prod.splits option.splits)

lemma prepare_world:
  assumes "prepare digest e t w = ((res, code), w')"
  shows "wAttempts w' = wAttempts w" "wEvents w' = wEvents w" "tCurrent (wTree w') = tCurrent (wTree w)"
    "ActiveSlot (wTree w) = Some (Some a) \<Longrightarrow> slot_dir_of (wTree w') a = slot_dir_of (wTree w) a"
proof -
  have "wAttempts w' = wAttempts w \<and> wEvents w' = wEvents w \<and> tCurrent (wTree w') = tCurrent (wTree w) \<and>
    (ActiveSlot (wTree w) = Some (Some a) \<longrightarrow> slot_dir_of (wTree w') a = slot_dir_of (wTree w) a)"
  proof (cases "InactiveSlot (wTree w)")
    case None
    with assms show ?thesis by (simp add: prepare_def)
  next
    case (Some s)
    have na: "ActiveSlot (wTree w) = Some (Some a) \<Longrightarrow> a \<noteq> s" using InactiveSlot_not_active [OF Some] by auto
    obtain b w1 where b: "update_binary digest e t s w = (b, w1)" by force
    note w1 = update_binary_world(1-3) [OF b]
    show ?thesis
    proof (cases "\<exists>x c. b = Some x \<and> target_config e t = Some c")
      case False
      with assms Some b w1 show ?thesis by (auto simp: prepare_def split: option.splits)
    next
      case True
      then obtain x c where x: "b = Some x" "target_config e t = Some c" by blast
      obtain ok tree where o: "write_slot (xSlot e) s x c (wTree w1) = (ok, tree)" by force
      have "w' = w1\<lparr>wTree := tree\<rparr>" using assms Some b x o by (auto simp: prepare_def Let_def split: bool.splits if_splits)
      with write_slot_only(1,2) [OF o] w1 na show ?thesis by auto
    qed
  qed
  then show "wAttempts w' = wAttempts w" "wEvents w' = wEvents w" "tCurrent (wTree w') = tCurrent (wTree w)"
    "ActiveSlot (wTree w) = Some (Some a) \<Longrightarrow> slot_dir_of (wTree w') a = slot_dir_of (wTree w) a" by blast+
qed

lemma prepare_ready:
  assumes "prepare digest e t w = ((Some s, code), w')"
  obtains b c where "InactiveSlot (wTree w) = Some s" "digest b = uBinarySHA256 t" "target_config e t = Some c"
    "slot_dir_of (wTree w') s = \<lparr>slBinary = Some b, slConfig = Some c\<rparr>" "\<exists>v. xVersion e = Some v \<and> TrimSpace v = uVersion t" "xPrepare e"
proof -
  from assms obtain b w1 c tree where p: "InactiveSlot (wTree w) = Some s" "update_binary digest e t s w = (Some b, w1)"
    "target_config e t = Some c" "write_slot (xSlot e) s b c (wTree w1) = (True, tree)" "w' = w1\<lparr>wTree := tree\<rparr>"
    and v: "\<exists>v. xVersion e = Some v \<and> TrimSpace v = uVersion t" "xPrepare e"
    by (auto simp: prepare_def Let_def split: option.splits prod.splits bool.splits if_splits)
  show ?thesis using that p update_binary_world(4) [OF p(2)] write_slot_only(3) [OF p(4)] v by simp
qed

lemma Save_pair: "Save e v f = (None, g) \<Longrightarrow> contents g = Contents [Value v]"
  using Save_success [of e v f] by simp

lemma Save_pair_cases: "Save e v f = (err, g) \<Longrightarrow> contents g = contents f \<or> contents g = Contents [Value v]"
  using Save_contents [of e v f] by simp

lemma record_attempt_world:
  assumes "record_attempt e name r w = (ok, w')"
  shows "wTree w' = wTree w" "wEvents w' = wEvents w \<or> wEvents w' = wEvents w @ [Recorded name (xAttemptAt e)]"
    "ok \<Longrightarrow> wEvents w' = wEvents w @ [Recorded name (xAttemptAt e)]"
  using assms by (auto simp: record_attempt_def Let_def dest: Save_pair split: prod.splits if_splits)

section \<open>How often a target is tried\<close>

definition recorded :: "uevent list \<Rightarrow> (string \<times> gotime) list" where
  "recorded evs = List.map_filter (\<lambda>x. case x of Recorded n a \<Rightarrow> Some (n, a) | _ \<Rightarrow> None) evs"

lemma recorded_append [simp]: "recorded (xs @ ys) = recorded xs @ recorded ys"
  by (simp add: recorded_def map_filter_def)

lemma recorded_simps [simp]: "recorded [] = []" "recorded [Recorded n a] = [(n, a)]" "recorded [Started n s b c g] = []"
  by (simp_all add: recorded_def map_filter_def)

text \<open>Of three attempts in a row at one target the last two are six hours apart.\<close>

definition spaced :: "(string \<times> gotime) list \<Rightarrow> bool" where
  "spaced rs \<longleftrightarrow> (\<forall>i. i + 2 < length rs \<and> fst (rs ! i) = fst (rs ! (i + 2)) \<and> fst (rs ! (i + 1)) = fst (rs ! (i + 2)) \<longrightarrow>
     snd (rs ! (i + 2)) - snd (rs ! (i + 1)) \<ge> retryExhaustedAfter)"

text \<open>A candidate is started only right after its attempt was recorded.\<close>

definition announced :: "uevent list \<Rightarrow> bool" where
  "announced evs \<longleftrightarrow> (\<forall>i < length evs. case evs ! i of Recorded n a \<Rightarrow> True
     | Started n s b c g \<Rightarrow> 0 < i \<and> (\<exists>a. evs ! (i - 1) = Recorded n a))"

text \<open>The record in the file is that of the last attempt, and counts at least the last two.\<close>

definition keeps_count :: "uworld \<Rightarrow> bool" where
  "keeps_count w \<longleftrightarrow> (let rs = recorded (wEvents w); n = length rs in rs \<noteq> [] \<longrightarrow>
     (\<exists>r. contents (wAttempts w) = Contents [Value r] \<and> at_Target r = fst (last rs) \<and> at_LastAttemptAt r = snd (last rs) \<and>
        at_Schema r = 1 \<and> 1 \<le> at_Attempts r \<and> (2 \<le> n \<and> fst (rs ! (n - 2)) = fst (last rs) \<longrightarrow> 2 \<le> at_Attempts r)))"

definition bounded_attempts :: "uworld \<Rightarrow> bool" where
  "bounded_attempts w \<longleftrightarrow> keeps_count w \<and> spaced (recorded (wEvents w)) \<and> announced (wEvents w)"

lemma loadAttempts_stored:
  "contents f = Contents [Value r] \<Longrightarrow> loadAttempts f = Some r' \<Longrightarrow> r' = r"
  by (auto simp: loadAttempts_def Load_one split: if_splits)

lemma loadAttempts_ok: "loadAttempts f = Some r \<Longrightarrow> at_Schema r = 1 \<and> 0 \<le> at_Attempts r"
  by (auto simp: loadAttempts_def noAttempts_def split: sum.splits option.splits if_splits)

lemma spaced_snoc:
  assumes "spaced rs" "2 \<le> length rs \<Longrightarrow> fst (rs ! (length rs - 2)) = n \<Longrightarrow> fst (last rs) = n \<Longrightarrow> a - snd (last rs) \<ge> retryExhaustedAfter"
  shows "spaced (rs @ [(n, a)])"
  unfolding spaced_def
proof (intro allI impI)
  fix i assume i: "i + 2 < length (rs @ [(n, a)]) \<and> fst ((rs @ [(n, a)]) ! i) = fst ((rs @ [(n, a)]) ! (i + 2)) \<and>
    fst ((rs @ [(n, a)]) ! (i + 1)) = fst ((rs @ [(n, a)]) ! (i + 2))"
  show "snd ((rs @ [(n, a)]) ! (i + 2)) - snd ((rs @ [(n, a)]) ! (i + 1)) \<ge> retryExhaustedAfter"
  proof (cases "i + 2 < length rs")
    case True
    with i assms(1) show ?thesis by (simp add: spaced_def nth_append)
  next
    case False
    with i have e: "length rs = i + 2" by simp
    then have "last rs = rs ! (i + 1)" by (simp add: last_conv_nth flip: length_0_conv)
    with e i assms(2) show ?thesis by (simp add: nth_append)
  qed
qed

lemma announced_snoc:
  "announced evs \<Longrightarrow> (case x of Recorded n a \<Rightarrow> True | Started n s b c g \<Rightarrow> evs \<noteq> [] \<and> (\<exists>a. last evs = Recorded n a)) \<Longrightarrow> announced (evs @ [x])"
  unfolding announced_def
  by (auto simp: nth_append less_Suc_eq last_conv_nth split: uevent.splits)

lemma six_hours: "retryExhaustedAfter \<le> maxDuration" "minDuration < retryExhaustedAfter"
  by (simp_all add: retryExhaustedAfter_def maxDuration_def minDuration_def time_units)

lemma bounded_record:
  assumes b: "bounded_attempts w" and load: "loadAttempts (wAttempts w) = Some r0" and r: "r = (if at_Target r0 \<noteq> name then noAttempts name else r0)"
    and ok: "allowed r now" "now \<le> xAttemptAt e" and rec: "record_attempt e name r w = (done, w')"
  shows "bounded_attempts w'"
proof -
  let ?r = "r\<lparr>at_Attempts := at_Attempts r + 1, at_LastAttemptAt := xAttemptAt e, at_LastError := []\<rparr>" and ?rs = "recorded (wEvents w)"
  obtain err f where s: "Save (xSave e) ?r (wAttempts w) = (err, f)" by force
  have w': "w' = w\<lparr>wAttempts := f, wEvents := wEvents w @ (if contents f = Contents [Value ?r] then [Recorded name (xAttemptAt e)] else [])\<rparr>"
    using rec s by (simp add: record_attempt_def Let_def)
  show ?thesis
  proof (cases "contents f = Contents [Value ?r]")
    case False
    with Save_pair_cases [OF s] have "contents f = contents (wAttempts w)" by simp
    with False w' b show ?thesis by (simp add: bounded_attempts_def keeps_count_def)
  next
    case True
    have r_ok: "at_Target r = name" "at_Schema r = 1" "0 \<le> at_Attempts r"
      using r loadAttempts_ok [OF load] by (auto simp: noAttempts_def split: if_splits)
    have kept: "r = r0 \<and> at_Target r0 = name" if "?rs \<noteq> []" "fst (last ?rs) = name"
    proof -
      from b that(1) obtain r1 where r1: "contents (wAttempts w) = Contents [Value r1]" "at_Target r1 = fst (last ?rs)"
        by (auto simp: bounded_attempts_def keeps_count_def Let_def)
      then have "r0 = r1" using load loadAttempts_stored by blast
      with r1 r that(2) show ?thesis by simp
    qed
    have stored: "contents (wAttempts w) = Contents [Value r]" "at_LastAttemptAt r = snd (last ?rs)" "1 \<le> at_Attempts r"
        "2 \<le> length ?rs \<Longrightarrow> fst (?rs ! (length ?rs - 2)) = name \<Longrightarrow> 2 \<le> at_Attempts r"
      if last: "?rs \<noteq> []" "fst (last ?rs) = name"
    proof -
      from b that obtain r1 where r1: "contents (wAttempts w) = Contents [Value r1]" "at_LastAttemptAt r1 = snd (last ?rs)" "1 \<le> at_Attempts r1"
        "2 \<le> length ?rs \<and> fst (?rs ! (length ?rs - 2)) = fst (last ?rs) \<longrightarrow> 2 \<le> at_Attempts r1"
        by (auto simp: bounded_attempts_def keeps_count_def Let_def)
      have "r1 = r" using load loadAttempts_stored [OF r1(1)] kept [OF last] by simp
      with r1 last show "contents (wAttempts w) = Contents [Value r]" "at_LastAttemptAt r = snd (last ?rs)" "1 \<le> at_Attempts r"
        "2 \<le> length ?rs \<Longrightarrow> fst (?rs ! (length ?rs - 2)) = name \<Longrightarrow> 2 \<le> at_Attempts r" by auto
    qed
    have "spaced (?rs @ [(name, xAttemptAt e)])"
    proof (rule spaced_snoc)
      show "spaced ?rs" using b by (simp add: bounded_attempts_def)
      assume l: "2 \<le> length ?rs" "fst (?rs ! (length ?rs - 2)) = name" "fst (last ?rs) = name"
      then have ne: "?rs \<noteq> []" by auto
      have "\<not> at_Attempts r < maxConsecutiveAttempts" using stored(4) [OF ne l(3) l(1,2)] by (simp add: maxConsecutiveAttempts_def)
      with ok(1) have "now - at_LastAttemptAt r \<ge> retryExhaustedAfter" by (simp add: allowed_def Sub_ge_iff six_hours)
      with ok(2) stored(2) [OF ne l(3)] show "xAttemptAt e - snd (last ?rs) \<ge> retryExhaustedAfter" by simp
    qed
    moreover have "keeps_count w'"
    proof (cases "?rs = []")
      case False
      then have "fst (last ?rs) = name \<Longrightarrow> 1 \<le> at_Attempts r" by (rule stored(3))
      with False True w' r_ok show ?thesis by (auto simp: keeps_count_def Let_def nth_append last_conv_nth)
    qed (use True w' r_ok in \<open>auto simp: keeps_count_def Let_def\<close>)
    moreover have "announced (wEvents w')" using b w' True announced_snoc [of "wEvents w" "Recorded name (xAttemptAt e)"] by (simp add: bounded_attempts_def)
    ultimately show ?thesis using w' True by (simp add: bounded_attempts_def)
  qed
qed

lemma bounded_cong: "wAttempts w' = wAttempts w \<Longrightarrow> wEvents w' = wEvents w \<Longrightarrow> bounded_attempts w \<Longrightarrow> bounded_attempts w'"
  by (simp add: bounded_attempts_def keeps_count_def)

lemma bounded_start:
  assumes "bounded_attempts w" "wEvents w \<noteq> []" "last (wEvents w) = Recorded name a"
  shows "bounded_attempts (start_candidate e name s g w)"
proof -
  have "announced (wEvents w @ [Started name s b c g])" for b c using assms by (intro announced_snoc) (auto simp: bounded_attempts_def)
  then show ?thesis using assms(1) by (auto simp: start_candidate_def bounded_attempts_def keeps_count_def split: option.splits)
qed

lemma bounded_try:
  assumes b: "bounded_attempts w" and load: "loadAttempts (wAttempts w) = Some r0" and r: "r = (if at_Target r0 \<noteq> name then noAttempts name else r0)"
    and ok: "allowed r now" "now \<le> xAttemptAt e" and run: "try_start e name r s w = (res, w')"
  shows "bounded_attempts w'"
proof -
  obtain l g where l: "TryUpdate (xGate e) = (l, g)" by force
  obtain d w1 where d: "record_attempt e name r w = (d, w1)" by force
  note b1 = bounded_record [OF b load r ok d]
  show ?thesis
  proof (cases "l \<noteq> None \<and> xSafe2 e \<and> d")
    case True
    then have "w' = start_candidate e name s g w1" using run l d by (auto simp: try_start_def split: bool.splits)
    moreover have "last (wEvents w1) = Recorded name (xAttemptAt e)" "wEvents w1 \<noteq> []" using record_attempt_world(3) [OF d] True by auto
    ultimately show ?thesis using bounded_start [OF b1] by simp
  next
    case False
    then have "w' = w \<or> w' = w1" using run l d by (auto simp: try_start_def split: option.splits bool.splits if_splits)
    with b b1 show ?thesis by auto
  qed
qed

text \<open>What one application comes to: nothing, a slot prepared, or an attempt.\<close>

lemma update_apply_cases:
  assumes "update_apply digest e t (u, w) = (res, u', w')"
  obtains (idle) "w' = w"
  | (prepared) slot code where "prepare digest e t w = ((slot, code), w')"
  | (tried) r0 s code w1 where "xLock e = Locked" "loadAttempts (wAttempts w) = Some r0"
      "allowed (if at_Target r0 \<noteq> target_Name t then noAttempts (target_Name t) else r0) (xAllowedAt e)"
      "prepare digest e t w = ((Some s, code), w1)"
      "try_start e (target_Name t) (if at_Target r0 \<noteq> target_Name t then noAttempts (target_Name t) else r0) s w1 = (res, w')"
proof (cases "xLock e = Locked \<and> loadAttempts (wAttempts w) \<noteq> None")
  case False
  then show ?thesis using assms idle by (auto simp: update_apply_def split: lock_result.splits option.splits)
next
  case True
  then obtain r0 where r0: "xLock e = Locked" "loadAttempts (wAttempts w) = Some r0" by auto
  obtain r where r': "(if at_Target r0 \<noteq> target_Name t then noAttempts (target_Name t) else r0) = r" by blast
  obtain slot code w1 where p: "prepare digest e t w = ((slot, code), w1)" by (metis surj_pair)
  have run: "update_apply digest e t (u, w) =
     (if \<not> allowed r (xAllowedAt e) then ((checkInterval, failureCode r), u, w)
      else if \<not> xSafe1 e then ((busyInterval, []), u, w)
      else if upRejected u = target_Name t \<and> Sub (xCheckedAt e) (upRejectedAt u) < rejectedRetry then ((checkInterval, candidateInvalid), u, w)
      else let u1 = (if code = candidateInvalid then u\<lparr>upRejected := target_Name t, upRejectedAt := xRejectedAt e\<rparr> else u) in
        case slot of None \<Rightarrow> ((checkInterval, code), u1, w1)
        | Some s \<Rightarrow> (case try_start e (target_Name t) r s w1 of (res, w2) \<Rightarrow> (res, u1, w2)))"
    unfolding update_apply_def by (simp only: prod.case r0 lock_result.case option.case Let_def r' p)
  show ?thesis
  proof (cases "slot = None \<or> \<not> allowed r (xAllowedAt e)")
    case True
    then have "w' = w \<or> w' = w1" using assms run by (auto simp: Let_def split: if_splits)
    then show ?thesis using idle prepared p by auto
  next
    case False
    then obtain s where s: "slot = Some s" "allowed r (xAllowedAt e)" by auto
    then have "w' = w \<or> try_start e (target_Name t) r s w1 = (res, w')" using assms run by (auto simp: Let_def split: if_splits prod.splits)
    then show ?thesis using idle tried [OF r0] r' s p by auto
  qed
qed

lemma bounded_apply:
  assumes b: "bounded_attempts w" and ok: "xAllowedAt e \<le> xAttemptAt e" and run: "update_apply digest e t (u, w) = (res, u', w')"
  shows "bounded_attempts w'"
  using run
proof (cases rule: update_apply_cases)
  case (prepared slot code)
  then show ?thesis using bounded_cong [OF prepare_world(1,2) [OF prepared] b] by simp
next
  case (tried r0 s code w1)
  note w1 = prepare_world(1,2) [OF tried(4)]
  show ?thesis by (rule bounded_try [OF bounded_cong [OF w1 b] _ refl tried(3) ok tried(5)]) (simp add: w1 tried(2))
qed (use b in simp)

lemma bounded_check:
  assumes "bounded_attempts w" "xAllowedAt e \<le> xAttemptAt e" "update_check digest e answer (u, w) = (d, u', w')"
  shows "bounded_attempts w'"
  using assms by (auto simp: update_check_def dest: bounded_apply split: if_splits option.splits sum.splits prod.splits)

lemma bounded_failure:
  assumes b: "bounded_attempts w" and run: "RecordCandidateFailure env target code (wAttempts w) = (ok, f)"
  shows "bounded_attempts (w\<lparr>wAttempts := f\<rparr>)"
proof (cases "contents f = contents (wAttempts w)")
  case True
  with b show ?thesis by (simp add: bounded_attempts_def keeps_count_def)
next
  case False
  with run obtain r err where r: "loadAttempts (wAttempts w) = Some r" and s: "Save env (r\<lparr>at_LastError := code\<rparr>) (wAttempts w) = (err, f)"
    by (auto simp: RecordCandidateFailure_def split: option.splits if_splits prod.splits)
  have c: "contents f = Contents [Value (r\<lparr>at_LastError := code\<rparr>)]" using Save_pair_cases [OF s] False by simp
  have same: "contents (wAttempts w) = Contents [Value r1] \<Longrightarrow> r1 = r" for r1 using loadAttempts_stored r by metis
  have "keeps_count (w\<lparr>wAttempts := f\<rparr>)" using b c by (auto simp: bounded_attempts_def keeps_count_def Let_def dest!: same)
  with b show ?thesis by (simp add: bounded_attempts_def)
qed

text \<open>The life of a node: checks, candidates that report why they stopped, and new processes.\<close>

datatype ustep = Check apply_env "json decoded list option" | CandidateFailed string string save_env | NewProcess string int

definition new_updater :: "string \<Rightarrow> int \<Rightarrow> updater" where
  "new_updater v r = \<lparr>upVersion = v, upRevision = r, upLastError = [], upRejected = [], upRejectedAt = 0\<rparr>"

fun update_step :: "(string \<Rightarrow> string) \<Rightarrow> ustep \<Rightarrow> updater \<times> uworld \<Rightarrow> updater \<times> uworld" where
  "update_step digest (Check e answer) uw = snd (update_check digest e answer uw)"
| "update_step digest (CandidateFailed target code env) uw =
     (fst uw, (snd uw)\<lparr>wAttempts := snd (RecordCandidateFailure env target code (wAttempts (snd uw)))\<rparr>)"
| "update_step digest (NewProcess v r) uw = (new_updater v r, snd uw)"

fun clock_runs :: "ustep \<Rightarrow> bool" where
  "clock_runs (Check e answer) \<longleftrightarrow> xAllowedAt e \<le> xAttemptAt e"
| "clock_runs _ = True"

lemma bounded_step: "bounded_attempts (snd uw) \<Longrightarrow> clock_runs x \<Longrightarrow> bounded_attempts (snd (update_step digest x uw))"
proof (cases x)
  case (Check e answer)
  obtain u w where uw: "uw = (u, w)" by force
  obtain d u' w' where r: "update_check digest e answer (u, w) = (d, u', w')" by (metis surj_pair)
  assume "bounded_attempts (snd uw)" "clock_runs x"
  with bounded_check [OF _ _ r] Check uw r show ?thesis by simp
next
  case (CandidateFailed target code env)
  assume b: "bounded_attempts (snd uw)"
  obtain ok f where "RecordCandidateFailure env target code (wAttempts (snd uw)) = (ok, f)" by force
  with bounded_failure [OF b this] CandidateFailed show ?thesis by simp
qed simp

lemma bounded_run: "bounded_attempts (snd uw) \<Longrightarrow> list_all clock_runs steps \<Longrightarrow> bounded_attempts (snd (fold (update_step digest) steps uw))"
  by (induction steps arbitrary: uw) (simp_all add: bounded_step del: update_step.simps)

text \<open>
  C15. A broken release cannot make a node restart without end. Over any sequence of checks,
  restarts and candidate failures, whatever calls fail and whatever Cloud answers, a candidate is
  started only right after its attempt reached the record file; and of any three attempts in a
  row at one target the last two are at least six hours apart, as long as the clock does not go
  back within one check. (An attempt whose save failed after the file was replaced counts.)
\<close>

theorem attempts_bounded:
  assumes "list_all clock_runs steps" "wEvents w = []"
    and "evs = wEvents (snd (fold (update_step digest) steps (u, w)))"
  shows "(\<forall>i. i + 2 < length (recorded evs) \<and> fst (recorded evs ! i) = fst (recorded evs ! (i + 2)) \<and>
        fst (recorded evs ! (i + 1)) = fst (recorded evs ! (i + 2)) \<longrightarrow>
        snd (recorded evs ! (i + 2)) - snd (recorded evs ! (i + 1)) \<ge> 6 * hour) \<and>
    (\<forall>i < length evs. \<forall>n s b c g. evs ! i = Started n s b c g \<longrightarrow> 0 < i \<and> (\<exists>a. evs ! (i - 1) = Recorded n a))"
proof -
  have "bounded_attempts (snd (u, w))" using assms(2) by (simp add: bounded_attempts_def keeps_count_def spaced_def announced_def)
  from bounded_run [OF this assms(1)] have "spaced (recorded evs)" "announced evs" by (simp_all add: bounded_attempts_def assms(3))
  then show ?thesis by (auto simp: spaced_def announced_def retryExhaustedAfter_def split: uevent.splits)
qed

section \<open>An example\<close>

definition ex_digest :: "string \<Rightarrow> string" where "ex_digest b = replicate 64 CHR ''a''"

definition ex_write :: write_env where
  "ex_write = \<lparr>we_create = True, we_chmod = True, we_write = True, we_sync = True, we_close = True, we_rename = True\<rparr>"

definition ex_dir :: dir_env where "ex_dir = \<lparr>dir_open = True, dir_sync = True, dir_close = True\<rparr>"

definition ex_apply :: apply_env where
  "ex_apply = \<lparr>xLock = Locked, xAllowedAt = 5, xSafe1 = True, xCheckedAt = 5, xReadSlot = True, xRunning = Some ''new'', xDropOthers = True,
     xHttp = ex_cut, xConfigFile = Some ''{}'', xSlot = \<lparr>se_removeAll = None, se_mkdir = True, se_binary = ex_write, se_config = ex_write, se_sync = ex_dir\<rparr>,
     xVersion = Some ''v1.10.0'', xPrepare = True, xRejectedAt = 5, xGate = new_sys, xSafe2 = True, xAttemptAt = 6, xSave = all_ok, xExec = True\<rparr>"

definition ex_tree :: Tree where
  "ex_tree = \<lparr>tCurrent = LinkTo ''slots/a'', tA = \<lparr>slBinary = Some ''old'', slConfig = Some ''{}''\<rparr>, tB = emptySlot\<rparr>"

definition ex_world :: uworld where
  "ex_world = \<lparr>wTree = ex_tree, wAttempts = \<lparr>contents = NoFile, temporaries = 0\<rparr>, wPartial = (\<lambda>k. None), wEvents = []\<rparr>"

definition ex_gate :: gate_sys where
  "ex_gate = \<lparr>gate = \<lparr>updating = True, operations = 0\<rparr>, leases = [\<lparr>kind = UpdateLease, released = False\<rparr>]\<rparr>"

definition ex_name :: string where "ex_name = ''v1.10.0-r7''"

lemma ex_prepare: "prepare ex_digest ex_apply ex_update ex_world =
    ((Some SlotB, []), ex_world\<lparr>wTree := ex_tree\<lparr>tB := \<lparr>slBinary = Some ''new'', slConfig = Some ''{}''\<rparr>\<rparr>\<rparr>)"
proof -
  have s: "InactiveSlot ex_tree = Some SlotB" by (simp add: InactiveSlot_def ActiveSlot_def ex_tree_def slot_path_def)
  have b: "update_binary ex_digest ex_apply ex_update SlotB ex_world = (Some ''new'', ex_world)"
    by (simp add: update_binary_def has_digest_def ex_digest_def ex_update_def ex_apply_def ex_world_def ex_tree_def slot_dir_of_def emptySlot_def)
  have c: "target_config ex_apply ex_update = Some ''{}''" by (simp add: target_config_def hasConfiguration_def ex_update_def ex_apply_def)
  have w: "write_slot (xSlot ex_apply) SlotB ''new'' ''{}'' ex_tree = (True, ex_tree\<lparr>tB := \<lparr>slBinary = Some ''new'', slConfig = Some ''{}''\<rparr>\<rparr>)"
    by (simp add: write_slot_def PrepareSlot_def WriteFile_def ex_apply_def ex_write_def ex_dir_def SyncDirectory_def set_slot_def slot_dir_of_def emptySlot_def ex_tree_def Let_def)
  have v: "xVersion ex_apply = Some ''v1.10.0''" "TrimSpace ''v1.10.0'' = uVersion ex_update" "xPrepare ex_apply"
    by (simp_all add: ex_apply_def TrimSpace_def trim_start.simps white_spaces_def HasPrefix_def ex_update_def)
  have t: "wTree ex_world = ex_tree" by (simp add: ex_world_def)
  show ?thesis by (simp add: prepare_def t s b c w v Let_def)
qed

lemma ex_started:
  "wEvents (snd (fold (update_step ex_digest) [Check ex_apply (Some [Value ex_update_doc])] (new_updater ''v1.9.3'' 7, ex_world))) =
     [Recorded ex_name 6, Started ex_name SlotB ''new'' ''{}'' ex_gate]"
proof -
  have n: "target_Name ex_update = ex_name"
    by (simp add: target_Name_def TargetName_def ex_update_def ex_name_def Itoa_def nat_text.simps [of 7] digit_of_def hexits_def)
  have l: "loadAttempts (wAttempts ex_world) = Some (noAttempts [])" by (simp add: loadAttempts_def ex_world_def Load_missing)
  have f: "xLock ex_apply = Locked" "xSafe1 ex_apply" "at_Target (noAttempts []) \<noteq> ex_name" "allowed (noAttempts ex_name) now"
    "upRejected (new_updater ''v1.9.3'' 7) \<noteq> ex_name" "[] \<noteq> candidateInvalid" for now
    by (simp_all add: ex_apply_def noAttempts_def ex_name_def allowed_def maxConsecutiveAttempts_def new_updater_def update_codes)
  have a: "update_apply ex_digest ex_apply ex_update (new_updater ''v1.9.3'' 7, ex_world) =
      (case try_start ex_apply ex_name (noAttempts ex_name) SlotB (ex_world\<lparr>wTree := ex_tree\<lparr>tB := \<lparr>slBinary = Some ''new'', slConfig = Some ''{}''\<rparr>\<rparr>\<rparr>) of
         (res, w2) \<Rightarrow> (res, new_updater ''v1.9.3'' 7, w2))"
    by (simp add: update_apply_def n l ex_prepare Let_def f)
  have t: "uStatus ex_update = ''update_available''" by (simp add: ex_update_def)
  have u: "upLastError (new_updater ''v1.9.3'' 7) = []" "upVersion (new_updater ''v1.9.3'' 7) = ''v1.9.3''" "upRevision (new_updater ''v1.9.3'' 7) = 7"
    by (simp_all add: new_updater_def)
  have s: "try_start ex_apply ex_name (noAttempts ex_name) SlotB (ex_world\<lparr>wTree := tr\<rparr>) = (res, w2) \<Longrightarrow>
      slot_dir_of tr SlotB = \<lparr>slBinary = Some ''new'', slConfig = Some ''{}''\<rparr> \<Longrightarrow>
      wEvents w2 = [Recorded ex_name 6, Started ex_name SlotB ''new'' ''{}'' ex_gate]" for tr res w2
    by (auto simp: try_start_def ex_apply_def TryUpdate_def new_sys_def New_def record_attempt_def start_candidate_def ex_world_def ex_gate_def Let_def)
  show ?thesis
    by (auto simp: update_check_def ex_update_decodes a t u slot_dir_of_def dest!: s split: prod.splits)
qed

theorem attempts_bounded_witness:
  "\<exists>a. [Recorded ex_name 6, Started ex_name SlotB ''new'' ''{}'' ex_gate] ! (1 - 1) = Recorded ex_name a"
proof -
  have "list_all clock_runs [Check ex_apply (Some [Value ex_update_doc])]" by (simp add: ex_apply_def)
  moreover have "wEvents ex_world = []" by (simp add: ex_world_def)
  ultimately show ?thesis using attempts_bounded [OF _ _ ex_started [symmetric]] by fastforce
qed

end
