(* ===== verification/Deployment.thy ===== *)
theory Deployment
  imports Updater
begin

text \<open>
  Which software and configuration a node runs: \<open>Run\<close>, \<open>activate\<close> and \<open>supervise\<close> of
  \<open>src/internal/daemon/run.go\<close> and \<open>Install\<close> of \<open>src/internal/install/install.go\<close>, around the updater.
  An updated node starts the new deployment as a candidate, makes it the active one only once
  Cloud has accepted it, and otherwise lets systemd start the old one again. A step relation
  interleaves checks, candidates, installations, crashes and restarts.
\<close>

section \<open>The daemon\<close>

text \<open>\<open>activate\<close>: the lock, then the switch.\<close>

definition activate :: "lock_result \<Rightarrow> activate_env \<Rightarrow> slot \<Rightarrow> Tree \<Rightarrow> bool \<times> Tree" where
  "activate lock e s t = (if lock \<noteq> Locked then (False, t) else Activate e s t)"

definition activationFailed :: string where "activationFailed = ''candidate_activation_failed''"
definition runtimeInvalid :: string where "runtimeInvalid = ''candidate_runtime_invalid''"
definition notReady :: string where "notReady = ''candidate_not_ready''"

text \<open>\<open>onReady\<close> of a candidate that is not committed: whether it is now.\<close>

definition on_ready :: "lock_result \<Rightarrow> activate_env \<Rightarrow> save_env \<Rightarrow> string \<Rightarrow> slot \<Rightarrow> uworld \<Rightarrow> bool \<times> uworld" where
  "on_ready lock e env target s w = (case activate lock e s (wTree w) of
      (True, t) \<Rightarrow> (True, w\<lparr>wTree := t\<rparr>)
    | (False, t) \<Rightarrow> (False, w\<lparr>wTree := t, wAttempts := snd (RecordCandidateFailure env target activationFailed (wAttempts w))\<rparr>))"

text \<open>\<open>supervise\<close>: what its loop sees, in order, and why it ends. At the deadline the candidate may
  have been committed at the same moment.\<close>

datatype sup_event = Committed | Expired bool | Returned "string option" bool

datatype sup_result = CandidateTimeout | Ended "string option"

fun supervise :: "bool \<Rightarrow> sup_event list \<Rightarrow> sup_result option" where
  "supervise armed [] = None"
| "supervise armed (Committed # evs) = supervise False evs"
| "supervise armed (Expired committed # evs) = (if \<not> armed \<or> committed then supervise False evs else Some CandidateTimeout)"
| "supervise armed (Returned err cancelled # evs) = Some (Ended (if cancelled then None else err))"

lemma supervise_timeout: "supervise armed evs = Some CandidateTimeout \<Longrightarrow> armed \<and> Expired False \<in> set evs"
  by (induction armed evs rule: supervise.induct) (auto split: if_splits)

section \<open>Installation\<close>

record install_env =
  iLock :: lock_result
  iSlot :: slot_env
  iEnrolled :: bool
  iStopped :: bool
  iSaved :: bool
  iActivate :: activate_env
  iDropped :: bool

text \<open>
  The part of \<open>Install\<close> that writes and switches, after it has fetched and checked the
  configuration: how far it got. \<open>Refused\<close> and \<open>Unenrolled\<close> leave the old deployment running.
\<close>

datatype install_end = Refused | Unenrolled | Switched bool

definition Install :: "install_env \<Rightarrow> string \<Rightarrow> string \<Rightarrow> uworld \<Rightarrow> install_end \<times> uworld" where
  "Install e binary raw w =
     (if iLock e \<noteq> Locked then (Refused, w)
      else (case InactiveSlot (wTree w) of None \<Rightarrow> (Refused, w)
        | Some s \<Rightarrow> (case write_slot (iSlot e) s binary raw (wTree w) of
            (False, t) \<Rightarrow> (Refused, w\<lparr>wTree := t\<rparr>)
          | (True, t) \<Rightarrow>
              if \<not> iEnrolled e then (Unenrolled, w\<lparr>wTree := t\<rparr>)
              else if \<not> iStopped e \<or> \<not> iSaved e then (Switched False, w\<lparr>wTree := t\<rparr>)
              else (case Activate (iActivate e) s t of
                  (False, t') \<Rightarrow> (Switched False, w\<lparr>wTree := t'\<rparr>)
                | (True, t') \<Rightarrow> (Switched True, w\<lparr>wTree := t', wAttempts := (if iDropped e then (wAttempts w)\<lparr>contents := NoFile\<rparr> else wAttempts w)\<rparr>)))))"

section \<open>The node\<close>

text \<open>
  \<open>Serving\<close> runs the active deployment and its updater; \<open>Trying\<close> is a candidate, with the slot and
  the files it was started from, that Cloud has not accepted yet. \<open>nAccepted\<close> are the deployments
  Cloud accepted: a candidate's hello or an installation's enrollment.
\<close>

datatype process = Down | Serving updater | Trying string slot string string

record node =
  nWorld :: uworld
  nProcess :: process
  nAccepted :: "(string \<times> string) set"

definition slot_files :: "Tree \<Rightarrow> slot \<Rightarrow> (string \<times> string) option" where
  "slot_files t s = (case (slBinary (slot_dir_of t s), slConfig (slot_dir_of t s)) of (Some b, Some c) \<Rightarrow> Some (b, c) | _ \<Rightarrow> None)"

text \<open>The process after a check: replaced if a candidate was started.\<close>

definition after_check :: "uworld \<Rightarrow> uworld \<Rightarrow> updater \<Rightarrow> process" where
  "after_check w w' u = (if wEvents w' = wEvents w then Serving u else
     case last (wEvents w') of Started n s b c g \<Rightarrow> Trying n s b c | _ \<Rightarrow> Serving u)"

text \<open>\<open>races\<close> says whether an installation may end before its switch while a candidate waits.\<close>

inductive node_step :: "(string \<Rightarrow> string) \<Rightarrow> bool \<Rightarrow> node \<Rightarrow> node \<Rightarrow> bool" for digest races where
  starts: "nProcess n = Down \<Longrightarrow> ActiveSlot (wTree (nWorld n)) = Some (Some a) \<Longrightarrow>
    node_step digest races n (n\<lparr>nProcess := Serving (new_updater v r)\<rparr>)"
| checks: "nProcess n = Serving u \<Longrightarrow> update_check digest e answer (u, nWorld n) = (d, u', w') \<Longrightarrow>
    node_step digest races n (n\<lparr>nWorld := w', nProcess := after_check (nWorld n) w' u'\<rparr>)"
| ready: "nProcess n = Trying t s b c \<Longrightarrow> on_ready lock e env t s (nWorld n) = (ok, w') \<Longrightarrow>
    node_step digest races n (n\<lparr>nWorld := w', nProcess := (if ok then Serving (new_updater v r) else Down), nAccepted := insert (b, c) (nAccepted n)\<rparr>)"
| fails: "nProcess n = Trying t s b c \<Longrightarrow> code \<in> {runtimeInvalid, notReady} \<Longrightarrow>
    node_step digest races n (n\<lparr>nProcess := Down,
      nWorld := (nWorld n)\<lparr>wAttempts := snd (RecordCandidateFailure env t code (wAttempts (nWorld n)))\<rparr>\<rparr>)"
| stops: "node_step digest races n (n\<lparr>nProcess := Down\<rparr>)"
| install_ends: "Install e b c (nWorld n) = (res, w') \<Longrightarrow> res \<in> {Refused, Unenrolled} \<Longrightarrow>
    races \<or> (\<forall>t s x y. nProcess n \<noteq> Trying t s x y) \<Longrightarrow> node_step digest races n (n\<lparr>nWorld := w'\<rparr>)"
| installs: "Install e b c (nWorld n) = (Switched ok, w') \<Longrightarrow>
    node_step digest races n (n\<lparr>nWorld := w', nProcess := Down, nAccepted := insert (b, c) (nAccepted n)\<rparr>)"

inductive node_reach :: "(string \<Rightarrow> string) \<Rightarrow> bool \<Rightarrow> node \<Rightarrow> bool" for digest races where
  first: "ActiveSlot (wTree (nWorld n)) = Some None \<Longrightarrow> nProcess n = Down \<Longrightarrow> nAccepted n = {} \<Longrightarrow> node_reach digest races n"
| more: "node_reach digest races n \<Longrightarrow> node_step digest races n n' \<Longrightarrow> node_reach digest races n'"

section \<open>A started candidate was checked\<close>

text \<open>What a check does to the slots, and what it starts.\<close>

definition checked_candidate :: "(string \<Rightarrow> string) \<Rightarrow> string \<Rightarrow> slot \<Rightarrow> string \<Rightarrow> string \<Rightarrow> gate_sys \<Rightarrow> uworld \<Rightarrow> bool" where
  "checked_candidate digest name s b c g w \<longleftrightarrow> ActiveSlot (wTree w) \<noteq> Some (Some s) \<and> slot_dir_of (wTree w) s = \<lparr>slBinary = Some b, slConfig = Some c\<rparr> \<and>
     (\<exists>t v r. validate_target v r t = None \<and> name = target_Name t \<and> digest b = uBinarySHA256 t \<and> newer (v, r) (uVersion t, uConfigurationRevision t)) \<and>
     updating (gate g) \<and> operations (gate g) = 0"

definition check_effect :: "(string \<Rightarrow> string) \<Rightarrow> uworld \<Rightarrow> uworld \<Rightarrow> bool" where
  "check_effect digest w w' \<longleftrightarrow> tCurrent (wTree w') = tCurrent (wTree w) \<and>
     (\<forall>a. ActiveSlot (wTree w) = Some (Some a) \<longrightarrow> slot_dir_of (wTree w') a = slot_dir_of (wTree w) a) \<and>
     (wEvents w' = wEvents w \<or> (\<exists>evs. wEvents w' = wEvents w @ evs \<and> evs \<noteq> [] \<and>
        (\<forall>n s b c g. last evs = Started n s b c g \<longrightarrow> checked_candidate digest n s b c g w')))"

lemma check_effect_refl [simp]: "check_effect digest w w"
  by (simp add: check_effect_def)

lemma TryUpdate_idle: "TryUpdate g = (Some l, g') \<Longrightarrow> updating (gate g') \<and> operations (gate g') = 0"
  by (auto simp: TryUpdate_def split: if_splits)

lemma start_candidate_world: "wTree (start_candidate e n s g w) = wTree w"
  by (auto simp: start_candidate_def split: option.splits)

lemma try_start_effect:
  assumes ready: "slot_dir_of (wTree w) s = \<lparr>slBinary = Some b, slConfig = Some c\<rparr>" "ActiveSlot (wTree w) \<noteq> Some (Some s)"
    and t: "validate_target v r t = None" "newer (v, r) (uVersion t, uConfigurationRevision t)" "digest b = uBinarySHA256 t"
    and run: "try_start e (target_Name t) rec s w = (res, w')"
  shows "check_effect digest w w'"
proof -
  obtain l g where l: "TryUpdate (xGate e) = (l, g)" by force
  obtain d w1 where d: "record_attempt e (target_Name t) rec w = (d, w1)" by force
  have tree: "wTree w1 = wTree w" and evs: "wEvents w1 = wEvents w \<or> wEvents w1 = wEvents w @ [Recorded (target_Name t) (xAttemptAt e)]"
    using record_attempt_world(1,2) [OF d] by blast+
  have e1: "check_effect digest w w1" using tree evs by (auto simp: check_effect_def)
  show ?thesis
  proof (cases "l \<noteq> None \<and> xSafe2 e \<and> d")
    case False
    then have "w' = w \<or> w' = w1" using run l d by (auto simp: try_start_def split: option.splits bool.splits if_splits)
    with e1 show ?thesis by auto
  next
    case True
    then have w': "w' = start_candidate e (target_Name t) s g w1" using run l d by (auto simp: try_start_def split: bool.splits)
    have g: "updating (gate g)" "operations (gate g) = 0" using TryUpdate_idle l True by auto
    have "checked_candidate digest (target_Name t) s b c g w'"
      unfolding checked_candidate_def w' start_candidate_world tree using ready t g by blast
    then show ?thesis using e1 ready(1) w' tree
      by (auto simp: check_effect_def start_candidate_def split: if_splits)
  qed
qed

lemma check_effect_trans:
  assumes "check_effect digest w w1" "wEvents w1 = wEvents w" "check_effect digest w1 w2"
  shows "check_effect digest w w2"
proof -
  have "ActiveSlot (wTree w1) = ActiveSlot (wTree w)" using assms(1) by (intro ActiveSlot_cong) (simp add: check_effect_def)
  with assms show ?thesis by (auto simp: check_effect_def)
qed

lemma prepare_effect: "prepare digest e t w = ((res, code), w') \<Longrightarrow> check_effect digest w w'"
  using prepare_world [of digest e t w res code w'] by (auto simp: check_effect_def)

lemma apply_effect:
  assumes t: "validate_target v r t = None" "uStatus t \<noteq> ''current''" and run: "update_apply digest e t (u, w) = (res, u', w')"
  shows "check_effect digest w w'"
  using run
proof (cases rule: update_apply_cases)
  case (prepared slot code)
  then show ?thesis by (rule prepare_effect)
next
  case (tried r0 s code w1)
  from tried(4) obtain b c where p: "InactiveSlot (wTree w) = Some s" "digest b = uBinarySHA256 t"
    "slot_dir_of (wTree w1) s = \<lparr>slBinary = Some b, slConfig = Some c\<rparr>" by (rule prepare_ready)
  have a: "ActiveSlot (wTree w1) \<noteq> Some (Some s)"
    using InactiveSlot_not_active [OF p(1)] ActiveSlot_cong [OF prepare_world(3) [OF tried(4)]] by simp
  have "check_effect digest w1 w'" by (rule try_start_effect [where digest = digest and v = v and r = r, OF p(3) a t(1) accepted_newer [OF t] p(2) tried(5)])
  then show ?thesis using check_effect_trans [OF prepare_effect [OF tried(4)] prepare_world(2) [OF tried(4)]] by blast
qed simp

lemma check_effect:
  assumes "update_check digest e answer (u, w) = (d, u', w')"
  shows "check_effect digest w w'"
proof (cases "\<exists>body t. answer = Some body \<and> update_decodeTarget body (upVersion u) (upRevision u) = Inr t \<and> uStatus t \<noteq> ''current'' \<and>
    (\<exists>res u1. update_apply digest e t (u, w) = (res, u1, w'))")
  case True
  then obtain body t res u1 where t: "update_decodeTarget body (upVersion u) (upRevision u) = Inr t" "uStatus t \<noteq> ''current''"
    "update_apply digest e t (u, w) = (res, u1, w')" by blast
  show ?thesis by (rule apply_effect [OF decodeTarget_valid [OF t(1)] t(2,3)])
next
  case False
  then have "w' = w" using assms by (auto simp: update_check_def split: if_splits option.splits sum.splits prod.splits)
  then show ?thesis by simp
qed

section \<open>The active deployment is one Cloud accepted\<close>

definition active_ok :: "Tree \<Rightarrow> (string \<times> string) set \<Rightarrow> bool" where
  "active_ok t accepted \<longleftrightarrow> (\<forall>a. ActiveSlot t = Some (Some a) \<longrightarrow> (\<exists>x \<in> accepted. slot_files t a = Some x))"

definition trying_ok :: "(string \<Rightarrow> string) \<Rightarrow> node \<Rightarrow> bool" where
  "trying_ok digest n \<longleftrightarrow> (\<forall>name s b c. nProcess n = Trying name s b c \<longrightarrow> ActiveSlot (wTree (nWorld n)) \<noteq> Some (Some s) \<and>
     slot_files (wTree (nWorld n)) s = Some (b, c) \<and>
     (\<exists>t v r. validate_target v r t = None \<and> name = target_Name t \<and> digest b = uBinarySHA256 t \<and> newer (v, r) (uVersion t, uConfigurationRevision t)))"

lemma slot_files_cong: "slot_dir_of t s = slot_dir_of t' s \<Longrightarrow> slot_files t s = slot_files t' s"
  by (simp add: slot_files_def)

lemma active_ok_cong:
  assumes "active_ok t acc" "ActiveSlot t' = ActiveSlot t" "\<And>a. ActiveSlot t = Some (Some a) \<Longrightarrow> slot_dir_of t' a = slot_dir_of t a" "acc \<subseteq> acc'"
  shows "active_ok t' acc'"
  using assms slot_files_cong [of t' _ t] unfolding active_ok_def by (metis subsetD)

lemma active_ok_switch: "ActiveSlot t = Some (Some s) \<Longrightarrow> slot_files t s = Some x \<Longrightarrow> x \<in> acc \<Longrightarrow> active_ok t acc"
  by (auto simp: active_ok_def)

lemma checks_ok:
  assumes "active_ok (wTree w) acc" "check_effect digest w w'"
  shows "active_ok (wTree w') acc" "trying_ok digest \<lparr>nWorld = w', nProcess = after_check w w' u, nAccepted = acc\<rparr>"
proof -
  have "ActiveSlot (wTree w') = ActiveSlot (wTree w)" using assms(2) by (intro ActiveSlot_cong) (simp add: check_effect_def)
  then show "active_ok (wTree w') acc" using assms by (intro active_ok_cong [OF assms(1)]) (auto simp: check_effect_def)
  show "trying_ok digest \<lparr>nWorld = w', nProcess = after_check w w' u, nAccepted = acc\<rparr>"
    using assms(2) by (auto simp: trying_ok_def after_check_def check_effect_def checked_candidate_def slot_files_def split: if_splits uevent.splits)
qed

lemma on_ready_ok:
  assumes act: "active_ok (wTree w) acc" and files: "slot_files (wTree w) s = Some x" and run: "on_ready lock e env t s w = (ok, w')"
  shows "active_ok (wTree w') (insert x acc)"
proof -
  obtain ok' tree where a: "activate lock e s (wTree w) = (ok', tree)" by force
  have tree: "wTree w' = tree" using run a by (auto simp: on_ready_def split: bool.splits)
  have dirs: "slot_dir_of tree z = slot_dir_of (wTree w) z" for z
    using a Activate_result(1) [of e s "wTree w"] by (auto simp: activate_def split: if_splits)
  have cur: "ActiveSlot tree = ActiveSlot (wTree w) \<or> ActiveSlot tree = Some (Some s)"
    using a Activate_result(3) [of e s "wTree w"] by (auto simp: activate_def split: if_splits)
  from cur show ?thesis
  proof
    assume "ActiveSlot tree = ActiveSlot (wTree w)"
    then show ?thesis unfolding tree using active_ok_cong [OF act] dirs by blast
  next
    assume "ActiveSlot tree = Some (Some s)"
    then show ?thesis unfolding tree by (rule active_ok_switch) (use files slot_files_cong [OF dirs] in auto)
  qed
qed

lemma Install_ok:
  assumes act: "active_ok (wTree w) acc" and run: "Install e b c w = (res, w')"
  shows "res \<in> {Refused, Unenrolled} \<Longrightarrow> active_ok (wTree w') acc" "active_ok (wTree w') (insert (b, c) acc)"
proof -
  have "(res \<in> {Refused, Unenrolled} \<longrightarrow> active_ok (wTree w') acc) \<and> active_ok (wTree w') (insert (b, c) acc)"
  proof (cases "\<exists>s. iLock e = Locked \<and> InactiveSlot (wTree w) = Some s")
    case False
    then have "w' = w" using run by (auto simp: Install_def split: option.splits if_splits)
    then show ?thesis using act active_ok_cong [OF act] by blast
  next
    case True
    then obtain s where s: "iLock e = Locked" "InactiveSlot (wTree w) = Some s" by blast
    obtain ok t where t: "write_slot (iSlot e) s b c (wTree w) = (ok, t)" by force
    have written: "active_ok t acc'" if "acc \<subseteq> acc'" for acc'
      using InactiveSlot_not_active [OF s(2)] write_slot_only(2) [OF t] ActiveSlot_cong [OF write_slot_only(1) [OF t]]
      by (intro active_ok_cong [OF act _ _ that]) auto
    obtain ok' t' where a: "Activate (iActivate e) s t = (ok', t')" by force
    have switched: "active_ok t' (insert (b, c) acc)" if "ok"
    proof (cases "ActiveSlot t' = ActiveSlot t")
      case True
      show ?thesis by (rule active_ok_cong [OF written [OF subset_refl] True Activate_result(1) [OF a] subset_insertI])
    next
      case False
      then have "ActiveSlot t' = Some (Some s)" using Activate_result(3) [OF a] by auto
      moreover have "slot_files t' s = Some (b, c)" using write_slot_only(3) [OF t that] Activate_result(1) [OF a] by (simp add: slot_files_def)
      ultimately show ?thesis by (rule active_ok_switch) simp
    qed
    have "wTree w' = t \<or> (wTree w' = t' \<and> ok \<and> res \<notin> {Refused, Unenrolled})"
      using run s t a by (auto simp: Install_def split: bool.splits if_splits)
    with written [of acc] written [of "insert (b, c) acc"] switched show ?thesis by auto
  qed
  then show "res \<in> {Refused, Unenrolled} \<Longrightarrow> active_ok (wTree w') acc" "active_ok (wTree w') (insert (b, c) acc)" by blast+
qed

lemma node_step_ok:
  assumes "node_step digest False n n'" "active_ok (wTree (nWorld n)) (nAccepted n)" "trying_ok digest n"
  shows "active_ok (wTree (nWorld n')) (nAccepted n') \<and> trying_ok digest n'"
  using assms
proof (cases rule: node_step.cases)
  case (checks u e answer d u' w')
  from checks_ok [OF assms(2) check_effect [OF checks(3)]] checks(1) show ?thesis by (simp add: trying_ok_def)
next
  case (ready t s b c lock e env ok w' v r)
  have "slot_files (wTree (nWorld n)) s = Some (b, c)" using assms(3) ready(2) by (simp add: trying_ok_def)
  from on_ready_ok [OF assms(2) this ready(3)] ready(1) show ?thesis by (simp add: trying_ok_def)
next
  case (install_ends e b c res w')
  from Install_ok(1) [OF assms(2) install_ends(2,3)] install_ends show ?thesis by (auto simp: trying_ok_def)
next
  case (installs e b c ok w')
  from Install_ok(2) [OF assms(2) installs(2)] installs(1) show ?thesis by (simp add: trying_ok_def)
qed (auto simp: trying_ok_def)

lemma node_reach_ok: "node_reach digest False n \<Longrightarrow> active_ok (wTree (nWorld n)) (nAccepted n) \<and> trying_ok digest n"
proof (induction rule: node_reach.induct)
  case (first n)
  then show ?case by (simp add: active_ok_def trying_ok_def)
next
  case (more n n')
  then show ?case using node_step_ok by blast
qed

text \<open>
  C14. Whatever starts next on a node is a deployment Cloud accepted. In every state a node can
  reach, with system calls, downloads, candidates and installations failing anywhere and the
  process stopped at any moment, the active slot, which systemd starts, holds the complete binary
  and configuration of a deployment Cloud has accepted, by a candidate's hello or at an
  installation; a candidate that waits for Cloud runs the inactive slot with a binary of the
  approved digest for a newer target. The states are those in which no installation gave up
  between writing the inactive slot and switching while a candidate was waiting.
\<close>

theorem rollback_safe:
  assumes "node_reach digest False n"
  shows "(\<forall>a. ActiveSlot (wTree (nWorld n)) = Some (Some a) \<longrightarrow> (\<exists>b c. (b, c) \<in> nAccepted n \<and>
            slBinary (slot_dir_of (wTree (nWorld n)) a) = Some b \<and> slConfig (slot_dir_of (wTree (nWorld n)) a) = Some c)) \<and>
    (\<forall>name s b c. nProcess n = Trying name s b c \<longrightarrow> ActiveSlot (wTree (nWorld n)) \<noteq> Some (Some s) \<and>
       slBinary (slot_dir_of (wTree (nWorld n)) s) = Some b \<and> slConfig (slot_dir_of (wTree (nWorld n)) s) = Some c) \<and>
    (\<forall>name s b c. nProcess n = Trying name s b c \<longrightarrow>
       (\<exists>t v r. validate_target v r t = None \<and> name = target_Name t \<and> digest b = uBinarySHA256 t \<and> newer (v, r) (uVersion t, uConfigurationRevision t)))"
proof -
  from node_reach_ok [OF assms] have ok: "active_ok (wTree (nWorld n)) (nAccepted n)" "trying_ok digest n" by blast+
  have "\<exists>b c. (b, c) \<in> nAccepted n \<and> slBinary (slot_dir_of (wTree (nWorld n)) a) = Some b \<and> slConfig (slot_dir_of (wTree (nWorld n)) a) = Some c"
    if "ActiveSlot (wTree (nWorld n)) = Some (Some a)" for a
    using ok(1) that by (auto simp: active_ok_def slot_files_def split: option.splits)
  moreover have "slBinary (slot_dir_of (wTree (nWorld n)) s) = Some b \<and> slConfig (slot_dir_of (wTree (nWorld n)) s) = Some c"
    if "nProcess n = Trying name s b c" for name s b c
    using ok(2) that by (auto simp: trying_ok_def slot_files_def split: option.splits)
  ultimately show ?thesis using ok(2) unfolding trying_ok_def by blast
qed

section \<open>An example, and an installation that gives up\<close>

definition ex_install :: "bool \<Rightarrow> install_env" where
  "ex_install enrolled = \<lparr>iLock = Locked, iSlot = \<lparr>se_removeAll = None, se_mkdir = True, se_binary = ex_write, se_config = ex_write, se_sync = ex_dir\<rparr>,
     iEnrolled = enrolled, iStopped = True, iSaved = True, iActivate = \<lparr>ae_symlink = True, ae_rename = True, ae_sync = ex_dir\<rparr>, iDropped = True\<rparr>"

definition ex_bare :: node where
  "ex_bare = \<lparr>nWorld = ex_world\<lparr>wTree := \<lparr>tCurrent = NoLink, tA = emptySlot, tB = emptySlot\<rparr>\<rparr>, nProcess = Down, nAccepted = {}\<rparr>"

definition ex_installed :: node where
  "ex_installed = \<lparr>nWorld = ex_world, nProcess = Down, nAccepted = {(''old'', ''{}'')}\<rparr>"

lemmas slot_write_simps = write_slot_def PrepareSlot_def WriteFile_def SyncDirectory_def set_slot_def slot_dir_of_def emptySlot_def
  ex_write_def ex_dir_def Let_def

lemma ex_installed_reach: "node_reach ex_digest races ex_installed"
proof (rule node_reach.more)
  show "node_reach ex_digest races ex_bare" by (rule node_reach.first) (simp_all add: ex_bare_def ActiveSlot_def)
  have "Install (ex_install True) ''old'' ''{}'' (nWorld ex_bare) = (Switched True, ex_world)"
    by (simp add: Install_def ex_install_def ex_bare_def InactiveSlot_def ActiveSlot_def slot_write_simps Activate_def ex_world_def ex_tree_def slot_path_def)
  from node_step.installs [OF this] show "node_step ex_digest races ex_bare ex_installed" by (simp add: ex_bare_def ex_installed_def)
qed

lemma ex_trying_reach:
  obtains w where "node_reach ex_digest races \<lparr>nWorld = w, nProcess = Trying ex_name SlotB ''new'' ''{}'', nAccepted = {(''old'', ''{}'')}\<rparr>"
    "ActiveSlot (wTree w) = Some (Some SlotA)"
proof -
  obtain d u w where c: "update_check ex_digest ex_apply (Some [Value ex_update_doc]) (new_updater ''v1.9.3'' 7, ex_world) = (d, u, w)"
    by (metis surj_pair)
  have evs: "wEvents w = [Recorded ex_name 6, Started ex_name SlotB ''new'' ''{}'' ex_gate]" using ex_started c by simp
  have a: "ActiveSlot (wTree ex_world) = Some (Some SlotA)" by (simp add: ActiveSlot_def ex_world_def ex_tree_def slot_path_def)
  have "node_reach ex_digest races (ex_installed\<lparr>nProcess := Serving (new_updater ''v1.9.3'' 7)\<rparr>)"
    using ex_installed_reach node_step.starts [of ex_installed SlotA ex_digest races "''v1.9.3''" 7] a
    by (intro node_reach.more [OF ex_installed_reach]) (simp add: ex_installed_def)
  moreover have "node_step ex_digest races (ex_installed\<lparr>nProcess := Serving (new_updater ''v1.9.3'' 7)\<rparr>)
      \<lparr>nWorld = w, nProcess = Trying ex_name SlotB ''new'' ''{}'', nAccepted = {(''old'', ''{}'')}\<rparr>"
    using node_step.checks [of "ex_installed\<lparr>nProcess := Serving (new_updater ''v1.9.3'' 7)\<rparr>" "new_updater ''v1.9.3'' 7" ex_digest ex_apply
        "Some [Value ex_update_doc]" d u w races] c evs
    by (simp add: ex_installed_def after_check_def) (simp add: ex_world_def)
  moreover have "ActiveSlot (wTree w) = Some (Some SlotA)"
    using check_effect [OF c] a ActiveSlot_cong [of "wTree w" "wTree ex_world"] by (simp add: check_effect_def)
  ultimately show ?thesis using that node_reach.more by blast
qed

theorem rollback_safe_witness:
  "\<exists>n. node_reach ex_digest False n \<and> nProcess n = Trying ex_name SlotB ''new'' ''{}'' \<and> slBinary (slot_dir_of (wTree (nWorld n)) SlotB) = Some ''new''"
proof -
  obtain w where r: "node_reach ex_digest False \<lparr>nWorld = w, nProcess = Trying ex_name SlotB ''new'' ''{}'', nAccepted = {(''old'', ''{}'')}\<rparr>"
    using ex_trying_reach by metis
  from rollback_safe [OF r] have "slBinary (slot_dir_of (wTree w) SlotB) = Some ''new''" by simp
  with r show ?thesis by fastforce
qed

text \<open>
  C38. The maintenance lock does not protect the slot of a waiting candidate. A state is reachable
  in which the active slot holds a deployment Cloud accepted in no way: an installation wrote the
  inactive slot, from which a candidate was running, and ended because its enrollment failed;
  then Cloud accepted the candidate, which made that slot the active one.
\<close>

theorem activation_race:
  "\<exists>n. node_reach ex_digest True n \<and> ActiveSlot (wTree (nWorld n)) = Some (Some SlotB) \<and>
     slot_files (wTree (nWorld n)) SlotB = Some (''other'', ''[]'') \<and> (''other'', ''[]'') \<notin> nAccepted n"
proof -
  obtain w where r: "node_reach ex_digest True \<lparr>nWorld = w, nProcess = Trying ex_name SlotB ''new'' ''{}'', nAccepted = {(''old'', ''{}'')}\<rparr>"
    and a: "ActiveSlot (wTree w) = Some (Some SlotA)" using ex_trying_reach by metis
  define t where "t = (wTree w)\<lparr>tB := \<lparr>slBinary = Some ''other'', slConfig = Some ''[]''\<rparr>\<rparr>"
  have i: "Install (ex_install False) ''other'' ''[]'' w = (Unenrolled, w\<lparr>wTree := t\<rparr>)"
    by (simp add: Install_def ex_install_def InactiveSlot_def a slot_write_simps t_def)
  let ?n = "\<lparr>nWorld = w\<lparr>wTree := t\<rparr>, nProcess = Trying ex_name SlotB ''new'' ''{}'', nAccepted = {(''old'', ''{}'')}\<rparr>"
  have "node_reach ex_digest True ?n"
    using node_reach.more [OF r node_step.install_ends [of _ _ _ _ Unenrolled "w\<lparr>wTree := t\<rparr>"]] i by simp
  moreover have o: "on_ready Locked \<lparr>ae_symlink = True, ae_rename = True, ae_sync = ex_dir\<rparr> all_ok ex_name SlotB (w\<lparr>wTree := t\<rparr>) =
      (True, w\<lparr>wTree := t\<lparr>tCurrent := LinkTo (slot_path SlotB)\<rparr>\<rparr>)"
    by (simp add: on_ready_def activate_def Activate_def SyncDirectory_def ex_dir_def)
  ultimately have "node_reach ex_digest True (?n\<lparr>nWorld := w\<lparr>wTree := t\<lparr>tCurrent := LinkTo (slot_path SlotB)\<rparr>\<rparr>,
      nProcess := Serving (new_updater ''v1.10.0'' 7), nAccepted := insert (''new'', ''{}'') (nAccepted ?n)\<rparr>)"
    using node_reach.more [OF _ node_step.ready [of ?n ex_name SlotB "''new''" "''{}''" Locked _ all_ok True]] by simp
  moreover have "slot_files (t\<lparr>tCurrent := LinkTo (slot_path SlotB)\<rparr>) SlotB = Some (''other'', ''[]'')"
    by (simp add: slot_files_def t_def slot_dir_of_def)
  ultimately show ?thesis by (intro exI) (auto intro: conjI)
qed

end
