(* ===== verification/Log_Follow.thy ===== *)
theory Log_Follow
  imports Access_Log
begin

text \<open>
  Following the access log: \<open>poll\<close>, \<open>recover\<close>, \<open>cleared\<close>, \<open>readCopyTail\<close> and \<open>read\<close> of
  \<open>src/internal/xray/accesslog/follow.go\<close>. 3x-ui truncates the log after appending all of it to a
  copy; the follower reads back from the copy what it had not read. A file is its identity and its
  bytes; one poll sees one state of both files. Reads do not fail.
\<close>

section \<open>Files and the follower\<close>

definition maxRead :: nat where "maxRead = 4 * 1024 * 1024"
definition bufSize :: nat where "bufSize = 64 * 1024"

record log_files =
  fPath :: "(nat \<times> string) option"
  fCopy :: "(nat \<times> string) option"

record log_follower =
  lfText :: follower
  lfOpen :: "nat option"
  lfOff :: nat
  lfMark :: "(nat \<times> nat) option"

definition fresh_text :: follower where "fresh_text = \<lparr>partial = [], skip = False, tail = []\<rparr>"

text \<open>\<open>read\<close>: the lines from \<open>off\<close> up to \<open>limit\<close>, at most \<open>maxRead\<close> bytes, where it stopped and the
  text state. A read shorter than asked for is the end of the file.\<close>

function read_from :: "string \<Rightarrow> nat \<Rightarrow> nat \<Rightarrow> nat \<Rightarrow> follower \<Rightarrow> string list \<times> nat \<times> follower" where
  "read_from body limit got off f =
     (if got < maxRead \<and> off < limit then
        (let want = min bufSize (limit - off); data = take want (drop off body); n = length data;
             (l, f1) = split data f; f2 = remember data f1
         in if n < want \<or> n = 0 then (l, off + n, f2)
            else (case read_from body limit (got + n) (off + n) f2 of (ls, off', f') \<Rightarrow> (l @ ls, off', f')))
      else ([], off, f))"
  by pat_completeness auto
termination by (relation "measure (\<lambda>(body, limit, got, off, f). maxRead - got)") auto

declare read_from.simps [simp del]

definition maxInt64 :: nat where "maxInt64 = 2 ^ 63 - 1"

text \<open>\<open>unchanged\<close>: the text before the offset is still what was read.\<close>

definition unchanged :: "log_follower \<Rightarrow> string \<Rightarrow> bool" where
  "unchanged lf body \<longleftrightarrow> (let t = tail (lfText lf) in t = [] \<or> take (length t) (drop (lfOff lf - length t) body) = t)"

definition cleared :: "log_follower \<Rightarrow> (nat \<times> string) option \<Rightarrow> string \<Rightarrow> bool" where
  "cleared lf copy body =
     (if lfOff lf \<noteq> 0 then False
      else (case (lfMark lf, copy) of
          (Some (mid, msize), Some (cid, c)) \<Rightarrow>
            if cid \<noteq> mid \<or> length c \<le> msize then False
            else (let n = min (length body) (min (length c - msize) tailSize)
                  in body = [] \<or> take n body \<noteq> take n (drop msize c))
        | _ \<Rightarrow> False))"

definition recover :: "log_follower \<Rightarrow> (nat \<times> string) option \<Rightarrow> string list \<times> follower" where
  "recover lf copy = (case (lfMark lf, copy) of
      (Some (mid, msize), Some (cid, c)) \<Rightarrow>
        (let from = msize + lfOff lf; t = tail (lfText lf) in
         if cid \<noteq> mid \<or> length c < from then ([], lfText lf)
         else if take (length t) (drop (from - length t) c) \<noteq> t then ([], lfText lf)
         else (case read_from c (length c) 0 from (lfText lf) of (ls, off, f) \<Rightarrow> (ls, f)))
    | _ \<Rightarrow> ([], lfText lf))"

definition readCopyTail :: "(nat \<times> string) option \<Rightarrow> string list" where
  "readCopyTail copy = (case copy of None \<Rightarrow> []
     | Some (cid, c) \<Rightarrow> (let from = length c - maxRead in
         fst (read_from c (length c) 0 from (fresh_text\<lparr>skip := 0 < from\<rparr>))))"

text \<open>\<open>poll\<close>: the lines passed on, each with whether it is backlog; \<open>None\<close> when the log is not there.\<close>

definition mark_of :: "(nat \<times> string) option \<Rightarrow> (nat \<times> nat) option" where
  "mark_of copy = map_option (\<lambda>(i, c). (i, length c)) copy"

definition open_log :: "nat \<Rightarrow> string \<Rightarrow> (nat \<times> string) option \<Rightarrow> string list \<times> log_follower" where
  "open_log fid body copy =
     (let off = length body - maxRead in
      (if off = 0 then readCopyTail copy else [],
       \<lparr>lfText = fresh_text\<lparr>skip := maxRead < length body\<rparr>, lfOpen = Some fid, lfOff = off, lfMark = None\<rparr>))"

definition restart_log :: "log_follower \<Rightarrow> string \<Rightarrow> (nat \<times> string) option \<Rightarrow> string list \<times> log_follower" where
  "restart_log lf body copy =
     (if length body < lfOff lf \<or> \<not> unchanged lf body \<or> cleared lf copy body then
        (case recover lf copy of (ls, f) \<Rightarrow> (ls, lf\<lparr>lfText := fresh_text, lfOff := 0\<rparr>))
      else ([], lf))"

definition poll_log :: "log_files \<Rightarrow> log_follower \<Rightarrow> ((string \<times> bool) list \<times> log_follower) option" where
  "poll_log fs lf = (case fPath fs of None \<Rightarrow> None
     | Some (fid, body) \<Rightarrow>
         let backlog = (lfOpen lf \<noteq> Some fid);
             (ls, lf1) = (if backlog then open_log fid body (fCopy fs) else restart_log lf body (fCopy fs));
             (ms, off, f) = read_from body maxInt64 0 (lfOff lf1) (lfText lf1)
         in Some (map (\<lambda>l. (l, backlog)) (ls @ ms), lf1\<lparr>lfText := f, lfOff := off, lfMark := mark_of (fCopy fs)\<rparr>))"

section \<open>A read is one split of the text read\<close>

lemma split_tail: "split data (f\<lparr>tail := t\<rparr>) = (fst (split data f), (snd (split data f))\<lparr>tail := t\<rparr>)"
proof (induction "length data" arbitrary: data f rule: less_induct)
  case less
  show ?case
  proof (cases data rule: split_line_case)
    case 1
    then show ?thesis by (cases "data = []") (simp_all add: split_open)
  next
    case (2 before rest)
    have eq: "f\<lparr>partial := [], skip := False\<rparr>\<lparr>tail := t\<rparr> = f\<lparr>tail := t\<rparr>\<lparr>partial := [], skip := False\<rparr>" by simp
    have ih: "split rest (f\<lparr>tail := t\<rparr>\<lparr>partial := [], skip := False\<rparr>) =
        (fst (split rest (f\<lparr>partial := [], skip := False\<rparr>)), (snd (split rest (f\<lparr>partial := [], skip := False\<rparr>)))\<lparr>tail := t\<rparr>)"
      using less [of rest "f\<lparr>partial := [], skip := False\<rparr>"] unfolding eq by (simp add: 2)
    have em: "emitted (f\<lparr>tail := t\<rparr>) before = emitted f before" by (simp add: emitted_def)
    show ?thesis unfolding 2(1) split_line [OF 2(2)] ih em by (simp split: prod.splits)
  qed
qed

lemma tail_split: "tail (snd (split data f)) = tail f"
proof -
  have "snd (split data f) = snd (split data (f\<lparr>tail := tail f\<rparr>))" by simp
  also have "\<dots> = (snd (split data f))\<lparr>tail := tail f\<rparr>" unfolding split_tail by simp
  finally show ?thesis by (metis follower.select_convs(3) follower.surjective follower.update_convs(3))
qed

text \<open>The state after reading a text.\<close>

definition after_text :: "string \<Rightarrow> follower \<Rightarrow> follower" where
  "after_text text f = (snd (split text f))\<lparr>tail := lastn tailSize (tail f @ text)\<rparr>"

lemma remember_after: "length (tail f) \<le> tailSize \<Longrightarrow> remember data (snd (split data f)) = after_text data f"
  by (auto simp: remember_def after_text_def tail_split lastn_def Let_def)

lemma tail_after [simp]: "tail (after_text text f) = lastn tailSize (tail f @ text)"
  by (simp add: after_text_def)

lemma lastn_lastn: "lastn n (lastn n xs @ ys) = lastn n (xs @ ys)"
proof (cases "n \<le> length xs")
  case True
  then obtain as bs where x: "xs = as @ bs" "length bs = n" by (metis append_take_drop_id length_drop diff_diff_cancel)
  then have "lastn n xs = bs" by (simp add: lastn_def)
  then show ?thesis using x by (simp add: lastn_def)
qed (simp add: lastn_def)

lemma after_text_append: "after_text (a @ b) f = after_text b (after_text a f)"
  "fst (split (a @ b) f) = fst (split a f) @ fst (split b (after_text a f))"
  by (simp_all add: after_text_def split_append split_tail lastn_lastn split: prod.splits)

lemma after_text_Nil: "length (tail f) \<le> tailSize \<Longrightarrow> after_text [] f = f"
  by (simp add: after_text_def lastn_def)

lemma read_from_text:
  assumes "length (tail f) \<le> tailSize" "bufSize dvd maxRead - got" "length body \<le> limit"
  shows "read_from body limit got off f =
    (let text = take (maxRead - got) (drop off body) in (fst (split text f), off + length text, after_text text f))"
  using assms
proof (induction body limit got off f rule: read_from.induct)
  case (1 body limit got off f)
  let ?want = "min bufSize (limit - off)" and ?data = "take (min bufSize (limit - off)) (drop off body)"
  have len: "length body \<le> limit" by (rule 1)
  have short: "length (tail f) \<le> tailSize" by (rule 1)
  show ?case
  proof (cases "got < maxRead \<and> off < limit")
    case False
    then have e: "take (maxRead - got) (drop off body) = []" using len by auto
    have "read_from body limit got off f = ([], off, f)" using False by (subst read_from.simps) (simp only: if_False)
    then show ?thesis unfolding e by (simp add: after_text_Nil short)
  next
    case True
    have ge: "bufSize \<le> maxRead - got" using 1(3) True by (auto dest: dvd_imp_le)
    obtain l f1 where s: "split ?data f = (l, f1)" by force
    have l: "l = fst (split ?data f)" and f2: "remember ?data f1 = after_text ?data f" using s remember_after [OF short, of ?data] by simp_all
    have unfold: "read_from body limit got off f =
        (if length ?data < ?want \<or> length ?data = 0 then (l, off + length ?data, after_text ?data f)
         else (case read_from body limit (got + length ?data) (off + length ?data) (after_text ?data f) of (ls, off', f') \<Rightarrow> (l @ ls, off', f')))"
      using True by (subst read_from.simps) (simp only: Let_def s f2 prod.case if_True simp_thms)
    show ?thesis
    proof (cases "length ?data < ?want \<or> length ?data = 0")
      case True
      then have "take (maxRead - got) (drop off body) = ?data"
        using ge len \<open>got < maxRead \<and> off < limit\<close> by (auto simp: min_def bufSize_def split: if_splits)
      with True unfold l show ?thesis by (simp add: Let_def)
    next
      case False
      moreover have "length ?data \<le> ?want" by (simp only: length_take min.cobounded2)
      ultimately have n: "length ?data = ?want" by linarith
      show ?thesis
      proof (cases "bufSize \<le> limit - off")
        case False
        then have all: "?data = drop off body" "length ?data = limit - off" using n len by auto
        have "read_from body limit (got + length ?data) (off + length ?data) (after_text ?data f) = ([], off + length ?data, after_text ?data f)"
          using all by (subst read_from.simps) auto
        moreover have "take (maxRead - got) (drop off body) = ?data" using all ge False by auto
        ultimately show ?thesis using unfold l \<open>\<not> (length ?data < ?want \<or> length ?data = 0)\<close> by (simp add: Let_def)
      next
        case True
        then have nb: "length ?data = bufSize" "?data = take bufSize (drop off body)" using n by (simp_all add: min_def)
        have "bufSize dvd maxRead - (got + bufSize)" using 1(3) ge by (metis diff_diff_left dvd_diff_nat dvd_refl)
        then have ih: "read_from body limit (got + length ?data) (off + length ?data) (after_text ?data f) =
            (let text = take (maxRead - (got + bufSize)) (drop (off + bufSize) body)
             in (fst (split text (after_text ?data f)), off + bufSize + length text, after_text text (after_text ?data f)))"
          using "1.IH" [OF \<open>got < maxRead \<and> off < limit\<close> refl refl refl s [symmetric] refl refl] False f2 nb len by simp
        have t: "take (maxRead - got) (drop off body) = ?data @ take (maxRead - (got + bufSize)) (drop (off + bufSize) body)"
        proof -
          have sum: "maxRead - got = bufSize + (maxRead - (got + bufSize))" using ge by simp
          show ?thesis unfolding nb(2) by (subst sum) (simp add: take_add add.commute)
        qed
        show ?thesis unfolding unfold t using False ih l nb(1) by (simp add: after_text_append Let_def)
      qed
    qed
  qed
qed

section \<open>The log, its copy and the follower over time\<close>

text \<open>Xray appends, 3x-ui appends the log to the copy and truncates it, the follower polls. The log
  and the copy keep their identities 1 and 2. \<open>lwMoved\<close> is what went to the copy since the last poll
  and \<open>lwAll\<close> everything ever in the log; neither is seen by the follower. What Xray writes between
  the copy and the truncation is in no file and so not part of \<open>lwAll\<close>.\<close>

record log_world =
  lwFile :: string
  lwCopy :: string
  lwFollower :: log_follower
  lwOut :: "string list"
  lwMoved :: string
  lwAll :: string

datatype log_event = Appended string | Rotated | Polled

fun log_step :: "log_world \<Rightarrow> log_event \<Rightarrow> log_world" where
  "log_step w (Appended t) = w\<lparr>lwFile := lwFile w @ t, lwAll := lwAll w @ t\<rparr>"
| "log_step w Rotated = w\<lparr>lwCopy := lwCopy w @ lwFile w, lwMoved := lwMoved w @ lwFile w, lwFile := []\<rparr>"
| "log_step w Polled = (case poll_log \<lparr>fPath = Some (1, lwFile w), fCopy = Some (2, lwCopy w)\<rparr> (lwFollower w) of
     None \<Rightarrow> w | Some (ls, lf) \<Rightarrow> w\<lparr>lwOut := lwOut w @ map fst ls, lwFollower := lf, lwMoved := []\<rparr>)"

definition log_run :: "log_world \<Rightarrow> log_event list \<Rightarrow> log_world" where
  "log_run = foldl log_step"

text \<open>A new follower on a log and a copy, after its first poll.\<close>

definition log_start :: "string \<Rightarrow> string \<Rightarrow> log_world" where
  "log_start text copied = log_step \<lparr>lwFile = text, lwCopy = copied,
     lwFollower = \<lparr>lfText = fresh_text, lfOpen = None, lfOff = 0, lfMark = None\<rparr>, lwOut = [], lwMoved = [], lwAll = text\<rparr> Polled"

definition ended :: "string \<Rightarrow> bool" where "ended t \<longleftrightarrow> t = [] \<or> last t = newline"

text \<open>A truncation shows: the log is shorter than what was read of it, or holds other text there, or,
  when nothing of it was read, does not begin with the text that went to the copy.\<close>

definition log_visible :: "log_world \<Rightarrow> bool" where
  "log_visible w \<longleftrightarrow> lwMoved w = [] \<or> length (lwFile w) < lfOff (lwFollower w) \<or> \<not> unchanged (lwFollower w) (lwFile w) \<or>
     (lfOff (lwFollower w) = 0 \<and> (lwFile w = [] \<or>
        (let n = min (length (lwFile w)) (min (length (lwMoved w)) tailSize) in take n (lwFile w) \<noteq> take n (lwMoved w))))"

fun log_fine :: "log_world \<Rightarrow> log_event \<Rightarrow> bool" where
  "log_fine w (Appended t) = True"
| "log_fine w Rotated = ended (lwFile w)"
| "log_fine w Polled = (log_visible w \<and> length (lwFile w) \<le> maxInt64 \<and> length (lwMoved w) \<le> lfOff (lwFollower w) + maxRead)"

fun log_fine_run :: "log_world \<Rightarrow> log_event list \<Rightarrow> bool" where
  "log_fine_run w [] = True"
| "log_fine_run w (e # es) = (log_fine w e \<and> log_fine_run (log_step w e) es)"

definition appended_text :: "log_event list \<Rightarrow> string" where
  "appended_text es = concat (map (\<lambda>e. case e of Appended t \<Rightarrow> t | _ \<Rightarrow> []) es)"

definition log_unread :: "log_world \<Rightarrow> nat" where
  "log_unread w = length (lwFile w) - (if lwMoved w = [] then lfOff (lwFollower w) else 0)"

section \<open>What the follower has passed on\<close>

lemma split_ended:
  assumes "ended t" shows "snd (split t fresh_text) = fresh_text"
proof (cases "t = []")
  case False
  then obtain a where t: "t = a @ [newline]" using assms by (metis ended_def append_butlast_last_id)
  have nl: "split [newline] g = (emitted g [], g\<lparr>partial := [], skip := False\<rparr>)" for g
    using split_line [of "[]" "[]" g] by simp
  have "snd (split t fresh_text) = (snd (split a fresh_text))\<lparr>partial := [], skip := False\<rparr>"
    unfolding t split_append by (simp add: nl split: prod.splits)
  moreover have "tail (snd (split a fresh_text)) = []" by (simp add: tail_split fresh_text_def)
  ultimately show ?thesis by (simp add: fresh_text_def)
qed simp

lemma split_after_ended: "ended p \<Longrightarrow> fst (split (p @ x) fresh_text) = fst (split p fresh_text) @ fst (split x fresh_text)"
  by (cases "split p fresh_text"; cases "split x fresh_text") (use split_ended [of p] in \<open>simp add: split_append\<close>)

lemma split_after_text:
  "fst (split (a @ b) fresh_text) = fst (split a fresh_text) @ fst (split b (after_text a fresh_text))"
  by (rule after_text_append(2))

lemma ended_append: "ended a \<Longrightarrow> ended b \<Longrightarrow> ended (a @ b)"
  by (auto simp: ended_def last_append)

lemma tail_short: "length (tail (after_text t f)) \<le> tailSize"
  by (simp add: lastn_def)

lemma fresh_tail [simp]: "tail fresh_text = []" by (simp add: fresh_text_def)

lemma lastn_take:
  assumes "k \<le> length xs"
  shows "take (length (lastn n (take k xs))) (drop (k - length (lastn n (take k xs))) xs) = lastn n (take k xs)"
  using assms by (simp add: lastn_def drop_take min_def)

lemma buf_read: "bufSize dvd maxRead - 0" by (simp add: bufSize_def maxRead_def)

lemmas read_text = read_from_text [OF _ buf_read]

definition log_ok :: "string list \<Rightarrow> string \<Rightarrow> log_world \<Rightarrow> bool" where
  "log_ok start P w \<longleftrightarrow> (let lf = lwFollower w; seen = take (lfOff lf) (lwMoved w @ lwFile w) in
     lwAll w = P @ lwMoved w @ lwFile w \<and> ended P \<and> ended (lwMoved w) \<and> lfOpen lf = Some 1 \<and>
     (\<exists>M. lwCopy w = M @ lwMoved w \<and> lfMark lf = Some (2, length M)) \<and>
     lfOff lf \<le> length (if lwMoved w = [] then lwFile w else lwMoved w) \<and>
     lfText lf = after_text seen fresh_text \<and> lwOut w = start @ fst (split (P @ seen) fresh_text))"

lemma read_log:
  assumes "length body \<le> limit"
  shows "read_from body limit 0 off (after_text t fresh_text) =
    (let text = take maxRead (drop off body) in
      (fst (split text (after_text t fresh_text)), off + length text, after_text text (after_text t fresh_text)))"
  using read_text [OF tail_short assms] by simp

lemma after_fresh [simp]: "after_text [] fresh_text = fresh_text"
  by (simp add: after_text_Nil)

lemma big_files: "maxRead \<le> maxInt64"
  by (simp add: maxRead_def maxInt64_def)

lemma log_start_eq:
  assumes "length text \<le> maxRead"
  shows "log_start text copied = \<lparr>lwFile = text, lwCopy = copied,
      lwFollower = \<lparr>lfText = after_text text fresh_text, lfOpen = Some 1, lfOff = length text, lfMark = Some (2, length copied)\<rparr>,
      lwOut = readCopyTail (Some (2, copied)) @ fst (split text fresh_text), lwMoved = [], lwAll = text\<rparr>"
proof -
  have r: "read_from text maxInt64 0 0 fresh_text = (fst (split text fresh_text), length text, after_text text fresh_text)"
    using read_log [of "text" maxInt64 0 "[]"] assms big_files by simp
  have k: "fresh_text\<lparr>skip := False\<rparr> = fresh_text" by (simp add: fresh_text_def)
  show ?thesis using assms by (simp add: log_start_def poll_log_def open_log_def Let_def not_less k r mark_of_def comp_def)
qed

lemma log_ok_first: "length text \<le> maxRead \<Longrightarrow> log_ok (readCopyTail (Some (2, copied))) [] (log_start text copied)"
  by (simp add: log_start_eq log_ok_def ended_def)

lemma restart_same:
  assumes "log_ok start P w" "lwMoved w = []"
  shows "restart_log (lwFollower w) (lwFile w) (Some (2, lwCopy w)) = ([], lwFollower w)"
proof -
  let ?lf = "lwFollower w"
  have of_w: "lfOff ?lf \<le> length (lwFile w)" "lfMark ?lf = Some (2, length (lwCopy w))"
    "tail (lfText ?lf) = lastn tailSize (take (lfOff ?lf) (lwFile w))"
    using assms by (auto simp: log_ok_def Let_def)
  have "unchanged ?lf (lwFile w)" using lastn_take [OF of_w(1), of tailSize] by (simp add: unchanged_def of_w(3) Let_def)
  moreover have "\<not> cleared ?lf (Some (2, lwCopy w)) (lwFile w)" by (simp add: cleared_def of_w(2))
  ultimately show ?thesis using of_w(1) by (simp add: restart_log_def)
qed

lemma restart_moved:
  assumes "log_ok start P w" "lwMoved w \<noteq> []" "log_visible w" "length (lwMoved w) \<le> lfOff (lwFollower w) + maxRead"
  shows "restart_log (lwFollower w) (lwFile w) (Some (2, lwCopy w)) =
    (fst (split (drop (lfOff (lwFollower w)) (lwMoved w)) (lfText (lwFollower w))),
     (lwFollower w)\<lparr>lfText := fresh_text, lfOff := 0\<rparr>)"
proof -
  let ?lf = "lwFollower w" and ?off = "lfOff (lwFollower w)"
  obtain M where c: "lwCopy w = M @ lwMoved w" "lfMark ?lf = Some (2, length M)" using assms(1) by (auto simp: log_ok_def Let_def)
  have of_w: "?off \<le> length (lwMoved w)" "lfText ?lf = after_text (take ?off (lwMoved w)) fresh_text"
    using assms(1,2) by (auto simp: log_ok_def Let_def)
  let ?t = "lastn tailSize (take ?off (lwMoved w))"
  have t: "tail (lfText ?lf) = ?t" by (simp add: of_w(2))
  have "length ?t \<le> ?off" by (simp add: lastn_def)
  then have fr: "length M + ?off - length ?t = length M + (?off - length ?t)" by simp
  have held: "take (length ?t) (drop (length M + ?off - length ?t) (lwCopy w)) = ?t"
    unfolding c(1) fr using lastn_take [OF of_w(1)] by simp
  have all: "take maxRead (drop (length M + ?off) (lwCopy w)) = drop ?off (lwMoved w)" using assms(4) by (simp add: c(1))
  have "fst (recover ?lf (Some (2, lwCopy w))) = fst (split (drop ?off (lwMoved w)) (lfText ?lf))"
    using of_w(1) held read_log [of "lwCopy w" "length (lwCopy w)" "length M + ?off" "take ?off (lwMoved w)"]
    by (simp add: recover_def c(2) t all of_w(2) [symmetric] Let_def) (simp add: c(1))
  moreover have "length (lwFile w) < ?off \<or> \<not> unchanged ?lf (lwFile w) \<or> cleared ?lf (Some (2, lwCopy w)) (lwFile w)"
    using assms(2,3) by (auto simp: log_visible_def cleared_def c Let_def)
  ultimately show ?thesis by (cases "recover ?lf (Some (2, lwCopy w))") (simp add: restart_log_def)
qed

lemma poll_same:
  assumes "log_ok start P w" "lwMoved w = []" "length (lwFile w) \<le> maxInt64"
  shows "log_ok start P (log_step w Polled)"
    and "log_unread w \<le> maxRead \<Longrightarrow> lwOut (log_step w Polled) = start @ fst (split (lwAll w) fresh_text)"
proof -
  let ?lf = "lwFollower w" and ?off = "lfOff (lwFollower w)"
  let ?more = "take maxRead (drop ?off (lwFile w))"
  have ok: "lwAll w = P @ lwFile w" "ended P" "lfOpen ?lf = Some 1" "lfText ?lf = after_text (take ?off (lwFile w)) fresh_text"
    "lwOut w = start @ fst (split (P @ take ?off (lwFile w)) fresh_text)" "?off \<le> length (lwFile w)"
    using assms(1,2) by (auto simp: log_ok_def Let_def)
  let ?now = "take (?off + length ?more) (lwFile w)"
  have seen: "?now = take ?off (lwFile w) @ ?more" by (simp add: take_add) (simp add: min_def)
  have out: "fst (split (P @ ?now) fresh_text) = fst (split (P @ take ?off (lwFile w)) fresh_text) @
      fst (split ?more (after_text (take ?off (lwFile w)) fresh_text))"
    by (simp only: seen split_after_ended [OF ok(2)] split_after_text [of "take ?off (lwFile w)"] append_assoc)
  have after: "after_text ?now fresh_text = after_text ?more (after_text (take ?off (lwFile w)) fresh_text)"
    by (simp only: seen after_text_append(1))
  have raw: "log_step w Polled = w\<lparr>lwOut := lwOut w @ fst (split ?more (after_text (take ?off (lwFile w)) fresh_text)),
      lwFollower := ?lf\<lparr>lfText := after_text ?more (after_text (take ?off (lwFile w)) fresh_text), lfOff := ?off + length ?more,
        lfMark := Some (2, length (lwCopy w))\<rparr>, lwMoved := []\<rparr>"
    using read_log [OF assms(3), of ?off "take ?off (lwFile w)"] ok(3)
    by (simp add: poll_log_def restart_same [OF assms(1,2)] ok(4) mark_of_def Let_def comp_def)
  have step: "log_step w Polled = w\<lparr>lwOut := start @ fst (split (P @ ?now) fresh_text),
      lwFollower := ?lf\<lparr>lfText := after_text ?now fresh_text, lfOff := ?off + length ?more, lfMark := Some (2, length (lwCopy w))\<rparr>,
      lwMoved := []\<rparr>"
    by (simp only: raw ok(5) out after append_assoc)
  show "log_ok start P (log_step w Polled)"
    unfolding step using ok assms(2) by (auto simp: log_ok_def Let_def ended_def)
  show "lwOut (log_step w Polled) = start @ fst (split (lwAll w) fresh_text)" if "log_unread w \<le> maxRead"
    unfolding step using that assms(2) ok(6) by (simp add: log_unread_def ok(1))
qed

lemma poll_moved:
  assumes "log_ok start P w" "lwMoved w \<noteq> []" "log_fine w Polled"
  shows "log_ok start (P @ lwMoved w) (log_step w Polled)"
    and "log_unread w \<le> maxRead \<Longrightarrow> lwOut (log_step w Polled) = start @ fst (split (lwAll w) fresh_text)"
proof -
  let ?lf = "lwFollower w" and ?off = "lfOff (lwFollower w)"
  let ?now = "take maxRead (lwFile w)" and ?old = "P @ lwMoved w"
  have fine: "log_visible w" "length (lwFile w) \<le> maxInt64" "length (lwMoved w) \<le> ?off + maxRead" using assms(3) by simp_all
  have ok: "lwAll w = ?old @ lwFile w" "ended P" "ended (lwMoved w)" "lfOpen ?lf = Some 1"
    "lfText ?lf = after_text (take ?off (lwMoved w)) fresh_text"
    "lwOut w = start @ fst (split (P @ take ?off (lwMoved w)) fresh_text)"
    using assms(1,2) by (auto simp: log_ok_def Let_def)
  have old: "ended ?old" by (rule ended_append [OF ok(2,3)])
  have out: "fst (split ?old fresh_text) = fst (split (P @ take ?off (lwMoved w)) fresh_text) @
      fst (split (drop ?off (lwMoved w)) (after_text (take ?off (lwMoved w)) fresh_text))"
    using split_after_text [of "take ?off (lwMoved w)" "drop ?off (lwMoved w)"]
    by (simp add: split_after_ended [OF ok(2)])
  have step: "log_step w Polled = w\<lparr>lwOut := start @ fst (split (?old @ ?now) fresh_text),
      lwFollower := ?lf\<lparr>lfText := after_text ?now fresh_text, lfOff := length ?now, lfMark := Some (2, length (lwCopy w))\<rparr>,
      lwMoved := []\<rparr>"
    using read_log [OF fine(2), of 0 "[]"] ok(4) out unfolding split_after_ended [OF old]
    by (simp add: poll_log_def restart_moved [OF assms(1,2) fine(1,3)] ok(5,6) mark_of_def Let_def comp_def)
  show "log_ok start ?old (log_step w Polled)"
  proof -
    have e: "ended []" and m: "take (min (length (lwFile w)) maxRead) (lwFile w) = ?now" by (simp add: ended_def, simp add: min_def)
    show ?thesis unfolding step using ok(1,4) old by (simp add: log_ok_def Let_def e m)
  qed
  show "lwOut (log_step w Polled) = start @ fst (split (lwAll w) fresh_text)" if "log_unread w \<le> maxRead"
    unfolding step using that assms(2) by (simp add: log_unread_def ok(1))
qed

lemma poll_ok:
  assumes "log_ok start P w" "log_fine w Polled"
  shows "\<exists>P'. log_ok start P' (log_step w Polled)"
    and "log_unread w \<le> maxRead \<Longrightarrow> lwOut (log_step w Polled) = start @ fst (split (lwAll w) fresh_text)"
proof -
  have len: "length (lwFile w) \<le> maxInt64" using assms(2) by simp
  show "\<exists>P'. log_ok start P' (log_step w Polled)"
    using poll_same(1) [OF assms(1) _ len] poll_moved(1) [OF assms(1) _ assms(2)] by blast
  show "lwOut (log_step w Polled) = start @ fst (split (lwAll w) fresh_text)" if "log_unread w \<le> maxRead"
    using poll_same(2) [OF assms(1) _ len that] poll_moved(2) [OF assms(1) _ assms(2) that] by blast
qed

lemma log_ok_step:
  assumes "log_ok start P w" "log_fine w e"
  shows "\<exists>P'. log_ok start P' (log_step w e)"
proof (cases e)
  case (Appended t)
  then show ?thesis using assms by (intro exI [of _ P]) (auto simp: log_ok_def Let_def)
next
  case Rotated
  then show ?thesis using assms by (intro exI [of _ P]) (auto simp: log_ok_def Let_def ended_append split: if_splits)
next
  case Polled
  then show ?thesis using poll_ok(1) assms by simp
qed

lemma log_ok_run:
  assumes "log_ok start P w" "log_fine_run w es"
  shows "\<exists>P'. log_ok start P' (log_run w es)"
  using assms
proof (induction es arbitrary: w P)
  case (Cons e es)
  then obtain P' where "log_ok start P' (log_step w e)" using log_ok_step by fastforce
  with Cons show ?case by (simp add: log_run_def)
qed (auto simp: log_run_def)

lemma log_run_all: "lwAll (log_run w es) = lwAll w @ appended_text es"
proof (induction es arbitrary: w)
  case (Cons e es)
  have "lwAll (log_step w e) = lwAll w @ (case e of Appended t \<Rightarrow> t | _ \<Rightarrow> [])"
    by (cases e) (simp_all split: option.split prod.split)
  with Cons [of "log_step w e"] show ?case by (simp add: log_run_def appended_text_def)
qed (simp add: log_run_def appended_text_def)


lemma ex_log:
  shows "log_fine_run (log_start [CHR ''a'', CHR 0x0A] []) [Appended [CHR ''b'', CHR 0x0A], Rotated, Appended [CHR ''c'', CHR 0x0A]]"
    and "log_fine (log_run (log_start [CHR ''a'', CHR 0x0A] []) [Appended [CHR ''b'', CHR 0x0A], Rotated, Appended [CHR ''c'', CHR 0x0A]]) Polled"
    and "log_unread (log_run (log_start [CHR ''a'', CHR 0x0A] []) [Appended [CHR ''b'', CHR 0x0A], Rotated, Appended [CHR ''c'', CHR 0x0A]]) \<le> maxRead"
  by (simp_all add: log_start_eq log_run_def maxRead_def maxInt64_def ended_def log_visible_def unchanged_def log_unread_def
      lastn_def tailSize_def Let_def)


section \<open>A copy that was not there\<close>

text \<open>When the copy did not exist at the last poll, a truncation loses what had not been read, also
  the part the copy holds now.\<close>

lemma unmarked_lost:
  assumes "lfMark lf = None" "lfOpen lf = Some i" "length body < lfOff lf"
  shows "map_option (map fst \<circ> fst) (poll_log \<lparr>fPath = Some (i, body), fCopy = copy\<rparr> lf) =
    Some (fst (read_from body maxInt64 0 0 fresh_text))"
  using assms by (simp add: poll_log_def restart_log_def recover_def Let_def comp_def split: prod.split)

end
