(* ===== verification/Utf8.thy ===== *)
theory Utf8
  imports Strconv
begin

text \<open>
  UTF-8 as the standard library's \<open>unicode/utf8\<close> and \<open>strings\<close> packages read it: the length of a
  character, \<open>RuneCountInString\<close>, \<open>RuneStart\<close> and \<open>ToValidUTF8\<close>, and that valid text stays valid where
  it is cut at a character.
\<close>

section \<open>UTF-8 text\<close>

text \<open>The length of the character a text begins with, as \<open>utf8.DecodeRuneInString\<close> accepts it;
  0 where it decodes an error of width 1. A first byte gives the length and the range of the second
  byte.\<close>

definition is_cont :: "char \<Rightarrow> bool" where
  "is_cont c \<longleftrightarrow> 0x80 \<le> (of_char c :: nat) \<and> (of_char c :: nat) < 0xC0"

definition rune_class :: "nat \<Rightarrow> nat \<times> nat \<times> nat" where
  "rune_class n = (if n < 0x80 then (1, 0x80, 0xC0) else if n < 0xC2 then (0, 0, 0) else if n < 0xE0 then (2, 0x80, 0xC0)
     else if n = 0xE0 then (3, 0xA0, 0xC0) else if n = 0xED then (3, 0x80, 0xA0) else if n < 0xF0 then (3, 0x80, 0xC0)
     else if n = 0xF0 then (4, 0x90, 0xC0) else if n < 0xF4 then (4, 0x80, 0xC0) else if n = 0xF4 then (4, 0x80, 0x90) else (0, 0, 0))"

fun rune_len :: "string \<Rightarrow> nat" where
  "rune_len [] = 0"
| "rune_len (c # cs) = (case rune_class (of_char c) of (k, low, high) \<Rightarrow>
     if k - 1 \<le> length cs \<and> list_all is_cont (take (k - 1) cs) \<and> (k \<le> 1 \<or> low \<le> of_char (hd cs) \<and> of_char (hd cs) < high)
     then k else 0)"

text \<open>\<open>utf8.RuneStart\<close> and \<open>strings.ToValidUTF8\<close> with the replacement character.\<close>

definition RuneStart :: "char \<Rightarrow> bool" where "RuneStart c \<longleftrightarrow> \<not> is_cont c"

definition replacement :: string where "replacement = [CHR 0xEF, CHR 0xBF, CHR 0xBD]"

function to_valid :: "bool \<Rightarrow> string \<Rightarrow> string" where
  "to_valid invalid [] = []"
| "to_valid invalid (c # cs) =
     (if rune_len (c # cs) = 0 then (if invalid then [] else replacement) @ to_valid True cs
      else take (rune_len (c # cs)) (c # cs) @ to_valid False (drop (rune_len (c # cs)) (c # cs)))"
  by pat_completeness auto
termination by (relation "measure (\<lambda>(b, s). length s)") auto

declare to_valid.simps(2) [simp del]

definition ToValidUTF8 :: "string \<Rightarrow> string" where "ToValidUTF8 = to_valid False"

inductive valid_utf8 :: "string \<Rightarrow> bool" where
  empty: "valid_utf8 []"
| rune: "rune_len (r @ s) = length r \<Longrightarrow> r \<noteq> [] \<Longrightarrow> valid_utf8 s \<Longrightarrow> valid_utf8 (r @ s)"

text \<open>\<open>utf8.RuneCountInString\<close>: an invalid byte counts as one.\<close>

function RuneCount :: "string \<Rightarrow> nat" where
  "RuneCount s = (if s = [] then 0 else Suc (RuneCount (drop (max 1 (rune_len s)) s)))"
  by pat_completeness auto
termination by (relation "measure length") auto

declare RuneCount.simps [simp del]

section \<open>Valid text stays valid\<close>

lemma rune_len_class:
  "rune_len (c # cs) = n \<Longrightarrow> 0 < n \<Longrightarrow> \<exists>low high. rune_class (of_char c) = (n, low, high) \<and> n - 1 \<le> length cs \<and>
     list_all is_cont (take (n - 1) cs) \<and> (n \<le> 1 \<or> low \<le> (of_char (hd cs) :: nat) \<and> (of_char (hd cs) :: nat) < high)"
proof -
  assume n: "rune_len (c # cs) = n" "0 < n"
  obtain k low high where k: "rune_class (of_char c) = (k, low, high)" by (cases "rune_class (of_char c)")
  let ?good = "k - 1 \<le> length cs \<and> list_all is_cont (take (k - 1) cs) \<and> (k \<le> 1 \<or> low \<le> (of_char (hd cs) :: nat) \<and> (of_char (hd cs) :: nat) < high)"
  have "rune_len (c # cs) = (if ?good then k else 0)" unfolding rune_len.simps k prod.case by (rule refl)
  with n have ?good "k = n" by presburger+
  with k show ?thesis by blast
qed

lemma rune_len_le: "rune_len s \<le> length s"
  by (cases s) (auto split: prod.splits)

lemma rune_len_prefix:
  assumes "rune_len s = n" "0 < n"
  shows "rune_len (take n s @ t) = n"
proof (cases s)
  case (Cons c cs)
  then obtain low high where r: "rune_class (of_char c) = (n, low, high)" "n - 1 \<le> length cs" "list_all is_cont (take (n - 1) cs)"
    "n \<le> 1 \<or> low \<le> (of_char (hd cs) :: nat) \<and> (of_char (hd cs) :: nat) < high"
    using rune_len_class assms by blast
  have t: "take n s = c # take (n - 1) cs" using assms(2) by (cases n) (simp_all add: Cons)
  have h: "hd (take (n - 1) cs @ t) = hd cs" if "1 < n" using that r(2) by (cases cs; cases "n - 1") auto
  have len: "n - 1 \<le> length (take (n - 1) cs @ t)" and same: "take (n - 1) (take (n - 1) cs @ t) = take (n - 1) cs" using r(2) by simp_all
  have "n \<le> 1 \<or> low \<le> (of_char (hd (take (n - 1) cs @ t)) :: nat) \<and> (of_char (hd (take (n - 1) cs @ t)) :: nat) < high"
    using r(4) h by (cases "1 < n") simp_all
  then show ?thesis unfolding t append_Cons rune_len.simps r(1) prod.case same using len r(3) by simp
qed (use assms in simp)

lemma rune_inner:
  assumes "rune_len s = n" "0 < i" "i < n"
  shows "is_cont (s ! i)"
proof (cases s)
  case (Cons c cs)
  have i: "list_all is_cont (take (n - 1) cs)" "n - 1 \<le> length cs" using rune_len_class [of c cs n] assms Cons by auto
  obtain j where j: "i = Suc j" "j < n - 1" using assms(2,3) by (cases i) auto
  then have "cs ! j \<in> set (take (n - 1) cs)" using i(2) by (auto simp: in_set_conv_nth)
  with i(1) show ?thesis by (simp add: Cons j list_all_iff)
qed (use assms in simp)

lemma to_valid_valid: "valid_utf8 (to_valid b s)"
proof (induction b s rule: to_valid.induct)
  case (2 b c cs)
  let ?n = "rune_len (c # cs)"
  show ?case
  proof (cases "?n = 0")
    case True
    have r: "rune_len (replacement @ t) = length replacement" for t
      by (simp add: replacement_def rune_class_def is_cont_def)
    show ?thesis using 2(1) [OF True] True r valid_utf8.rune [of replacement] by (simp add: to_valid.simps(2) replacement_def)
  next
    case False
    have "rune_len (take ?n (c # cs) @ to_valid False (drop ?n (c # cs))) = length (take ?n (c # cs))"
      using rune_len_prefix [of "c # cs" ?n] False rune_len_le [of "c # cs"] by simp
    then show ?thesis using 2(2) [OF False] False valid_utf8.rune [of "take ?n (c # cs)"] by (simp add: to_valid.simps(2))
  qed
qed (simp add: valid_utf8.empty)

lemma to_valid_length: "length (to_valid b s) \<le> 3 * length s"
proof (induction b s rule: to_valid.induct)
  case (2 b c cs)
  let ?n = "rune_len (c # cs)"
  show ?case
  proof (cases "?n = 0")
    case True
    then show ?thesis using 2(1) by (simp add: to_valid.simps(2) replacement_def)
  next
    case False
    then show ?thesis using 2(2) [OF False] rune_len_le [of "c # cs"] by (simp add: to_valid.simps(2) del: rune_len.simps)
  qed
qed simp

text \<open>Text cut where a character begins is still valid.\<close>

lemma valid_take:
  assumes "valid_utf8 s" "i = length s \<or> i = 0 \<or> RuneStart (s ! i)"
  shows "valid_utf8 (take i s)"
  using assms
proof (induction arbitrary: i rule: valid_utf8.induct)
  case (rune r s)
  show ?case
  proof (cases "i < length r")
    case True
    then have "i = 0" using rune.prems rune.hyps rune_inner [of "r @ s" "length r" i] by (auto simp: RuneStart_def)
    then show ?thesis by (simp add: valid_utf8.empty)
  next
    case False
    have "valid_utf8 (take (i - length r) s)" using False rune.prems by (intro rune.IH) (auto simp: nth_append)
    moreover have "rune_len (r @ take (i - length r) s) = length r"
      using rune_len_prefix [OF rune.hyps(1), of "take (i - length r) s"] rune.hyps(2) by simp
    ultimately show ?thesis using valid_utf8.rune [of r] False rune.hyps(2) by simp
  qed
qed (simp add: valid_utf8.empty)

end
