(* ===== verification/Diagnostics.thy ===== *)
theory Diagnostics
  imports Protocol Utf8
begin

text \<open>
  Running an operator's script, \<open>src/internal/modules/diagnostics/module.go\<close>: the request, the
  sandbox's arguments, one script at a time, the capped outputs as valid UTF-8 and the answer cut
  until it fits one message. What the operating system answers (listening, starting the unit, the
  script's end and its output, stopping the unit) is a parameter of each run.
\<close>

section \<open>Requests and results\<close>

definition RequestType :: string where "RequestType = ''diagnostics.run''"
definition ResultType :: string where "ResultType = ''diagnostics.result''"
definition maxScript :: nat where "maxScript = 64 * 1024"
definition maxStream :: nat where "maxStream = 256 * 1024"
definition timeLimit :: duration where "timeLimit = 5 * minute"
definition runtimeMargin :: duration where "runtimeMargin = 30 * second"
definition unitPrefix :: string where "unitPrefix = ''akastr-diagnostics-''"
definition scriptVariable :: string where "scriptVariable = ''AKASTR_DIAGNOSTICS_SCRIPT''"

record diag_request =
  RequestID :: string
  Script :: string

definition typed_request :: "(string \<Rightarrow> json option) \<Rightarrow> diag_request option" where
  "typed_request get = (case (Option.bind (get ''request_id'') as_string, Option.bind (get ''script'') as_string) of
     (Some i, Some s) \<Rightarrow> Some \<lparr>RequestID = i, Script = s\<rparr> | _ \<Rightarrow> None)"

definition DecodeRequest :: "raw \<Rightarrow> diag_request option" where
  "DecodeRequest body = (case DecodeStrict typed_request body [''request_id'', ''script''] of None \<Rightarrow> None
     | Some q \<Rightarrow> if \<not> ValidUUID (RequestID q) \<or> Script q = [] \<or> length (Script q) > maxScript \<or> CHR 0x00 \<in> set (Script q)
               then None else Some q)"

record diag_result =
  dRequestID :: string
  dCode :: string
  dExitCode :: "int option"
  dStdout :: string
  dStderr :: string
  dStdoutTruncated :: bool
  dStderrTruncated :: bool
  dDurationMS :: int

definition no_result :: "string \<Rightarrow> string \<Rightarrow> diag_result" where
  "no_result i c = \<lparr>dRequestID = i, dCode = c, dExitCode = None, dStdout = [], dStderr = [], dStdoutTruncated = False,
     dStderrTruncated = False, dDurationMS = 0\<rparr>"

definition result_json :: "diag_result \<Rightarrow> json" where
  "result_json r = JObj [(''request_id'', JStr (dRequestID r)), (''code'', JStr (dCode r)),
     (''exit_code'', case dExitCode r of None \<Rightarrow> JNull | Some n \<Rightarrow> JNum (Itoa n)), (''stdout'', JStr (dStdout r)),
     (''stderr'', JStr (dStderr r)), (''stdout_truncated'', JBool (dStdoutTruncated r)),
     (''stderr_truncated'', JBool (dStderrTruncated r)), (''duration_ms'', JNum (Itoa (dDurationMS r)))]"

section \<open>Capped output\<close>

record capped =
  capLimit :: nat
  capData :: string
  capTruncated :: bool

definition new_capped :: capped where
  "new_capped = \<lparr>capLimit = maxStream, capData = [], capTruncated = False\<rparr>"

definition capped_Write :: "capped \<Rightarrow> string \<Rightarrow> capped" where
  "capped_Write c p = (let room = capLimit c - length (capData c) in
     if length p > room then c\<lparr>capTruncated := True, capData := capData c @ take room p\<rparr>
     else c\<lparr>capData := capData c @ p\<rparr>)"

definition capped_text :: "capped \<Rightarrow> string" where
  "capped_text c = ToValidUTF8 (capData c)"

section \<open>Fitting one message\<close>

text \<open>\<open>protocol.Encode\<close> with the message identifier and the time text of this call.\<close>

definition Encode :: "string \<times> string \<Rightarrow> string \<Rightarrow> json \<Rightarrow> string" where
  "Encode stamp type body = json_text (JObj [(''protocol'', JStr Version), (''message_id'', JStr (fst stamp)), (''type'', JStr type),
     (''sent_at'', JStr (snd stamp)), (''body'', body)])"

fun half_end :: "string \<Rightarrow> nat \<Rightarrow> nat" where
  "half_end s 0 = 0"
| "half_end s (Suc n) = (if RuneStart (s ! Suc n) then Suc n else half_end s n)"

definition half :: "string \<Rightarrow> string" where
  "half s = take (half_end s (length s div 2)) s"

definition shorten :: "diag_result \<Rightarrow> diag_result" where
  "shorten r = (if length (dStdout r) \<ge> length (dStderr r) then r\<lparr>dStdout := half (dStdout r), dStdoutTruncated := True\<rparr>
     else r\<lparr>dStderr := half (dStderr r), dStderrTruncated := True\<rparr>)"

text \<open>\<open>fit\<close>: the loop ends only when the encoded answer fits; \<open>stamps\<close> gives each round's message
  identifier and time.\<close>

partial_function (option) fit :: "(nat \<Rightarrow> string \<times> string) \<Rightarrow> nat \<Rightarrow> diag_result \<Rightarrow> diag_result option" where
  "fit stamps k r =
     (if length (Encode (stamps k) ResultType (result_json r)) \<le> MaxMessage then Some r
      else fit stamps (Suc k) (shorten r))"

section \<open>The sandbox\<close>

definition localBlock :: "string list" where
  "localBlock = [''--property=IPAddressDeny=localhost'', ''--property=IPAddressAllow=127.0.0.53'']"

definition probeAndRun :: string where
  "probeAndRun = ''if timeout 1 bash -c '' @ [CHR 0x27] @ ''exec 3<>/dev/tcp/127.0.0.1/$0'' @ [CHR 0x27] @ '' '' @ [CHR 0x22] @ ''$1'' @ [CHR 0x22] @
     '' 2>/dev/null; then exit 125; fi; set --; eval '' @ [CHR 0x22] @ ''$'' @ scriptVariable @ [CHR 0x22]"

definition sandboxArguments :: "string \<Rightarrow> string \<Rightarrow> duration \<Rightarrow> string list \<Rightarrow> nat \<Rightarrow> string list" where
  "sandboxArguments unit script limit block probePort =
     [''--quiet'', ''--pipe'', ''--wait'', ''--collect'', ''--service-type=exec'',
      ''--unit='' @ unit, ''--description=akastr-diagnostics'',
      ''--property=DynamicUser=yes'',
      ''--property=NoNewPrivileges=yes'',
      ''--property=AmbientCapabilities=CAP_DAC_READ_SEARCH'',
      ''--property=CapabilityBoundingSet=CAP_DAC_READ_SEARCH'',
      ''--property=ProtectSystem=strict'',
      ''--property=ProtectHome=read-only'',
      ''--property=InaccessiblePaths=/tmp /var/tmp'',
      ''--setenv=TMPDIR=/dev/shm'',
      ''--property=UMask=0077'',
      ''--property=PrivateDevices=yes'',
      ''--property=InaccessiblePaths=-/run/systemd/journal'',
      ''--property=RuntimeMaxSec='' @ Itoa ((limit + runtimeMargin) div second),
      ''--property=TimeoutStopSec=5s'',
      ''--property=MemoryMax=256M'',
      ''--property=CPUQuota=50%'',
      ''--property=TasksMax=64'',
      ''--setenv='' @ scriptVariable @ ''='' @ script] @ block @
     [''/bin/bash'', ''-c'', probeAndRun, ''akastr-diagnostics'', Itoa (int probePort)]"

section \<open>Running a script\<close>

record diag_runner =
  dnSwept :: bool
  dnTimeLimit :: duration
  dnLocalBlock :: "string list"
  dnRunning :: bool

definition new_runner :: "bool \<Rightarrow> diag_runner" where
  "new_runner swept = \<lparr>dnSwept = swept, dnTimeLimit = timeLimit, dnLocalBlock = localBlock, dnRunning = False\<rparr>"

text \<open>How a script ends: it exits (with the code of an \<open>ExitError\<close>, if the wait failed with one), its
  time is up, or the session is over. \<open>deReached\<close>: the sandbox connected to the probe.\<close>

datatype script_end = Exited "int option" | TimeUp | SessionOver

record diag_env =
  deListen :: "nat option"
  deStarts :: bool
  deEnd :: script_end
  deStops :: bool
  deReached :: bool
  deStdout :: "string list"
  deStderr :: "string list"
  deDuration :: int

datatype diag_call = SystemdRun "string list" | SystemctlStop string | KillRun

definition unit_of :: "diag_request \<Rightarrow> string" where
  "unit_of q = unitPrefix @ RequestID q @ ''.service''"

text \<open>The first part of \<open>run\<close>: an answer at once, or the unit is started.\<close>

definition run_start :: "diag_runner \<Rightarrow> diag_env \<Rightarrow> diag_request \<Rightarrow> diag_result + (diag_call \<times> diag_runner)" where
  "run_start r e q =
     (if dnRunning r then Inl (no_result (RequestID q) ''busy'')
      else if \<not> dnSwept r then Inl (no_result (RequestID q) ''sandbox_unavailable'')
      else case deListen e of None \<Rightarrow> Inl (no_result (RequestID q) ''start_failed'')
      | Some p \<Rightarrow>
          if \<not> deStarts e then Inl (no_result (RequestID q) ''start_failed'')
          else Inr (SystemdRun (sandboxArguments (unit_of q) (Script q) (dnTimeLimit r) (dnLocalBlock r) p), r\<lparr>dnRunning := True\<rparr>))"

definition diag_stop :: "diag_env \<Rightarrow> string \<Rightarrow> diag_call list" where
  "diag_stop e unit = SystemctlStop unit # (if deStops e then [] else [KillRun])"

definition exit_of :: "int option \<Rightarrow> int option" where
  "exit_of w = (let exit = (case w of None \<Rightarrow> 0 | Some n \<Rightarrow> n) in if exit \<ge> 0 then Some exit else None)"

text \<open>The second part, once the script has ended: the calls that stop the unit and the result, none
  when nobody is left to answer.\<close>

definition run_end :: "diag_runner \<Rightarrow> diag_env \<Rightarrow> diag_request \<Rightarrow> diag_call list \<times> diag_runner \<times> diag_result option" where
  "run_end r e q =
     (let calls = (case deEnd e of Exited _ \<Rightarrow> [] | _ \<Rightarrow> diag_stop e (unit_of q));
          out = foldl capped_Write new_capped (deStdout e); err = foldl capped_Write new_capped (deStderr e)
      in (calls, r\<lparr>dnRunning := False\<rparr>,
          case deEnd e of SessionOver \<Rightarrow> None
          | _ \<Rightarrow> Some (if deReached e then no_result (RequestID q) ''sandbox_unavailable''
              else \<lparr>dRequestID = RequestID q, dCode = (case deEnd e of Exited _ \<Rightarrow> ''completed'' | _ \<Rightarrow> ''timed_out''),
                    dExitCode = (case deEnd e of Exited w \<Rightarrow> exit_of w | _ \<Rightarrow> None), dStdout = capped_text out, dStderr = capped_text err,
                    dStdoutTruncated = capTruncated out, dStderrTruncated = capTruncated err, dDurationMS = deDuration e\<rparr>)))"

definition diag_run :: "diag_runner \<Rightarrow> diag_env \<Rightarrow> diag_request \<Rightarrow> diag_call list \<times> diag_runner \<times> diag_result option" where
  "diag_run r e q = (case run_start r e q of Inl a \<Rightarrow> ([], r, Some a)
     | Inr (c, r') \<Rightarrow> (case run_end r' e q of (calls, r'', a) \<Rightarrow> (c # calls, r'', a)))"

text \<open>\<open>Answer\<close>; the outer \<open>None\<close> would be a call that never returns.\<close>

definition Answer :: "(nat \<Rightarrow> string \<times> string) \<Rightarrow> diag_runner \<Rightarrow> diag_env \<Rightarrow> raw \<Rightarrow> diag_result option option" where
  "Answer stamps r e body = (case DecodeRequest body of None \<Rightarrow> Some None
     | Some q \<Rightarrow> (case diag_run r e q of (calls, r', None) \<Rightarrow> Some None
         | (calls, r', Some a) \<Rightarrow> map_option Some (fit stamps 0 a)))"

text \<open>\<open>Sweeper.Run\<close>: whether the tries so far have stopped the units of an earlier process.\<close>

fun sweep :: "bool list \<Rightarrow> diag_call list \<times> bool" where
  "sweep [] = ([], False)"
| "sweep (ok # tries) = (if ok then ([SystemctlStop (unitPrefix @ ''*.service'')], True)
     else (case sweep tries of (calls, swept) \<Rightarrow> (SystemctlStop (unitPrefix @ ''*.service'') # calls, swept)))"

section \<open>Cutting in half\<close>

lemma half_end_start: "half_end s n \<le> n" "half_end s n = 0 \<or> RuneStart (s ! half_end s n)"
  by (induction n) auto

lemma half_valid: "valid_utf8 s \<Longrightarrow> valid_utf8 (half s)"
  unfolding half_def using half_end_start(2) [of s "length s div 2"] by (intro valid_take) auto

lemma half_length: "length (half s) \<le> length s div 2"
  unfolding half_def using half_end_start(1) [of s "length s div 2"] by simp

lemma half_prefix: "\<exists>n. half s = take n s"
  by (auto simp: half_def)

section \<open>The answer fits\<close>

lemma escape_char_length: "length (escape_char c) \<le> 6"
  by (simp add: escape_char_def hex4_def Let_def)

lemma escape_length: "length (escape_text s) \<le> 6 * length s"
proof (induction s rule: escape_text.induct)
  case (2 c cs)
  have d: "2 \<le> length cs" if "take 2 cs = [x, y]" for x y using that by (cases cs; cases "tl cs") auto
  consider (line) "c = CHR 0xE2 \<and> take 2 cs = [CHR 0x80, CHR 0xA8]" | (par) "c = CHR 0xE2 \<and> take 2 cs = [CHR 0x80, CHR 0xA9]"
      "\<not> (c = CHR 0xE2 \<and> take 2 cs = [CHR 0x80, CHR 0xA8])"
    | (other) "\<not> (c = CHR 0xE2 \<and> take 2 cs = [CHR 0x80, CHR 0xA8])" "\<not> (c = CHR 0xE2 \<and> take 2 cs = [CHR 0x80, CHR 0xA9])" by blast
  then show ?case
  proof cases
    case line
    then show ?thesis using 2(1) [OF line] d by simp
  next
    case par
    then show ?thesis using 2(2) [OF par(2,1)] d by simp
  next
    case other
    have "escape_text (c # cs) = escape_char c @ escape_text cs" unfolding escape_text.simps if_not_P [OF other(1)] if_not_P [OF other(2)] ..
    then show ?thesis using 2(3) [OF other] escape_char_length [of c] by simp
  qed
qed simp

definition exit_text :: "int option \<Rightarrow> string" where
  "exit_text e = (case e of None \<Rightarrow> ''null'' | Some n \<Rightarrow> Itoa n)"

lemma encode_length:
  "length (Encode st ResultType (result_json r)) = 213 +
     length (escape_text (fst st)) + length (escape_text (snd st)) + length (escape_text (dRequestID r)) + length (escape_text (dCode r)) +
     length (exit_text (dExitCode r)) + length (escape_text (dStdout r)) + length (escape_text (dStderr r)) +
     (if dStdoutTruncated r then 4 else 5) + (if dStderrTruncated r then 4 else 5) + length (Itoa (dDurationMS r))"
  by (simp add: Encode_def result_json_def json_string_def Version_def ResultType_def escape_char_def exit_text_def
      split: option.split)

lemma nat_text_length: "n < 10 ^ k \<Longrightarrow> 0 < k \<Longrightarrow> length (nat_text n) \<le> k"
proof (induction k arbitrary: n)
  case (Suc k)
  show ?case
  proof (cases "n < 10")
    case False
    then have "n div 10 < 10 ^ k" "0 < k" using Suc.prems by (cases k; simp add: less_mult_imp_div_less mult.commute)+
    then show ?thesis using Suc.IH [of "n div 10"] False by (subst nat_text.simps) simp
  qed (subst nat_text.simps, simp)
qed simp

lemma Itoa_length: "\<bar>i\<bar> < 2 ^ 63 \<Longrightarrow> length (Itoa i) \<le> 20"
proof -
  assume i: "\<bar>i\<bar> < 2 ^ 63"
  have "nat i < 10 ^ 19" "nat (- i) < 10 ^ 19" using i by (simp_all add: nat_less_iff)
  then show ?thesis using nat_text_length [of "nat i" 19] nat_text_length [of "nat (- i)" 19] by (simp add: Itoa_def)
qed

text \<open>What a result must satisfy for its envelope to be small: the texts other than the outputs.\<close>

definition small_result :: "diag_result \<Rightarrow> bool" where
  "small_result r \<longleftrightarrow> length (dRequestID r) \<le> 36 \<and> length (dCode r) \<le> 19 \<and> \<bar>dDurationMS r\<bar> < 2 ^ 63 \<and>
     (\<forall>n \<in> set_option (dExitCode r). \<bar>n\<bar> < 2 ^ 63)"

definition stamp_ok :: "string \<times> string \<Rightarrow> bool" where
  "stamp_ok st \<longleftrightarrow> length (fst st) = 36 \<and> list_all (\<lambda>c. c \<in> set (hexits @ ''-'')) (fst st) \<and>
     20 \<le> length (snd st) \<and> length (snd st) \<le> 30 \<and> list_all (\<lambda>c. c \<in> set (digits @ ''-:.TZ'')) (snd st)"

lemma escape_plain: "list_all (\<lambda>c. c \<in> set (hexits @ digits @ ''-:.TZ'')) s \<Longrightarrow> escape_text s = s"
proof (induction s)
  case (Cons c cs)
  have "c \<noteq> CHR 0xE2 \<and> escape_char c = [c]" if "c \<in> set (hexits @ digits @ ''-:.TZ'')"
    using that by (auto simp: hexits_def digits_def escape_char_def)
  with Cons show ?case by simp
qed simp

lemma stamp_escape: "stamp_ok st \<Longrightarrow> escape_text (fst st) = fst st \<and> escape_text (snd st) = snd st"
  by (intro conjI escape_plain) (auto simp: stamp_ok_def list_all_iff)

lemma empty_fits:
  assumes "small_result r" "stamp_ok st" "dStdout r = []" "dStderr r = []"
  shows "length (Encode st ResultType (result_json r)) \<le> MaxMessage"
proof -
  have "length (exit_text (dExitCode r)) \<le> 20"
    using assms(1) Itoa_length by (auto simp: small_result_def exit_text_def split: option.split)
  moreover have "length (Itoa (dDurationMS r)) \<le> 20" using assms(1) Itoa_length by (simp add: small_result_def)
  moreover have "length (escape_text (dRequestID r)) \<le> 6 * 36" "length (escape_text (dCode r)) \<le> 6 * 19"
    using assms(1) escape_length [of "dRequestID r"] escape_length [of "dCode r"] by (auto simp: small_result_def)
  moreover have "length (fst st) \<le> 36" "length (snd st) \<le> 30" using assms(2) by (simp_all add: stamp_ok_def)
  ultimately show ?thesis unfolding encode_length using assms(3,4) stamp_escape [OF assms(2)] by (simp add: MaxMessage_def)
qed

text \<open>What shortening keeps: everything but the outputs, of which it keeps a beginning, and says so.\<close>

definition cut_of :: "string \<Rightarrow> bool \<Rightarrow> string \<Rightarrow> bool \<Rightarrow> bool" where
  "cut_of old told new tnew \<longleftrightarrow> (new = old \<and> tnew = told) \<or> (\<exists>n. new = take n old) \<and> tnew"

definition shortened :: "diag_result \<Rightarrow> diag_result \<Rightarrow> bool" where
  "shortened r r' \<longleftrightarrow> dRequestID r' = dRequestID r \<and> dCode r' = dCode r \<and> dExitCode r' = dExitCode r \<and> dDurationMS r' = dDurationMS r \<and>
     cut_of (dStdout r) (dStdoutTruncated r) (dStdout r') (dStdoutTruncated r') \<and>
     cut_of (dStderr r) (dStderrTruncated r) (dStderr r') (dStderrTruncated r')"

definition valid_outputs :: "diag_result \<Rightarrow> bool" where
  "valid_outputs r \<longleftrightarrow> valid_utf8 (dStdout r) \<and> valid_utf8 (dStderr r)"

lemma cut_of_trans: "cut_of a s b t \<Longrightarrow> cut_of b t c u \<Longrightarrow> cut_of a s c u"
  unfolding cut_of_def by (metis take_take)

lemma shortened_trans: "shortened a b \<Longrightarrow> shortened b c \<Longrightarrow> shortened a c"
  unfolding shortened_def using cut_of_trans by metis

lemma shorten_shortened: "shortened r (shorten r)"
  using half_prefix by (simp add: shortened_def shorten_def cut_of_def)

lemma shorten_keeps: "small_result r \<Longrightarrow> small_result (shorten r)" "valid_outputs r \<Longrightarrow> valid_outputs (shorten r)"
  by (simp_all add: small_result_def shorten_def valid_outputs_def half_valid)

lemma shorten_less:
  assumes "\<not> (dStdout r = [] \<and> dStderr r = [])"
  shows "length (dStdout (shorten r)) + length (dStderr (shorten r)) < length (dStdout r) + length (dStderr r)"
proof (cases "length (dStdout r) \<ge> length (dStderr r)")
  case True
  then have "0 < length (dStdout r)" using assms by auto
  then have "length (half (dStdout r)) < length (dStdout r)" using half_length [of "dStdout r"] by linarith
  with True show ?thesis by (simp add: shorten_def)
next
  case False
  then have "length (half (dStderr r)) < length (dStderr r)" using half_length [of "dStderr r"] by linarith
  with False show ?thesis by (simp add: shorten_def)
qed

lemma fit_ends:
  assumes "\<And>k. stamp_ok (stamps k)" "small_result r"
  shows "\<exists>r' k'. fit stamps k r = Some r' \<and> shortened r r' \<and> small_result r' \<and> (valid_outputs r \<longrightarrow> valid_outputs r') \<and>
    length (Encode (stamps k') ResultType (result_json r')) \<le> MaxMessage"
  using assms(2)
proof (induction "length (dStdout r) + length (dStderr r)" arbitrary: r k rule: less_induct)
  case less
  show ?case
  proof (cases "length (Encode (stamps k) ResultType (result_json r)) \<le> MaxMessage")
    case True
    have "shortened r r" by (simp add: shortened_def cut_of_def)
    with True less.prems show ?thesis by (subst fit.simps) auto
  next
    case False
    then have "\<not> (dStdout r = [] \<and> dStderr r = [])" using empty_fits [OF less.prems assms(1)] by blast
    from less.hyps [OF shorten_less [OF this] shorten_keeps(1) [OF less.prems], of "Suc k"]
    obtain r' k' where r': "fit stamps (Suc k) (shorten r) = Some r'" "shortened (shorten r) r'" "small_result r'"
      "valid_outputs (shorten r) \<longrightarrow> valid_outputs r'" "length (Encode (stamps k') ResultType (result_json r')) \<le> MaxMessage" by blast
    have "fit stamps k r = Some r'" using False r'(1) by (subst fit.simps) simp
    with r' show ?thesis using shortened_trans [OF shorten_shortened r'(2)] shorten_keeps(2) by blast
  qed
qed

text \<open>Another identifier and time change the size by at most ten bytes.\<close>

lemma encode_stamp:
  assumes "stamp_ok a" "stamp_ok b"
  shows "length (Encode b ResultType (result_json r)) \<le> length (Encode a ResultType (result_json r)) + 10"
  using assms stamp_escape [OF assms(1)] stamp_escape [OF assms(2)] by (simp add: encode_length stamp_ok_def)

section \<open>Every answer\<close>

lemma capped_writes:
  "capTruncated (foldl capped_Write c ps) = (capTruncated c \<or> capLimit c < length (capData c @ concat ps))"
  if "length (capData c) \<le> capLimit c"
  using that
proof (induction ps arbitrary: c)
  case (Cons p ps)
  show ?case
    using Cons.IH [of "capped_Write c p"] Cons.prems by (cases "length p > capLimit c - length (capData c)") (auto simp: capped_Write_def)
qed (simp add: capped_Write_def)

lemma capped_data:
  "capData (foldl capped_Write c ps) = take (capLimit c) (capData c @ concat ps)" if "length (capData c) \<le> capLimit c"
  using that
proof (induction ps arbitrary: c)
  case (Cons p ps)
  show ?case
    using Cons.IH [of "capped_Write c p"] Cons.prems by (cases "length p > capLimit c - length (capData c)") (auto simp: capped_Write_def)
qed simp

lemma streams:
  "capData (foldl capped_Write new_capped ps) = take maxStream (concat ps)"
  "capTruncated (foldl capped_Write new_capped ps) = (maxStream < length (concat ps))"
  using capped_data [of new_capped ps] capped_writes [of new_capped ps] by (simp_all add: new_capped_def)

definition diag_codes :: "string list" where
  "diag_codes = [''busy'', ''sandbox_unavailable'', ''start_failed'', ''completed'', ''timed_out'']"

text \<open>What Cloud may rely on in an answer to request \<open>q\<close> after the run \<open>e\<close>.\<close>

definition output_ok :: "string list \<Rightarrow> string \<Rightarrow> bool \<Rightarrow> bool" where
  "output_ok writes out truncated \<longleftrightarrow> valid_utf8 out \<and>
     cut_of (ToValidUTF8 (take maxStream (concat writes))) (maxStream < length (concat writes)) out truncated"

definition answer_ok :: "diag_env \<Rightarrow> diag_request \<Rightarrow> diag_result \<Rightarrow> bool" where
  "answer_ok e q a \<longleftrightarrow> dRequestID a = RequestID q \<and> dCode a \<in> set diag_codes \<and>
     (if dCode a \<in> {''completed'', ''timed_out''} then \<not> deReached e \<and>
        output_ok (deStdout e) (dStdout a) (dStdoutTruncated a) \<and> output_ok (deStderr e) (dStderr a) (dStderrTruncated a)
      else dStdout a = [] \<and> dStderr a = []) \<and>
     (case dExitCode a of None \<Rightarrow> True | Some n \<Rightarrow> dCode a = ''completed'' \<and> 0 \<le> n)"

definition env_ok :: "diag_env \<Rightarrow> bool" where
  "env_ok e \<longleftrightarrow> \<bar>deDuration e\<bar> < 2 ^ 63 \<and> (case deEnd e of Exited (Some n) \<Rightarrow> \<bar>n\<bar> < 2 ^ 63 | _ \<Rightarrow> True)"

lemma DecodeRequest_valid: "DecodeRequest body = Some q \<Longrightarrow> ValidUUID (RequestID q)"
  by (auto simp: DecodeRequest_def split: option.splits if_splits)

lemma run_answer:
  assumes "diag_run r e q = (calls, r', Some a)" "ValidUUID (RequestID q)" "env_ok e"
  shows "answer_ok e q a \<and> small_result a \<and> valid_outputs a"
proof -
  have u: "length (RequestID q) = 36" using assms(2) by (rule ValidUUID_length)
  have none: "answer_ok e q (no_result (RequestID q) c) \<and> small_result (no_result (RequestID q) c) \<and> valid_outputs (no_result (RequestID q) c)"
    if "c \<in> {''busy'', ''sandbox_unavailable'', ''start_failed''}" for c
    using that u by (elim insertE emptyE)
      (simp_all add: answer_ok_def no_result_def diag_codes_def small_result_def valid_outputs_def valid_utf8.empty)
  show ?thesis
  proof (cases "run_start r e q")
    case (Inl x)
    have "x \<in> no_result (RequestID q) ` {''busy'', ''sandbox_unavailable'', ''start_failed''}"
      using Inl by (auto simp: run_start_def split: if_splits option.splits)
    with Inl assms(1) none show ?thesis by (auto simp: diag_run_def)
  next
    case (Inr x)
    have a: "snd (snd (run_end (snd x) e q)) = Some a" using assms(1) Inr by (auto simp: diag_run_def split: prod.splits)
    have v: "valid_utf8 (capped_text c)" for c by (simp add: capped_text_def ToValidUTF8_def to_valid_valid)
    have ok: "output_ok ps (capped_text (foldl capped_Write new_capped ps)) (capTruncated (foldl capped_Write new_capped ps))" for ps
      by (simp add: output_ok_def cut_of_def capped_text_def streams ToValidUTF8_def to_valid_valid)
    show ?thesis
    proof (cases "deReached e")
      case True
      then have "a = no_result (RequestID q) ''sandbox_unavailable''" using a by (auto simp: run_end_def Let_def split: script_end.splits)
      with none show ?thesis by simp
    next
      case False
      then show ?thesis using a u v ok assms(3)
        by (auto simp: run_end_def Let_def answer_ok_def small_result_def valid_outputs_def diag_codes_def env_ok_def exit_of_def
            split: script_end.splits option.splits if_splits)
    qed
  qed
qed

lemma answer_ok_shortened:
  assumes "answer_ok e q a" "shortened a b" "valid_outputs b"
  shows "answer_ok e q b"
proof -
  have same: "dRequestID b = dRequestID a" "dCode b = dCode a" "dExitCode b = dExitCode a"
    and out: "cut_of (dStdout a) (dStdoutTruncated a) (dStdout b) (dStdoutTruncated b)"
      "cut_of (dStderr a) (dStderrTruncated a) (dStderr b) (dStderrTruncated b)" using assms(2) by (auto simp: shortened_def)
  have nil: "cut_of [] t y u \<Longrightarrow> y = []" for t y u by (auto simp: cut_of_def)
  have o: "output_ok ps x t \<Longrightarrow> cut_of x t y u \<Longrightarrow> valid_utf8 y \<Longrightarrow> output_ok ps y u" for ps x t y u
    using cut_of_trans by (auto simp: output_ok_def)
  show ?thesis
    using assms(1,3) out nil o [OF _ out(1)] o [OF _ out(2)] unfolding answer_ok_def same valid_outputs_def by (auto split: if_splits)
qed

lemma Answer_ends:
  assumes "\<And>k. stamp_ok (stamps k)" "env_ok e"
  shows "Answer stamps r e body = Some None \<or> (\<exists>q a k. DecodeRequest body = Some q \<and> Answer stamps r e body = Some (Some a) \<and>
    answer_ok e q a \<and> length (Encode (stamps k) ResultType (result_json a)) \<le> MaxMessage)"
proof (cases "DecodeRequest body")
  case (Some q)
  obtain calls r' x where run: "diag_run r e q = (calls, r', x)" by (cases "diag_run r e q")
  show ?thesis
  proof (cases x)
    case (Some a)
    have a: "answer_ok e q a" "small_result a" "valid_outputs a"
      using run_answer [OF _ DecodeRequest_valid [OF \<open>DecodeRequest body = Some q\<close>] assms(2)] run Some by blast+
    obtain b k where b: "fit stamps 0 a = Some b" "shortened a b" "valid_outputs b"
      "length (Encode (stamps k) ResultType (result_json b)) \<le> MaxMessage" using fit_ends [of stamps, OF assms(1) a(2), of 0] a(3) by blast
    have "Answer stamps r e body = Some (Some b)" using run Some \<open>DecodeRequest body = Some q\<close> b(1) by (simp add: Answer_def)
    with answer_ok_shortened [OF a(1) b(2,3)] b(4) \<open>DecodeRequest body = Some q\<close> show ?thesis by blast
  qed (simp add: Answer_def run Some)
qed (simp add: Answer_def)

text \<open>
  C35. Every call for an answer returns: whatever the script prints, cutting the longer output in
  half ends with an answer that fits one message, for any identifiers and times the envelopes get.
\<close>

theorem answer_returns:
  assumes "\<forall>k. stamp_ok (stamps k)" "env_ok e"
  shows "\<exists>a. Answer stamps r e body = Some a"
  using Answer_ends [OF _ assms(2)] assms(1) by blast

text \<open>
  C36. Every answer is well formed: it names its request and one of the five codes, an exit code
  comes only with a script that completed, and the outputs are valid UTF-8, empty unless the
  script ran without reaching a local port, and otherwise the script's first 256 KiB with invalid
  bytes replaced, or a beginning of that marked as truncated. With any identifier and time the
  message is at most ten bytes over one MiB.
\<close>

theorem answer_well_formed:
  assumes "\<forall>k. stamp_ok (stamps k)" "env_ok e" "Answer stamps r e body = Some (Some a)"
  shows "(\<exists>q. DecodeRequest body = Some q \<and> answer_ok e q a) \<and>
    (\<forall>st. stamp_ok st \<longrightarrow> length (Encode st ResultType (result_json a)) \<le> MaxMessage + 10)"
proof -
  obtain q k where a: "DecodeRequest body = Some q" "answer_ok e q a" "length (Encode (stamps k) ResultType (result_json a)) \<le> MaxMessage"
    using Answer_ends [OF _ assms(2), of stamps r body] assms(1,3) by auto
  moreover have "length (Encode st ResultType (result_json a)) \<le> MaxMessage + 10" if "stamp_ok st" for st
    using encode_stamp [OF _ that, of "stamps k" a] assms(1) a(3) by fastforce
  ultimately show ?thesis by blast
qed

section \<open>An answer larger than one message\<close>

lemma to_valid_ascii: "list_all (\<lambda>c. (of_char c :: nat) < 0x80) s \<Longrightarrow> to_valid False s = s"
  by (induction s) (simp_all add: to_valid.simps(2) rune_class_def)

lemma escape_replicate:
  "escape_text (replicate n CHR ''<'' @ s) = concat (replicate n ([CHR 0x5C] @ ''u003c'')) @ escape_text s"
  "escape_text (replicate m CHR ''a'') = replicate m CHR ''a''"
  by (induction n) (simp_all add: escape_char_def hex4_def digit_of_def hexits_def, induction m, simp_all add: escape_char_def)

definition ex_stamp :: "string \<times> string" where
  "ex_stamp = (''00000000-0000-4000-8000-000000000000'', ''2026-11-01T00:00:00Z'')"

definition ex_stamp_long :: "string \<times> string" where
  "ex_stamp_long = (''00000000-0000-4000-8000-000000000000'', ''2026-11-01T00:00:00.123456789Z'')"

definition ex_body :: raw where
  "ex_body = Doc (JObj [(''request_id'', JStr ''00000000-0000-4000-8000-000000000000''), (''script'', JStr ''ls'')])"

definition ex_printing :: "string \<Rightarrow> diag_env" where
  "ex_printing out = \<lparr>deListen = Some 1024, deStarts = True, deEnd = Exited None, deStops = True, deReached = False,
     deStdout = [out], deStderr = [], deDuration = 0\<rparr>"

definition ex_request :: diag_request where
  "ex_request = \<lparr>RequestID = ''00000000-0000-4000-8000-000000000000'', Script = ''ls''\<rparr>"

lemma ex_stamps: "stamp_ok ex_stamp" "stamp_ok ex_stamp_long"
  by (simp_all add: stamp_ok_def ex_stamp_def ex_stamp_long_def hexits_def digits_def)

lemma ex_request_id: "ValidUUID ''00000000-0000-4000-8000-000000000000''"
  by (auto simp: ValidUUID_def uuidPattern_def hexits_def numeral_eq_Suc)

lemma ex_decode: "DecodeRequest ex_body = Some ex_request"
  by (simp add: DecodeRequest_def ex_body_def ex_request_def decodeRequiredJSON_def typed_request_def obj_size_def obj_get_def
      ex_request_id maxScript_def)

lemma ex_env: "env_ok (ex_printing out)" by (simp add: env_ok_def ex_printing_def)

definition ex_result :: "string \<Rightarrow> diag_result" where
  "ex_result out = \<lparr>dRequestID = ''00000000-0000-4000-8000-000000000000'', dCode = ''completed'', dExitCode = Some 0, dStdout = out,
     dStderr = [], dStdoutTruncated = False, dStderrTruncated = False, dDurationMS = 0\<rparr>"

lemma ex_diag_run:
  assumes "list_all (\<lambda>c. (of_char c :: nat) < 0x80) out" "length out \<le> maxStream"
  shows "\<exists>calls r. diag_run (new_runner True) (ex_printing out) ex_request = (calls, r, Some (ex_result out))"
  using assms to_valid_ascii [OF assms(1)]
  by (simp add: diag_run_def run_start_def new_runner_def ex_printing_def run_end_def Let_def capped_text_def ToValidUTF8_def
      streams exit_of_def ex_result_def ex_request_def)
    (simp add: new_capped_def capped_Write_def)

lemma ex_length:
  "length (Encode st ResultType (result_json (ex_result out))) =
     270 + length (escape_text (fst st)) + length (escape_text (snd st)) + length (escape_text out)"
  by (simp add: encode_length ex_result_def exit_text_def Itoa_def nat_text.simps escape_char_def)

theorem answer_returns_witness: "\<exists>a. Answer (\<lambda>_. ex_stamp) (new_runner True) (ex_printing ''hi'') ex_body = Some a"
  using answer_returns [of "\<lambda>_. ex_stamp"] ex_stamps ex_env by blast

lemma ex_answer:
  assumes "list_all (\<lambda>c. (of_char c :: nat) < 0x80) out" "length out \<le> maxStream"
    and "length (escape_text out) \<le> MaxMessage - 326"
  shows "Answer (\<lambda>_. ex_stamp) (new_runner True) (ex_printing out) ex_body = Some (Some (ex_result out))"
proof -
  obtain calls r where run: "diag_run (new_runner True) (ex_printing out) ex_request = (calls, r, Some (ex_result out))"
    using ex_diag_run [OF assms(1,2)] by blast
  have "fst ex_stamp = ''00000000-0000-4000-8000-000000000000''" "snd ex_stamp = ''2026-11-01T00:00:00Z''"
    by (simp_all add: ex_stamp_def)
  then have "length (Encode ex_stamp ResultType (result_json (ex_result out))) \<le> MaxMessage"
    using assms(3) stamp_escape [OF ex_stamps(1)] by (simp add: ex_length MaxMessage_def)
  then have "fit (\<lambda>_. ex_stamp) 0 (ex_result out) = Some (ex_result out)" by (subst fit.simps) simp
  then show ?thesis by (simp add: Answer_def ex_decode run)
qed

theorem answer_well_formed_witness:
  "length (Encode ex_stamp_long ResultType (result_json (ex_result ''hi''))) \<le> MaxMessage + 10"
proof -
  have "Answer (\<lambda>_. ex_stamp) (new_runner True) (ex_printing ''hi'') ex_body = Some (Some (ex_result ''hi''))"
    by (rule ex_answer) (simp_all add: maxStream_def MaxMessage_def escape_char_def)
  with answer_well_formed [of "\<lambda>_. ex_stamp", OF _ ex_env] ex_stamps show ?thesis by blast
qed

text \<open>
  An answer found to fit may not fit when sent: the envelope is written again with a new
  time, whose text can be longer than the one it was measured with, and the message then exceeds
  one MiB.
\<close>

theorem answer_oversize:
  "\<exists>out a. Answer (\<lambda>_. ex_stamp) (new_runner True) (ex_printing out) ex_body = Some (Some a) \<and>
     MaxMessage < length (Encode ex_stamp_long ResultType (result_json a))"
proof -
  obtain n m :: nat where nm: "6 * n + m = MaxMessage - 326" "n + m \<le> maxStream"
  proof
    show "6 * 174708 + 2 = MaxMessage - 326" "174708 + 2 \<le> maxStream" by (simp_all add: MaxMessage_def maxStream_def)
  qed
  let ?out = "replicate n CHR ''<'' @ replicate m CHR ''a''"
  have len: "length (escape_text ?out) = MaxMessage - 326"
    unfolding escape_replicate using nm(1) by (simp add: length_concat sum_list_replicate)
  have "Answer (\<lambda>_. ex_stamp) (new_runner True) (ex_printing ?out) ex_body = Some (Some (ex_result ?out))"
    by (rule ex_answer) (use nm len in \<open>simp_all add: list_all_iff set_replicate_conv_if\<close>)
  moreover have "fst ex_stamp_long = ''00000000-0000-4000-8000-000000000000''" "snd ex_stamp_long = ''2026-11-01T00:00:00.123456789Z''"
    by (simp_all add: ex_stamp_long_def)
  then have "MaxMessage < length (Encode ex_stamp_long ResultType (result_json (ex_result ?out)))"
    using stamp_escape [OF ex_stamps(2)] by (simp add: ex_length len)
  ultimately show ?thesis by blast
qed

end
