(* ===== verification/Bytes.thy ===== *)
theory Bytes
  imports Net_Policy
begin

text \<open>
  Byte strings: reading and writing little-endian and big-endian fields, and addresses as bytes
  (\<open>encoding/binary\<close> and \<open>netip.AddrFromSlice\<close> as \<open>src/internal/sockdiag/sockdiag.go\<close> and
  \<open>src/internal/modules/ipqualityrunner/script/relay.go\<close> use them).
\<close>

section \<open>Reading\<close>

type_synonym byte = "8 word"

fun le_nat :: "byte list \<Rightarrow> nat" where
  "le_nat [] = 0"
| "le_nat (b # bs) = unat b + 256 * le_nat bs"

definition be_nat :: "byte list \<Rightarrow> nat" where "be_nat bs = le_nat (rev bs)"

definition bytes_at :: "nat \<Rightarrow> nat \<Rightarrow> byte list \<Rightarrow> byte list" where
  "bytes_at off n bs = take n (drop off bs)"

text \<open>\<open>netip.AddrFromSlice\<close> of 4 or 16 bytes.\<close>

definition AddrFromSlice :: "byte list \<Rightarrow> Addr" where
  "AddrFromSlice bs = (if length bs = 4 then V4 (word_of_nat (be_nat bs)) else V6 (word_of_nat (be_nat bs)) [])"

section \<open>Writing\<close>

fun le_bytes :: "nat \<Rightarrow> nat \<Rightarrow> byte list" where
  "le_bytes 0 k = []"
| "le_bytes (Suc n) k = word_of_nat k # le_bytes n (k div 256)"

definition be_bytes :: "nat \<Rightarrow> nat \<Rightarrow> byte list" where "be_bytes n k = rev (le_bytes n k)"

section \<open>Reading back what was written\<close>

lemma le_bytes_length [simp]: "length (le_bytes n k) = n"
  by (induction n arbitrary: k) simp_all

lemma be_bytes_length [simp]: "length (be_bytes n k) = n" by (simp add: be_bytes_def)

lemma le_nat_bytes: "le_nat (le_bytes n k) = k mod 256 ^ n"
proof (induction n arbitrary: k)
  case (Suc n)
  have "unat (word_of_nat k :: byte) = k mod 256" by (simp add: unat_of_nat)
  then show ?case using mod_mult2_eq [of k 256 "256 ^ n"] by (simp add: Suc)
qed simp

lemma be_nat_bytes: "be_nat (be_bytes n k) = k mod 256 ^ n" by (simp add: be_nat_def be_bytes_def le_nat_bytes)

lemma le_nat_append: "le_nat (a @ b) = le_nat a + 256 ^ length a * le_nat b"
  by (induction a) (simp_all add: algebra_simps)

lemma at_skip: "length a \<le> off \<Longrightarrow> bytes_at off n (a @ b) = bytes_at (off - length a) n b"
  by (simp add: bytes_at_def)

lemma at_Cons: "0 < off \<Longrightarrow> bytes_at off n (b # bs) = bytes_at (off - 1) n bs"
  by (cases off) (simp_all add: bytes_at_def)

lemma at_here: "length a = n \<Longrightarrow> bytes_at 0 n (a @ b) = a"
  by (simp add: bytes_at_def)

lemma le_bytes_add: "le_bytes (m + n) k = le_bytes m k @ le_bytes n (k div 256 ^ m)"
  by (induction m arbitrary: k) (simp_all add: div_mult2_eq)

end
