(* ===== verification/Sock_Diag.thy ===== *)
theory Sock_Diag
  imports Ledger Bytes
begin

text \<open>
  The host's TCP connections as the kernel lists them: \<open>src/internal/sockdiag/sockdiag.go\<close>. Messages are
  lists of bytes; multi-byte fields are little-endian where the code reads them in native order
  (the release is for amd64). What the netlink socket delivers is a list of receive results; the
  standard library's framing of a datagram into messages is part of them.
\<close>

section \<open>Parsing one message\<close>

definition sockDiagByFamily :: nat where "sockDiagByFamily = 20"
definition inetDiagInfo :: nat where "inetDiagInfo = 2"
definition diagRequestSize :: nat where "diagRequestSize = 56"
definition diagMessageSize :: nat where "diagMessageSize = 72"
definition bytesAckedAt :: nat where "bytesAckedAt = 120"
definition bytesReceivedAt :: nat where "bytesReceivedAt = 128"

text \<open>The attributes after the message: the two byte counters of the first \<open>INET_DIAG_INFO\<close>.\<close>

definition round4 :: "nat \<Rightarrow> nat" where "round4 n = (n + 3) div 4 * 4"

function diag_attrs :: "byte list \<Rightarrow> (nat \<times> nat) option" where
  "diag_attrs attrs =
     (if length attrs < 4 then None
      else (let len = le_nat (bytes_at 0 2 attrs) in
        if len < 4 \<or> length attrs < len then None
        else if le_nat (bytes_at 2 2 attrs) = inetDiagInfo then
          (let info = drop 4 (take len attrs) in
           if length info < bytesReceivedAt + 8 then None
           else Some (le_nat (bytes_at bytesAckedAt 8 info), le_nat (bytes_at bytesReceivedAt 8 info)))
        else diag_attrs (drop (min (round4 len) (length attrs)) attrs)))"
  by pat_completeness auto
termination by (relation "measure length") (auto simp: round4_def)

declare diag_attrs.simps [simp del]

definition diag_parse :: "byte list \<Rightarrow> sock_conn option" where
  "diag_parse data =
     (if length data < diagMessageSize then None
      else (let family = unat (hd data) in
        if family \<noteq> 10 \<and> family \<noteq> 2 then None
        else (let size = (if family = 10 then 16 else 4) in
          case diag_attrs (drop diagMessageSize data) of None \<Rightarrow> None
          | Some (acked, received) \<Rightarrow>
              Some \<lparr>Cookie = le_nat (bytes_at 44 4 data) + le_nat (bytes_at 48 4 data) * 2 ^ 32,
                 Local = (Unmap (AddrFromSlice (bytes_at 8 size data)), be_nat (bytes_at 4 2 data)),
                 Remote = (Unmap (AddrFromSlice (bytes_at 24 size data)), be_nat (bytes_at 6 2 data)),
                 BytesAcked = acked, BytesReceived = received\<rparr>)))"

section \<open>The request\<close>

text \<open>The states that still carry data, as a mask, and the bytes that ask for one family's sockets with
  their \<open>tcp_info\<close>.\<close>

definition carryingStates :: nat where "carryingStates = 2 ^ 1 + 2 ^ 4 + 2 ^ 5 + 2 ^ 8 + 2 ^ 9 + 2 ^ 11"

definition dump_request :: "nat \<Rightarrow> nat \<Rightarrow> byte list" where
  "dump_request family seq =
     le_bytes 4 (16 + diagRequestSize) @ le_bytes 2 sockDiagByFamily @ le_bytes 2 0x301 @ le_bytes 4 seq @ le_bytes 4 0 @
     [word_of_nat family, 6, 2 ^ (inetDiagInfo - 1), 0] @ le_bytes 4 carryingStates @ replicate 48 0"

lemma dump_request_length: "length (dump_request family seq) = 72"
  by (simp add: dump_request_def)

section \<open>Dumps and notices\<close>

record nl_message =
  nlSeq :: nat
  nlType :: nat
  nlData :: "byte list"

datatype recv = Interrupted | RecvAgain | RecvFailed | Unframed | Datagram "nl_message list"

datatype dump_error = ReadFailed | ParseFailed | Errno "32 word" | ReportedError

datatype dump_state = Reading "sock_conn list" | DumpDone "sock_conn list" | DumpFailed dump_error

fun dump_messages :: "nat \<Rightarrow> nl_message list \<Rightarrow> sock_conn list \<Rightarrow> dump_state" where
  "dump_messages seq [] out = Reading out"
| "dump_messages seq (m # ms) out =
     (if nlSeq m \<noteq> seq then dump_messages seq ms out
      else if nlType m = 3 then DumpDone out
      else if nlType m = 2 then
        DumpFailed (let errno = - (word_of_nat (le_nat (bytes_at 0 4 (nlData m))) :: 32 word)
                    in if 4 \<le> length (nlData m) \<and> errno \<noteq> 0 then Errno errno else ReportedError)
      else (case diag_parse (nlData m) of None \<Rightarrow> dump_messages seq ms out | Some c \<Rightarrow> dump_messages seq ms (out @ [c])))"

text \<open>\<open>dumpFamily\<close> on what the socket delivers: the result and what is left to receive; \<open>None\<close> while
  it still waits. A receive that times out fails.\<close>

fun dumpFamily :: "nat \<Rightarrow> recv list \<Rightarrow> sock_conn list \<Rightarrow> ((dump_error + sock_conn list) \<times> recv list) option" where
  "dumpFamily seq [] out = None"
| "dumpFamily seq (Interrupted # rs) out = dumpFamily seq rs out"
| "dumpFamily seq (RecvAgain # rs) out = Some (Inl ReadFailed, rs)"
| "dumpFamily seq (RecvFailed # rs) out = Some (Inl ReadFailed, rs)"
| "dumpFamily seq (Unframed # rs) out = Some (Inl ParseFailed, rs)"
| "dumpFamily seq (Datagram ms # rs) out = (case dump_messages seq ms out of
     Reading out' \<Rightarrow> dumpFamily seq rs out' | DumpDone out' \<Rightarrow> Some (Inr out', rs) | DumpFailed e \<Rightarrow> Some (Inl e, rs))"

definition TCP :: "recv list \<Rightarrow> (dump_error + sock_conn list) option" where
  "TCP rs = (case dumpFamily 1 rs [] of None \<Rightarrow> None
     | Some (Inl e, rs') \<Rightarrow> Some (Inl e)
     | Some (Inr out, rs') \<Rightarrow> map_option fst (dumpFamily 2 rs' out))"

text \<open>\<open>Closed\<close>: the connections it has passed on, and whether it has ended with an error.\<close>

definition notices :: "nl_message list \<Rightarrow> sock_conn list" where
  "notices ms = List.map_filter (\<lambda>m. if nlType m \<noteq> sockDiagByFamily then None else diag_parse (nlData m)) ms"

fun Closed :: "recv list \<Rightarrow> sock_conn list \<times> bool" where
  "Closed [] = ([], False)"
| "Closed (RecvFailed # rs) = ([], True)"
| "Closed (Datagram ms # rs) = (case Closed rs of (cs, ended) \<Rightarrow> (notices ms @ cs, ended))"
| "Closed (_ # rs) = Closed rs"

section \<open>What the kernel writes\<close>

text \<open>Field encodings, \<open>struct inet_diag_msg\<close> and its attributes, each padded to a multiple of four
  bytes; the numbers are the kernel's own, not the constants of the code.\<close>

definition padding :: "nat \<Rightarrow> nat" where "padding n = (4 - n mod 4) mod 4"

definition attr :: "nat \<Rightarrow> byte list \<Rightarrow> byte list" where
  "attr ty body = le_bytes 2 (4 + length body) @ le_bytes 2 ty @ body @ replicate (padding (length body)) 0"

text \<open>A kernel socket: its fields and the bytes of the message the code does not read.\<close>

record ksock =
  kV6 :: bool
  kLocal :: "128 word"
  kRemote :: "128 word"
  kLocalPort :: "16 word"
  kRemotePort :: "16 word"
  kCookie :: "64 word"
  kAcked :: "64 word"
  kReceived :: "64 word"
  kState :: "byte list"
  kDevice :: "byte list"
  kQueues :: "byte list"
  kAttrs :: "(nat \<times> byte list) list"
  kInfo :: "byte list"
  kMore :: "byte list"
  kLater :: "byte list"

definition address_bytes :: "bool \<Rightarrow> 128 word \<Rightarrow> byte list" where
  "address_bytes v6 a = (if v6 then be_bytes 16 (unat a) else be_bytes 4 (unat a) @ replicate 12 0)"

definition kernel_info :: "ksock \<Rightarrow> byte list" where
  "kernel_info k = kInfo k @ le_bytes 8 (unat (kAcked k)) @ le_bytes 8 (unat (kReceived k)) @ kMore k"

definition kernel_message :: "ksock \<Rightarrow> byte list" where
  "kernel_message k = [if kV6 k then 10 else 2] @ kState k @ be_bytes 2 (unat (kLocalPort k)) @ be_bytes 2 (unat (kRemotePort k)) @
     address_bytes (kV6 k) (kLocal k) @ address_bytes (kV6 k) (kRemote k) @ kDevice k @ le_bytes 8 (unat (kCookie k)) @ kQueues k @
     concat (map (\<lambda>(t, b). attr t b) (kAttrs k)) @ attr 2 (kernel_info k) @ kLater k"

definition ksock_ok :: "ksock \<Rightarrow> bool" where
  "ksock_ok k \<longleftrightarrow> length (kState k) = 3 \<and> length (kDevice k) = 4 \<and> length (kQueues k) = 20 \<and> length (kInfo k) = 120 \<and>
     length (kMore k) < 65000 \<and> list_all (\<lambda>(t, b). t < 65536 \<and> t \<noteq> 2 \<and> length b < 65000) (kAttrs k)"

definition kernel_addr :: "bool \<Rightarrow> 128 word \<Rightarrow> Addr" where
  "kernel_addr v6 a = Unmap (if v6 then V6 a [] else V4 (ucast a))"

definition conn_of :: "ksock \<Rightarrow> sock_conn" where
  "conn_of k = \<lparr>Cookie = unat (kCookie k), Local = (kernel_addr (kV6 k) (kLocal k), unat (kLocalPort k)),
     Remote = (kernel_addr (kV6 k) (kRemote k), unat (kRemotePort k)), BytesAcked = unat (kAcked k), BytesReceived = unat (kReceived k)\<rparr>"

section \<open>Reading back what was written\<close>

lemma round4_ge: "n \<le> round4 n" and round4_add: "round4 (4 + n) = 4 + round4 n"
  unfolding round4_def by presburger+

lemma round4_padding: "round4 n = n + padding n"
proof -
  define q r where "q = n div 4" and "r = n mod 4"
  then have n: "n = 4 * q + r" and "r < 4" by simp_all
  then have "r \<in> {0, 1, 2, 3}" by auto
  then show ?thesis unfolding n by (auto simp: round4_def padding_def)
qed

lemma attr_length: "length (attr ty body) = 4 + round4 (length body)"
  by (simp add: attr_def round4_padding)

lemma attr_fields:
  assumes "length body < 65532" "ty < 65536"
  shows "le_nat (bytes_at 0 2 (attr ty body @ rest)) = 4 + length body" "le_nat (bytes_at 2 2 (attr ty body @ rest)) = ty"
    "drop 4 (take (4 + length body) (attr ty body @ rest)) = body"
proof -
  let ?tail = "body @ replicate (padding (length body)) 0 @ rest"
  have a: "attr ty body @ rest = le_bytes 2 (4 + length body) @ le_bytes 2 ty @ ?tail" by (simp add: attr_def)
  show "le_nat (bytes_at 0 2 (attr ty body @ rest)) = 4 + length body" unfolding a using assms by (simp add: at_here le_nat_bytes)
  show "le_nat (bytes_at 2 2 (attr ty body @ rest)) = ty"
    unfolding a using assms by (simp add: at_skip at_here le_nat_bytes)
  show "drop 4 (take (4 + length body) (attr ty body @ rest)) = body" unfolding a by (simp add: drop_take)
qed

lemma attrs_other:
  assumes "length body < 65000" "ty < 65536" "ty \<noteq> 2"
  shows "diag_attrs (attr ty body @ rest) = diag_attrs rest"
proof -
  let ?all = "attr ty body @ rest"
  have f: "le_nat (bytes_at 0 2 ?all) = 4 + length body" "le_nat (bytes_at 2 2 ?all) = ty" using attr_fields assms by simp_all
  have len: "length ?all = 4 + round4 (length body) + length rest" by (simp add: attr_length)
  have "drop (min (round4 (4 + length body)) (length ?all)) ?all = rest" unfolding len round4_add by (simp add: attr_length)
  moreover have "\<not> length ?all < 4" "\<not> length ?all < 4 + length body" using len round4_ge [of "length body"] by simp_all
  ultimately show ?thesis using assms(3) by (subst diag_attrs.simps) (simp add: f Let_def inetDiagInfo_def del: length_append)
qed

lemma attrs_info:
  assumes "length info < 65532" "136 \<le> length info"
  shows "diag_attrs (attr 2 info @ rest) = Some (le_nat (bytes_at bytesAckedAt 8 info), le_nat (bytes_at bytesReceivedAt 8 info))"
proof -
  let ?all = "attr 2 info @ rest"
  have f: "le_nat (bytes_at 0 2 ?all) = 4 + length info" "le_nat (bytes_at 2 2 ?all) = 2" "drop 4 (take (4 + length info) ?all) = info"
    using attr_fields [of info 2] assms(1) by simp_all
  have "\<not> length ?all < 4" "\<not> length ?all < 4 + length info" using round4_ge [of "length info"] by (simp_all add: attr_length)
  then show ?thesis using assms(2)
    by (subst diag_attrs.simps) (simp add: f Let_def inetDiagInfo_def bytesReceivedAt_def del: length_append take_append drop_append)
qed

lemma unat_64: "unat (w :: 64 word) < 2 ^ 64"
  using unsigned_less [where 'a = nat, of w] by simp

lemma attrs_all:
  assumes "ksock_ok k"
  shows "diag_attrs (concat (map (\<lambda>(t, b). attr t b) (kAttrs k)) @ attr 2 (kernel_info k) @ kLater k) =
    Some (unat (kAcked k), unat (kReceived k))"
proof -
  have skip: "list_all (\<lambda>(t, b). t < 65536 \<and> t \<noteq> 2 \<and> length b < 65000) as \<Longrightarrow>
      diag_attrs (concat (map (\<lambda>(t, b). attr t b) as) @ rest) = diag_attrs rest" for as rest
    by (induction as) (auto simp: attrs_other)
  have small: "unat w mod 18446744073709551616 = unat w" for w :: "64 word" using unat_64 [of w] by simp
  have "length (kernel_info k) < 65532" "136 \<le> length (kernel_info k)" using assms by (auto simp: ksock_ok_def kernel_info_def)
  moreover have "le_nat (bytes_at bytesAckedAt 8 (kernel_info k)) = unat (kAcked k)"
    "le_nat (bytes_at bytesReceivedAt 8 (kernel_info k)) = unat (kReceived k)"
    using assms by (simp_all add: ksock_ok_def kernel_info_def bytesAckedAt_def bytesReceivedAt_def at_skip at_here le_nat_bytes small)
  ultimately show ?thesis using assms attrs_info skip by (simp add: ksock_ok_def)
qed

lemma cookie_bytes: "le_bytes 8 k = le_bytes 4 k @ le_bytes 4 (k div 2 ^ 32)"
  using le_bytes_add [of 4 4 k] by simp

lemma cookie_value: "k < 2 ^ 64 \<Longrightarrow> (k :: nat) mod 2 ^ 32 + k div 2 ^ 32 mod 2 ^ 32 * 2 ^ 32 = k"
  using mod_div_mult_eq [of k "2 ^ 32"] by (simp add: less_mult_imp_div_less)

lemma address_read:
  "Unmap (AddrFromSlice (bytes_at 0 (if v6 then 16 else 4) (address_bytes v6 a @ rest))) = kernel_addr v6 a"
proof (cases v6)
  case True
  have "unat a mod 2 ^ 128 = unat a" using unsigned_less [where 'a = nat, of a] by simp
  then have "(word_of_nat (unat a mod 256 ^ 16) :: 128 word) = a" by (simp add: word_unat_eq_iff)
  then show ?thesis using True by (simp add: address_bytes_def AddrFromSlice_def at_here be_nat_bytes kernel_addr_def)
next
  case False
  have "(word_of_nat (unat a mod 256 ^ 4) :: 32 word) = ucast a"
    by (simp add: word_unat_eq_iff unsigned_ucast_eq unsigned_of_nat take_bit_eq_mod)
  then show ?thesis using False by (simp add: address_bytes_def AddrFromSlice_def at_here be_nat_bytes kernel_addr_def)
qed

lemma address_length [simp]: "length (address_bytes v6 a) = 16" by (simp add: address_bytes_def)

lemma port_value: "unat (w :: 16 word) mod 65536 = unat w"
  using unsigned_less [where 'a = nat, of w] by simp

lemma parse_kernel:
  assumes "ksock_ok k"
  shows "diag_parse (kernel_message k) = Some (conn_of k)"
proof -
  let ?rest = "concat (map (\<lambda>(t, b). attr t b) (kAttrs k)) @ attr 2 (kernel_info k) @ kLater k"
  let ?size = "if kV6 k then 16 else 4 :: nat" and ?m = "kernel_message k"
  have len: "length (kState k) = 3" "length (kDevice k) = 4" "length (kQueues k) = 20" using assms by (simp_all add: ksock_ok_def)
  note m = kernel_message_def cookie_bytes append_assoc
  have p: "be_nat (bytes_at 4 2 ?m) = unat (kLocalPort k)" "be_nat (bytes_at 6 2 ?m) = unat (kRemotePort k)"
    unfolding m by (simp_all add: at_skip at_Cons at_here len be_nat_bytes port_value)
  have a: "Unmap (AddrFromSlice (bytes_at 8 ?size ?m)) = kernel_addr (kV6 k) (kLocal k)"
    "Unmap (AddrFromSlice (bytes_at 24 ?size ?m)) = kernel_addr (kV6 k) (kRemote k)"
    unfolding m by (simp_all add: at_skip at_Cons len address_read del: if_split)
  have c: "le_nat (bytes_at 44 4 ?m) = unat (kCookie k) mod 2 ^ 32" "le_nat (bytes_at 48 4 ?m) = unat (kCookie k) div 2 ^ 32 mod 2 ^ 32"
    unfolding m by (simp_all add: at_skip at_Cons at_here len le_nat_bytes)
  have d: "drop 72 ?m = ?rest" "72 \<le> length ?m" unfolding m by (simp_all add: len)
  have h: "hd ?m = (if kV6 k then 10 else 2)" unfolding m by simp
  have f: "unat (hd ?m) = (if kV6 k then 10 else 2)" unfolding h by simp
  show ?thesis
    unfolding diag_parse_def Let_def f diagMessageSize_def d(1) attrs_all [OF assms] option.case prod.case p
    using d(2) a c cookie_value [OF unat_64, of "kCookie k"] by (cases "kV6 k") (simp_all add: conn_of_def)
qed

section \<open>A dump is complete\<close>

text \<open>The kernel's answer to one request: its messages for this sequence number are the sockets', in
  order, then the end; they come in any number of datagrams, between interrupted receives and
  among messages for others.\<close>

definition socket_message :: "nat \<Rightarrow> ksock \<Rightarrow> nl_message" where
  "socket_message seq k = \<lparr>nlSeq = seq, nlType = 20, nlData = kernel_message k\<rparr>"

fun recv_messages :: "recv list \<Rightarrow> nl_message list" where
  "recv_messages [] = []"
| "recv_messages (Datagram ms # rs) = ms @ recv_messages rs"
| "recv_messages (_ # rs) = recv_messages rs"

fun delivered :: "recv \<Rightarrow> bool" where
  "delivered Interrupted = True"
| "delivered (Datagram ms) = True"
| "delivered _ = False"

definition delivers :: "nat \<Rightarrow> ksock list \<Rightarrow> recv list \<Rightarrow> bool" where
  "delivers seq ks rs \<longleftrightarrow> (\<exists>pre a d b. rs = pre @ [Datagram (a @ d # b)] \<and> list_all delivered pre \<and>
     filter (\<lambda>m. nlSeq m = seq) (recv_messages pre @ a) = map (socket_message seq) ks \<and> nlSeq d = seq \<and> nlType d = 3)"

lemma dump_messages_all:
  assumes "filter (\<lambda>m. nlSeq m = seq) ms = map (socket_message seq) ks" "list_all ksock_ok ks"
  shows "dump_messages seq (ms @ rest) out = dump_messages seq rest (out @ map conn_of ks)"
  using assms
proof (induction ms arbitrary: ks out)
  case (Cons m ms)
  show ?case
  proof (cases "nlSeq m = seq")
    case True
    then obtain k ks' where k: "ks = k # ks'" "m = socket_message seq k" using Cons.prems(1) by (cases ks) auto
    have "diag_parse (nlData m) = Some (conn_of k)" "nlType m = 20"
      using parse_kernel Cons.prems(2) k by (simp_all add: socket_message_def)
    then show ?thesis using Cons k True by simp
  qed (use Cons in simp)
qed simp

lemma dumpFamily_all:
  assumes "list_all delivered pre" "filter (\<lambda>m. nlSeq m = seq) (recv_messages pre @ a) = map (socket_message seq) ks"
    and "list_all ksock_ok ks" "nlSeq d = seq" "nlType d = 3"
  shows "dumpFamily seq (pre @ Datagram (a @ d # b) # behind) out = Some (Inr (out @ map conn_of ks), behind)"
  using assms(1,2,3)
proof (induction pre arbitrary: ks out)
  case Nil
  then show ?case using dump_messages_all [of seq a ks "d # b" out] assms(4,5) by simp
next
  case (Cons r pre)
  show ?case
  proof (cases r)
    case (Datagram ms)
    have "filter (\<lambda>m. nlSeq m = seq) ms @ filter (\<lambda>m. nlSeq m = seq) (recv_messages pre @ a) = map (socket_message seq) ks"
      using Cons.prems(2) Datagram by simp
    then obtain k1 k2 where ks: "ks = k1 @ k2" "filter (\<lambda>m. nlSeq m = seq) ms = map (socket_message seq) k1"
      "filter (\<lambda>m. nlSeq m = seq) (recv_messages pre @ a) = map (socket_message seq) k2"
      unfolding append_eq_map_conv by blast
    have "dump_messages seq ms out = Reading (out @ map conn_of k1)"
      using dump_messages_all [OF ks(2), of "[]" out] Cons.prems(3) ks(1) by simp
    with Cons.IH [OF _ ks(3), of "out @ map conn_of k1"] Cons.prems Datagram ks(1) show ?thesis by simp
  qed (use Cons in auto)
qed

lemma delivers_dump:
  assumes "delivers seq ks rs" "list_all ksock_ok ks"
  shows "dumpFamily seq (rs @ behind) out = Some (Inr (out @ map conn_of ks), behind)"
  using assms dumpFamily_all unfolding delivers_def by fastforce

text \<open>
  C28. A dump is complete and exact: if the kernel answers both requests, in any number of
  datagrams and among interruptions and other messages, the list holds exactly its sockets of both
  families in order, each with the cookie, the ports, the unmapped addresses and the two byte
  counters the kernel wrote, whatever other attributes and fields the messages carry.
\<close>

theorem tcp_dump_exact:
  assumes "delivers 1 ks4 rs4" "delivers 2 ks6 rs6" "list_all ksock_ok (ks4 @ ks6)"
  shows "TCP (rs4 @ rs6) = Some (Inr (map conn_of (ks4 @ ks6)))"
  using delivers_dump [OF assms(1), of rs6 "[]"] delivers_dump [OF assms(2), of "[]" "map conn_of ks4"] assms(3)
  by (simp add: TCP_def)

text \<open>A close notice of a socket is passed on with the same fields.\<close>

lemma closed_exact:
  "list_all ksock_ok ks \<Longrightarrow> Closed [Datagram (map (socket_message seq) ks)] = (map conn_of ks, False)"
  by (induction ks) (auto simp: notices_def map_filter_simps socket_message_def sockDiagByFamily_def parse_kernel)

definition ex_ksock :: ksock where
  "ex_ksock = \<lparr>kV6 = True, kLocal = 0xFFFF0A000001, kRemote = 0xFFFF08080808, kLocalPort = 443, kRemotePort = 50000, kCookie = 0x100000002,
     kAcked = 300, kReceived = 70000, kState = replicate 3 0, kDevice = replicate 4 0, kQueues = replicate 20 0, kAttrs = [(8, [1])],
     kInfo = replicate 120 0, kMore = [], kLater = []\<rparr>"

theorem tcp_dump_exact_witness:
  "TCP ([Datagram [\<lparr>nlSeq = 1, nlType = 3, nlData = []\<rparr>]] @
       [Interrupted, Datagram [socket_message 2 ex_ksock], Datagram [\<lparr>nlSeq = 2, nlType = 3, nlData = []\<rparr>]]) =
   Some (Inr [\<lparr>Cookie = 0x100000002, Local = (V4 0x0A000001, 443), Remote = (V4 0x08080808, 50000), BytesAcked = 300, BytesReceived = 70000\<rparr>])"
proof -
  have 1: "delivers 1 [] [Datagram [\<lparr>nlSeq = 1, nlType = 3, nlData = []\<rparr>]]"
    unfolding delivers_def by (intro exI [of _ "[]"]) simp
  have 2: "delivers 2 [ex_ksock] [Interrupted, Datagram [socket_message 2 ex_ksock], Datagram [\<lparr>nlSeq = 2, nlType = 3, nlData = []\<rparr>]]"
    unfolding delivers_def by (intro exI [of _ "[Interrupted, Datagram [socket_message 2 ex_ksock]]"] exI [of _ "[]"])
      (simp add: socket_message_def)
  have 3: "list_all ksock_ok ([] @ [ex_ksock])" by (simp add: ksock_ok_def ex_ksock_def)
  have c: "conn_of ex_ksock = \<lparr>Cookie = 0x100000002, Local = (V4 0x0A000001, 443), Remote = (V4 0x08080808, 50000), BytesAcked = 300, BytesReceived = 70000\<rparr>"
    by (simp add: conn_of_def ex_ksock_def kernel_addr_def Unmap_def mapped4_def)
  show ?thesis using tcp_dump_exact [OF 1 2 3] by (simp add: c)
qed

end
