(* ===== verification/Panel_Client.thy ===== *)
theory Panel_Client
  imports Xui_Apply
begin

text \<open>
  The client of the local panel, \<open>src/internal/panel/panel.go\<close>: the path and body of each call, how an
  answer is read, and one repetition of a call after a new login. What the panel answers is a
  parameter. A JSON body is its document; the members of a map come in no particular order.
\<close>

section \<open>Paths\<close>

text \<open>\<open>url.PathEscape\<close>: letters, digits and a few signs stay, every other byte is written in hexadecimal.\<close>

definition path_plain :: string where
  "path_plain = lower @ upper @ digits @ ''-_.~$&+:=@''"

definition upper_hex :: string where "upper_hex = ''0123456789ABCDEF''"

definition escape_byte :: "char \<Rightarrow> string" where
  "escape_byte c = (if c \<in> set path_plain then [c]
     else [CHR ''%'', upper_hex ! ((of_char c :: nat) div 16), upper_hex ! ((of_char c :: nat) mod 16)])"

definition PathEscape :: "string \<Rightarrow> string" where
  "PathEscape s = concat (map escape_byte s)"

text \<open>What a server reads back from such a segment.\<close>

definition hex_value :: "char \<Rightarrow> nat" where
  "hex_value c = (case map_of (zip upper_hex [0..<16]) c of None \<Rightarrow> 0 | Some n \<Rightarrow> n)"

fun path_unescape :: "string \<Rightarrow> string" where
  "path_unescape (c # h # l # cs) = (if c = CHR ''%'' then char_of (16 * hex_value h + hex_value l) # path_unescape cs
     else c # path_unescape (h # l # cs))"
| "path_unescape cs = cs"

section \<open>Requests\<close>

datatype panel_body = NoBody | Form "(string \<times> string) list" | JsonBody json

record panel_request =
  pqPath :: string
  pqBody :: panel_body

definition clientBody :: "int \<Rightarrow> client_map \<Rightarrow> json" where
  "clientBody n c = JObj [(''id'', JNum (Itoa n)), (''settings'', JStr (json_text (JObj [(''clients'', JArr [JObj c])])))]"

definition inboundsPath :: string where "inboundsPath = ''panel/api/inbounds/''"

fun request_of :: "panel_call \<Rightarrow> panel_request" where
  "request_of ListInbounds = \<lparr>pqPath = inboundsPath @ ''list'', pqBody = NoBody\<rparr>"
| "request_of (AddClient n c) = \<lparr>pqPath = inboundsPath @ ''addClient'', pqBody = JsonBody (clientBody n c)\<rparr>"
| "request_of (UpdateClient n i c) = \<lparr>pqPath = inboundsPath @ ''updateClient/'' @ PathEscape i, pqBody = JsonBody (clientBody n c)\<rparr>"
| "request_of (DeleteClient n i) = \<lparr>pqPath = inboundsPath @ Itoa n @ ''/delClient/'' @ PathEscape i, pqBody = JsonBody (JObj [])\<rparr>"
| "request_of (ResetTraffic n m) = \<lparr>pqPath = inboundsPath @ Itoa n @ ''/resetClientTraffic/'' @ PathEscape m, pqBody = JsonBody (JObj [])\<rparr>"
| "request_of Restart = \<lparr>pqPath = ''panel/api/server/restartXrayService'', pqBody = JsonBody (JObj [])\<rparr>"

definition template_request :: panel_request where
  "template_request = \<lparr>pqPath = ''panel/xray/'', pqBody = Form []\<rparr>"

definition save_template_request :: "(string \<times> json) list \<Rightarrow> string \<Rightarrow> panel_request" where
  "save_template_request config testURL = \<lparr>pqPath = ''panel/xray/update'',
     pqBody = Form [(''xraySetting'', json_text (JObj config)), (''outboundTestUrl'', testURL)]\<rparr>"

definition login_request :: "string \<Rightarrow> string \<Rightarrow> panel_request" where
  "login_request username password = \<lparr>pqPath = ''login'', pqBody = JsonBody (JObj [(''username'', JStr username), (''password'', JStr password)])\<rparr>"

section \<open>Answers\<close>

definition maxReply :: nat where "maxReply = 8 * 1024 * 1024"

text \<open>The request cannot be made, gets no whole answer, or gets a status and a body of so many bytes.\<close>

datatype panel_answer = Unmade | Unanswered | Answered int nat raw

definition html :: "raw \<Rightarrow> bool" where
  "html r = (case r of BadRaw s \<Rightarrow> HasPrefix (TrimSpace s) ''<'' | _ \<Rightarrow> False)"

definition panelReply :: "raw \<Rightarrow> (bool \<times> raw) option" where
  "panelReply r = (case r of
      Doc (JObj kvs) \<Rightarrow> (case field False as_bool kvs ''success'' of None \<Rightarrow> None
        | Some ok \<Rightarrow> Some (ok, case struct_get kvs ''obj'' of None \<Rightarrow> NoRaw | Some j \<Rightarrow> Doc j))
    | Doc JNull \<Rightarrow> Some (False, NoRaw)
    | _ \<Rightarrow> None)"

datatype panel_outcome = Expired | PanelFailed string | PanelOK raw

definition panel_read :: "panel_answer \<Rightarrow> panel_outcome" where
  "panel_read a = (case a of
      Unmade \<Rightarrow> PanelFailed ''xui_request_invalid''
    | Unanswered \<Rightarrow> PanelFailed ''xui_request_unknown''
    | Answered status n r \<Rightarrow>
        if status \<in> {401, 403, 404} \<or> html r then Expired
        else if status \<noteq> 200 then PanelFailed ''xui_http_failed''
        else if maxReply < n then PanelFailed ''xui_response_invalid''
        else (case panelReply r of None \<Rightarrow> PanelFailed ''xui_response_invalid''
          | Some (ok, obj) \<Rightarrow> if ok then PanelOK obj else PanelFailed ''xui_business_failed''))"

text \<open>\<open>call\<close>: the result, decoded by \<open>out\<close>, and the requests sent. \<open>ask\<close> answers a request after those
  already sent.\<close>

definition loginFailed :: string where "loginFailed = ''xui_login_failed''"

definition panel_result :: "(raw \<Rightarrow> 'a option) \<Rightarrow> panel_outcome \<Rightarrow> string + 'a" where
  "panel_result out o' = (case o' of Expired \<Rightarrow> Inl loginFailed | PanelFailed e \<Rightarrow> Inl e
     | PanelOK obj \<Rightarrow> (case out obj of None \<Rightarrow> Inl ''xui_response_invalid'' | Some a \<Rightarrow> Inr a))"

definition client_call :: "(panel_request list \<Rightarrow> panel_request \<Rightarrow> panel_answer) \<Rightarrow> panel_request \<Rightarrow> (raw \<Rightarrow> 'a option) \<Rightarrow> panel_request \<Rightarrow>
    (string + 'a) \<times> panel_request list" where
  "client_call ask login out q =
     (case panel_read (ask [] q) of
        Expired \<Rightarrow> (case panel_read (ask [q] login) of
            PanelOK _ \<Rightarrow> (panel_result out (panel_read (ask [q, login] q)), [q, login, q])
          | _ \<Rightarrow> (Inl loginFailed, [q, login]))
      | o' \<Rightarrow> (panel_result out o', [q]))"

section \<open>Which client a request names\<close>

lemma upper_hex_values: "map hex_value upper_hex = [0..<16]"
  by code_simp

lemma upper_hex_value:
  assumes "n < 16"
  shows "hex_value (upper_hex ! n) = n"
proof -
  have "n < length upper_hex" using assms by (simp add: upper_hex_def)
  then have "hex_value (upper_hex ! n) = map hex_value upper_hex ! n" by simp
  then show ?thesis using assms by (simp only: upper_hex_values nth_upt)
qed

lemma unescape_byte: "path_unescape (escape_byte c @ rest) = c # path_unescape rest"
proof (cases "c \<in> set path_plain")
  case True
  then have "c \<noteq> CHR ''%''" by (auto simp: path_plain_def lower_def upper_def digits_def)
  with True show ?thesis by (cases rest rule: path_unescape.cases) (auto simp: escape_byte_def)
next
  case False
  have "(of_char c :: nat) mod 256 = of_char c" by simp
  then have "(of_char c :: nat) < 256" by (metis mod_less_divisor zero_less_numeral)
  then have "hex_value (upper_hex ! ((of_char c :: nat) div 16)) = of_char c div 16" "hex_value (upper_hex ! ((of_char c :: nat) mod 16)) = of_char c mod 16"
    by (simp_all add: upper_hex_value less_mult_imp_div_less)
  then have "char_of (16 * hex_value (upper_hex ! ((of_char c :: nat) div 16)) + hex_value (upper_hex ! ((of_char c :: nat) mod 16))) = c"
    by (simp only: mult_div_mod_eq char_of_char)
  with False show ?thesis by (simp add: escape_byte_def)
qed

lemma PathEscape_roundtrip: "path_unescape (PathEscape s) = s"
proof (induction s)
  case (Cons c s)
  then show ?case using unescape_byte [of c "PathEscape s"] by (simp add: PathEscape_def)
qed (simp add: PathEscape_def)

lemma PathEscape_inject: "PathEscape s = PathEscape t \<Longrightarrow> s = t"
  by (metis PathEscape_roundtrip)

lemma char_256: "(of_char c :: nat) < 256"
  by (metis of_char_mod_256 mod_less_divisor zero_less_numeral)

lemma upper_hex_char: "k < 16 \<Longrightarrow> upper_hex ! k \<noteq> CHR ''/''"
  by (auto simp: less_Suc_eq numeral_eq_Suc upper_hex_def)

lemma PathEscape_no_slash: "CHR ''/'' \<notin> set (PathEscape s)"
proof -
  have "CHR ''/'' \<notin> set (escape_byte c)" for c
  proof -
    have "(of_char c :: nat) div 16 < 16" "(of_char c :: nat) mod 16 < 16" using char_256 [of c] by (simp_all add: less_mult_imp_div_less)
    then have "upper_hex ! ((of_char c :: nat) div 16) \<noteq> CHR ''/''" "upper_hex ! ((of_char c :: nat) mod 16) \<noteq> CHR ''/''"
      by (simp_all add: upper_hex_char)
    then show ?thesis by (auto simp: escape_byte_def path_plain_def lower_def upper_def digits_def)
  qed
  then show ?thesis by (auto simp: PathEscape_def)
qed

lemma Itoa_no_slash: "CHR ''/'' \<notin> set (Itoa n)" "CHR ''u'' \<notin> set (Itoa n)"
proof -
  have d: "c \<in> set (nat_text k) \<Longrightarrow> c \<in> set digits" for c k using nat_text_digits [of k] by blast
  show "CHR ''/'' \<notin> set (Itoa n)" "CHR ''u'' \<notin> set (Itoa n)" using d by (auto simp: Itoa_def digits_def)
qed

lemma segment_inject: "CHR ''/'' \<notin> set a \<Longrightarrow> CHR ''/'' \<notin> set b \<Longrightarrow> a @ CHR ''/'' # x = b @ CHR ''/'' # y \<longleftrightarrow> a = b \<and> x = y"
  by (induction a arbitrary: b; case_tac b) auto

text \<open>A call that names a client: its path, and the inbound where the path has it.\<close>

fun names_client :: "panel_call \<Rightarrow> (string \<times> int option \<times> string) option" where
  "names_client (UpdateClient n i c) = Some (''update'', None, i)"
| "names_client (DeleteClient n i) = Some (''delete'', Some n, i)"
| "names_client (ResetTraffic n m) = Some (''reset'', Some n, m)"
| "names_client _ = None"

fun int64_call :: "panel_call \<Rightarrow> bool" where
  "int64_call (DeleteClient n i) \<longleftrightarrow> - (2 ^ 63) \<le> n \<and> n < 2 ^ 63"
| "int64_call (ResetTraffic n m) \<longleftrightarrow> - (2 ^ 63) \<le> n \<and> n < 2 ^ 63"
| "int64_call _ \<longleftrightarrow> True"

text \<open>The two segments after the common path.\<close>

fun path_parts :: "panel_call \<Rightarrow> string \<times> string" where
  "path_parts (UpdateClient n i c) = (''updateClient'', PathEscape i)"
| "path_parts (DeleteClient n i) = (Itoa n, ''delClient'' @ CHR ''/'' # PathEscape i)"
| "path_parts (ResetTraffic n m) = (Itoa n, ''resetClientTraffic'' @ CHR ''/'' # PathEscape m)"
| "path_parts _ = ([], [])"

lemma path_split:
  assumes "names_client c = Some x"
  shows "pqPath (request_of c) = inboundsPath @ fst (path_parts c) @ CHR ''/'' # snd (path_parts c)" "CHR ''/'' \<notin> set (fst (path_parts c))"
  using assms Itoa_no_slash by (cases c; simp)+

lemma update_not_Itoa: "''updateClient'' \<noteq> Itoa n"
  using Itoa_no_slash(2) [of n] by (metis list.set_intros(1))

lemma same_parts:
  assumes "names_client c = Some x" "names_client d = Some y" "int64_call c" "int64_call d" "path_parts c = path_parts d"
  shows "x = y"
proof (cases c)
  case (UpdateClient n i k)
  then show ?thesis using assms update_not_Itoa PathEscape_inject by (cases d) auto
next
  case (DeleteClient n i)
  then show ?thesis using assms update_not_Itoa [symmetric] PathEscape_inject Itoa_inject by (cases d) auto
next
  case (ResetTraffic n i)
  then show ?thesis using assms update_not_Itoa [symmetric] PathEscape_inject Itoa_inject by (cases d) auto
qed (use assms(1) in auto)

text \<open>
  A request names one client: two calls that update, delete or reset clients and have the same
  path are the same kind of call for the same identity, in the same inbound where the path names
  it, whatever bytes the identities hold; the panel reads the identity back from the path exactly.
\<close>

theorem path_names_client:
  assumes "names_client c = Some x" "names_client d = Some y" "int64_call c" "int64_call d" "pqPath (request_of c) = pqPath (request_of d)"
  shows "x = y \<and> (\<exists>p. pqPath (request_of c) = p @ CHR ''/'' # PathEscape (snd (snd x)) \<and> path_unescape (PathEscape (snd (snd x))) = snd (snd x))"
proof -
  have "fst (path_parts c) @ CHR ''/'' # snd (path_parts c) = fst (path_parts d) @ CHR ''/'' # snd (path_parts d)"
    using assms(5) path_split(1) [OF assms(1)] path_split(1) [OF assms(2)] by simp
  then have "path_parts c = path_parts d"
    using segment_inject [OF path_split(2) [OF assms(1)] path_split(2) [OF assms(2)]] by (simp add: prod_eq_iff)
  then have "x = y" by (rule same_parts [OF assms(1-4)])
  moreover have "\<exists>p. pqPath (request_of c) = p @ CHR ''/'' # PathEscape (snd (snd x))"
    using assms(1) by (cases c) auto
  ultimately show ?thesis by (simp add: PathEscape_roundtrip)
qed

theorem path_names_client_witness:
  "path_unescape (PathEscape ''a/b'') = ''a/b'' \<and> (\<exists>p. pqPath (request_of (DeleteClient 3 ''a/b'')) = p @ CHR ''/'' # PathEscape ''a/b'')"
  using path_names_client [of "DeleteClient 3 ''a/b''" _ "DeleteClient 3 ''a/b''"] by simp

section \<open>How often a request is sent\<close>

text \<open>
  A call is repeated only when that is safe: a request is sent again, once, only if the panel
  refused it for an expired session and then accepted the login; after any other answer, above
  all one that leaves open whether it was carried out, nothing more is sent. A call succeeds
  exactly when the last request was answered with success and a body of the expected form.
\<close>

theorem call_repeats_safely:
  assumes "client_call ask login out q = (res, sent)"
  shows "(if panel_read (ask [] q) \<noteq> Expired then sent = [q]
      else if \<exists>obj. panel_read (ask [q] login) = PanelOK obj then sent = [q, login, q] else sent = [q, login]) \<and>
    (\<forall>a. res = Inr a \<longleftrightarrow> length sent \<noteq> 2 \<and> (\<exists>obj. panel_read (ask (butlast sent) q) = PanelOK obj \<and> out obj = Some a))"
  using assms by (auto simp: client_call_def panel_result_def split: panel_outcome.splits option.splits)

definition ex_panel :: "panel_request list \<Rightarrow> panel_request \<Rightarrow> panel_answer" where
  "ex_panel sent q = (if sent = [] then Answered 401 0 NoRaw else Answered 200 20 (Doc (JObj [(''success'', JBool True), (''obj'', JStr ''x'')])))"

theorem call_repeats_safely_witness:
  "snd (client_call ex_panel (login_request ''u'' ''p'') Some (request_of Restart)) = [request_of Restart, login_request ''u'' ''p'', request_of Restart]"
proof -
  have o: "panel_read (ex_panel [] q) = Expired" "sent \<noteq> [] \<Longrightarrow> panel_read (ex_panel sent q) = PanelOK (Doc (JStr ''x''))" for q sent
    by (simp_all add: ex_panel_def panel_read_def panelReply_def html_def maxReply_def field_def struct_get_simps)
  show ?thesis using call_repeats_safely [of ex_panel "login_request ''u'' ''p''" Some "request_of Restart", OF prod.collapse [symmetric]] o by simp
qed

end
