(* ===== verification/Ip_Observer.thy ===== *)
theory Ip_Observer
  imports Net_Policy
begin

text \<open>
  Observing the node's public address: \<open>src/internal/modules/ipwatch/observer.go\<close>. The sources are asked
  in order until one answers with a public address of the family. What each source answers and
  whether the operation was cancelled meanwhile are parameters.
\<close>

datatype Family = IPv4 | IPv6

definition maxResponseBytes :: nat where "maxResponseBytes = 4096"

definition parsePlainAddress :: "string \<Rightarrow> string" where
  "parsePlainAddress body = TrimSpace body"

fun trace_address :: "string list \<Rightarrow> string" where
  "trace_address [] = []"
| "trace_address (l # ls) = (let t = TrimSpace l in if HasPrefix t ''ip='' then TrimSpace (drop 3 t) else trace_address ls)"

definition parseCloudflareTrace :: "string \<Rightarrow> string" where
  "parseCloudflareTrace body = trace_address (Split (CHR 0x0A) body)"

record source =
  srcURL :: string
  srcParse :: "string \<Rightarrow> string"

definition trace_source :: source where
  "trace_source = \<lparr>srcURL = ''https://www.cloudflare.com/cdn-cgi/trace'', srcParse = parseCloudflareTrace\<rparr>"

fun familyResources :: "Family \<Rightarrow> source list" where
  "familyResources IPv4 = [\<lparr>srcURL = ''https://api.ipify.org'', srcParse = parsePlainAddress\<rparr>, trace_source]"
| "familyResources IPv6 = [\<lparr>srcURL = ''https://api6.ipify.org'', srcParse = parsePlainAddress\<rparr>, trace_source]"

text \<open>\<open>fetch\<close> of a source's answer, its status and body; \<open>None\<close> when it does not answer.\<close>

definition of_family :: "Family \<Rightarrow> Addr \<Rightarrow> bool" where
  "of_family f a = (case f of IPv4 \<Rightarrow> Is4 a | IPv6 \<Rightarrow> Is6 a)"

definition public_of :: "Family \<Rightarrow> Addr \<Rightarrow> bool" where
  "public_of f a = (case f of IPv4 \<Rightarrow> IsPublicIPv4 a | IPv6 \<Rightarrow> IsPublicIPv6 a)"

definition fetch :: "(int \<times> string) option \<Rightarrow> source \<Rightarrow> Family \<Rightarrow> Addr option" where
  "fetch answer src f = (case answer of None \<Rightarrow> None
     | Some (status, body) \<Rightarrow>
         if status \<noteq> 200 then None
         else if maxResponseBytes < length body then None
         else (case ParseAddr (srcParse src body) of None \<Rightarrow> None
           | Some a \<Rightarrow> let u = Unmap a in if of_family f u \<and> public_of f u then Some u else None))"

text \<open>\<open>Observe\<close>: the address and its source, or whether it failed because of the cancellation. The
  cancellation is seen after each failure.\<close>

fun observe_from :: "(string \<Rightarrow> (int \<times> string) option) \<Rightarrow> (string \<Rightarrow> bool) \<Rightarrow> Family \<Rightarrow> source list \<Rightarrow> bool + (Addr \<times> string)" where
  "observe_from answer cancelled f [] = Inl False"
| "observe_from answer cancelled f (s # ss) = (case fetch (answer (srcURL s)) s f of
     Some a \<Rightarrow> Inr (a, srcURL s)
   | None \<Rightarrow> if cancelled (srcURL s) then Inl True else observe_from answer cancelled f ss)"

definition Observe :: "(string \<Rightarrow> (int \<times> string) option) \<Rightarrow> (string \<Rightarrow> bool) \<Rightarrow> Family \<Rightarrow> bool + (Addr \<times> string)" where
  "Observe answer cancelled f = observe_from answer cancelled f (familyResources f)"

section \<open>What is observed\<close>

lemma fetch_good: "fetch answer s f = Some a \<Longrightarrow> of_family f a \<and> public_of f a \<and> Unmap a = a"
  by (auto simp: fetch_def Unmap_def Let_def split: option.splits if_splits Addr.splits)

text \<open>
  An observation is a public address of the asked family, as the first source that had one said:
  the second source counts only when the first gave nothing usable and the operation was not
  cancelled.
\<close>

theorem observe_first_usable:
  "Observe answer cancelled f = Inr (a, url) \<longleftrightarrow>
     (\<exists>first second. familyResources f = [first, second] \<and>
       (url = srcURL first \<and> fetch (answer url) first f = Some a \<or>
        url = srcURL second \<and> fetch (answer (srcURL first)) first f = None \<and> \<not> cancelled (srcURL first) \<and> fetch (answer url) second f = Some a))
     \<and> of_family f a \<and> public_of f a \<and> Unmap a = a"
  using fetch_good by (cases f) (auto simp: Observe_def split: option.splits if_splits)

text \<open>A source that answers with the text of a public IPv4 address and a line end is understood.\<close>

lemma plain_answer:
  assumes "IsPublicIPv4 (V4 w)" "TrimSpace body = String4 w" "length body \<le> maxResponseBytes"
  shows "fetch (Some (200, body)) \<lparr>srcURL = u, srcParse = parsePlainAddress\<rparr> IPv4 = Some (V4 w)"
  using assms ParseAddr_String4 [of w]
  by (simp add: fetch_def parsePlainAddress_def Unmap_def of_family_def public_of_def Is4_def Let_def)

end
