(* ===== verification/Xray_Process.thy ===== *)
theory Xray_Process
  imports Protocol Text_Tools
begin

text \<open>
  Finding the one Xray process 3x-ui runs and reading what it was started with
  (\<open>src/internal/xray/process/process.go\<close>), and what its configuration says of the access log
  (\<open>locate\<close> of \<open>src/internal/xray/accesslog/proc.go\<close>). The proc directory is a list of entries, each
  file of an entry readable or not.
\<close>

section \<open>The proc directory\<close>

record proc_entry =
  pName :: string
  pExe :: "string option"
  pStat :: "string option"
  pCwd :: "string option"
  pCmdline :: "string option"
  pEnviron :: "string option"

record Xray =
  xDir :: proc_entry
  xCwd :: string

datatype process_error = Unlisted | FoundProcesses nat | LinkUnreadable | FileUnreadable | NoConfigArg

definition after_last :: "char \<Rightarrow> string \<Rightarrow> string" where
  "after_last c s = rev (takeWhile (\<lambda>d. d \<noteq> c) (rev s))"

definition parent :: "string option \<Rightarrow> string" where
  "parent stat = (case stat of None \<Rightarrow> []
     | Some s \<Rightarrow> (let fs = Fields (after_last (CHR '')'') s) in if length fs < 2 then [] else fs ! 1))"

definition xray_binary :: "string \<Rightarrow> bool" where
  "xray_binary exe = HasPrefix (Base exe) ''xray-linux-''"

definition is_xray :: "string \<Rightarrow> proc_entry \<Rightarrow> bool" where
  "is_xray self e \<longleftrightarrow> Atoi (pName e) \<noteq> None \<and> (case pExe e of None \<Rightarrow> False | Some exe \<Rightarrow> xray_binary exe) \<and> parent (pStat e) \<noteq> self"

definition Find :: "int \<Rightarrow> proc_entry list option \<Rightarrow> process_error + Xray" where
  "Find pid dirs = (case dirs of None \<Rightarrow> Inl Unlisted
     | Some ds \<Rightarrow> (case filter (is_xray (Itoa pid)) ds of
         [e] \<Rightarrow> (case pCwd e of None \<Rightarrow> Inl LinkUnreadable | Some cwd \<Rightarrow> Inr \<lparr>xDir = e, xCwd = cwd\<rparr>)
       | es \<Rightarrow> Inl (FoundProcesses (length es))))"

section \<open>What it was started with\<close>

fun flag_value :: "string list \<Rightarrow> string \<Rightarrow> string list \<Rightarrow> string option" where
  "flag_value [] arg rest = None"
| "flag_value (f # fs) arg rest =
     (if arg = f \<and> rest \<noteq> [] then Some (hd rest)
      else if HasPrefix arg (f @ ''='') then Some (drop (length f + 1) arg)
      else flag_value fs arg rest)"

fun configArg :: "string list \<Rightarrow> string" where
  "configArg [] = []"
| "configArg (arg # rest) = (case flag_value [''-c'', ''-config'', ''--config''] arg rest of Some v \<Rightarrow> v | None \<Rightarrow> configArg rest)"

definition Resolve :: "Xray \<Rightarrow> string \<Rightarrow> string" where
  "Resolve x path = (if IsAbs path then path else Clean (xCwd x @ ''/'' @ path))"

definition process_Config :: "Xray \<Rightarrow> process_error + string" where
  "process_Config x = (case pCmdline (xDir x) of None \<Rightarrow> Inl FileUnreadable
     | Some c \<Rightarrow> (let config = configArg (Split (CHR 0x00) (rev (dropWhile (\<lambda>b. b = CHR 0x00) (rev c)))) in
         if config = [] then Inl NoConfigArg else Inr (Resolve x config)))"

definition PID :: "Xray \<Rightarrow> string" where "PID x = pName (xDir x)"

definition Binary :: "Xray \<Rightarrow> string option" where "Binary x = pExe (xDir x)"

fun environ_entry :: "string \<Rightarrow> string list \<Rightarrow> string option" where
  "environ_entry key [] = None"
| "environ_entry key (e # es) = (if HasPrefix e (key @ ''='') then Some (drop (length key + 1) e) else environ_entry key es)"

fun environ_flag :: "string list \<Rightarrow> string list \<Rightarrow> (string \<times> string) option" where
  "environ_flag [] es = None"
| "environ_flag (key # keys) es = (case environ_entry key es of Some v \<Rightarrow> Some (key, v) | None \<Rightarrow> environ_flag keys es)"

text \<open>\<open>flag\<close>: \<open>None\<close> when the environment cannot be read, \<open>Some None\<close> when it has neither entry.\<close>

definition process_flag :: "Xray \<Rightarrow> string list \<Rightarrow> (string \<times> string) option option" where
  "process_flag x keys = map_option (\<lambda>env. environ_flag keys (Split (CHR 0x00) env)) (pEnviron (xDir x))"

definition AssetEnv :: "Xray \<Rightarrow> string list option" where
  "AssetEnv x = (case process_flag x [''xray.location.asset'', ''XRAY_LOCATION_ASSET''] of None \<Rightarrow> None
     | Some None \<Rightarrow> Some [] | Some (Some (key, v)) \<Rightarrow> Some [key @ ''='' @ v])"

definition Spliced :: "Xray \<Rightarrow> bool option" where
  "Spliced x = (case process_flag x [''xray.buf.splice'', ''XRAY_BUF_SPLICE''] of None \<Rightarrow> None
     | Some None \<Rightarrow> Some True | Some (Some (key, v)) \<Rightarrow> Some (v = ''auto'' \<or> v = ''enable''))"

section \<open>The access log of the running Xray\<close>

record running =
  ruLog :: string
  ruBlackholes :: "string list"

datatype locate_error = ProcessError process_error | ConfigUnreadable | ConfigInvalid | LogOff | LogMasked

definition typed_log :: "json \<Rightarrow> (string \<times> string) option" where
  "typed_log j = (case j of
      JObj kvs \<Rightarrow> (case (field [] as_string kvs ''access'', field [] as_string kvs ''maskAddress'') of (Some a, Some m) \<Rightarrow> Some (a, m) | _ \<Rightarrow> None)
    | _ \<Rightarrow> None)"

definition typed_outbound :: "json \<Rightarrow> (string \<times> string) option" where
  "typed_outbound j = (case j of
      JNull \<Rightarrow> Some ([], [])
    | JObj kvs \<Rightarrow> (case (field [] as_string kvs ''tag'', field [] as_string kvs ''protocol'') of (Some t, Some p) \<Rightarrow> Some (t, p) | _ \<Rightarrow> None)
    | _ \<Rightarrow> None)"

definition typed_outbounds :: "json \<Rightarrow> (string \<times> string) list option" where
  "typed_outbounds j = (case j of
      JArr js \<Rightarrow> if list_all (\<lambda>x. typed_outbound x \<noteq> None) js then Some (List.map_filter typed_outbound js) else None
    | _ \<Rightarrow> None)"

definition typed_running :: "raw \<Rightarrow> ((string \<times> string) \<times> (string \<times> string) list) option" where
  "typed_running r = (case r of
      Doc JNull \<Rightarrow> Some (([], []), [])
    | Doc (JObj kvs) \<Rightarrow> (case (field ([], []) typed_log kvs ''log'', field [] typed_outbounds kvs ''outbounds'') of
          (Some l, Some os) \<Rightarrow> Some (l, os) | _ \<Rightarrow> None)
    | _ \<Rightarrow> None)"

definition locate :: "int \<Rightarrow> proc_entry list option \<Rightarrow> (string \<Rightarrow> raw option) \<Rightarrow> locate_error + running" where
  "locate pid dirs read = (case Find pid dirs of Inl e \<Rightarrow> Inl (ProcessError e)
     | Inr x \<Rightarrow> (case process_Config x of Inl e \<Rightarrow> Inl (ProcessError e)
         | Inr config \<Rightarrow> (case read config of None \<Rightarrow> Inl ConfigUnreadable
             | Some r \<Rightarrow> (case typed_running r of None \<Rightarrow> Inl ConfigInvalid
                 | Some ((access, masked), os) \<Rightarrow>
                     if access = [] \<or> access = ''none'' then Inl LogOff
                     else if masked \<noteq> [] then Inl LogMasked
                     else Inr \<lparr>ruLog = Resolve x access,
                       ruBlackholes = map fst (filter (\<lambda>(t, p). p = ''blackhole'' \<and> t \<noteq> []) os)\<rparr>))))"

section \<open>The process is the right one\<close>

text \<open>
  A process as the kernel knows it and its entry: the second field of \<open>stat\<close> is the command name in
  parentheses, which may hold spaces and parentheses itself; what follows is a state letter and numbers.
\<close>

record kproc =
  kPid :: nat
  kComm :: string
  kState :: char
  kParent :: nat
  kNumbers :: "int list"
  kExe :: "string option"
  kCwd :: "string option"
  kCmdline :: "string option"
  kEnviron :: "string option"

definition kstat :: "kproc \<Rightarrow> string" where
  "kstat k = Itoa (int (kPid k)) @ '' ('' @ kComm k @ '') '' @ [kState k] @ '' '' @ Itoa (int (kParent k)) @
     concat (map (\<lambda>n. CHR '' '' # Itoa n) (kNumbers k)) @ [CHR 0x0A]"

definition kentry :: "kproc \<Rightarrow> proc_entry" where
  "kentry k = \<lparr>pName = Itoa (int (kPid k)), pExe = kExe k, pStat = Some (kstat k), pCwd = kCwd k, pCmdline = kCmdline k, pEnviron = kEnviron k\<rparr>"

datatype proc_item = Other proc_entry | Process kproc

definition item_ok :: "proc_item \<Rightarrow> bool" where
  "item_ok i = (case i of Other e \<Rightarrow> Atoi (pName e) = None
     | Process k \<Rightarrow> kPid k < 2 ^ 22 \<and> kParent k < 2 ^ 22 \<and> \<not> is_space (kState k) \<and> kState k \<noteq> CHR '')'')"

definition item_entry :: "proc_item \<Rightarrow> proc_entry" where
  "item_entry i = (case i of Other e \<Rightarrow> e | Process k \<Rightarrow> kentry k)"

text \<open>The Xray processes of other parents than the Agent.\<close>

fun xrays :: "nat \<Rightarrow> proc_item list \<Rightarrow> kproc list" where
  "xrays self [] = []"
| "xrays self (Other e # is) = xrays self is"
| "xrays self (Process k # is) =
     (if (case kExe k of None \<Rightarrow> False | Some exe \<Rightarrow> xray_binary exe) \<and> kParent k \<noteq> self then k # xrays self is else xrays self is)"

lemma Itoa_chars: "set (Itoa i) \<subseteq> insert (CHR ''-'') (set digits)"
  using nat_text_digits by (auto simp: Itoa_def)

lemma Itoa_word: "is_word (Itoa i)"
  using Itoa_chars [of i] nat_text_nonempty [of "nat i"] by (auto simp: is_word_def Itoa_def list_all_iff is_space_def digits_def)

lemma Itoa_no_paren: "CHR '')'' \<notin> set (Itoa i)"
  using Itoa_chars [of i] by (auto simp: digits_def)

lemma after_last_append: "c \<notin> set t \<Longrightarrow> after_last c (s @ c # t) = t"
  by (subst after_last_def) (simp, subst takeWhile_append2, auto)

lemma parent_kstat:
  assumes "\<not> is_space (kState k)" and "kState k \<noteq> CHR '')''"
  shows "parent (Some (kstat k)) = Itoa (int (kParent k))"
proof -
  define tail where "tail = concat (map (\<lambda>n. CHR '' '' # Itoa n) (kNumbers k)) @ [CHR 0x0A]"
  have sp: "is_space (CHR '' '')"
    by (simp add: is_space_def)
  have ends: "tail = [] \<or> is_space (hd tail)"
    by (cases "kNumbers k") (simp_all add: tail_def is_space_def)
  have "CHR '')'' \<notin> set tail"
    using Itoa_no_paren by (auto simp: tail_def)
  then have "CHR '')'' \<notin> set ('' '' @ [kState k] @ '' '' @ Itoa (int (kParent k)) @ tail)"
    using assms(2) Itoa_no_paren by auto
  then have "after_last (CHR '')'') (kstat k) = '' '' @ [kState k] @ '' '' @ Itoa (int (kParent k)) @ tail"
    using after_last_append [of "CHR '')''" _ "Itoa (int (kPid k)) @ '' ('' @ kComm k"] by (simp add: kstat_def tail_def)
  moreover have "is_word [kState k]"
    using assms(1) by (simp add: is_word_def)
  then have "Fields ([kState k] @ '' '' @ Itoa (int (kParent k)) @ tail) = [kState k] # Itoa (int (kParent k)) # Fields tail"
    using Fields_word [of "[kState k]" "'' '' @ Itoa (int (kParent k)) @ tail"] Fields_word [OF Itoa_word ends] sp
    by (simp add: Fields_space)
  ultimately show ?thesis
    using sp by (simp add: parent_def Fields_space Let_def)
qed

lemma pid_int64: "n < 2 ^ 22 \<Longrightarrow> - (2 ^ 63) \<le> int n \<and> int n < 2 ^ 63"
  by simp

lemma is_xray_item:
  assumes "item_ok i" and "self < 2 ^ 22"
  shows "is_xray (Itoa (int self)) (item_entry i) \<longleftrightarrow>
    (\<exists>k. i = Process k \<and> (case kExe k of None \<Rightarrow> False | Some exe \<Rightarrow> xray_binary exe) \<and> kParent k \<noteq> self)"
proof (cases i)
  case (Other e)
  then show ?thesis
    using assms(1) by (simp add: item_ok_def item_entry_def is_xray_def)
next
  case (Process k)
  have "kPid k < 2 ^ 22" and b: "kParent k < 2 ^ 22" and p: "parent (Some (kstat k)) = Itoa (int (kParent k))"
    using assms(1) parent_kstat by (simp_all add: Process item_ok_def)
  then have "Atoi (Itoa (int (kPid k))) \<noteq> None"
    using pid_int64 Atoi_Itoa by (metis option.distinct(1))
  moreover have "Itoa (int (kParent k)) = Itoa (int self) \<longleftrightarrow> kParent k = self"
    using Itoa_inject [of "int (kParent k)" "int self"] pid_int64 [OF b] pid_int64 [OF assms(2)] by auto
  ultimately show ?thesis
    by (simp add: Process item_entry_def kentry_def is_xray_def p)
qed

lemma filter_xrays:
  "list_all item_ok items \<Longrightarrow> self < 2 ^ 22 \<Longrightarrow> filter (is_xray (Itoa (int self))) (map item_entry items) = map kentry (xrays self items)"
proof (induction items)
  case (Cons i items)
  have "is_xray (Itoa (int self)) (item_entry i) \<longleftrightarrow>
      (\<exists>k. i = Process k \<and> (case kExe k of None \<Rightarrow> False | Some exe \<Rightarrow> xray_binary exe) \<and> kParent k \<noteq> self)"
    using Cons.prems by (intro is_xray_item) simp_all
  then show ?case
    using Cons by (cases i) (simp_all add: item_entry_def)
qed simp

text \<open>
  Whatever a process calls itself, \<open>Find\<close> gives a process exactly when it is the only one that runs
  an Xray binary of 3x-ui and was not started by the Agent, and its working directory can be read;
  with none or several it fails with their number.
\<close>

theorem find_exact:
  assumes "list_all item_ok items" and "self < 2 ^ 22"
  shows "(Find (int self) (Some (map item_entry items)) = Inr x \<longleftrightarrow>
      (\<exists>k cwd. xrays self items = [k] \<and> kCwd k = Some cwd \<and> x = \<lparr>xDir = kentry k, xCwd = cwd\<rparr>)) \<and>
    (length (xrays self items) \<noteq> 1 \<longrightarrow>
      Find (int self) (Some (map item_entry items)) = Inl (FoundProcesses (length (xrays self items))))"
proof (cases "xrays self items" rule: remdups_adj.cases)
  case 1
  then show ?thesis
    by (simp add: Find_def filter_xrays [OF assms])
next
  case (2 k)
  then show ?thesis
    by (cases "kCwd k") (auto simp: Find_def filter_xrays [OF assms] kentry_def)
next
  case (3 k l ks)
  then show ?thesis
    by (simp add: Find_def filter_xrays [OF assms])
qed

definition ex_xray :: kproc where
  "ex_xray = \<lparr>kPid = 31, kComm = ''x) S 12 ('', kState = CHR ''S'', kParent = 7, kNumbers = [31], kExe = Some ''/usr/local/x-ui/bin/xray-linux-amd64'',
     kCwd = Some ''/usr/local/x-ui'', kCmdline = None, kEnviron = None\<rparr>"

theorem find_exact_witness:
  "Find 12 (Some [kentry (ex_xray\<lparr>kPid := 40, kParent := 12\<rparr>), kentry ex_xray]) = Inr \<lparr>xDir = kentry ex_xray, xCwd = ''/usr/local/x-ui''\<rparr>"
proof -
  have ok: "list_all item_ok [Process (ex_xray\<lparr>kPid := 40, kParent := 12\<rparr>), Process ex_xray]"
    by (simp add: item_ok_def ex_xray_def is_space_def)
  have "xray_binary ''/usr/local/x-ui/bin/xray-linux-amd64''"
    by code_simp
  then have "xrays 12 [Process (ex_xray\<lparr>kPid := 40, kParent := 12\<rparr>), Process ex_xray] = [ex_xray]"
    by (simp add: ex_xray_def)
  then show ?thesis
    using find_exact [OF ok, of 12 "\<lparr>xDir = kentry ex_xray, xCwd = ''/usr/local/x-ui''\<rparr>"] by (simp add: item_entry_def ex_xray_def)
qed

section \<open>The environment flags\<close>

text \<open>The splice flag of Xray: on when neither name is set, otherwise as its own name, then its
  environment name says; and the log that is followed is one that names the clients.\<close>

lemma spliced_default: "Spliced x = Some b \<Longrightarrow>
  b \<longleftrightarrow> (case process_flag x [''xray.buf.splice'', ''XRAY_BUF_SPLICE''] of Some (Some (_, v)) \<Rightarrow> v \<in> {''auto'', ''enable''} | _ \<Rightarrow> True)"
  by (auto simp: Spliced_def split: option.splits)

lemma locate_readable: "locate pid dirs read = Inr r \<Longrightarrow> \<exists>x config doc access os. Find pid dirs = Inr x \<and> process_Config x = Inr config \<and>
  read config = Some doc \<and> typed_running doc = Some ((access, []), os) \<and> access \<notin> {[], ''none''} \<and> ruLog r = Resolve x access"
  by (auto simp: locate_def split: sum.splits option.splits if_splits prod.splits)

end
