(* ===== verification/Ip_Quality.thy ===== *)
theory Ip_Quality
  imports Protocol Bytes
begin

text \<open>
  The IP quality runner: the command handler of \<open>src/internal/modules/ipqualityrunner/handler.go\<close> and
  \<open>module.go\<close>, the run of the pinned script (\<open>script/provider.go\<close>, \<open>script/pin.go\<close>) and the requests of
  its local SOCKS relay (\<open>script/relay.go\<close>). What the network, the disk and the script do is a
  parameter of each run, as is SHA-256.
\<close>

section \<open>The pinned script\<close>

definition PinnedCommit :: string where "PinnedCommit = ''0ee5f192fed70c04615852efba0e4b8bd43546c7''"
definition PinnedVersion :: string where "PinnedVersion = ''0ee5f192fed7''"
definition PinnedSHA256 :: string where
  "PinnedSHA256 = ''9823c560e0d19769eb627329a31cb47da655d087166d86e40d9b6c77bc7f32fb''"

definition quote :: char where "quote = CHR 0x22"

definition floatingDNSBL :: string where
  "floatingDNSBL = [quote] @ ''${rawgithub}main/ref/dnsbl.list'' @ [quote]"

definition pinnedDNSBL :: string where
  "pinnedDNSBL = [quote] @ ''${rawgithub}'' @ PinnedCommit @ ''/ref/dnsbl.list'' @ [quote]"

text \<open>\<open>bytes.Count\<close> of a separator that is not empty.\<close>

function Count :: "string \<Rightarrow> string \<Rightarrow> nat" where
  "Count s sep = (if sep = [] then 0 else case Cut sep s of None \<Rightarrow> 0 | Some (a, b) \<Rightarrow> Suc (Count b sep))"
  by pat_completeness auto
termination
proof (relation "measure (\<lambda>(s, sep). length s)")
  fix s sep :: string and x a b
  assume "sep \<noteq> []" "Cut sep s = Some x" "(a, b) = x"
  then have "s = a @ sep @ b" using Cut_Some by blast
  with \<open>sep \<noteq> []\<close> show "((b, sep), s, sep) \<in> measure (\<lambda>(s, sep). length s)" by simp
qed simp

declare Count.simps [simp del]

record script_config =
  scTimeout :: duration
  scVersion :: string
  scSHA256 :: string

text \<open>\<open>hex.DecodeString\<close> of a digest's text: the text in lower case, if it is 64 digits.\<close>

definition hex_digest :: "string \<Rightarrow> string option" where
  "hex_digest s = (let l = map fold_char s in if length s = 64 \<and> list_all (\<lambda>c. c \<in> set hexits) l then Some l else None)"

definition pinnedScript :: "(string \<Rightarrow> string) \<Rightarrow> script_config \<Rightarrow> string option \<Rightarrow> string option" where
  "pinnedScript sha cfg content = (case content of None \<Rightarrow> None
     | Some c \<Rightarrow> (case hex_digest (scSHA256 cfg) of None \<Rightarrow> None
         | Some expected \<Rightarrow>
             if sha c \<noteq> expected then None
             else if Count c floatingDNSBL \<noteq> 1 then None
             else (case Cut floatingDNSBL c of None \<Rightarrow> None | Some (a, b) \<Rightarrow> Some (a @ pinnedDNSBL @ b))))"

definition RunnerCommands :: "string list" where
  "RunnerCommands = [''/bin/bash'', ''bc'', ''curl'', ''dig'', ''ip'', ''jq'', ''nc'']"

definition verifyDependencies :: "(string \<Rightarrow> bool) \<Rightarrow> bool" where
  "verifyDependencies lookPath = list_all lookPath RunnerCommands"

definition provider_New :: "(string \<Rightarrow> string) \<Rightarrow> (string \<Rightarrow> bool) \<Rightarrow> string option \<Rightarrow> script_config \<Rightarrow> bool" where
  "provider_New sha lookPath content cfg \<longleftrightarrow> minute \<le> scTimeout cfg \<and> scTimeout cfg \<le> 30 * minute \<and> scVersion cfg \<noteq> [] \<and>
     verifyDependencies lookPath \<and> pinnedScript sha cfg content \<noteq> None"

text \<open>\<open>EnsurePinnedScript\<close>: whether it succeeded and the file afterwards. The answer is the status, the
  bytes received and whether the transfer failed.\<close>

record pin_env =
  peReadable :: bool
  peResponse :: "(int \<times> string \<times> bool) option"
  peMkdir :: bool
  peWrite :: bool
  peRename :: bool

definition EnsurePinnedScript :: "(string \<Rightarrow> string) \<Rightarrow> pin_env \<Rightarrow> string option \<Rightarrow> bool \<times> string option" where
  "EnsurePinnedScript sha e content =
     (if peReadable e \<and> (case content of None \<Rightarrow> False | Some c \<Rightarrow> sha c = PinnedSHA256) then (True, content)
      else (case peResponse e of None \<Rightarrow> (False, content)
        | Some (status, received, broken) \<Rightarrow>
            if status \<noteq> 200 then (False, content)
            else if broken \<and> length received < 4 * 1024 * 1024 then (False, content)
            else (let c = take (4 * 1024 * 1024) received in
              if sha c \<noteq> PinnedSHA256 then (False, content)
              else if \<not> peMkdir e \<or> \<not> peWrite e \<or> \<not> peRename e then (False, content)
              else (True, Some c))))"

text \<open>\<open>RemoveOtherScripts\<close>: the names left, given which removals fail (and so end it).\<close>

fun RemoveOtherScripts :: "(string \<Rightarrow> bool) \<Rightarrow> string list \<Rightarrow> bool \<times> string list" where
  "RemoveOtherScripts fails [] = (True, [])"
| "RemoveOtherScripts fails (n # ns) =
     (if n = PinnedSHA256 @ ''.sh'' then (case RemoveOtherScripts fails ns of (ok, left) \<Rightarrow> (ok, n # left))
      else if fails n then (False, n # ns)
      else RemoveOtherScripts fails ns)"

section \<open>The report's address\<close>

text \<open>
  The pattern \<open>(?i)https://report\.check\.place/[...]+\<close>. Ignoring case, the letters s and k also match
  U+017F and U+212A.
\<close>

definition long_s :: string where "long_s = [CHR 0xC5, CHR 0xBF]"
definition kelvin :: string where "kelvin = [CHR 0xE2, CHR 0x84, CHR 0xAA]"

definition match_char :: "char \<Rightarrow> string \<Rightarrow> string option" where
  "match_char p s = (if s \<noteq> [] \<and> fold_char (hd s) = p then Some (tl s)
     else if p = CHR ''s'' \<and> HasPrefix s long_s then Some (drop 2 s)
     else if p = CHR ''k'' \<and> HasPrefix s kelvin then Some (drop 3 s) else None)"

fun match_literal :: "string \<Rightarrow> string \<Rightarrow> string option" where
  "match_literal [] s = Some s"
| "match_literal (p # ps) s = (case match_char p s of None \<Rightarrow> None | Some r \<Rightarrow> match_literal ps r)"

definition reportHost :: string where "reportHost = ''https://report.check.place/''"

definition reportChars :: string where
  "reportChars = upper @ lower @ digits @ ''._~!$&'' @ [CHR 0x27] @ ''()*+,;=:@%/?#-''"

function class_len :: "string \<Rightarrow> nat" where
  "class_len s = (if s = [] then 0
     else if hd s \<in> set reportChars then Suc (class_len (tl s))
     else if HasPrefix s long_s then 2 + class_len (drop 2 s)
     else if HasPrefix s kelvin then 3 + class_len (drop 3 s) else 0)"
  by pat_completeness auto
termination
proof (relation "measure length")
  show "s \<noteq> [] \<Longrightarrow> (drop 2 s, s) \<in> measure length" "s \<noteq> [] \<Longrightarrow> (drop 3 s, s) \<in> measure length" for s :: string by simp_all
qed auto

declare class_len.simps [simp del]

definition match_report :: "string \<Rightarrow> string option" where
  "match_report s = (case match_literal reportHost s of None \<Rightarrow> None
     | Some r \<Rightarrow> if class_len r = 0 then None else Some (take (length s - length r + class_len r) s))"

fun find_report :: "string \<Rightarrow> string" where
  "find_report [] = []"
| "find_report (c # cs) = (case match_report (c # cs) of Some u \<Rightarrow> u | None \<Rightarrow> find_report cs)"

section \<open>One run\<close>

definition maxOutputBytes :: nat where "maxOutputBytes = 2 * 1024 * 1024"

record limitedBuffer =
  lbData :: string
  lbOverflow :: bool

definition limited_Write :: "limitedBuffer \<Rightarrow> string \<Rightarrow> limitedBuffer" where
  "limited_Write w data = (let remaining = maxOutputBytes - length (lbData w) in
     if remaining = 0 then w\<lparr>lbOverflow := True\<rparr>
     else if length data > remaining then w\<lparr>lbData := lbData w @ take remaining data, lbOverflow := True\<rparr>
     else w\<lparr>lbData := lbData w @ data\<rparr>)"

definition interpretScriptOutput :: "limitedBuffer \<Rightarrow> bool \<Rightarrow> string \<times> string" where
  "interpretScriptOutput output failed =
     (if lbOverflow output then ([], ''script_output_too_large'')
      else (let url = find_report (lbData output) in
        if url \<noteq> [] then (url, []) else if failed then ([], ''script_failed'') else ([], ''report_url_missing'')))"

text \<open>\<open>observeProxyIPv4\<close> of the response through the proxy, its status and body.\<close>

definition observeProxyIPv4 :: "(int \<times> string) option \<Rightarrow> string option" where
  "observeProxyIPv4 response = (case response of None \<Rightarrow> None
     | Some (status, body) \<Rightarrow>
         if status \<noteq> 200 then None
         else (case ParseAddr (TrimSpace (take 65 body)) of None \<Rightarrow> None
           | Some a \<Rightarrow> if IsPublicIPv4 a then Some (Addr_String a) else None))"

text \<open>\<open>net.JoinHostPort\<close>.\<close>

definition JoinHostPort :: "string \<Rightarrow> string \<Rightarrow> string" where
  "JoinHostPort host port = (if CHR '':'' \<in> set host then ''['' @ host @ '']:'' @ port else host @ '':'' @ port)"

record quality_request =
  qrPort :: int
  qrUsername :: string
  qrPassword :: string
  qrExpected :: string

record quality_result =
  qCode :: string
  qReportURL :: string
  qBefore :: string
  qAfter :: string
  qCheckedAt :: gotime

text \<open>The script ends, with an error or not, or its context does: its time is up, or the whole
  operation was cancelled.\<close>

datatype script_over = ScriptEnded bool | ContextDone bool

record quality_env =
  qeStartAt :: gotime
  qeScript :: "string option"
  qeTemporary :: bool
  qeBefore :: "(int \<times> string) option"
  qeRelay :: bool
  qeStarted :: bool
  qeOver :: script_over
  qeOutput :: "string list"
  qeAfter :: "(int \<times> string) option"
  qeEndAt :: gotime

definition failed_result :: "string \<Rightarrow> gotime \<Rightarrow> quality_result" where
  "failed_result code at = \<lparr>qCode = code, qReportURL = [], qBefore = [], qAfter = [], qCheckedAt = at\<rparr>"

text \<open>The end of \<open>Run\<close>, after the script was started.\<close>

definition quality_finish :: "quality_env \<Rightarrow> string \<Rightarrow> quality_result" where
  "quality_finish e before =
     (let r = (failed_result [] (qeEndAt e))\<lparr>qBefore := before\<rparr> in
      case qeOver e of
        ContextDone cancelled \<Rightarrow> r\<lparr>qCode := (if cancelled then ''cancelled'' else ''script_timed_out'')\<rparr>
      | ScriptEnded failed \<Rightarrow>
          (case interpretScriptOutput (foldl limited_Write \<lparr>lbData = [], lbOverflow = False\<rparr> (qeOutput e)) failed of
             (url, code) \<Rightarrow>
               if code \<noteq> [] then r\<lparr>qCode := code\<rparr>
               else (case observeProxyIPv4 (qeAfter e) of
                   None \<Rightarrow> r\<lparr>qCode := ''proxy_postflight_failed'', qReportURL := url\<rparr>
                 | Some after \<Rightarrow>
                     if after \<noteq> before then r\<lparr>qCode := ''proxy_ipv4_changed'', qReportURL := url, qAfter := after\<rparr>
                     else r\<lparr>qCode := ''report_ready'', qReportURL := url, qAfter := after\<rparr>)))"

text \<open>\<open>Provider.Run\<close>: the result, and the script and proxy address of the process, if it was started.\<close>

definition quality_Run :: "(string \<Rightarrow> string) \<Rightarrow> script_config \<Rightarrow> quality_env \<Rightarrow> quality_request \<Rightarrow>
    quality_result \<times> (string \<times> string) option" where
  "quality_Run sha cfg e q =
     (case ParseAddr (qrExpected q) of
        None \<Rightarrow> (failed_result ''proxy_endpoint_invalid'' (qeStartAt e), None)
      | Some expected \<Rightarrow>
          if \<not> IsPublicIPv4 expected \<or> qrPort q < 1 \<or> qrPort q > 65535
          then (failed_result ''proxy_endpoint_invalid'' (qeStartAt e), None)
          else (case pinnedScript sha cfg (qeScript e) of
              None \<Rightarrow> (failed_result ''script_checksum_mismatch'' (qeStartAt e), None)
            | Some script \<Rightarrow>
                if \<not> qeTemporary e then (failed_result ''script_start_failed'' (qeStartAt e), None)
                else (case observeProxyIPv4 (qeBefore e) of
                    None \<Rightarrow> (failed_result ''proxy_preflight_failed'' (qeStartAt e), None)
                  | Some before \<Rightarrow>
                      let r = (failed_result [] (qeStartAt e))\<lparr>qBefore := before\<rparr>;
                          proxy = JoinHostPort (Addr_String expected) (Itoa (qrPort q)) in
                      if before \<noteq> qrExpected q then (r\<lparr>qCode := ''stale_expected_ipv4'', qAfter := before\<rparr>, None)
                      else if \<not> qeRelay e then (r\<lparr>qCode := ''proxy_relay_failed''\<rparr>, None)
                      else if \<not> qeStarted e then (r\<lparr>qCode := ''script_start_failed''\<rparr>, None)
                      else (quality_finish e before, Some (script, proxy)))))"

section \<open>The command\<close>

record quality_payload =
  qpExpectedIPv4 :: string
  qpProxyPort :: int
  qpProxyUsername :: string
  qpProxyPassword :: string

definition validLogin :: "string \<Rightarrow> bool" where
  "validLogin v \<longleftrightarrow> v \<noteq> [] \<and> length v \<le> 255 \<and> CHR 0x00 \<notin> set v"

definition typed_payload :: "(string \<Rightarrow> json option) \<Rightarrow> quality_payload option" where
  "typed_payload get = (case (Option.bind (get ''expected_ipv4'') as_string, Option.bind (get ''proxy_port'') as_int,
       Option.bind (get ''proxy_username'') as_string, Option.bind (get ''proxy_password'') as_string) of
     (Some ip, Some port, Some user, Some password) \<Rightarrow>
       Some \<lparr>qpExpectedIPv4 = ip, qpProxyPort = port, qpProxyUsername = user, qpProxyPassword = password\<rparr> | _ \<Rightarrow> None)"

definition quality_DecodePayload :: "raw \<Rightarrow> quality_payload option" where
  "quality_DecodePayload body =
     (case DecodeStrict typed_payload body [''expected_ipv4'', ''proxy_port'', ''proxy_username'', ''proxy_password''] of None \<Rightarrow> None
      | Some p \<Rightarrow> if \<not> PublicIPv4 (qpExpectedIPv4 p) \<or> qpProxyPort p < 1 \<or> qpProxyPort p > 65535 \<or> \<not> validLogin (qpProxyUsername p) \<or>
                   \<not> validLogin (qpProxyPassword p) then None else Some p)"

definition nullable :: "string \<Rightarrow> json" where
  "nullable v = (if v = [] then JNull else JStr v)"

definition quality_fields :: "(gotime \<Rightarrow> string) \<Rightarrow> string \<Rightarrow> string \<Rightarrow> string \<Rightarrow> string \<Rightarrow> gotime \<Rightarrow> (string \<times> json) list" where
  "quality_fields fmt version url before after at = [(''report_url'', nullable url), (''proxy_ipv4_before'', nullable before),
     (''proxy_ipv4_after'', nullable after), (''script_version'', JStr version), (''checked_at'', JStr (fmt at))]"

definition quality_failure :: "(gotime \<Rightarrow> string) \<Rightarrow> string \<Rightarrow> gotime \<Rightarrow> string \<Rightarrow> ExecutionResult" where
  "quality_failure fmt version now code =
     \<lparr>Outcome = ''failed'', Code = code, Result = Some (quality_fields fmt version [] [] [] now)\<rparr>"

definition quality_Recover :: "(gotime \<Rightarrow> string) \<Rightarrow> string \<Rightarrow> gotime \<Rightarrow> ExecutionResult" where
  "quality_Recover fmt version now = quality_failure fmt version now ''interrupted_unknown''"

definition quality_execute :: "(gotime \<Rightarrow> string) \<Rightarrow> (string \<Rightarrow> string) \<Rightarrow> script_config \<Rightarrow> string \<Rightarrow> gotime \<Rightarrow> quality_env \<Rightarrow> OperationOffer \<Rightarrow>
    ExecutionResult \<times> (string \<times> string) option" where
  "quality_execute fmt sha cfg version now e offer =
     (case quality_DecodePayload (Payload offer) of
        None \<Rightarrow> (quality_failure fmt version now ''payload_invalid'', None)
      | Some p \<Rightarrow> (case quality_Run sha cfg e \<lparr>qrPort = qpProxyPort p, qrUsername = qpProxyUsername p, qrPassword = qpProxyPassword p,
            qrExpected = qpExpectedIPv4 p\<rparr> of
          (r, proc) \<Rightarrow> (\<lparr>Outcome = (if qCode r = ''report_ready'' then ''succeeded'' else if qCode r = ''cancelled'' then ''cancelled'' else ''failed''),
             Code = qCode r, Result = Some (quality_fields fmt version (qReportURL r) (qBefore r) (qAfter r) (qCheckedAt r))\<rparr>, proc)))"

section \<open>What a report rests on\<close>

lemma pinnedScript_pinned:
  assumes "pinnedScript sha cfg content = Some script"
  shows "\<exists>a b. content = Some (a @ floatingDNSBL @ b) \<and> Some (sha (a @ floatingDNSBL @ b)) = hex_digest (scSHA256 cfg) \<and>
    Count (a @ floatingDNSBL @ b) floatingDNSBL = 1 \<and> script = a @ pinnedDNSBL @ b"
proof -
  obtain c h a b where c: "content = Some c" "hex_digest (scSHA256 cfg) = Some h" "sha c = h" "Count c floatingDNSBL = 1"
    "Cut floatingDNSBL c = Some (a, b)" "script = a @ pinnedDNSBL @ b"
    using assms by (auto simp: pinnedScript_def split: option.splits if_splits)
  then have "c = a @ floatingDNSBL @ b" using Cut_Some by blast
  with c show ?thesis by auto
qed

lemma limited_writes:
  assumes "\<not> lbOverflow (foldl limited_Write w ps)" "length (lbData w) \<le> maxOutputBytes"
  shows "\<not> lbOverflow w \<and> lbData (foldl limited_Write w ps) = lbData w @ concat ps \<and> length (lbData w @ concat ps) \<le> maxOutputBytes"
  using assms
proof (induction ps arbitrary: w)
  case (Cons p ps)
  let ?w = "limited_Write w p"
  have len: "length (lbData ?w) \<le> maxOutputBytes" using Cons.prems(2) by (auto simp: limited_Write_def Let_def)
  have ih: "\<not> lbOverflow ?w" "lbData (foldl limited_Write ?w ps) = lbData ?w @ concat ps" "length (lbData ?w @ concat ps) \<le> maxOutputBytes"
    using Cons.IH [of ?w] Cons.prems(1) len by auto
  have "lbData ?w = lbData w @ p" "\<not> lbOverflow w" using ih(1) by (auto simp: limited_Write_def Let_def split: if_splits)
  with ih show ?case by simp
qed simp

text \<open>What the pattern finds is in the text and matches it there.\<close>

lemma match_char_shorter: "match_char p s = Some r \<Longrightarrow> length r \<le> length s"
  by (auto simp: match_char_def split: if_splits)

lemma match_literal_shorter: "match_literal ps s = Some r \<Longrightarrow> length r \<le> length s"
  by (induction ps arbitrary: s) (auto dest!: match_char_shorter split: option.splits intro: order_trans)

lemma match_report_nonempty: "match_report s = Some u \<Longrightarrow> u \<noteq> [] \<and> (\<exists>t. s = u @ t)"
proof -
  assume m: "match_report s = Some u"
  then obtain r where r: "match_literal reportHost s = Some r" "class_len r \<noteq> 0" "u = take (length s - length r + class_len r) s"
    by (auto simp: match_report_def split: option.splits if_splits)
  have "s \<noteq> []" using r(1) by (auto simp: reportHost_def match_char_def long_s_def kelvin_def HasPrefix_def)
  then have "u \<noteq> []" using r by simp
  moreover have "s = u @ drop (length s - length r + class_len r) s" using r(3) by simp
  ultimately show ?thesis by blast
qed

lemma find_report_found: "find_report s \<noteq> [] \<Longrightarrow> \<exists>a b. s = a @ find_report s @ b \<and> match_report (find_report s @ b) = Some (find_report s)"
proof (induction s)
  case (Cons c cs)
  show ?case
  proof (cases "match_report (c # cs)")
    case None
    with Cons obtain a b where "cs = a @ find_report cs @ b" "match_report (find_report cs @ b) = Some (find_report cs)" by auto
    with None show ?thesis by (intro exI [of _ "c # a"] exI [of _ b]) simp
  next
    case (Some u)
    then obtain t where "c # cs = u @ t" using match_report_nonempty by blast
    moreover from Some have "find_report (c # cs) = u" by simp
    ultimately show ?thesis using Some by (metis append_Nil)
  qed
qed simp

lemma quality_finish_ready:
  assumes "qCode (quality_finish e before) = ''report_ready''"
  shows "observeProxyIPv4 (qeAfter e) = Some before" "qBefore (quality_finish e before) = before" "qAfter (quality_finish e before) = before"
    "qCheckedAt (quality_finish e before) = qeEndAt e" "length (concat (qeOutput e)) \<le> maxOutputBytes"
    "qReportURL (quality_finish e before) = find_report (concat (qeOutput e))" "find_report (concat (qeOutput e)) \<noteq> []"
proof -
  let ?out = "foldl limited_Write \<lparr>lbData = [], lbOverflow = False\<rparr> (qeOutput e)"
  obtain failed where over: "qeOver e = ScriptEnded failed" using assms by (cases "qeOver e") (auto simp: quality_finish_def Let_def split: if_splits)
  obtain url code where i: "interpretScriptOutput ?out failed = (url, code)" by force
  have c: "code = []" using assms over i
    by (auto simp: quality_finish_def interpretScriptOutput_def Let_def split: if_splits)
  have o: "\<not> lbOverflow ?out" "url = find_report (lbData ?out)" "url \<noteq> []" using i c by (auto simp: interpretScriptOutput_def Let_def split: if_splits)
  have w: "lbData ?out = concat (qeOutput e)" "length (concat (qeOutput e)) \<le> maxOutputBytes"
    using limited_writes [OF o(1)] by simp_all
  show after: "observeProxyIPv4 (qeAfter e) = Some before"
    using assms over i c by (auto simp: quality_finish_def Let_def split: option.splits if_splits)
  show "qBefore (quality_finish e before) = before" "qAfter (quality_finish e before) = before"
    "qCheckedAt (quality_finish e before) = qeEndAt e" "qReportURL (quality_finish e before) = find_report (concat (qeOutput e))"
    using over i c after o(2) w(1) by (simp_all add: quality_finish_def failed_result_def Let_def)
  show "length (concat (qeOutput e)) \<le> maxOutputBytes" "find_report (concat (qeOutput e)) \<noteq> []" using w o by simp_all
qed

lemma quality_Run_started:
  assumes "quality_Run sha cfg e q = (r, Some (script, proxy))"
  shows "\<exists>a. ParseAddr (qrExpected q) = Some a \<and> proxy = JoinHostPort (Addr_String a) (Itoa (qrPort q)) \<and>
    pinnedScript sha cfg (qeScript e) = Some script \<and> observeProxyIPv4 (qeBefore e) = Some (qrExpected q) \<and> r = quality_finish e (qrExpected q)"
  using assms by (auto simp: quality_Run_def Let_def split: option.splits if_splits)

lemma quality_Run_idle:
  assumes "quality_Run sha cfg e q = (r, None)"
  shows "qCode r \<noteq> ''report_ready''"
  using assms by (auto simp: quality_Run_def failed_result_def Let_def split: option.splits if_splits)

lemma pin_hex: "hex_digest PinnedSHA256 = Some PinnedSHA256"
  by (simp add: hex_digest_def PinnedSHA256_def fold_char_def upper_def lower_def hexits_def)

text \<open>
  C33. A report can be trusted: the script is started only for a valid payload whose address the proxy
  was just seen to have, and what runs is the file with the pinned digest in which the one
  reference to the moving list points to the pinned commit. A command succeeds only if it ran,
  its whole output was within 2 MiB and contains the reported address, which matches the pattern
  there, and the proxy still had the same address afterwards.
\<close>

theorem report_trustworthy:
  assumes "quality_execute fmt sha cfg version now e offer = (r, started)" "scSHA256 cfg = PinnedSHA256"
  shows "(\<forall>script proxy. started = Some (script, proxy) \<longrightarrow> (\<exists>p a b. quality_DecodePayload (Payload offer) = Some p \<and>
      observeProxyIPv4 (qeBefore e) = Some (qpExpectedIPv4 p) \<and> proxy = JoinHostPort (qpExpectedIPv4 p) (Itoa (qpProxyPort p)) \<and>
      qeScript e = Some (a @ floatingDNSBL @ b) \<and> sha (a @ floatingDNSBL @ b) = PinnedSHA256 \<and>
      Count (a @ floatingDNSBL @ b) floatingDNSBL = 1 \<and> script = a @ pinnedDNSBL @ b)) \<and>
    (Outcome r = ''succeeded'' \<longrightarrow> (\<exists>p url x y. started \<noteq> None \<and> quality_DecodePayload (Payload offer) = Some p \<and>
      observeProxyIPv4 (qeAfter e) = Some (qpExpectedIPv4 p) \<and>
      Result r = Some (quality_fields fmt version url (qpExpectedIPv4 p) (qpExpectedIPv4 p) (qeEndAt e)) \<and>
      length (concat (qeOutput e)) \<le> maxOutputBytes \<and> concat (qeOutput e) = x @ url @ y \<and> match_report (url @ y) = Some url))"
proof (cases "quality_DecodePayload (Payload offer)")
  case None
  then have "started = None" "Outcome r = ''failed''" using assms(1) by (auto simp: quality_execute_def quality_failure_def)
  then show ?thesis by simp
next
  case (Some p)
  let ?q = "\<lparr>qrPort = qpProxyPort p, qrUsername = qpProxyUsername p, qrPassword = qpProxyPassword p, qrExpected = qpExpectedIPv4 p\<rparr>"
  obtain x where run: "quality_Run sha cfg e ?q = (x, started)" and r: "Outcome r = ''succeeded'' \<longleftrightarrow> qCode x = ''report_ready''"
    "Result r = Some (quality_fields fmt version (qReportURL x) (qBefore x) (qAfter x) (qCheckedAt x))"
    using assms(1) Some by (auto simp: quality_execute_def split: prod.splits if_splits)
  show ?thesis
  proof (cases started)
    case None
    then have "Outcome r \<noteq> ''succeeded''" using quality_Run_idle [of sha cfg e ?q x] run r(1) by simp
    with None show ?thesis by simp
  next
    case (Some sp)
    then obtain script proxy where sp: "started = Some (script, proxy)" by (cases sp) simp
    obtain a where a: "ParseAddr (qpExpectedIPv4 p) = Some a" "proxy = JoinHostPort (Addr_String a) (Itoa (qpProxyPort p))"
      "pinnedScript sha cfg (qeScript e) = Some script" "observeProxyIPv4 (qeBefore e) = Some (qpExpectedIPv4 p)" "x = quality_finish e (qpExpectedIPv4 p)"
      using quality_Run_started [of sha cfg e ?q x script proxy] run sp by auto
    have "PublicIPv4 (qpExpectedIPv4 p)"
      using \<open>quality_DecodePayload (Payload offer) = Some p\<close> by (auto simp: quality_DecodePayload_def split: option.splits if_splits)
    then have ip: "Addr_String a = qpExpectedIPv4 p" using a(1) by (simp add: PublicIPv4_def)
    obtain s t where s: "qeScript e = Some (s @ floatingDNSBL @ t)" "sha (s @ floatingDNSBL @ t) = PinnedSHA256"
      "Count (s @ floatingDNSBL @ t) floatingDNSBL = 1" "script = s @ pinnedDNSBL @ t"
      using pinnedScript_pinned [OF a(3)] pin_hex assms(2) by auto
    have ready: "\<exists>url u v. observeProxyIPv4 (qeAfter e) = Some (qpExpectedIPv4 p) \<and>
        Result r = Some (quality_fields fmt version url (qpExpectedIPv4 p) (qpExpectedIPv4 p) (qeEndAt e)) \<and>
        length (concat (qeOutput e)) \<le> maxOutputBytes \<and> concat (qeOutput e) = u @ url @ v \<and> match_report (url @ v) = Some url"
      if "Outcome r = ''succeeded''"
    proof -
      have code: "qCode (quality_finish e (qpExpectedIPv4 p)) = ''report_ready''" using that r(1) a(5) by simp
      note f = quality_finish_ready [OF code]
      obtain u v where "concat (qeOutput e) = u @ find_report (concat (qeOutput e)) @ v"
        "match_report (find_report (concat (qeOutput e)) @ v) = Some (find_report (concat (qeOutput e)))"
        using find_report_found [OF f(7)] by blast
      then show ?thesis using f r(2) a(5) by (intro exI [of _ "find_report (concat (qeOutput e))"] exI [of _ u] exI [of _ v]) simp
    qed
    show ?thesis using ready sp s a(2,4) ip \<open>quality_DecodePayload (Payload offer) = Some p\<close> by auto
  qed
qed

definition ex_pinned :: script_config where
  "ex_pinned = \<lparr>scTimeout = minute, scVersion = PinnedVersion, scSHA256 = PinnedSHA256\<rparr>"

definition ex_report :: string where "ex_report = ''https://report.check.place/ab''"

definition ex_quality_run :: quality_env where
  "ex_quality_run = \<lparr>qeStartAt = 1, qeScript = Some floatingDNSBL, qeTemporary = True, qeBefore = Some (200, ''8.8.8.8''), qeRelay = True,
     qeStarted = True, qeOver = ScriptEnded False, qeOutput = [ex_report], qeAfter = Some (200, ''8.8.8.8''), qeEndAt = 2\<rparr>"

definition ex_quality_offer :: OperationOffer where
  "ex_quality_offer = \<lparr>CommandID = ''c'', CommandType = ''ipquality.execute'', PayloadVersion = 1,
     Payload = Doc (JObj [(''expected_ipv4'', JStr ''8.8.8.8''), (''proxy_port'', JNum ''1080''), (''proxy_username'', JStr ''u''),
       (''proxy_password'', JStr ''p'')]), NotBefore = 1, ExpiresAt = 9\<rparr>"

lemma ex_address: "ParseAddr ''8.8.8.8'' = Some (V4 0x08080808)" "IsPublicIPv4 (V4 0x08080808)" "Addr_String (V4 0x08080808) = ''8.8.8.8''"
proof -
  show "ParseAddr ''8.8.8.8'' = Some (V4 0x08080808)" by (simp add: ParseAddr_def parse_dotted)
  show "IsPublicIPv4 (V4 0x08080808)" by (simp add: IsPublicIPv4_ranges special_ranges_def ipv4_def)
  show "Addr_String (V4 0x08080808) = ''8.8.8.8''"
    by (simp add: Addr_String_def String4_def octets_def nat_text.simps digit_of_def hexits_def)
qed

lemma ex_observed: "observeProxyIPv4 (Some (200, ''8.8.8.8'')) = Some ''8.8.8.8''"
proof -
  have "TrimSpace ''8.8.8.8'' = ''8.8.8.8''" by (simp add: TrimSpace_def trim_start.simps white_spaces_def HasPrefix_def)
  then show ?thesis by (simp add: observeProxyIPv4_def ex_address)
qed

lemma ex_script: "pinnedScript (\<lambda>_. PinnedSHA256) ex_pinned (Some floatingDNSBL) = Some pinnedDNSBL"
proof -
  have cut: "Cut floatingDNSBL floatingDNSBL = Some ([], [])" by (simp add: floatingDNSBL_def HasPrefix_def)
  have "Cut floatingDNSBL [] = None" by (simp add: floatingDNSBL_def)
  then have "Count floatingDNSBL floatingDNSBL = 1" using cut by (simp add: Count.simps floatingDNSBL_def [symmetric]) (simp add: floatingDNSBL_def)
  then show ?thesis using cut by (simp add: pinnedScript_def ex_pinned_def pin_hex)
qed

lemma ex_found: "find_report ex_report = ex_report"
proof -
  have "match_literal reportHost ex_report = Some ''ab''"
    by (simp add: reportHost_def ex_report_def match_char_def fold_char_def upper_def lower_def)
  moreover have "class_len ''ab'' = 2" by (simp add: class_len.simps reportChars_def lower_def)
  ultimately have "match_report ex_report = Some ex_report" by (simp add: match_report_def)
  then show ?thesis by (simp add: ex_report_def)
qed

lemma ex_quality_payload:
  "quality_DecodePayload (Payload ex_quality_offer) = Some \<lparr>qpExpectedIPv4 = ''8.8.8.8'', qpProxyPort = 1080, qpProxyUsername = ''u'', qpProxyPassword = ''p''\<rparr>"
proof -
  have "Atoi ''1080'' = Some 1080" by (simp add: Atoi_def digit_val_def hexits_def)
  then show ?thesis using ex_address
    by (simp add: quality_DecodePayload_def ex_quality_offer_def decodeRequiredJSON_def typed_payload_def obj_size_def obj_get_def
        PublicIPv4_def validLogin_def)
qed

lemma ex_quality_result:
  "quality_execute (\<lambda>_. ''t'') (\<lambda>_. PinnedSHA256) ex_pinned PinnedVersion 1 ex_quality_run ex_quality_offer =
    (\<lparr>Outcome = ''succeeded'', Code = ''report_ready'', Result = Some (quality_fields (\<lambda>_. ''t'') PinnedVersion ex_report ''8.8.8.8'' ''8.8.8.8'' 2)\<rparr>,
     Some (pinnedDNSBL, ''8.8.8.8:1080''))"
proof -
  have "interpretScriptOutput (foldl limited_Write \<lparr>lbData = [], lbOverflow = False\<rparr> [ex_report]) False = (ex_report, [])"
    using ex_found by (simp add: limited_Write_def interpretScriptOutput_def maxOutputBytes_def ex_report_def)
  moreover have "Itoa 1080 = ''1080''" by (simp add: Itoa_def nat_text.simps digit_of_def hexits_def)
  ultimately show ?thesis
    by (simp add: quality_execute_def ex_quality_payload quality_Run_def ex_address ex_script ex_observed ex_quality_run_def
        quality_finish_def failed_result_def JoinHostPort_def)
qed

theorem report_trustworthy_witness: "\<exists>x y. ex_report = x @ ex_report @ y \<and> match_report (ex_report @ y) = Some ex_report"
proof -
  have "scSHA256 ex_pinned = PinnedSHA256" by (simp add: ex_pinned_def)
  from report_trustworthy [OF ex_quality_result this] obtain url x y where
    u: "quality_fields (\<lambda>_. ''t'') PinnedVersion ex_report ''8.8.8.8'' ''8.8.8.8'' 2 = quality_fields (\<lambda>_. ''t'') PinnedVersion url ''8.8.8.8'' ''8.8.8.8'' 2"
    and x: "ex_report = x @ url @ y" "match_report (url @ y) = Some url"
    by (auto simp: ex_quality_payload ex_quality_run_def)
  have "url = ex_report" using u by (auto simp: quality_fields_def nullable_def ex_report_def split: if_splits)
  with x show ?thesis by blast
qed

section \<open>The relay\<close>

text \<open>\<open>net.IP.String\<close> of 4 or 16 bytes: a mapped address is printed as IPv4.\<close>

definition IP_String :: "byte list \<Rightarrow> string" where
  "IP_String bs = Addr_String (Unmap (AddrFromSlice bs))"

definition byte_char :: "byte \<Rightarrow> char" where "byte_char b = char_of (unat b)"

text \<open>\<open>readSOCKSHost\<close> from what the client sends: the host and the bytes left. A short read fails.\<close>

definition readSOCKSHost :: "byte list \<Rightarrow> byte \<Rightarrow> (string \<times> byte list) option" where
  "readSOCKSHost bs type =
     (if type = 1 then (if length bs < 4 then None else Some (IP_String (take 4 bs), drop 4 bs))
      else if type = 3 then
        (case bs of [] \<Rightarrow> None
         | n # rest \<Rightarrow> if n = 0 \<or> length rest < unat n then None else Some (map byte_char (take (unat n) rest), drop (unat n) rest))
      else if type = 4 then (if length bs < 16 then None else Some (IP_String (take 16 bs), drop 16 bs))
      else None)"

text \<open>\<open>relayConnection\<close> up to the copying: what it writes to the client and the destination it dials
  through the proxy, if any; \<open>writes\<close> says whether the first reply could be written and \<open>dials\<close> whether
  the destination could be reached.\<close>

definition relay_greeting :: "byte list \<Rightarrow> (bool \<times> byte list) option" where
  "relay_greeting bs = (if length bs < 2 then None
     else if bs ! 0 \<noteq> 5 \<or> bs ! 1 = 0 then None
     else if length bs < 2 + unat (bs ! 1) then None
     else Some (0 \<in> set (take (unat (bs ! 1)) (drop 2 bs)), drop (2 + unat (bs ! 1)) bs))"

definition relay_request :: "byte list \<Rightarrow> string option" where
  "relay_request bs = (if length bs < 4 then None
     else if bs ! 0 \<noteq> 5 \<or> bs ! 1 \<noteq> 1 \<or> bs ! 2 \<noteq> 0 then None
     else (case readSOCKSHost (drop 4 bs) (bs ! 3) of None \<Rightarrow> None
       | Some (host, rest) \<Rightarrow> if length rest < 2 then None else Some (JoinHostPort host (Itoa (int (be_nat (take 2 rest)))))))"

definition relayConnection :: "bool \<Rightarrow> (string \<Rightarrow> bool) \<Rightarrow> byte list \<Rightarrow> byte list \<times> string option" where
  "relayConnection writes dials bs = (case relay_greeting bs of None \<Rightarrow> ([], None)
     | Some (False, rest) \<Rightarrow> ([5, 0xFF], None)
     | Some (True, rest) \<Rightarrow>
         if \<not> writes then ([], None)
         else (case relay_request rest of None \<Rightarrow> ([5, 0], None)
           | Some destination \<Rightarrow>
               ([5, 0] @ (if dials destination then [5, 0, 0, 1, 127, 0, 0, 1, 0, 0] else [5, 1, 0, 1, 0, 0, 0, 0, 0, 0]), Some destination)))"

text \<open>A client that asks for a name and a port reaches exactly them.\<close>

lemma byte_chars: "map byte_char (map (\<lambda>c. word_of_nat (of_char c)) name) = name"
proof (induction name)
  case (Cons c name)
  have "unat (word_of_nat (of_char c :: nat) :: byte) = of_char c"
    by (simp add: unat_of_nat)
  with Cons show ?case by (simp add: byte_char_def)
qed simp

lemma relay_name:
  assumes "0 < length name" "length name < 256" "port < 65536"
  shows "relay_request ([5, 1, 0, 3, word_of_nat (length name)] @ map (\<lambda>c. word_of_nat (of_char c)) name @ be_bytes 2 port) =
    Some (JoinHostPort name (Itoa (int port)))"
proof -
  let ?n = "word_of_nat (length name) :: byte"
  have n: "unat ?n = length name" using assms(2) by (simp add: unat_of_nat)
  then have nz: "?n \<noteq> 0" using assms(1) by (metis length_greater_0_conv list.size(3) unsigned_0)
  show ?thesis using n nz assms(3) byte_chars [of name]
    by (simp add: relay_request_def readSOCKSHost_def numeral_3_eq_3 numeral_2_eq_2)
      (simp add: be_nat_bytes numeral_2_eq_2 [symmetric])
qed

end
