(* ===== verification/Node_Config.thy ===== *)
theory Node_Config
  imports Ip_Quality Utf8 Change_Ip "HOL-Library.Multiset"
begin

text \<open>
  The node's configuration: the envelope (\<open>src/internal/config/config.go\<close>), the sections of the
  modules (\<open>ParseConfig\<close> of each module) and which modules a configuration enables and wires
  (\<open>src/internal/app/modules.go\<close>). The standard library's URL parser is a parameter.
\<close>

section \<open>URLs\<close>

record url =
  uScheme :: string
  uHost :: string
  uHostname :: string
  uPath :: string
  uUser :: bool
  uRawQuery :: string
  uFragment :: string

definition plain_url :: "string \<Rightarrow> string \<Rightarrow> url \<Rightarrow> bool" where
  "plain_url scheme path u \<longleftrightarrow> uScheme u = scheme \<and> uHost u \<noteq> [] \<and> uPath u = path \<and> \<not> uUser u \<and> uRawQuery u = [] \<and> uFragment u = []"

definition control_url :: "(string \<Rightarrow> url option) \<Rightarrow> string \<Rightarrow> bool" where
  "control_url parseURL s = (case parseURL s of None \<Rightarrow> False | Some u \<Rightarrow> plain_url ''wss'' ''/internal/agents/ws'' u)"

section \<open>The envelope\<close>

record node_config =
  cfgSchemaVersion :: int
  cfgRevision :: int
  cfgAgentID :: string
  cfgName :: string
  cfgEndpoint :: string
  cfgModules :: "(string, raw) gomap"

definition configSchemaVersion :: int where "configSchemaVersion = 5"
definition maxConfigBytes :: nat where "maxConfigBytes = 128 * 1024"

definition configFields :: "string list" where
  "configFields = [''schema_version'', ''configuration_revision'', ''agent_id'', ''name'', ''control_endpoint'', ''modules'']"

definition raw_sections :: "json \<Rightarrow> (string, raw) gomap option" where
  "raw_sections j = (case j of JObj kvs \<Rightarrow> Some (foldl (\<lambda>m (k, v). AList.update k (Doc v) m) [] kvs) | _ \<Rightarrow> None)"

definition typed_config :: "json \<Rightarrow> node_config option" where
  "typed_config doc = (case doc of
      JNull \<Rightarrow> Some \<lparr>cfgSchemaVersion = 0, cfgRevision = 0, cfgAgentID = [], cfgName = [], cfgEndpoint = [], cfgModules = []\<rparr>
    | JObj kvs \<Rightarrow>
        if \<not> list_all (\<lambda>k. fold_key k \<in> set configFields) (map fst kvs) then None
        else (case (field 0 as_int kvs ''schema_version'', field 0 as_int kvs ''configuration_revision'', field [] as_string kvs ''agent_id'',
                    field [] as_string kvs ''name'', field [] as_string kvs ''control_endpoint'', field [] raw_sections kvs ''modules'') of
            (Some v, Some r, Some a, Some n, Some e, Some m) \<Rightarrow>
              Some \<lparr>cfgSchemaVersion = v, cfgRevision = r, cfgAgentID = a, cfgName = n, cfgEndpoint = e, cfgModules = m\<rparr>
          | _ \<Rightarrow> None)
    | _ \<Rightarrow> None)"

text \<open>\<open>Parse\<close> of a document of \<open>n\<close> bytes, the values a JSON decoder reads from it.\<close>

definition config_Parse :: "(string \<Rightarrow> url option) \<Rightarrow> nat \<Rightarrow> json decoded list \<Rightarrow> node_config option" where
  "config_Parse parseURL n docs =
     (if n = 0 \<or> maxConfigBytes < n then None
      else (case docs of
        [Value doc] \<Rightarrow> (case typed_config doc of None \<Rightarrow> None
          | Some c \<Rightarrow>
              if cfgSchemaVersion c \<noteq> configSchemaVersion then None
              else if cfgRevision c < 1 then None
              else if \<not> ValidUUID (cfgAgentID c) then None
              else if TrimSpace (cfgName c) = [] \<or> TrimSpace (cfgName c) \<noteq> cfgName c \<or> RuneCount (TrimSpace (cfgName c)) > 64 then None
              else if \<not> control_url parseURL (cfgEndpoint c) then None
              else if cfgModules c = [] then None
              else Some c)
      | _ \<Rightarrow> None))"

section \<open>The sections\<close>

definition empty_section :: "raw \<Rightarrow> unit option" where
  "empty_section r = DecodeStrict (\<lambda>_. Some ()) r []"

record xui_config =
  xcPanelURL :: string
  xcUsername :: string
  xcPassword :: string

definition IsLoopback :: "Addr \<Rightarrow> bool" where
  "IsLoopback a = (case Unmap a of V4 w \<Rightarrow> unat w div 16777216 = 127 | V6 w z \<Rightarrow> w = 1)"

definition three_strings :: "string \<Rightarrow> string \<Rightarrow> string \<Rightarrow> (string \<Rightarrow> json option) \<Rightarrow> (string \<times> string \<times> string) option" where
  "three_strings a b c get = (case (Option.bind (get a) as_string, Option.bind (get b) as_string, Option.bind (get c) as_string) of
     (Some x, Some y, Some z) \<Rightarrow> Some (x, y, z) | _ \<Rightarrow> None)"

definition xui_ParseConfig :: "(string \<Rightarrow> url option) \<Rightarrow> raw \<Rightarrow> xui_config option" where
  "xui_ParseConfig parseURL r =
     (case DecodeStrict (three_strings ''panel_url'' ''username'' ''password'') r [''panel_url'', ''username'', ''password''] of None \<Rightarrow> None
      | Some (panel, user, password) \<Rightarrow>
          (case parseURL panel of None \<Rightarrow> None
           | Some u \<Rightarrow>
               if 2048 < length panel \<or> uUser u \<or> uRawQuery u \<noteq> [] \<or> uFragment u \<noteq> [] \<or> (uScheme u \<noteq> ''http'' \<and> uScheme u \<noteq> ''https'') then None
               else (case ParseAddr (uHostname u) of None \<Rightarrow> None
                 | Some ip \<Rightarrow>
                     if \<not> IsLoopback ip then None
                     else if user = [] \<or> 128 < length user \<or> password = [] \<or> 1024 < length password \<or>
                             ContainsAny (user @ password) [CHR 0x00, CHR 0x0D, CHR 0x0A] then None
                     else Some \<lparr>xcPanelURL = panel, xcUsername = user, xcPassword = password\<rparr>)))"

record socks5_config =
  scPort :: int
  scUsername :: string
  scPassword :: string

definition socks5_ParseConfig :: "raw \<Rightarrow> socks5_config option" where
  "socks5_ParseConfig r =
     (case DecodeStrict (\<lambda>get. case (Option.bind (get ''port'') as_int, Option.bind (get ''username'') as_string, Option.bind (get ''password'') as_string) of
          (Some p, Some u, Some w) \<Rightarrow> Some \<lparr>scPort = p, scUsername = u, scPassword = w\<rparr> | _ \<Rightarrow> None) r [''port'', ''username'', ''password''] of
        None \<Rightarrow> None
      | Some c \<Rightarrow> if scPort c < 1 \<or> scPort c > 65535 then None else if \<not> validLogin (scUsername c) \<or> \<not> validLogin (scPassword c) then None else Some c)"

record changeip_config =
  ccProvider :: string
  ccSourceCommand :: string
  ccURL :: string
  ccBearerToken :: string
  ccProgram :: string

definition bearerToken :: "string \<Rightarrow> bool" where
  "bearerToken s \<longleftrightarrow> s \<noteq> [] \<and> list_all (\<lambda>c. c \<in> set (upper @ lower @ digits @ ''._~-'')) s"

definition changeipFields :: "string list" where
  "changeipFields = [''provider'', ''source_command'', ''url'', ''bearer_token'', ''program'']"

definition typed_changeip :: "raw \<Rightarrow> changeip_config option" where
  "typed_changeip r = (case r of
      Doc JNull \<Rightarrow> Some \<lparr>ccProvider = [], ccSourceCommand = [], ccURL = [], ccBearerToken = [], ccProgram = []\<rparr>
    | Doc (JObj kvs) \<Rightarrow>
        if \<not> list_all (\<lambda>k. fold_key k \<in> set changeipFields) (map fst kvs) then None
        else (case (field [] as_string kvs ''provider'', field [] as_string kvs ''source_command'', field [] as_string kvs ''url'',
                    field [] as_string kvs ''bearer_token'', field [] as_string kvs ''program'') of
            (Some p, Some s, Some u, Some b, Some g) \<Rightarrow> Some \<lparr>ccProvider = p, ccSourceCommand = s, ccURL = u, ccBearerToken = b, ccProgram = g\<rparr>
          | _ \<Rightarrow> None)
    | _ \<Rightarrow> None)"

definition changeip_ParseConfig :: "(string \<Rightarrow> url option) \<Rightarrow> raw \<Rightarrow> changeip_config option" where
  "changeip_ParseConfig parseURL r = (case typed_changeip r of None \<Rightarrow> None
     | Some c \<Rightarrow>
         if ccProvider c = ''http_bearer'' then
           (case parseURL (ccURL c) of None \<Rightarrow> None
            | Some u \<Rightarrow>
                if uScheme u \<noteq> ''https'' \<or> uHost u = [] \<or> uUser u \<or> uFragment u \<noteq> [] \<or> 2048 < length (ccURL c) \<or>
                   ContainsAny (ccURL c) [CHR 0x0D, CHR 0x0A] then None
                else if 4096 < length (ccBearerToken c) \<or> \<not> bearerToken (ccBearerToken c) \<or> 8192 < length (ccSourceCommand c) \<or>
                        CHR 0x00 \<in> set (ccSourceCommand c) \<or> ccProgram c \<noteq> [] then None
                else Some c)
         else if ccProvider c = ''command'' then
           (if \<not> validateProgram (ccProgram c) then None
            else if ccURL c \<noteq> [] \<or> ccBearerToken c \<noteq> [] \<or> ccSourceCommand c \<noteq> [] then None else Some c)
         else None)"

section \<open>The modules\<close>

record modules =
  mIpWatch :: "ip_watch_config option"
  mChangeIP :: "changeip_config option"
  mSocks5 :: "socks5_config option"
  mRunner :: "unit option"
  mXui :: "xui_config option"
  mRateLimit :: "unit option"
  mRecords :: "unit option"
  mRouting :: "unit option"
  mDiagnostics :: "unit option"

definition noModules :: modules where
  "noModules = \<lparr>mIpWatch = None, mChangeIP = None, mSocks5 = None, mRunner = None, mXui = None, mRateLimit = None, mRecords = None,
     mRouting = None, mDiagnostics = None\<rparr>"

datatype modules_error = UnknownModule string | SectionInvalid string | Requires string string

text \<open>One section: the modules with it, \<open>None\<close> for a name this Agent does not know, \<open>Some None\<close> for a
  section its module refuses.\<close>

definition put_section :: "('a option \<Rightarrow> modules) \<Rightarrow> 'a option \<Rightarrow> modules option option" where
  "put_section put c = Some (case c of None \<Rightarrow> None | Some x \<Rightarrow> Some (put (Some x)))"

definition section_of :: "(string \<Rightarrow> url option) \<Rightarrow> string \<Rightarrow> raw \<Rightarrow> modules \<Rightarrow> modules option option" where
  "section_of parseURL name r m =
     (if name = ''xui'' then put_section (\<lambda>c. m\<lparr>mXui := c\<rparr>) (xui_ParseConfig parseURL r)
      else if name = ''ip_watch'' then put_section (\<lambda>c. m\<lparr>mIpWatch := c\<rparr>) (ip_watch_ParseConfig r)
      else if name = ''changeip'' then put_section (\<lambda>c. m\<lparr>mChangeIP := c\<rparr>) (changeip_ParseConfig parseURL r)
      else if name = ''socks5'' then put_section (\<lambda>c. m\<lparr>mSocks5 := c\<rparr>) (socks5_ParseConfig r)
      else if name = ''ipquality_runner'' then put_section (\<lambda>c. m\<lparr>mRunner := c\<rparr>) (empty_section r)
      else if name = ''rate_limit'' then put_section (\<lambda>c. m\<lparr>mRateLimit := c\<rparr>) (empty_section r)
      else if name = ''connection_records'' then put_section (\<lambda>c. m\<lparr>mRecords := c\<rparr>) (empty_section r)
      else if name = ''routing'' then put_section (\<lambda>c. m\<lparr>mRouting := c\<rparr>) (empty_section r)
      else if name = ''diagnostics'' then put_section (\<lambda>c. m\<lparr>mDiagnostics := c\<rparr>) (empty_section r)
      else None)"

text \<open>The sections in the order the map is walked, which Go leaves open.\<close>

fun parse_sections :: "(string \<Rightarrow> url option) \<Rightarrow> (string \<times> raw) list \<Rightarrow> modules \<Rightarrow> modules_error + modules" where
  "parse_sections parseURL [] m = Inr m"
| "parse_sections parseURL ((n, r) # ss) m = (case section_of parseURL n r m of
     None \<Rightarrow> Inl (UnknownModule n)
   | Some None \<Rightarrow> Inl (SectionInvalid n)
   | Some (Some m') \<Rightarrow> parse_sections parseURL ss m')"

definition requirements :: "modules \<Rightarrow> modules_error option" where
  "requirements m =
     (if mChangeIP m \<noteq> None \<and> mIpWatch m = None then Some (Requires ''changeip'' ''ip_watch'')
      else if mRateLimit m \<noteq> None \<and> mXui m = None then Some (Requires ''rate_limit'' ''xui'')
      else if mRecords m \<noteq> None \<and> mXui m = None then Some (Requires ''connection_records'' ''xui'')
      else if mRouting m \<noteq> None \<and> mXui m = None then Some (Requires ''routing'' ''xui'')
      else None)"

definition parseModules :: "(string \<Rightarrow> url option) \<Rightarrow> (string \<times> raw) list \<Rightarrow> modules_error + modules" where
  "parseModules parseURL ss = (case parse_sections parseURL ss noModules of Inl e \<Rightarrow> Inl e
     | Inr m \<Rightarrow> (case requirements m of Some e \<Rightarrow> Inl e | None \<Rightarrow> Inr m))"

definition RunnerPackages :: "string list" where
  "RunnerPackages = [''bash'', ''bc'', ''dnsutils'', ''iproute2'', ''jq'', ''netcat-openbsd'']"

definition hostCommands :: "modules \<Rightarrow> string list \<times> string list" where
  "hostCommands m = ((if mRunner m \<noteq> None then RunnerCommands else []) @ (if mRateLimit m \<noteq> None then [''/usr/sbin/tc''] else []),
     (if mRunner m \<noteq> None then RunnerPackages else []) @ (if mRateLimit m \<noteq> None then [''iproute2''] else []))"

text \<open>\<open>build\<close>: what is wired for the modules, by name. What can fail is a parameter: opening the panel's
  state and the reconciliation, the ChangeIP provider and the pinned script.\<close>

record wiring =
  wDesired :: "string list"
  wReporters :: "string list"
  wWorkers :: "string list"
  wCommands :: "string list"
  wQueries :: "string list"

record build_env =
  bePanel :: bool
  beObserver :: bool
  beMonitor :: bool
  beProvider :: bool
  beScript :: bool

definition enabled :: "'a option \<Rightarrow> string \<Rightarrow> string list" where
  "enabled c name = (if c = None then [] else [name])"

definition build :: "build_env \<Rightarrow> modules \<Rightarrow> wiring option" where
  "build e m =
     (if mXui m \<noteq> None \<and> \<not> bePanel e then None
      else if mIpWatch m \<noteq> None \<and> (\<not> beObserver e \<or> \<not> beMonitor e) then None
      else if mIpWatch m \<noteq> None \<and> mChangeIP m \<noteq> None \<and> \<not> beProvider e then None
      else if mRunner m \<noteq> None \<and> \<not> beScript e then None
      else Some \<lparr>wDesired = (if mXui m = None then [] else [''xui''] @ enabled (mRouting m) ''routing'' @ enabled (mRateLimit m) ''rate_limit''),
        wReporters = (if mXui m = None then [] else enabled (mRecords m) ''connection_records'' @ [''xui'']) @ enabled (mIpWatch m) ''ip_watch'',
        wWorkers = (if mXui m = None then [] else [''ledger''] @ enabled (mRateLimit m) ''rate_limit'') @
          (if mRateLimit m = None then [''rate_limit_leftovers''] else []) @ [''diagnostics_sweeper''],
        wCommands = (if mIpWatch m = None then [] else enabled (mChangeIP m) ''changeip.execute'') @ enabled (mRunner m) ''ipquality.execute'',
        wQueries = enabled (mDiagnostics m) ''diagnostics.run''\<rparr>)"

section \<open>A configuration means one set of modules\<close>

text \<open>The modules by their sections, wherever these stand; what a configuration does not name stays as it
  was.\<close>

definition at_section :: "'a option \<Rightarrow> (raw \<Rightarrow> 'a option) \<Rightarrow> string \<Rightarrow> (string \<times> raw) list \<Rightarrow> 'a option" where
  "at_section old parse name ss = (case map_of ss name of None \<Rightarrow> old | Some r \<Rightarrow> parse r)"

definition modules_over :: "(string \<Rightarrow> url option) \<Rightarrow> (string \<times> raw) list \<Rightarrow> modules \<Rightarrow> modules" where
  "modules_over parseURL ss m = \<lparr>mIpWatch = at_section (mIpWatch m) ip_watch_ParseConfig ''ip_watch'' ss,
     mChangeIP = at_section (mChangeIP m) (changeip_ParseConfig parseURL) ''changeip'' ss,
     mSocks5 = at_section (mSocks5 m) socks5_ParseConfig ''socks5'' ss,
     mRunner = at_section (mRunner m) empty_section ''ipquality_runner'' ss,
     mXui = at_section (mXui m) (xui_ParseConfig parseURL) ''xui'' ss,
     mRateLimit = at_section (mRateLimit m) empty_section ''rate_limit'' ss,
     mRecords = at_section (mRecords m) empty_section ''connection_records'' ss,
     mRouting = at_section (mRouting m) empty_section ''routing'' ss,
     mDiagnostics = at_section (mDiagnostics m) empty_section ''diagnostics'' ss\<rparr>"

definition section_ok :: "(string \<Rightarrow> url option) \<Rightarrow> string \<times> raw \<Rightarrow> bool" where
  "section_ok parseURL s = (case section_of parseURL (fst s) (snd s) noModules of Some (Some _) \<Rightarrow> True | _ \<Rightarrow> False)"

lemma at_section_Nil [simp]: "at_section old parse name [] = old"
  by (simp add: at_section_def)

lemma at_section_skip [simp]: "n \<noteq> name \<Longrightarrow> at_section old parse name ((n, r) # ss) = at_section old parse name ss"
  by (simp add: at_section_def)

lemma at_section_hit [simp]: "name \<notin> fst ` set ss \<Longrightarrow> at_section old parse name ((name, r) # ss) = parse r"
  by (simp add: at_section_def)

lemma at_section_other [simp]: "name \<notin> fst ` set ss \<Longrightarrow> at_section old parse name ss = old"
  using map_of_eq_None_iff [of ss name] by (simp add: at_section_def)

lemma section_ok_any: "section_ok parseURL (n, r) \<longleftrightarrow> (\<exists>m'. section_of parseURL n r m = Some (Some m'))"
  by (simp add: section_ok_def section_of_def put_section_def split: option.split)

lemma section_moves:
  assumes "section_of parseURL n r m = Some (Some m')" and "n \<notin> fst ` set ss"
  shows "modules_over parseURL ss m' = modules_over parseURL ((n, r) # ss) m"
  using assms
  by (auto simp: section_of_def put_section_def modules_over_def split: if_splits option.splits)

lemma parse_sections_exact:
  "distinct (map fst ss) \<Longrightarrow>
     parse_sections parseURL ss m = Inr m' \<longleftrightarrow> list_all (section_ok parseURL) ss \<and> m' = modules_over parseURL ss m"
proof (induction ss arbitrary: m)
  case Nil
  then show ?case
    by (auto simp: modules_over_def)
next
  case (Cons s ss)
  obtain n r where s: "s = (n, r)"
    by (cases s)
  have fresh: "n \<notin> fst ` set ss" and rest: "distinct (map fst ss)"
    using Cons.prems by (simp_all add: s)
  show ?case
  proof (cases "section_of parseURL n r m")
    case None
    then show ?thesis
      by (simp add: s section_ok_any [of _ _ _ m])
  next
    case (Some c)
    show ?thesis
    proof (cases c)
      case None
      then show ?thesis
        using Some by (simp add: s section_ok_any [of _ _ _ m])
    next
      case (Some m1)
      then show ?thesis
        using \<open>section_of parseURL n r m = Some c\<close> section_moves [of parseURL n r m m1 ss] fresh Cons.IH [OF rest, of m1]
        by (simp add: s section_ok_any [of _ _ _ m])
    qed
  qed
qed

lemma modules_over_perm:
  assumes "distinct (map fst ss)" and "mset ss = mset ts"
  shows "modules_over parseURL ss m = modules_over parseURL ts m"
proof -
  have "set ss = set ts"
    using assms(2) by (rule mset_eq_setD)
  moreover have "mset (map fst ss) = mset (map fst ts)"
    using assms(2) by simp
  then have "distinct (map fst ts)"
    using assms(1) mset_eq_imp_distinct_iff by blast
  ultimately have "map_of ss = map_of ts"
    using assms(1) map_of_inject_set by blast
  then show ?thesis
    by (simp add: modules_over_def at_section_def)
qed

text \<open>
  C29. A configuration's sections enable a set of modules exactly when every section is one this Agent
  knows and its module accepts, the modules are those of the sections by name (and no other), and none
  lacks the module it relies on; so the order in which Go walks the map cannot change the outcome, and
  whatever reordering of the same sections is read, the same modules result.
\<close>

theorem modules_exact:
  assumes "distinct (map fst ss)" and "mset ts = mset ss"
  shows "parseModules parseURL ts = Inr m \<longleftrightarrow>
    list_all (section_ok parseURL) ss \<and> m = modules_over parseURL ss noModules \<and>
    (mChangeIP m \<noteq> None \<longrightarrow> mIpWatch m \<noteq> None) \<and>
    (mRateLimit m \<noteq> None \<or> mRecords m \<noteq> None \<or> mRouting m \<noteq> None \<longrightarrow> mXui m \<noteq> None)"
proof -
  have "mset (map fst ts) = mset (map fst ss)"
    using assms(2) by simp
  then have ts: "distinct (map fst ts)"
    using assms(1) mset_eq_imp_distinct_iff by blast
  have same: "modules_over parseURL ts noModules = modules_over parseURL ss noModules"
    using modules_over_perm [OF ts assms(2)] .
  have all: "list_all (section_ok parseURL) ts = list_all (section_ok parseURL) ss"
    using mset_eq_setD [OF assms(2)] by (simp add: list_all_iff)
  have "parseModules parseURL ts = Inr m \<longleftrightarrow> parse_sections parseURL ts noModules = Inr m \<and> requirements m = None"
    by (auto simp: parseModules_def split: sum.splits option.splits)
  also have "\<dots> \<longleftrightarrow> (list_all (section_ok parseURL) ss \<and> m = modules_over parseURL ss noModules) \<and> requirements m = None"
    using parse_sections_exact [OF ts, of parseURL noModules m] by (simp add: same all)
  finally show ?thesis
    by (auto simp: requirements_def split: if_splits)
qed

definition no_section :: raw where
  "no_section = Doc (JObj [])"

theorem modules_exact_witness:
  "(parseModules (\<lambda>_. None) [(''diagnostics'', no_section), (''ipquality_runner'', no_section)] =
      Inr (noModules\<lparr>mRunner := Some (), mDiagnostics := Some ()\<rparr>)) \<and>
   \<not> (\<exists>m. parseModules (\<lambda>_. None) [(''routing'', no_section)] = Inr m)"
proof -
  have a: "section_ok (\<lambda>_. None) (''diagnostics'', no_section)" "section_ok (\<lambda>_. None) (''ipquality_runner'', no_section)"
    by code_simp+
  have b: "empty_section no_section = Some ()"
    by code_simp
  have "parseModules (\<lambda>_. None) [(''diagnostics'', no_section), (''ipquality_runner'', no_section)] =
      Inr (noModules\<lparr>mRunner := Some (), mDiagnostics := Some ()\<rparr>)"
    using a b
    by (subst modules_exact [of "[(''ipquality_runner'', no_section), (''diagnostics'', no_section)]"])
      (simp_all add: modules_over_def at_section_def noModules_def)
  moreover have "\<not> (\<exists>m. parseModules (\<lambda>_. None) [(''routing'', no_section)] = Inr m)"
    using b
    by (subst modules_exact [of "[(''routing'', no_section)]"])
      (simp_all add: modules_over_def at_section_def noModules_def)
  ultimately show ?thesis ..
qed

section \<open>What is wired\<close>

text \<open>Of an accepted configuration every module that is named is wired, and only those: a module that relies
  on another is never dropped for want of it.\<close>

lemma build_wires:
  assumes "parseModules parseURL ss = Inr m" and "build e m = Some w"
  shows "(''rate_limit'' \<in> set (wDesired w) \<longleftrightarrow> mRateLimit m \<noteq> None) \<and>
    (''routing'' \<in> set (wDesired w) \<longleftrightarrow> mRouting m \<noteq> None) \<and>
    (''connection_records'' \<in> set (wReporters w) \<longleftrightarrow> mRecords m \<noteq> None) \<and>
    (''changeip.execute'' \<in> set (wCommands w) \<longleftrightarrow> mChangeIP m \<noteq> None) \<and>
    (''rate_limit_leftovers'' \<in> set (wWorkers w) \<longleftrightarrow> mRateLimit m = None)"
proof -
  have r: "requirements m = None"
    using assms(1) by (auto simp: parseModules_def split: sum.splits option.splits)
  have w: "w = \<lparr>wDesired = (if mXui m = None then [] else [''xui''] @ enabled (mRouting m) ''routing'' @ enabled (mRateLimit m) ''rate_limit''),
        wReporters = (if mXui m = None then [] else enabled (mRecords m) ''connection_records'' @ [''xui'']) @ enabled (mIpWatch m) ''ip_watch'',
        wWorkers = (if mXui m = None then [] else [''ledger''] @ enabled (mRateLimit m) ''rate_limit'') @
          (if mRateLimit m = None then [''rate_limit_leftovers''] else []) @ [''diagnostics_sweeper''],
        wCommands = (if mIpWatch m = None then [] else enabled (mChangeIP m) ''changeip.execute'') @ enabled (mRunner m) ''ipquality.execute'',
        wQueries = enabled (mDiagnostics m) ''diagnostics.run''\<rparr>"
    using assms(2) by (simp add: build_def split: if_splits)
  have needs: "mXui m = None \<Longrightarrow> mRateLimit m = None \<and> mRouting m = None \<and> mRecords m = None" "mIpWatch m = None \<Longrightarrow> mChangeIP m = None"
    using r by (simp_all add: requirements_def split: if_splits) (metis not_None_eq old.unit.exhaust)
  show ?thesis
    by (intro conjI; cases "mXui m"; cases "mIpWatch m") (use needs in \<open>simp_all add: w enabled_def\<close>)
qed

end
