(* ===== verification/Agent.thy ===== *)
theory Agent
  imports Transport Runtime Executor Rate_Limit Routing Xui_Apply Diagnostics Node_Config
begin

text \<open>
  The agent put together: \<open>Runtime\<close> of \<open>src/internal/app/runtime.go\<close> over the modules a configuration
  wires (\<open>build\<close> of \<open>Node_Config\<close>), as the operations the control connection of \<open>Transport\<close> calls. Its
  steps are those of the control connection, with the modules' own work between them. The two
  invariants of these steps, on the targets and on the commands, are what the root theory states.
\<close>

section \<open>The model of a configuration\<close>

text \<open>\<open>config.Load\<close> and \<open>app.Load\<close>: what \<open>os.Stat\<close> says of the file (a regular one or not, its permission
  bits), and its size and documents if it can be read.\<close>

definition config_Load :: "(string \<Rightarrow> url option) \<Rightarrow> (bool \<times> nat) option \<Rightarrow> (nat \<times> json decoded list) option \<Rightarrow> node_config option" where
  "config_Load parseURL stat file = (case stat of None \<Rightarrow> None
     | Some (regular, perm) \<Rightarrow>
         if \<not> regular \<or> perm mod 64 \<noteq> 0 then None
         else (case file of None \<Rightarrow> None | Some (n, docs) \<Rightarrow> config_Parse parseURL n docs))"

definition NewModel :: "(string \<Rightarrow> url option) \<Rightarrow> node_config \<Rightarrow> (node_config \<times> modules) option" where
  "NewModel parseURL cfg = (case parseModules parseURL (cfgModules cfg) of Inl e \<Rightarrow> None | Inr m \<Rightarrow> Some (cfg, m))"

definition app_Load :: "(string \<Rightarrow> url option) \<Rightarrow> (bool \<times> nat) option \<Rightarrow> (nat \<times> json decoded list) option \<Rightarrow> (node_config \<times> modules) option" where
  "app_Load parseURL stat file = Option.bind (config_Load parseURL stat file) (NewModel parseURL)"

section \<open>The runtime\<close>

record agent =
  agDesired :: desired_engine
  agReporters :: "reporter_state list"

definition recentOperationLimit :: nat where "recentOperationLimit = 64"

text \<open>\<open>desired.Add\<close> of every module with targets.\<close>

definition new_desired :: "wiring \<Rightarrow> desired_engine" where
  "new_desired w = foldl (\<lambda>e name. Add name e) [] (wDesired w)"

text \<open>\<open>Validate\<close> of the modules with targets.\<close>

definition module_valid :: "string \<Rightarrow> string \<Rightarrow> raw \<Rightarrow> bool" where
  "module_valid name key r =
     (if name = ''xui'' then Xui_Target.decodeTarget key r \<noteq> None
      else if name = ''routing'' then route_Validate key r
      else if name = ''rate_limit'' then rl_decodeTarget r \<noteq> None
      else False)"

text \<open>The monitor among the reporters, which the ChangeIP module waits for.\<close>

fun monitor_of :: "reporter_state list \<Rightarrow> Monitor option" where
  "monitor_of [] = None"
| "monitor_of (RMonitor m # rs) = Some m"
| "monitor_of (RRecords r # rs) = monitor_of rs"
| "monitor_of (RSnapshots s # rs) = monitor_of rs"

definition command_valid :: "string \<Rightarrow> raw \<Rightarrow> bool" where
  "command_valid t payload =
     (if t = ''changeip.execute'' then Change_Ip.DecodePayload payload \<noteq> None
      else if t = ''ipquality.execute'' then quality_DecodePayload payload \<noteq> None
      else False)"

definition command_accepting :: "string \<Rightarrow> agent \<Rightarrow> bool" where
  "command_accepting t a =
     (if t = ''changeip.execute'' then (case monitor_of (agReporters a) of None \<Rightarrow> False | Some m \<Rightarrow> Accepting (Some AddressSettled) m)
      else t = ''ipquality.execute'')"

definition command_group :: "string \<Rightarrow> string" where
  "command_group t = (if t = ''changeip.execute'' then ''target-network'' else ''ipquality-runner'')"

definition runtime_Accepting :: "wiring \<Rightarrow> OperationOffer \<Rightarrow> agent \<Rightarrow> string + bool" where
  "runtime_Accepting w offer a =
     (if CommandType offer \<notin> set (wCommands w) then Inl ''command type is not enabled on this node''
      else if \<not> command_valid (CommandType offer) (Payload offer) then Inl ''payload is invalid''
      else Inr (command_accepting (CommandType offer) a))"

definition runtime_Execute :: "wiring \<Rightarrow> (string \<Rightarrow> Handler) \<Rightarrow> io \<Rightarrow> io \<Rightarrow> io \<Rightarrow> io \<Rightarrow> OperationOffer \<Rightarrow> Executor \<Rightarrow> (exec_error + ExecutionResult) option \<times> Executor" where
  "runtime_Execute w handlers w1 w2 w3 w4 offer x =
     (if CommandType offer \<notin> set (wCommands w) then (None, x)
      else (case Execute w1 w2 w3 w4 offer (command_group (CommandType offer)) (handlers (CommandType offer)) x of (r, x') \<Rightarrow> (Some r, x')))"

definition desired_text :: "desired_error \<Rightarrow> string" where
  "desired_text e = (case e of NotEnabled name \<Rightarrow> ''state for module '' @ name @ '', which is not enabled on this node'')"

definition runtime_PutState :: "StatePut \<Rightarrow> agent \<Rightarrow> string option \<times> agent" where
  "runtime_PutState p a = (case Put module_valid p (agDesired a) of Inl e \<Rightarrow> (Some (desired_text e), a) | Inr d \<Rightarrow> (None, a\<lparr>agDesired := d\<rparr>))"

definition runtime_SetStateKeys :: "StateKeys \<Rightarrow> agent \<Rightarrow> string option \<times> agent" where
  "runtime_SetStateKeys ks a = (case Keys ks (agDesired a) of Inl e \<Rightarrow> (Some (desired_text e), a) | Inr d \<Rightarrow> (None, a\<lparr>agDesired := d\<rparr>))"

fun reporter_ControlReady :: "reporter_state \<Rightarrow> reporter_state" where
  "reporter_ControlReady (RRecords r) = RRecords (Connection_Records.wake r)"
| "reporter_ControlReady (RSnapshots s) = RSnapshots (s\<lparr>snWoken := True\<rparr>)"
| "reporter_ControlReady (RMonitor m) = RMonitor (NotifyControlReady m)"

definition runtime_ControlReady :: "agent \<Rightarrow> agent" where
  "runtime_ControlReady a = a\<lparr>agDesired := ControlReady (agDesired a), agReporters := map reporter_ControlReady (agReporters a)\<rparr>"

definition acknowledge_agent :: "save_env \<Rightarrow> string \<Rightarrow> agent \<Rightarrow> string option \<times> agent" where
  "acknowledge_agent env i a = (case runtime_Acknowledge env i (agReporters a) of
     ((_, err), rs) \<Rightarrow> (map_option (\<lambda>_. ''acknowledge report'') err, a\<lparr>agReporters := rs\<rparr>))"

definition runtime_Query :: "wiring \<Rightarrow> string \<Rightarrow> (raw \<Rightarrow> bool) option" where
  "runtime_Query w t = (if t \<in> set (wQueries w) then Some (\<lambda>b. DecodeRequest b \<noteq> None) else None)"

text \<open>What ends \<open>Runtime.Run\<close>: the first task that returns (with an error or not), or the end of the
  context when there is no task; \<open>None\<close> while it runs.\<close>

definition runtime_Run :: "nat \<Rightarrow> bool \<Rightarrow> string option option \<Rightarrow> string option" where
  "runtime_Run tasks ended first =
     (if tasks = 0 then (if ended then Some ''context ended'' else None)
      else (case first of None \<Rightarrow> None
        | Some err \<Rightarrow> if ended then Some ''context ended''
            else (case err of None \<Rightarrow> Some ''module stopped unexpectedly'' | Some e \<Rightarrow> Some e)))"

definition agent_api :: "save_env \<Rightarrow> wiring \<Rightarrow> agent runtime_api" where
  "agent_api env w = \<lparr>rt_Accepting = runtime_Accepting w, rt_PutState = runtime_PutState, rt_SetStateKeys = runtime_SetStateKeys,
     rt_ControlReady = runtime_ControlReady, rt_Acknowledge = acknowledge_agent env, rt_Query = runtime_Query w\<rparr>"

section \<open>Steps of the agent\<close>

text \<open>
  What the modules do on their own leaves the targets alone: a pass only writes what it has reported and
  its wake-up, everything else it works on is outside the runtime's record of targets.
\<close>

definition core :: "dunit \<Rightarrow> (string, target) gomap \<times> (string, int) gomap \<times> bool" where
  "core u = (targets u, invalid u, complete u)"

definition core_of :: "desired_engine \<Rightarrow> string \<Rightarrow> ((string, target) gomap \<times> (string, int) gomap \<times> bool) option" where
  "core_of d name = map_option core (map_of d name)"

text \<open>A step of the control connection: one that receives nothing leaves the runtime as it is or makes it
  ready. Between them the modules work. Each acknowledgement meets its own outcome of the saves.\<close>

inductive agent_step :: "wiring \<Rightarrow> (string \<Rightarrow> gotime option) \<Rightarrow> agent control_sys \<Rightarrow> agent control_sys \<Rightarrow> bool"
  for w pt where
  controls: "tstep (agent_api env w) pt s t \<Longrightarrow>
    received t \<noteq> received s \<or> truntime t = truntime s \<or> truntime t = runtime_ControlReady (truntime s) \<Longrightarrow> agent_step w pt s t"
| works: "core_of (agDesired a) = core_of (agDesired (truntime s)) \<Longrightarrow> agent_step w pt s (s\<lparr>truntime := a\<rparr>)"

inductive agent_reach :: "wiring \<Rightarrow> (string \<Rightarrow> gotime option) \<Rightarrow> agent control_sys \<Rightarrow> bool"
  for w pt where
  boots: "agDesired a = new_desired w \<Longrightarrow> agent_reach w pt (control_start a)"
| runs: "agent_reach w pt s \<Longrightarrow> agent_step w pt s t \<Longrightarrow> agent_reach w pt t"

section \<open>What Cloud's messages say of the targets\<close>

text \<open>A message as an event for one module, the newest first.\<close>

definition event_of :: "string \<Rightarrow> Envelope \<Rightarrow> event option" where
  "event_of name e =
     (if env_Type e = ''state.put'' then
        (case DecodeStatePut e of None \<Rightarrow> None
         | Some p \<Rightarrow> if put_Module p = name then Some (EvPut (put_Key p) (put_Version p) (put_State p)) else None)
      else if env_Type e = ''state.keys'' then
        (case DecodeStateKeys e of None \<Rightarrow> None
         | Some ks \<Rightarrow> if keys_Module ks = name then Some (EvKeys (keys_Keys ks)) else None)
      else None)"

definition state_events :: "string \<Rightarrow> (nat \<times> Envelope) list \<Rightarrow> event list" where
  "state_events name es = rev (List.map_filter (\<lambda>(n, e). event_of name e) es)"

lemma state_events_snoc:
  "state_events name (es @ [(n, e)]) = (case event_of name e of None \<Rightarrow> state_events name es | Some ev \<Rightarrow> ev # state_events name es)"
  by (simp add: state_events_def map_filter_def split: option.split)

lemma core_receive: "core u = core v \<Longrightarrow> core (receive valid ev u) = core (receive valid ev v)"
  by (cases ev) (simp_all add: core_def put_unit_def keys_unit_def signal_def)

lemma core_of_update [simp]: "core_of (AList.update n u d) name = (if n = name then Some (core u) else core_of d name)"
  by (simp add: core_of_def map_of_update_gm)

lemma core_of_ready [simp]: "core_of (ControlReady d) = core_of d"
proof
  fix name
  show "core_of (ControlReady d) name = core_of d name"
    by (induction d) (auto simp: core_of_def ControlReady_def core_def forget_sent_def)
qed

section \<open>The steps keep the targets and check the commands\<close>

lemma end_session_simps [simp]:
  "truntime (end_session n s) = truntime s" "received (end_session n s) = received s" "executing (end_session n s) = executing s"
  "cPending (tclient (end_session n s)) = []"
  by (simp_all add: end_session_def releasePending_def clearActive_def)

lemma dispatch_rest_simps:
  assumes "dispatch_rest api n e s = (out, t)"
  shows "received t = received s \<and> tclient t = tclient s \<and> executing t = executing s"
  using assms by (auto simp: dispatch_rest_def split: if_splits option.splits prod.splits)

lemma dispatch_received:
  assumes "dispatch api pt n e s = (out, t)"
  shows "received t = received s"
  using assms dispatch_rest_simps [of api n e s out t]
  by (auto simp: dispatch_def split: if_splits option.splits prod.splits)

text \<open>A step that receives a message is the dispatch of that message, seen from the runtime.\<close>

lemma tstep_receives:
  assumes "tstep api pt s t" and "received t \<noteq> received s"
  shows "\<exists>n e out u. dispatch api pt n e (s\<lparr>received := received s @ [(n, e)]\<rparr>) = (out, u) \<and>
    truntime t = truntime u \<and> received t = received s @ [(n, e)]"
  using assms(1)
proof cases
  case (reads n e out u)
  then show ?thesis
    using dispatch_received [OF reads(3)] by auto
next
  case (write_fails n e m u)
  then show ?thesis
    using dispatch_received [OF write_fails(3)] by auto
next
  case (rejects n e err u)
  then show ?thesis
    using dispatch_received [OF rejects(3)] by auto
qed (use assms(2) in \<open>simp_all\<close>)

text \<open>What one message does to the record of targets of one module.\<close>

definition after_event :: "string \<Rightarrow> event option \<Rightarrow> dunit \<Rightarrow> dunit" where
  "after_event name ev u = (case ev of None \<Rightarrow> u | Some x \<Rightarrow> receive (module_valid name) x u)"

lemma put_targets:
  assumes "runtime_PutState p a = (err, b)" and "map_of (agDesired a) name = Some u"
  shows "map_of (agDesired b) name =
    Some (if put_Module p = name then put_unit (module_valid name) (put_Key p) (put_Version p) (put_State p) u else u)"
  using assms by (auto simp: runtime_PutState_def Put_def find_unit_def map_of_update_gm split: option.splits sum.splits)

lemma keys_targets:
  assumes "runtime_SetStateKeys ks a = (err, b)" and "map_of (agDesired a) name = Some u"
  shows "map_of (agDesired b) name = Some (if keys_Module ks = name then keys_unit (keys_Keys ks) u else u)"
  using assms by (auto simp: runtime_SetStateKeys_def Keys_def find_unit_def map_of_update_gm split: option.splits sum.splits)

lemma ack_targets: "acknowledge_agent env i a = (err, b) \<Longrightarrow> agDesired b = agDesired a"
  by (auto simp: acknowledge_agent_def split: prod.splits)

lemma dispatch_rest_targets:
  assumes "dispatch_rest (agent_api env w) n e s = (out, t)" and "map_of (agDesired (truntime s)) name = Some u"
  shows "map_of (agDesired (truntime t)) name = Some (after_event name (event_of name e) u)"
proof -
  consider "env_Type e = ''state.put''" | "env_Type e = ''state.keys''" | "env_Type e \<noteq> ''state.put''" "env_Type e \<noteq> ''state.keys''"
    by blast
  then show ?thesis
  proof cases
    case 1
    show ?thesis
    proof (cases "DecodeStatePut e")
      case None
      then show ?thesis
        using assms 1 by (simp add: dispatch_rest_def event_of_def after_event_def)
    next
      case (Some p)
      obtain err b where b: "runtime_PutState p (truntime s) = (err, b)"
        by fastforce
      have "truntime t = b"
        using assms(1) 1 Some b by (cases err) (auto simp: dispatch_rest_def agent_api_def)
      then show ?thesis
        using put_targets [OF b assms(2)] 1 Some by (simp add: event_of_def after_event_def)
    qed
  next
    case 2
    show ?thesis
    proof (cases "DecodeStateKeys e")
      case None
      then show ?thesis
        using assms 2 by (simp add: dispatch_rest_def event_of_def after_event_def)
    next
      case (Some ks)
      obtain err b where b: "runtime_SetStateKeys ks (truntime s) = (err, b)"
        by fastforce
      have "truntime t = b"
        using assms(1) 2 Some b by (cases err) (auto simp: dispatch_rest_def agent_api_def)
      then show ?thesis
        using keys_targets [OF b assms(2)] 2 Some by (simp add: event_of_def after_event_def)
    qed
  next
    case 3
    then have "agDesired (truntime t) = agDesired (truntime s)"
      using assms(1) ack_targets [of env _ "truntime s"]
      by (auto simp: dispatch_rest_def agent_api_def split: if_splits option.splits prod.splits)
    then show ?thesis
      using 3 assms(2) by (simp add: event_of_def after_event_def)
  qed
qed

lemma dispatch_targets:
  assumes "dispatch (agent_api env w) pt n e s = (out, t)" and "map_of (agDesired (truntime s)) name = Some u"
  shows "map_of (agDesired (truntime t)) name = Some (after_event name (event_of name e) u)"
proof (cases "env_Type e = ''operation.offer'' \<or> env_Type e = ''operation.accepted_ack''")
  case True
  then have "truntime t = truntime s"
    using assms(1) by (auto simp: dispatch_def split: if_splits option.splits prod.splits)
  then show ?thesis
    using True assms(2) by (auto simp: event_of_def after_event_def)
next
  case False
  then show ?thesis
    using assms dispatch_rest_targets by (simp add: dispatch_def)
qed

definition targets_inv :: "string \<Rightarrow> agent control_sys \<Rightarrow> bool" where
  "targets_inv name s \<longleftrightarrow>
     core_of (agDesired (truntime s)) name = Some (core (history_of (module_valid name) (state_events name (received s))))"

lemma history_Cons: "history_of valid (ev # evs) = receive valid ev (history_of valid evs)"
  by (simp add: history_of_def)

lemma targets_inv_receives:
  assumes "targets_inv name s" and "dispatch (agent_api env w) pt n e (s\<lparr>received := received s @ [(n, e)]\<rparr>) = (out, u)"
    and "truntime t = truntime u" and "received t = received s @ [(n, e)]"
  shows "targets_inv name t"
proof -
  obtain d where d: "map_of (agDesired (truntime s)) name = Some d"
    and c: "core d = core (history_of (module_valid name) (state_events name (received s)))"
    using assms(1) by (auto simp: targets_inv_def core_of_def)
  have "map_of (agDesired (truntime u)) name = Some (after_event name (event_of name e) d)"
    using dispatch_targets [OF assms(2), of name d] d by simp
  then show ?thesis
    using c core_receive [OF c]
    by (simp add: targets_inv_def core_of_def assms(3,4) state_events_snoc after_event_def history_Cons split: option.split)
qed

lemma targets_inv_step:
  assumes "agent_step w pt s t" and "targets_inv name s"
  shows "targets_inv name t"
  using assms(1)
proof cases
  case (controls env)
  show ?thesis
  proof (cases "received t = received s")
    case True
    then show ?thesis
      using controls(2) assms(2) by (auto simp: targets_inv_def runtime_ControlReady_def)
  next
    case False
    then obtain n e out u where "dispatch (agent_api env w) pt n e (s\<lparr>received := received s @ [(n, e)]\<rparr>) = (out, u)"
        "truntime t = truntime u" "received t = received s @ [(n, e)]"
      using tstep_receives [OF controls(1)] by blast
    then show ?thesis
      by (rule targets_inv_receives [OF assms(2)])
  qed
next
  case (works a)
  then show ?thesis
    using assms(2) by (simp add: targets_inv_def)
qed

lemma new_desired_units: "name \<in> set (wDesired w) \<Longrightarrow> map_of (new_desired w) name = Some new_unit"
proof -
  have "name \<in> set ns \<or> map_of d name = Some new_unit \<Longrightarrow> map_of (foldl (\<lambda>e m. Add m e) d ns) name = Some new_unit" for ns d
    by (induction ns arbitrary: d) (auto simp: Add_def map_of_update_gm)
  then show "name \<in> set (wDesired w) \<Longrightarrow> map_of (new_desired w) name = Some new_unit"
    by (simp add: new_desired_def)
qed

lemma targets_inv_reach:
  assumes "agent_reach w pt s" and "name \<in> set (wDesired w)"
  shows "targets_inv name s"
  using assms(1)
proof induction
  case (boots a)
  then show ?case
    using new_desired_units [OF assms(2)] by (simp add: targets_inv_def core_of_def control_start_def state_events_def map_filter_simps history_of_def)
next
  case (runs s t)
  then show ?case
    using targets_inv_step by blast
qed

section \<open>Commands\<close>

definition command_ok :: "wiring \<Rightarrow> OperationOffer \<Rightarrow> bool" where
  "command_ok w off \<longleftrightarrow> CommandType off \<in> set (wCommands w) \<and> command_valid (CommandType off) (Payload off)"

definition commands_inv :: "wiring \<Rightarrow> agent control_sys \<Rightarrow> bool" where
  "commands_inv w s \<longleftrightarrow> (\<forall>p \<in> set (cPending (tclient s)). command_ok w (po_offer (snd p))) \<and> (\<forall>off \<in> set (executing s). command_ok w off)"

lemma accepting_ok: "runtime_Accepting w off a = Inr True \<Longrightarrow> command_ok w off \<and> command_accepting (CommandType off) a"
  by (simp add: runtime_Accepting_def command_ok_def split: if_splits)

lemma set_update_sub: "set (AList.update k v m) \<subseteq> insert (k, v) (set m)"
  by (induction m) auto

lemma offer_commands:
  assumes "acceptOffer (runtime_Accepting w off a) off c g = (out, c', g')" and "\<forall>p \<in> set (cPending c). command_ok w (po_offer (snd p))"
  shows "\<forall>p \<in> set (cPending c'). command_ok w (po_offer (snd p))"
  using acceptOffer_cases [OF assms(1)] assms(2) set_update_sub accepting_ok by fastforce

lemma ack_commands:
  assumes "handleAcceptedAck ack c = (c', l, start)" and "\<forall>p \<in> set (cPending c). command_ok w (po_offer (snd p))"
  shows "(\<forall>p \<in> set (cPending c'). command_ok w (po_offer (snd p))) \<and> (\<forall>off. start = Some off \<longrightarrow> command_ok w off)"
proof -
  have sub: "cPending c' = AList.delete (ack_CommandID ack) (cPending c)"
    using assms(1) by (auto simp: handleAcceptedAck_def Let_def split: option.splits if_splits)
  have "\<exists>p. map_of (cPending c) (ack_CommandID ack) = Some p \<and> off = po_offer p" if "start = Some off" for off
    using assms(1) that by (auto simp: handleAcceptedAck_def Let_def split: option.splits if_splits)
  then show ?thesis
    using assms(2) map_of_SomeD by (fastforce simp: sub)
qed

lemma dispatch_parts:
  assumes "dispatch (agent_api env w) pt n e s = (out, t)"
  shows "t = s \<or>
    (\<exists>off c g. acceptOffer (runtime_Accepting w off (truntime s)) off (tclient s) (tgate s) = (out, c, g) \<and> t = s\<lparr>tclient := c, tgate := g\<rparr>) \<or>
    (\<exists>ack c l start. handleAcceptedAck ack (tclient s) = (c, l, start) \<and>
       t = s\<lparr>tclient := c, executing := executing s @ (case start of None \<Rightarrow> [] | Some off \<Rightarrow> [off]),
            releasing := releasing s @ (case l of None \<Rightarrow> [] | Some i \<Rightarrow> [i])\<rparr>) \<or>
    dispatch_rest (agent_api env w) n e s = (out, t)"
proof -
  have api: "rt_Accepting (agent_api env w) = runtime_Accepting w"
    by (simp add: agent_api_def)
  consider "env_Type e = ''operation.offer''" | "env_Type e = ''operation.accepted_ack''"
    | "env_Type e \<noteq> ''operation.offer''" "env_Type e \<noteq> ''operation.accepted_ack''"
    by blast
  then show ?thesis
  proof cases
    case 1
    show ?thesis
    proof (cases "DecodeOperationOffer pt e")
      case None
      then show ?thesis
        using assms 1 by (simp add: dispatch_def)
    next
      case (Some off)
      obtain o1 c g where h: "acceptOffer (runtime_Accepting w off (truntime s)) off (tclient s) (tgate s) = (o1, c, g)"
        by (cases "acceptOffer (runtime_Accepting w off (truntime s)) off (tclient s) (tgate s)") auto
      have "out = o1" "t = s\<lparr>tclient := c, tgate := g\<rparr>"
        using assms 1 Some h by (simp_all add: dispatch_def api)
      then show ?thesis
        using h by blast
    qed
  next
    case 2
    show ?thesis
    proof (cases "DecodeAcceptedAck e")
      case None
      then show ?thesis
        using assms 2 by (simp add: dispatch_def)
    next
      case (Some ack)
      obtain c l start where h: "handleAcceptedAck ack (tclient s) = (c, l, start)"
        by (cases "handleAcceptedAck ack (tclient s)") auto
      have "t = s \<or> t = s\<lparr>tclient := c, executing := executing s @ (case start of None \<Rightarrow> [] | Some off \<Rightarrow> [off]),
            releasing := releasing s @ (case l of None \<Rightarrow> [] | Some i \<Rightarrow> [i])\<rparr>"
        using assms 2 Some h by (simp add: dispatch_def split: if_splits)
      then show ?thesis
        using h by blast
    qed
  next
    case 3
    then show ?thesis
      using assms by (simp add: dispatch_def)
  qed
qed

lemma dispatch_commands:
  assumes "dispatch (agent_api env w) pt n e s = (out, t)" and "commands_inv w s"
  shows "commands_inv w t"
proof -
  have pend: "\<forall>p \<in> set (cPending (tclient s)). command_ok w (po_offer (snd p))"
    using assms(2) by (simp add: commands_inv_def)
  consider "t = s"
    | off c g where "acceptOffer (runtime_Accepting w off (truntime s)) off (tclient s) (tgate s) = (out, c, g)" "t = s\<lparr>tclient := c, tgate := g\<rparr>"
    | ack c l start where "handleAcceptedAck ack (tclient s) = (c, l, start)"
        "t = s\<lparr>tclient := c, executing := executing s @ (case start of None \<Rightarrow> [] | Some off \<Rightarrow> [off]),
            releasing := releasing s @ (case l of None \<Rightarrow> [] | Some i \<Rightarrow> [i])\<rparr>"
    | "dispatch_rest (agent_api env w) n e s = (out, t)"
    using dispatch_parts [OF assms(1)] by blast
  then show ?thesis
  proof cases
    case 1
    with assms(2) show ?thesis
      by simp
  next
    case (2 off c g)
    then show ?thesis
      using offer_commands [OF 2(1) pend] assms(2) by (simp add: commands_inv_def)
  next
    case (3 ack c l start)
    then show ?thesis
      using ack_commands [OF 3(1) pend] assms(2) by (cases start) (simp_all add: commands_inv_def)
  next
    case 4
    then show ?thesis
      using dispatch_rest_simps [OF 4] assms(2) by (simp add: commands_inv_def)
  qed
qed

lemma commands_inv_ends: "commands_inv w s \<Longrightarrow> commands_inv w (end_session n s)"
  by (simp add: commands_inv_def)

lemma commands_inv_tstep:
  assumes "tstep (agent_api env w) pt s t" and "commands_inv w s"
  shows "commands_inv w t"
  using assms(1)
proof cases
  case (reads n e out u)
  have "commands_inv w u"
    by (rule dispatch_commands [OF reads(3)]) (use assms(2) in \<open>simp add: commands_inv_def\<close>)
  then show ?thesis
    by (simp add: reads(1) commands_inv_def)
next
  case (write_fails n e m u)
  have "commands_inv w u"
    by (rule dispatch_commands [OF write_fails(3)]) (use assms(2) in \<open>simp add: commands_inv_def\<close>)
  then show ?thesis
    using commands_inv_ends by (simp add: write_fails(1))
next
  case (rejects n e err u)
  have "commands_inv w u"
    by (rule dispatch_commands [OF rejects(3)]) (use assms(2) in \<open>simp add: commands_inv_def\<close>)
  then show ?thesis
    using commands_inv_ends by (simp add: rejects(1))
next
  case (read_fails n)
  then show ?thesis
    using commands_inv_ends [OF assms(2)] by simp
next
  case (executes off res c l out wrote)
  have "cPending c = cPending (tclient s)"
    using executes(3) by (auto simp: execute_done_def Let_def split: sum.splits)
  then show ?thesis
    using assms(2) set_remove1_subset [of off "executing s"] by (auto simp: executes(1) commands_inv_def)
qed (use assms(2) in \<open>simp_all add: commands_inv_def recordFatal_def setActive_def\<close>)

lemma commands_inv_reach: "agent_reach w pt s \<Longrightarrow> commands_inv w s"
proof (induction rule: agent_reach.induct)
  case (boots a)
  then show ?case
    by (simp add: commands_inv_def control_start_def newClient_def)
next
  case (runs s t)
  from runs(2) show ?case
  proof cases
    case (controls env)
    then show ?thesis
      using commands_inv_tstep runs.IH by blast
  next
    case (works a)
    then show ?thesis
      using runs.IH by (simp add: commands_inv_def)
  qed
qed

text \<open>What the payload of a command of either type is.\<close>

lemma command_ok_payload:
  assumes "command_ok w off"
  shows "(CommandType off = ''changeip.execute'' \<and> (\<exists>ip. Change_Ip.DecodePayload (Payload off) = Some ip \<and> PublicIPv4 ip)) \<or>
    (CommandType off = ''ipquality.execute'' \<and>
      (\<exists>p. quality_DecodePayload (Payload off) = Some p \<and> PublicIPv4 (qpExpectedIPv4 p) \<and> 1 \<le> qpProxyPort p \<and> qpProxyPort p \<le> 65535))"
  using assms
  by (auto simp: command_ok_def command_valid_def Change_Ip.DecodePayload_def quality_DecodePayload_def split: if_splits option.splits)

text \<open>The commands that are wired.\<close>

lemma build_commands:
  assumes "build e m = Some w" and "t \<in> set (wCommands w)"
  shows "(t = ''changeip.execute'' \<and> mChangeIP m \<noteq> None \<and> mIpWatch m \<noteq> None) \<or> (t = ''ipquality.execute'' \<and> mRunner m \<noteq> None)"
proof -
  have "wCommands w = (if mIpWatch m = None then [] else enabled (mChangeIP m) ''changeip.execute'') @ enabled (mRunner m) ''ipquality.execute''"
    using assms(1) by (auto simp: build_def split: if_splits)
  then show ?thesis
    using assms(2) by (auto simp: enabled_def split: if_splits)
qed

section \<open>Examples\<close>

text \<open>An agent whose session is ready, then one that received a key list, and one that runs a command.\<close>

definition ex_agent :: "wiring \<Rightarrow> agent" where
  "ex_agent w = \<lparr>agDesired = new_desired w, agReporters = []\<rparr>"

definition ex_up :: "wiring \<Rightarrow> agent control_sys" where
  "ex_up w = (control_start (ex_agent w))\<lparr>tclient := setActive 0 newClient, truntime := runtime_ControlReady (ex_agent w), tcontrol := Ready 0, sessions := 1\<rparr>"

lemma ex_up_reach: "agent_reach w pt (ex_up w)"
proof -
  have d: "tcontrol (control_start (ex_agent w)) = Dialing"
    by (simp add: control_start_def)
  have "agent_step w pt (control_start (ex_agent w)) (ex_up w)"
    using agent_step.controls [OF tstep.connects [OF d, of "agent_api all_ok w" pt]]
    by (simp add: ex_up_def control_start_def agent_api_def)
  moreover have "agent_reach w pt (control_start (ex_agent w))"
    by (rule agent_reach.boots) (simp add: ex_agent_def)
  ultimately show ?thesis
    by (rule agent_reach.runs [rotated])
qed

lemma read_reach:
  assumes "agent_reach w pt s" and "tcontrol s = Ready n" and "dispatch (agent_api all_ok w) pt n e (s\<lparr>received := received s @ [(n, e)]\<rparr>) = (Inr out, t)"
  shows "agent_reach w pt (t\<lparr>written := written t @ (case out of None \<Rightarrow> [] | Some m \<Rightarrow> [(n, m)])\<rparr>)"
  using dispatch_received [OF assms(3)] by (intro agent_reach.runs [OF assms(1)] agent_step.controls [OF tstep.reads [OF assms(2,3)]]) simp

definition ex_wiring :: wiring where
  "ex_wiring = \<lparr>wDesired = [''xui''], wReporters = [''xui''], wWorkers = [''ledger''], wCommands = [''ipquality.execute''], wQueries = []\<rparr>"

definition ex_keys_env :: Envelope where
  "ex_keys_env = ex_envelope ''state.keys'' (JObj [(''module'', JStr ''xui''), (''keys'', JArr [])])"

lemma ex_keys_decodes: "DecodeStateKeys ex_keys_env = Some \<lparr>keys_Module = ''xui'', keys_Keys = []\<rparr>"
  by code_simp

lemma ex_keys_reach: "\<exists>s. agent_reach ex_wiring Protocol.ex_time s \<and> received s = [(0, ex_keys_env)]"
proof -
  have r: "received (ex_up ex_wiring) = []" "tcontrol (ex_up ex_wiring) = Ready 0"
    by (simp_all add: ex_up_def control_start_def)
  have ty: "env_Type ex_keys_env = ''state.keys''"
    by (simp add: ex_keys_env_def ex_envelope_def)
  have d: "agDesired (truntime (ex_up ex_wiring)) = [(''xui'', new_unit)]"
    by (simp add: ex_up_def runtime_ControlReady_def ex_agent_def new_desired_def ex_wiring_def Add_def ControlReady_def forget_sent_def new_unit_def)
  obtain t where t: "dispatch (agent_api all_ok ex_wiring) Protocol.ex_time 0 ex_keys_env ((ex_up ex_wiring)\<lparr>received := received (ex_up ex_wiring) @ [(0, ex_keys_env)]\<rparr>) = (Inr None, t)"
    using d by (simp add: dispatch_def dispatch_rest_def ty ex_keys_decodes agent_api_def runtime_SetStateKeys_def Keys_def find_unit_def)
  show ?thesis
    using read_reach [OF ex_up_reach r(2) t] dispatch_received [OF t] r(1) by (intro exI conjI) (assumption, simp)
qed

definition ex_run_offer :: OperationOffer where
  "ex_run_offer = ex_quality_offer\<lparr>CommandID := ex_command, NotBefore := 1, ExpiresAt := 2\<rparr>"

definition ex_runner :: wiring where
  "ex_runner = \<lparr>wDesired = [], wReporters = [], wWorkers = [''rate_limit_leftovers'', ''diagnostics_sweeper''], wCommands = [''ipquality.execute''], wQueries = []\<rparr>"

definition ex_run_env :: Envelope where
  "ex_run_env = ex_envelope ''operation.offer'' (JObj [(''command_id'', JStr ex_command), (''command_type'', JStr ''ipquality.execute''),
     (''payload_version'', JNum ''1''), (''payload'', JObj [(''expected_ipv4'', JStr ''8.8.8.8''), (''proxy_port'', JNum ''1080''), (''proxy_username'', JStr ''u''),
       (''proxy_password'', JStr ''p'')]), (''not_before'', JStr ''2026-11-01T00:00:00Z''), (''expires_at'', JStr ''2026-11-01T00:00:30Z'')])"

lemma ex_run_decodes: "DecodeOperationOffer Protocol.ex_time ex_run_env = Some ex_run_offer"
  by code_simp

lemma ex_run_accepted: "runtime_Accepting ex_runner ex_run_offer a = Inr True"
  using ex_quality_payload by (simp add: runtime_Accepting_def ex_runner_def ex_run_offer_def ex_quality_offer_def command_valid_def command_accepting_def)

lemma ex_run_reach: "\<exists>s. agent_reach ex_runner Protocol.ex_time s \<and> executing s = [ex_run_offer]"
proof -
  let ?s = "ex_up ex_runner"
  let ?p = "\<lparr>po_offer = ex_run_offer, po_lease = 0\<rparr>"
  have s: "tcontrol ?s = Ready 0" "cRunning (tclient ?s) = []" "cPending (tclient ?s) = []" "tgate ?s = new_sys" "executing ?s = []"
    by (simp_all add: ex_up_def control_start_def setActive_def newClient_def)
  obtain g where g: "TryOperation new_sys = (Some 0, g)"
    by (simp add: TryOperation_def new_sys_def New_def)
  have cid: "CommandID ex_run_offer = ex_command"
    by (simp add: ex_run_offer_def)
  have ty: "env_Type ex_run_env = ''operation.offer''" "env_Type ex_ack_env = ''operation.accepted_ack''"
    by (simp_all add: ex_run_env_def ex_ack_env_def ex_envelope_def)
  let ?t = "(?s\<lparr>received := received ?s @ [(0, ex_run_env)]\<rparr>)\<lparr>tclient := (tclient ?s)\<lparr>cPending := [(ex_command, ?p)]\<rparr>, tgate := g\<rparr>"
  have "dispatch (agent_api all_ok ex_runner) Protocol.ex_time 0 ex_run_env (?s\<lparr>received := received ?s @ [(0, ex_run_env)]\<rparr>) =
      (Inr (Some (''operation.accepted'', commandIDBody ex_command)), ?t)"
    using ex_run_accepted s by (simp add: dispatch_def ty ex_run_decodes agent_api_def acceptOffer_def gm_has_def cid g)
  note offered = read_reach [OF ex_up_reach s(1) this]
  define t where "t = ?t\<lparr>written := written ?t @ [(0, ''operation.accepted'', commandIDBody ex_command)]\<rparr>"
  have t: "agent_reach ex_runner Protocol.ex_time t" "tcontrol t = Ready 0" "cPending (tclient t) = [(ex_command, ?p)]" "cRunning (tclient t) = []" "executing t = []"
    using offered s by (simp_all add: t_def)
  obtain u where u: "dispatch (agent_api all_ok ex_runner) Protocol.ex_time 0 ex_ack_env (t\<lparr>received := received t @ [(0, ex_ack_env)]\<rparr>) = (Inr None, u)"
      "executing u = [ex_run_offer]"
    using t(3-5) ex_ack_decodes by (simp add: dispatch_def ty handleAcceptedAck_def gm_has_def)
  show ?thesis
    using read_reach [OF t(1,2) u(1)] u(2) by (intro exI conjI) (assumption, simp)
qed

end
