(* ===== verification/Node_Identity.thy ===== *)
theory Node_Identity
  imports Node_Config Base64 Json_File
begin

text \<open>
  The node's key (\<open>src/internal/identity/identity.go\<close>) and the part of an installation that decides
  for which node and with which configuration the machine is set up: the ownership check, the sealed
  bootstrap configuration and the host packages (\<open>src/internal/install/install.go\<close>,
  \<open>bootstrap.go\<close>, \<open>src/internal/app/app.go\<close>). Key generation, HMAC, AES-GCM, the JSON parser
  and the network are parameters. Bytes are natural numbers, as in \<open>Base64\<close>.
\<close>

section \<open>Identity\<close>

record Identity =
  idSchemaVersion :: int
  idAgentID :: string
  idPublicKey :: string
  idPrivateKey :: string

definition identitySchema :: int where "identitySchema = 3"

definition decodeKey :: "string \<Rightarrow> nat \<Rightarrow> nat list option" where
  "decodeKey value n =
     (if value = [] \<or> CHR ''='' \<in> set value then None
      else (case RawURLDecode value of None \<Rightarrow> None
        | Some bs \<Rightarrow> if length bs \<noteq> n \<or> RawURLEncode bs \<noteq> value then None else Some bs))"

definition identity_Validate :: "Identity \<Rightarrow> bool" where
  "identity_Validate i =
     (if idSchemaVersion i \<noteq> identitySchema then False
      else if \<not> ValidUUID (idAgentID i) then False
      else (case decodeKey (idPublicKey i) 32 of None \<Rightarrow> False
        | Some public \<Rightarrow> (case decodeKey (idPrivateKey i) 64 of None \<Rightarrow> False
            | Some private \<Rightarrow> drop 32 private = public)))"

text \<open>\<open>Generate\<close>, with the outcome of \<open>ed25519.GenerateKey\<close>: the public and the private key.\<close>

definition Generate :: "(nat list \<times> nat list) option \<Rightarrow> string \<Rightarrow> Identity option" where
  "Generate keys agentID =
     (if \<not> ValidUUID agentID then None
      else (case keys of None \<Rightarrow> None
        | Some (public, private) \<Rightarrow>
            Some \<lparr>idSchemaVersion = identitySchema, idAgentID = agentID, idPublicKey = RawURLEncode public, idPrivateKey = RawURLEncode private\<rparr>))"

definition Ed25519PrivateKey :: "Identity \<Rightarrow> nat list" where
  "Ed25519PrivateKey i = (case RawURLDecode (idPrivateKey i) of None \<Rightarrow> [] | Some bs \<Rightarrow> bs)"

text \<open>The document of an identity and its reading by a decoder that refuses unknown fields.\<close>

definition identity_json :: "Identity \<Rightarrow> json" where
  "identity_json i = JObj [(''schema_version'', JNum (Itoa (idSchemaVersion i))), (''agent_id'', JStr (idAgentID i)),
     (''public_key'', JStr (idPublicKey i)), (''private_key'', JStr (idPrivateKey i))]"

definition identityFields :: "string list" where
  "identityFields = [''schema_version'', ''agent_id'', ''public_key'', ''private_key'']"

definition typed_identity :: "json \<Rightarrow> Identity option" where
  "typed_identity doc = (case doc of
      JNull \<Rightarrow> Some \<lparr>idSchemaVersion = 0, idAgentID = [], idPublicKey = [], idPrivateKey = []\<rparr>
    | JObj kvs \<Rightarrow>
        if \<not> list_all (\<lambda>k. fold_key k \<in> set identityFields) (map fst kvs) then None
        else (case (field 0 as_int kvs ''schema_version'', field [] as_string kvs ''agent_id'', field [] as_string kvs ''public_key'',
                    field [] as_string kvs ''private_key'') of
            (Some v, Some a, Some p, Some q) \<Rightarrow> Some \<lparr>idSchemaVersion = v, idAgentID = a, idPublicKey = p, idPrivateKey = q\<rparr>
          | _ \<Rightarrow> None)
    | _ \<Rightarrow> None)"

definition identity_Save :: "save_env \<Rightarrow> Identity \<Rightarrow> json JSONFile \<Rightarrow> bool \<times> json JSONFile" where
  "identity_Save env i f =
     (if \<not> identity_Validate i then (False, f)
      else (case Save env (identity_json i) f of (err, f') \<Rightarrow> (err = None, f')))"

text \<open>\<open>Load\<close>, with what \<open>os.Stat\<close> says: a regular file or not, and its permission bits.\<close>

definition identity_Load :: "bool \<times> nat \<Rightarrow> json JSONFile \<Rightarrow> Identity option" where
  "identity_Load mode f =
     (if contents f = NoFile then None
      else if \<not> fst mode \<or> snd mode mod 64 \<noteq> 0 then None
      else (case Load f of Inl e \<Rightarrow> None | Inr None \<Rightarrow> None
        | Inr (Some doc) \<Rightarrow> (case typed_identity doc of None \<Rightarrow> None
            | Some i \<Rightarrow> if identity_Validate i then Some i else None)))"

text \<open>\<open>ReadAgentID\<close>: no file, no valid owner, or the owner.\<close>

datatype owner = NoOwner | OwnerUnknown | OwnerUnreadable | Owner string

definition owner_of :: "json \<Rightarrow> string option" where
  "owner_of doc = (case doc of JNull \<Rightarrow> Some [] | JObj kvs \<Rightarrow> field [] as_string kvs ''agent_id'' | _ \<Rightarrow> None)"

definition ReadAgentID :: "json JSONFile \<Rightarrow> owner" where
  "ReadAgentID f = (case contents f of
      NoFile \<Rightarrow> NoOwner
    | Unopenable \<Rightarrow> OwnerUnreadable
    | Contents [Value doc] \<Rightarrow> (case owner_of doc of None \<Rightarrow> OwnerUnknown | Some a \<Rightarrow> if ValidUUID a then Owner a else OwnerUnknown)
    | Contents _ \<Rightarrow> OwnerUnknown)"

section \<open>Enrollment\<close>

record Enrollment =
  enControlEndpoint :: string
  enMachineToken :: string
  enAgentVersion :: string
  enConfigurationRevision :: int

datatype enroll_error = EndpointInvalid | EnrollUnanswered | Rejected int "string option" | EnrollUndecodable | EnrollMismatch

definition enroll_url :: "(string \<Rightarrow> url option) \<Rightarrow> string \<Rightarrow> url option" where
  "enroll_url parseURL endpoint = (case parseURL endpoint of None \<Rightarrow> None
     | Some u \<Rightarrow> if plain_url ''wss'' ''/internal/agents/ws'' u then Some (u\<lparr>uScheme := ''https'', uPath := ''/internal/agents/enroll''\<rparr>) else None)"

definition enroll_body :: "Identity \<Rightarrow> Enrollment \<Rightarrow> json" where
  "enroll_body i e = JObj [(''machine_token'', JStr (enMachineToken e)), (''public_key'', JStr (idPublicKey i)),
     (''agent_version'', JStr (enAgentVersion e)), (''configuration_revision'', JNum (Itoa (enConfigurationRevision e)))]"

definition error_token :: "string \<Rightarrow> bool" where
  "error_token s \<longleftrightarrow> 1 \<le> length s \<and> length s \<le> 64 \<and> list_all (\<lambda>c. c \<in> set (lower @ digits @ ''_'')) s"

definition rejection :: "raw \<Rightarrow> string option" where
  "rejection r = (case r of
      Doc (JObj kvs) \<Rightarrow> (case field [] as_string kvs ''error'' of None \<Rightarrow> None | Some s \<Rightarrow> if error_token s then Some s else None)
    | _ \<Rightarrow> None)"

definition typed_enrolled :: "raw \<Rightarrow> (bool \<times> string \<times> string) option" where
  "typed_enrolled r = (case r of
      Doc JNull \<Rightarrow> Some (False, [], [])
    | Doc (JObj kvs) \<Rightarrow> (case (field False as_bool kvs ''ok'', field [] as_string kvs ''agent_id'', field [] as_string kvs ''protocol'') of
          (Some ok, Some a, Some p) \<Rightarrow> Some (ok, a, p) | _ \<Rightarrow> None)
    | _ \<Rightarrow> None)"

text \<open>\<open>Enroll\<close> against a server that answers a request with a status and a body, or not at all; the
  request, if one is sent, comes first.\<close>

definition Enroll :: "(string \<Rightarrow> url option) \<Rightarrow> (url \<Rightarrow> json \<Rightarrow> (int \<times> raw) option) \<Rightarrow> Enrollment \<Rightarrow> Identity \<Rightarrow>
    (url \<times> json) option \<times> enroll_error option" where
  "Enroll parseURL server e i = (case enroll_url parseURL (enControlEndpoint e) of
      None \<Rightarrow> (None, Some EndpointInvalid)
    | Some u \<Rightarrow> (Some (u, enroll_body i e),
        (case server u (enroll_body i e) of
           None \<Rightarrow> Some EnrollUnanswered
         | Some (status, r) \<Rightarrow>
             if status \<noteq> 200 then Some (Rejected status (rejection r))
             else (case typed_enrolled r of None \<Rightarrow> Some EnrollUndecodable
               | Some (ok, a, p) \<Rightarrow> if \<not> ok \<or> a \<noteq> idAgentID i \<or> p \<noteq> Version then Some EnrollMismatch else None))))"

section \<open>The sealed configuration\<close>

definition maxBootstrapBytes :: nat where "maxBootstrapBytes = 128 * 1024"

definition decodeToken :: "string \<Rightarrow> nat list option" where
  "decodeToken token = (case RawURLDecode token of None \<Rightarrow> None
     | Some bs \<Rightarrow> if length bs \<noteq> 32 \<or> RawURLEncode bs \<noteq> token then None else Some bs)"

record crypto =
  hmac_sha256 :: "nat list \<Rightarrow> nat list \<Rightarrow> nat list"
  gcm_open :: "nat list \<Rightarrow> nat list \<Rightarrow> nat list \<Rightarrow> nat list \<Rightarrow> nat list option"

definition text_bytes :: "string \<Rightarrow> nat list" where
  "text_bytes s = map of_char s"

definition deriveKey :: "crypto \<Rightarrow> nat list \<Rightarrow> string \<Rightarrow> nat list" where
  "deriveKey cr token agentID = hmac_sha256 cr (hmac_sha256 cr (text_bytes agentID) token) (text_bytes ''akastr-agent-bootstrap-v3'' @ [1])"

definition decrypt :: "crypto \<Rightarrow> nat list \<Rightarrow> string \<Rightarrow> nat list \<Rightarrow> nat list \<Rightarrow> nat list option" where
  "decrypt cr token agentID nonce ciphertext = gcm_open cr (deriveKey cr token agentID) nonce ciphertext (text_bytes agentID)"

definition fetchRequest :: "string \<Rightarrow> string \<Rightarrow> json" where
  "fetchRequest agentID token = JObj [(''agent_id'', JStr agentID), (''machine_token'', JStr token)]"

record fetchResponse =
  frSchema :: string
  frNonce :: string
  frCiphertext :: string

definition typed_fetch :: "json \<Rightarrow> fetchResponse option" where
  "typed_fetch doc = (case doc of
      JNull \<Rightarrow> Some \<lparr>frSchema = [], frNonce = [], frCiphertext = []\<rparr>
    | JObj kvs \<Rightarrow>
        if \<not> list_all (\<lambda>k. fold_key k \<in> set [''schema'', ''nonce'', ''ciphertext'']) (map fst kvs) then None
        else (case (field [] as_string kvs ''schema'', field [] as_string kvs ''nonce'', field [] as_string kvs ''ciphertext'') of
            (Some s, Some n, Some c) \<Rightarrow> Some \<lparr>frSchema = s, frNonce = n, frCiphertext = c\<rparr> | _ \<Rightarrow> None)
    | _ \<Rightarrow> None)"

text \<open>What the decoder makes of the first value of the answer and what is opened of it.\<close>

definition open_response :: "crypto \<Rightarrow> nat list \<Rightarrow> string \<Rightarrow> json decoded list \<Rightarrow> nat list option" where
  "open_response cr token agentID docs = (case docs of
      Value doc # _ \<Rightarrow> (case typed_fetch doc of None \<Rightarrow> None
        | Some r \<Rightarrow>
            if frSchema r \<noteq> ''akastr-agent-bootstrap.v4'' then None
            else (case RawURLDecode (frNonce r) of None \<Rightarrow> None
              | Some nonce \<Rightarrow>
                  if length nonce \<noteq> 12 then None
                  else (case RawURLDecode (frCiphertext r) of None \<Rightarrow> None
                    | Some c \<Rightarrow> if length c < 17 \<or> maxBootstrapBytes < length c then None else decrypt cr token agentID nonce c)))
    | _ \<Rightarrow> None)"

definition fetchBootstrap :: "crypto \<Rightarrow> (string \<Rightarrow> url option) \<Rightarrow> (url \<Rightarrow> json \<Rightarrow> (int \<times> json decoded list) option) \<Rightarrow> string \<Rightarrow> string \<Rightarrow> string \<Rightarrow>
    nat list option" where
  "fetchBootstrap cr parseURL server endpoint agentID token = (case decodeToken token of None \<Rightarrow> None
     | Some key \<Rightarrow> (case parseURL endpoint of None \<Rightarrow> None
         | Some u \<Rightarrow>
             if \<not> plain_url ''https'' ''/internal/agents/bootstrap'' u then None
             else (case server u (fetchRequest agentID token) of None \<Rightarrow> None
               | Some (status, docs) \<Rightarrow> if status \<noteq> 200 then None else open_response cr key agentID docs)))"

section \<open>Installing for one node\<close>

text \<open>\<open>checkOwnership\<close>; \<open>entries\<close> is what \<open>os.ReadDir\<close> says of the state directory: \<open>None\<close> for an
  error other than its absence.\<close>

definition checkOwnership :: "json JSONFile \<Rightarrow> string list option \<Rightarrow> string \<Rightarrow> bool" where
  "checkOwnership f entries agentID = (case ReadAgentID f of
      OwnerUnknown \<Rightarrow> False
    | OwnerUnreadable \<Rightarrow> False
    | Owner a \<Rightarrow> a = agentID
    | NoOwner \<Rightarrow> (case entries of None \<Rightarrow> False | Some es \<Rightarrow> es = []))"

fun missing :: "(string \<Rightarrow> bool) \<Rightarrow> string list \<Rightarrow> string" where
  "missing found [] = []"
| "missing found (c # cs) = (if found c then missing found cs else c)"

text \<open>\<open>installHostPackages\<close>: the host commands it runs and whether it succeeds; \<open>after\<close> is what can be
  found once the packages are installed.\<close>

definition installHostPackages :: "(string \<Rightarrow> bool) \<Rightarrow> (string \<Rightarrow> bool) \<Rightarrow> (string list \<Rightarrow> bool) \<Rightarrow> modules \<Rightarrow> string list list \<times> bool" where
  "installHostPackages found after runs m =
     (let (commands, packages) = hostCommands m; update = [''apt-get'', ''update''];
          install = [''apt-get'', ''install'', ''-y'', ''--no-install-recommends''] @ packages in
      if missing found commands = [] then ([], True)
      else if \<not> runs update then ([update], False)
      else if \<not> runs install then ([update, install], False)
      else ([update, install], missing after commands = []))"

record setup_env =
  seEntries :: "string list option"
  seServer :: "url \<Rightarrow> json \<Rightarrow> (int \<times> json decoded list) option"
  seDocs :: "nat list \<Rightarrow> json decoded list"
  seFound :: "string \<Rightarrow> bool"
  seAfter :: "string \<Rightarrow> bool"
  seRuns :: "string list \<Rightarrow> bool"
  seBinary :: bool
  seDirs :: bool
  sePrepared :: bool
  seJournal :: bool
  seBuild :: build_env

text \<open>\<open>app.Prepare\<close>: the pinned assets, then the journal and everything the modules open.\<close>

definition app_Prepare :: "setup_env \<Rightarrow> modules \<Rightarrow> bool" where
  "app_Prepare e m \<longleftrightarrow> (mRunner m \<noteq> None \<longrightarrow> sePrepared e) \<and> seJournal e \<and> build (seBuild e) m \<noteq> None"

record options =
  oAgentID :: string
  oMachineToken :: string
  oBootstrapEndpoint :: string

text \<open>\<open>Install\<close> up to the choice of the slot: the configuration document, the configuration and its
  modules.\<close>

definition install_setup :: "crypto \<Rightarrow> (string \<Rightarrow> url option) \<Rightarrow> setup_env \<Rightarrow> json JSONFile \<Rightarrow> options \<Rightarrow> (nat list \<times> node_config \<times> modules) option" where
  "install_setup cr parseURL e f o1 =
     (if \<not> checkOwnership f (seEntries e) (oAgentID o1) then None
      else (case fetchBootstrap cr parseURL (seServer e) (oBootstrapEndpoint o1) (oAgentID o1) (oMachineToken o1) of None \<Rightarrow> None
        | Some plain \<Rightarrow> (case config_Parse parseURL (length plain) (seDocs e plain) of None \<Rightarrow> None
            | Some cfg \<Rightarrow>
                if cfgAgentID cfg \<noteq> oAgentID o1 then None
                else (case parseModules parseURL (cfgModules cfg) of Inl err \<Rightarrow> None
                  | Inr m \<Rightarrow>
                      if \<not> snd (installHostPackages (seFound e) (seAfter e) (seRuns e) m) then None
                      else if \<not> seBinary e \<or> \<not> seDirs e then None
                      else if \<not> app_Prepare e m then None
                      else Some (plain, cfg, m)))))"

section \<open>A saved identity is read back\<close>

definition keypair :: "nat list \<Rightarrow> nat list \<Rightarrow> bool" where
  "keypair public private \<longleftrightarrow> length public = 32 \<and> length private = 64 \<and> drop 32 private = public \<and> list_all (\<lambda>b. b < 256) private"

lemma keypair_bytes: "keypair public private \<Longrightarrow> list_all (\<lambda>b. b < 256) public"
  unfolding keypair_def list_all_iff by (metis in_set_dropD)

lemma RawURLEncode_Nil: "RawURLEncode bs = [] \<longleftrightarrow> bs = []"
  by (cases bs rule: b64_groups.cases) (simp_all add: RawURLEncode_def)

lemma b64_url_no_pad: "CHR ''='' \<notin> set b64_url"
  by (simp add: b64_url_def char_classes)

lemma decodeKey_Encode: "list_all (\<lambda>b. b < 256) bs \<Longrightarrow> bs \<noteq> [] \<Longrightarrow> decodeKey (RawURLEncode bs) (length bs) = Some bs"
  using RawURLEncode_chars [of bs] b64_url_no_pad by (auto simp: decodeKey_def RawURLEncode_Nil RawURLDecode_Encode)

lemma decodeKey_Some: "decodeKey s n = Some bs \<Longrightarrow> length bs = n \<and> s = RawURLEncode bs \<and> list_all (\<lambda>b. b < 256) bs"
  by (auto simp: decodeKey_def dest: RawURLDecode_bytes split: if_splits option.splits)

lemma Generate_valid:
  assumes "keypair public private" and "Generate (Some (public, private)) a = Some i"
  shows "identity_Validate i \<and> idAgentID i = a \<and> Ed25519PrivateKey i = private"
proof -
  have lens: "length public = 32" "length private = 64" "drop 32 private = public" and bytes: "list_all (\<lambda>b. b < 256) private"
    using assms(1) by (simp_all add: keypair_def)
  have i: "i = \<lparr>idSchemaVersion = identitySchema, idAgentID = a, idPublicKey = RawURLEncode public, idPrivateKey = RawURLEncode private\<rparr>"
    and a: "ValidUUID a"
    using assms(2) by (simp_all add: Generate_def split: if_splits)
  have "public \<noteq> []" "private \<noteq> []"
    using lens by auto
  then have "decodeKey (RawURLEncode public) 32 = Some public" "decodeKey (RawURLEncode private) 64 = Some private"
    using decodeKey_Encode [OF keypair_bytes [OF assms(1)]] decodeKey_Encode [OF bytes] lens by auto
  then show ?thesis
    using a lens(3) by (simp add: i identity_Validate_def Ed25519PrivateKey_def RawURLDecode_Encode [OF bytes])
qed

lemma typed_identity_json: "idSchemaVersion i = identitySchema \<Longrightarrow> typed_identity (identity_json i) = Some i"
proof -
  assume v: "idSchemaVersion i = identitySchema"
  have keys: "fold_key ''schema_version'' = ''schema_version''" "fold_key ''agent_id'' = ''agent_id''"
    "fold_key ''public_key'' = ''public_key''" "fold_key ''private_key'' = ''private_key''"
    by code_simp+
  have "Atoi (Itoa 3) = Some 3"
    by (rule Atoi_Itoa) simp_all
  then show ?thesis
    using v by (cases i) (simp add: typed_identity_def identity_json_def identityFields_def identitySchema_def keys field_def struct_get_def obj_get_def)
qed

lemma owner_of_identity: "owner_of (identity_json i) = Some (idAgentID i)"
proof -
  have keys: "fold_key ''schema_version'' = ''schema_version''" "fold_key ''agent_id'' = ''agent_id''"
    "fold_key ''public_key'' = ''public_key''" "fold_key ''private_key'' = ''private_key''"
    by code_simp+
  show ?thesis
    by (simp add: owner_of_def identity_json_def field_def struct_get_def obj_get_def keys)
qed

lemma Save_identity:
  assumes "identity_Save env i f = (True, f')"
  shows "identity_Validate i" "contents f' = Contents [Value (identity_json i)]"
proof -
  show v: "identity_Validate i"
    using assms by (simp add: identity_Save_def split: if_splits)
  have "fst (Save env (identity_json i) f) = None" "f' = snd (Save env (identity_json i) f)"
    using assms v by (auto simp: identity_Save_def split: prod.splits)
  then show "contents f' = Contents [Value (identity_json i)]"
    using Save_success by metis
qed

lemma Validate_parts: "identity_Validate i \<Longrightarrow> idSchemaVersion i = identitySchema \<and> ValidUUID (idAgentID i)"
  by (simp add: identity_Validate_def split: if_splits)

text \<open>
  C31. An identity generated for a node from a key pair of the signature scheme and saved without an
  error is read back as it is, with the generated private key; from then on no installation for
  another node gets past the ownership check, whatever the state directory, the server and the host
  answer, while one for this node does.
\<close>

theorem identity_kept:
  assumes "keypair public private" and "Generate (Some (public, private)) a = Some i" and "identity_Save env i f = (True, f')"
  shows "identity_Load (True, 384) f' = Some i \<and> Ed25519PrivateKey i = private \<and>
    (checkOwnership f' entries b \<longleftrightarrow> b = a) \<and>
    (oAgentID o1 \<noteq> a \<longrightarrow> install_setup cr parseURL e f' o1 = None)"
proof -
  have g: "idAgentID i = a" "Ed25519PrivateKey i = private"
    using Generate_valid [OF assms(1,2)] by simp_all
  have v: "identity_Validate i" and c: "contents f' = Contents [Value (identity_json i)]"
    using Save_identity [OF assms(3)] by simp_all
  have parts: "idSchemaVersion i = identitySchema" "ValidUUID a"
    using Validate_parts [OF v] g(1) by simp_all
  have "ReadAgentID f' = Owner a"
    using parts(2) by (simp add: ReadAgentID_def c owner_of_identity g(1))
  then have own: "checkOwnership f' es b \<longleftrightarrow> b = a" for es b
    by (auto simp: checkOwnership_def)
  have "identity_Load (True, 384) f' = Some i"
    using v by (simp add: identity_Load_def c Load_one [OF c] typed_identity_json [OF parts(1)])
  then show ?thesis
    using g(2) own by (simp add: install_setup_def)
qed

definition ex_uuid :: string where
  "ex_uuid = ''0f8fad5b-d9cb-469f-a165-70867728950e''"

definition ex_identity :: Identity where
  "ex_identity = \<lparr>idSchemaVersion = identitySchema, idAgentID = ex_uuid, idPublicKey = RawURLEncode (replicate 32 7), idPrivateKey = RawURLEncode (replicate 64 7)\<rparr>"

definition ex_no_identity :: "json JSONFile" where
  "ex_no_identity = \<lparr>contents = NoFile, temporaries = 0\<rparr>"

theorem identity_kept_witness:
  "\<exists>f'. identity_Save all_ok ex_identity ex_no_identity = (True, f') \<and> identity_Load (True, 384) f' = Some ex_identity \<and>
     checkOwnership f' None ex_uuid \<and> \<not> checkOwnership f' (Some []) ''other''"
proof -
  have k: "keypair (replicate 32 7) (replicate 64 7)"
    by (simp add: keypair_def list_all_iff)
  have u: "ValidUUID ex_uuid"
    by code_simp
  then have g: "Generate (Some (replicate 32 7, replicate 64 7)) ex_uuid = Some ex_identity"
    by (simp add: Generate_def ex_identity_def)
  have v: "identity_Validate ex_identity"
    using Generate_valid [OF k g] by simp
  obtain f' where f: "identity_Save all_ok ex_identity ex_no_identity = (True, f')"
    using v by (simp add: identity_Save_def)
  show ?thesis
    using identity_kept [OF k g f, of None ex_uuid] identity_kept [OF k g f, of "Some []" "''other''"] f
    by (simp add: ex_uuid_def)
qed

section \<open>What a machine is set up with\<close>

lemma missing_found: "missing found cs = [] \<Longrightarrow> [] \<notin> set cs \<Longrightarrow> list_all found cs"
  by (induction cs) (auto split: if_splits)

lemma hostCommands_named: "[] \<notin> set (fst (hostCommands m))"
  by (simp add: hostCommands_def RunnerCommands_def)

lemma packages_found:
  assumes "snd (installHostPackages found after runs m)"
  shows "list_all found (fst (hostCommands m)) \<or> list_all after (fst (hostCommands m))"
  using assms missing_found [OF _ hostCommands_named, of _ m]
  by (auto simp: installHostPackages_def Let_def split: prod.splits if_splits)

lemma fetch_opened:
  assumes "fetchBootstrap cr parseURL server endpoint a token = Some plain"
  shows "\<exists>key nonce c. decodeToken token = Some key \<and> length nonce = 12 \<and> gcm_open cr (deriveKey cr key a) nonce c (text_bytes a) = Some plain"
  using assms
  by (auto simp: fetchBootstrap_def open_response_def decrypt_def split: option.splits if_splits list.splits decoded.splits prod.splits)

lemma config_Parse_parts:
  "config_Parse parseURL n docs = Some cfg \<Longrightarrow>
     n \<noteq> 0 \<and> n \<le> maxConfigBytes \<and> cfgSchemaVersion cfg = configSchemaVersion \<and> 1 \<le> cfgRevision cfg \<and> ValidUUID (cfgAgentID cfg) \<and>
     control_url parseURL (cfgEndpoint cfg) \<and> cfgModules cfg \<noteq> []"
  by (auto simp: config_Parse_def split: if_splits list.splits decoded.splits option.splits)

text \<open>
  C30. An installation gets to writing a slot only on a machine that already belongs to the node it is
  for, or that has neither an identity nor state; and only with a configuration that was sealed with a
  key made of its own machine token and node identifier, names that node and a plain control endpoint,
  consists of sections this Agent accepts with the modules they rely on, and whose modules find every
  host command they need.
\<close>

theorem setup_authentic:
  assumes "install_setup cr parseURL e f o1 = Some (plain, cfg, m)"
  shows "(ReadAgentID f = Owner (oAgentID o1) \<or> ReadAgentID f = NoOwner \<and> seEntries e = Some []) \<and>
    (\<exists>key nonce c. decodeToken (oMachineToken o1) = Some key \<and> length nonce = 12 \<and>
       gcm_open cr (deriveKey cr key (oAgentID o1)) nonce c (text_bytes (oAgentID o1)) = Some plain) \<and>
    config_Parse parseURL (length plain) (seDocs e plain) = Some cfg \<and>
    cfgAgentID cfg = oAgentID o1 \<and> ValidUUID (oAgentID o1) \<and> control_url parseURL (cfgEndpoint cfg) \<and>
    parseModules parseURL (cfgModules cfg) = Inr m \<and>
    (list_all (seFound e) (fst (hostCommands m)) \<or> list_all (seAfter e) (fst (hostCommands m)))"
proof -
  have own: "checkOwnership f (seEntries e) (oAgentID o1)"
    and fetched: "fetchBootstrap cr parseURL (seServer e) (oBootstrapEndpoint o1) (oAgentID o1) (oMachineToken o1) = Some plain"
    and cfg: "config_Parse parseURL (length plain) (seDocs e plain) = Some cfg" "cfgAgentID cfg = oAgentID o1"
    and m: "parseModules parseURL (cfgModules cfg) = Inr m"
    and host: "snd (installHostPackages (seFound e) (seAfter e) (seRuns e) m)"
    using assms by (auto simp: install_setup_def split: if_splits option.splits sum.splits)
  have "ReadAgentID f = Owner (oAgentID o1) \<or> ReadAgentID f = NoOwner \<and> seEntries e = Some []"
    using own by (auto simp: checkOwnership_def split: owner.splits option.splits)
  then show ?thesis
    using fetch_opened [OF fetched] cfg m packages_found [OF host] config_Parse_parts [OF cfg(1)] by simp
qed

definition ex_crypto :: crypto where
  "ex_crypto = \<lparr>hmac_sha256 = \<lambda>k d. k, gcm_open = \<lambda>k n c a. Some c\<rparr>"

definition ex_url :: "string \<Rightarrow> url option" where
  "ex_url s = Some \<lparr>uScheme = (if s = ''boot'' then ''https'' else ''wss''), uHost = ''h'', uHostname = ''h'',
     uPath = (if s = ''boot'' then ''/internal/agents/bootstrap'' else ''/internal/agents/ws''), uUser = False, uRawQuery = [], uFragment = []\<rparr>"

definition ex_config :: json where
  "ex_config = JObj [(''schema_version'', JNum ''5''), (''configuration_revision'', JNum ''1''), (''agent_id'', JStr ex_uuid),
     (''name'', JStr ''node''), (''control_endpoint'', JStr ''ctl''), (''modules'', JObj [(''diagnostics'', JObj [])])]"

definition ex_sealed :: json where
  "ex_sealed = JObj [(''schema'', JStr ''akastr-agent-bootstrap.v4''), (''nonce'', JStr (RawURLEncode (replicate 12 0))),
     (''ciphertext'', JStr (RawURLEncode (replicate 18 7)))]"

definition ex_setup :: setup_env where
  "ex_setup = \<lparr>seEntries = Some [], seServer = \<lambda>u b. Some (200, [Value ex_sealed]), seDocs = \<lambda>p. [Value ex_config],
     seFound = \<lambda>c. True, seAfter = \<lambda>c. True, seRuns = \<lambda>c. True, seBinary = True, seDirs = True, sePrepared = True, seJournal = True,
     seBuild = \<lparr>bePanel = True, beObserver = True, beMonitor = True, beProvider = True, beScript = True\<rparr>\<rparr>"

definition ex_options :: options where
  "ex_options = \<lparr>oAgentID = ex_uuid, oMachineToken = RawURLEncode (replicate 32 7), oBootstrapEndpoint = ''boot''\<rparr>"

lemma ex_fetched: "fetchBootstrap ex_crypto ex_url (seServer ex_setup) ''boot'' ex_uuid (RawURLEncode (replicate 32 7)) = Some (replicate 18 7)"
proof -
  have t: "typed_fetch ex_sealed = Some \<lparr>frSchema = ''akastr-agent-bootstrap.v4'', frNonce = RawURLEncode (replicate 12 0),
      frCiphertext = RawURLEncode (replicate 18 7)\<rparr>"
    by code_simp
  have d: "RawURLDecode (RawURLEncode (replicate n b)) = Some (replicate n b)" if "b < 256" for n b
    using that by (intro RawURLDecode_Encode) (simp add: list_all_iff)
  show ?thesis
    by (simp add: fetchBootstrap_def decodeToken_def d ex_url_def plain_url_def ex_setup_def open_response_def t maxBootstrapBytes_def
      decrypt_def ex_crypto_def)
qed

lemma ex_parsed:
  "config_Parse ex_url (length (replicate 18 (7 :: nat))) [Value ex_config] =
     Some \<lparr>cfgSchemaVersion = 5, cfgRevision = 1, cfgAgentID = ex_uuid, cfgName = ''node'', cfgEndpoint = ''ctl'', cfgModules = [(''diagnostics'', no_section)]\<rparr>"
proof -
  have t: "typed_config ex_config =
      Some \<lparr>cfgSchemaVersion = 5, cfgRevision = 1, cfgAgentID = ex_uuid, cfgName = ''node'', cfgEndpoint = ''ctl'', cfgModules = [(''diagnostics'', no_section)]\<rparr>"
    by code_simp
  have "ValidUUID ex_uuid" "TrimSpace ''node'' = ''node''" "RuneCount ''node'' = 4"
    by code_simp+
  moreover have "control_url ex_url ''ctl''"
    by (simp add: control_url_def ex_url_def plain_url_def)
  ultimately show ?thesis
    by (simp add: config_Parse_def t maxConfigBytes_def configSchemaVersion_def)
qed

lemma ex_modules: "parseModules ex_url [(''diagnostics'', no_section)] = Inr (noModules\<lparr>mDiagnostics := Some ()\<rparr>)"
proof -
  have "empty_section no_section = Some ()"
    by code_simp
  then show ?thesis
    by (simp add: parseModules_def section_of_def put_section_def requirements_def noModules_def)
qed

lemma ex_installs:
  "\<exists>cfg. install_setup ex_crypto ex_url ex_setup ex_no_identity ex_options = Some (replicate 18 7, cfg, noModules\<lparr>mDiagnostics := Some ()\<rparr>)"
proof -
  have "snd (installHostPackages (seFound ex_setup) (seAfter ex_setup) (seRuns ex_setup) (noModules\<lparr>mDiagnostics := Some ()\<rparr>))"
    by (simp add: installHostPackages_def hostCommands_def noModules_def)
  moreover have "app_Prepare ex_setup (noModules\<lparr>mDiagnostics := Some ()\<rparr>)"
    by (simp add: app_Prepare_def build_def noModules_def ex_setup_def)
  moreover have "checkOwnership ex_no_identity (seEntries ex_setup) ex_uuid"
    by (simp add: checkOwnership_def ReadAgentID_def ex_no_identity_def ex_setup_def)
  moreover have "seDocs ex_setup p = [Value ex_config]" "seBinary ex_setup" "seDirs ex_setup" for p
    by (simp_all add: ex_setup_def)
  ultimately show ?thesis
    using ex_parsed ex_modules by (simp add: install_setup_def ex_options_def ex_fetched)
qed

theorem setup_authentic_witness:
  "\<exists>cfg. install_setup ex_crypto ex_url ex_setup ex_no_identity ex_options = Some (replicate 18 7, cfg, noModules\<lparr>mDiagnostics := Some ()\<rparr>) \<and>
     cfgAgentID cfg = ex_uuid \<and> control_url ex_url (cfgEndpoint cfg)"
  using ex_installs setup_authentic [of ex_crypto ex_url ex_setup ex_no_identity ex_options] by (auto simp: ex_options_def)

end
