(* ===== verification/Update_Check.thy ===== *)
theory Update_Check
  imports Update_Target Node_Identity
begin

text \<open>
  Asking Cloud for the approved release: \<open>Client.Check\<close> of \<open>src/internal/update/client.go\<close>, with the random
  nonce, the clock's text, the signature scheme and the server as arguments.
\<close>

section \<open>The request\<close>

definition maintenance_url :: "(string \<Rightarrow> url option) \<Rightarrow> string \<Rightarrow> url option" where
  "maintenance_url parseURL endpoint = (case parseURL endpoint of None \<Rightarrow> None
     | Some u \<Rightarrow> if plain_url ''wss'' ''/internal/agents/ws'' u then Some (u\<lparr>uScheme := ''https'', uPath := ''/internal/agents/maintenance''\<rparr>) else None)"

definition check_request :: "Identity \<Rightarrow> string \<Rightarrow> int \<Rightarrow> string \<Rightarrow> nat list \<Rightarrow> string \<Rightarrow> CheckRequest" where
  "check_request i version revision code nonce sentAt = \<lparr>cAgentID = idAgentID i, cAgentVersion = version, cRevision = revision,
     cErrorCode = code, cNonce = RawURLEncode nonce, cSentAt = sentAt\<rparr>"

definition check_body :: "CheckRequest \<Rightarrow> nat list \<Rightarrow> json" where
  "check_body r signature = JObj [(''agent_id'', JStr (cAgentID r)), (''agent_version'', JStr (cAgentVersion r)),
     (''configuration_revision'', JNum (Itoa (cRevision r))), (''error_code'', JStr (cErrorCode r)), (''nonce'', JStr (cNonce r)),
     (''sent_at'', JStr (cSentAt r)), (''signature'', JStr (RawURLEncode signature))]"

datatype check_error = CodeInvalid | CheckEndpoint | NoNonce | CheckUnanswered | CheckStatus int | CheckTarget target_error

text \<open>The request sent, if any, and the outcome.\<close>

definition Check :: "(string \<Rightarrow> url option) \<Rightarrow> (nat list \<Rightarrow> string \<Rightarrow> nat list) \<Rightarrow> (url \<Rightarrow> json \<Rightarrow> (int \<times> json decoded list) option) \<Rightarrow> nat list option \<Rightarrow> string \<Rightarrow>
    string \<Rightarrow> Identity \<Rightarrow> string \<Rightarrow> int \<Rightarrow> string \<Rightarrow> (url \<times> json) option \<times> (check_error + update_target)" where
  "Check parseURL sign server nonce sentAt endpoint i version revision code =
     (if code \<noteq> [] \<and> \<not> stableToken 63 code then (None, Inl CodeInvalid)
      else (case maintenance_url parseURL endpoint of None \<Rightarrow> (None, Inl CheckEndpoint)
        | Some u \<Rightarrow> (case nonce of None \<Rightarrow> (None, Inl NoNonce)
            | Some n \<Rightarrow>
                let r = check_request i version revision code n sentAt;
                    sent = check_body r (sign (Ed25519PrivateKey i) (SigningText r)) in
                (Some (u, sent), (case server u sent of None \<Rightarrow> Inl CheckUnanswered
                   | Some (status, docs) \<Rightarrow>
                       if status \<noteq> 200 then Inl (CheckStatus status)
                       else (case update_decodeTarget docs version revision of Inl e \<Rightarrow> Inl (CheckTarget e) | Inr t \<Rightarrow> Inr t))))))"

section \<open>What is asked and accepted\<close>

text \<open>A check is sent to the maintenance path of the host of the control endpoint over https, names this node
  and what it runs, and carries the signature of exactly its fields with the node's key; what it accepts
  passed the checks of a target against what runs.\<close>

lemma check_sent:
  assumes "Check parseURL sign server nonce sentAt endpoint i version revision code = (Some (u, doc), res)"
  shows "uScheme u = ''https'' \<and> uPath u = ''/internal/agents/maintenance'' \<and> (\<exists>c. parseURL endpoint = Some c \<and> uHost u = uHost c) \<and>
    (\<exists>r. cAgentID r = idAgentID i \<and> cAgentVersion r = version \<and> cRevision r = revision \<and> doc = check_body r (sign (Ed25519PrivateKey i) (SigningText r)))"
proof -
  obtain n where n: "nonce = Some n" and u: "maintenance_url parseURL endpoint = Some u"
    and b: "doc = check_body (check_request i version revision code n sentAt)
      (sign (Ed25519PrivateKey i) (SigningText (check_request i version revision code n sentAt)))"
    using assms by (auto simp: Check_def Let_def split: if_splits option.splits)
  have "uScheme u = ''https'' \<and> uPath u = ''/internal/agents/maintenance'' \<and> (\<exists>c. parseURL endpoint = Some c \<and> uHost u = uHost c)"
    using u by (auto simp: maintenance_url_def split: option.splits if_splits)
  then show ?thesis
    using b by (auto simp: check_request_def intro!: exI [of _ "check_request i version revision code n sentAt"])
qed

lemma check_accepts:
  "Check parseURL sign server nonce sentAt endpoint i version revision code = (req, Inr t) \<Longrightarrow> validate_target version revision t = None"
  by (auto simp: Check_def Let_def update_decodeTarget_def split: if_splits option.splits sum.splits list.splits decoded.splits)

end
