(* ===== verification/Startup.thy ===== *)
theory Startup
  imports Agent Node_Identity Update_Check
begin

text \<open>
  The start of the daemon: the checks of \<open>Run\<close> in \<open>src/internal/daemon/run.go\<close> before anything is started,
  \<open>BuildRuntime\<close> of \<open>src/internal/app/runtime.go\<close>, and \<open>New\<close> and \<open>Run\<close> of \<open>src/internal/transport/client.go\<close>.
\<close>

section \<open>Configuration and identity\<close>

definition daemon_start :: "(string \<Rightarrow> url option) \<Rightarrow> (bool \<times> nat) option \<Rightarrow> (nat \<times> json decoded list) option \<Rightarrow> bool \<times> nat \<Rightarrow> json JSONFile \<Rightarrow>
    (node_config \<times> modules \<times> Identity) option" where
  "daemon_start parseURL stat file mode keys = (case app_Load parseURL stat file of None \<Rightarrow> None
     | Some (cfg, m) \<Rightarrow> (case identity_Load mode keys of None \<Rightarrow> None
         | Some i \<Rightarrow> if idAgentID i \<noteq> cfgAgentID cfg then None else Some (cfg, m, i)))"

text \<open>\<open>BuildRuntime\<close>: the journal and what the modules open; the agent with no target yet.\<close>

definition BuildRuntime :: "string \<Rightarrow> stored_snapshot JSONFile \<Rightarrow> build_env \<Rightarrow> reporter_state list \<Rightarrow> modules \<Rightarrow> (Engine \<times> wiring \<times> agent) option" where
  "BuildRuntime stateFile f e rs m = (case Open stateFile (int recentOperationLimit) f of Inl err \<Rightarrow> None
     | Inr j \<Rightarrow> (case build e m of None \<Rightarrow> None
         | Some w \<Rightarrow> Some (j, w, \<lparr>agDesired = new_desired w, agReporters = rs\<rparr>)))"

section \<open>The control connection's client\<close>

definition client_New :: "(string \<Rightarrow> url option) \<Rightarrow> Identity \<Rightarrow> int \<Rightarrow> string \<Rightarrow> Client option" where
  "client_New parseURL i revision endpoint =
     (if \<not> identity_Validate i then None
      else if revision < 1 then None
      else if \<not> control_url parseURL endpoint then None
      else Some newClient)"

text \<open>What ends \<open>Client.Run\<close>: the modules or the control loop, whichever returns first.\<close>

datatype client_end = ModulesDone string | ControlDone "string option"

definition client_Run :: "bool \<Rightarrow> client_end \<Rightarrow> string option" where
  "client_Run cancelled e = (case e of
      ModulesDone err \<Rightarrow> if cancelled then Some ''context ended'' else Some (''Agent module failed: '' @ err)
    | ControlDone err \<Rightarrow> err)"

text \<open>The code logged for a closed connection, given the close status, if the error has one.\<close>

definition safeConnectionCode :: "int option option \<Rightarrow> string" where
  "safeConnectionCode err = (case err of None \<Rightarrow> ''closed''
     | Some None \<Rightarrow> ''connection_failed'' | Some (Some status) \<Rightarrow> ''websocket_'' @ Itoa status)"

section \<open>A daemon that starts can connect\<close>

lemma app_Load_parts:
  assumes "app_Load parseURL stat file = Some (cfg, m)"
  shows "parseModules parseURL (cfgModules cfg) = Inr m" "1 \<le> cfgRevision cfg" "ValidUUID (cfgAgentID cfg)" "control_url parseURL (cfgEndpoint cfg)"
proof -
  obtain c where c: "config_Load parseURL stat file = Some c" "NewModel parseURL c = Some (cfg, m)"
    using assms by (auto simp: app_Load_def bind_eq_Some_conv)
  have m: "NewModel parseURL cfg = Some (cfg, m)" and cfg: "c = cfg"
    using c(2) by (auto simp: NewModel_def split: sum.splits)
  obtain n docs where p: "config_Parse parseURL n docs = Some cfg"
    using c(1) by (auto simp: cfg config_Load_def split: option.splits if_splits)
  show "parseModules parseURL (cfgModules cfg) = Inr m"
    using m by (simp add: NewModel_def split: sum.splits)
  show "1 \<le> cfgRevision cfg" "ValidUUID (cfgAgentID cfg)" "control_url parseURL (cfgEndpoint cfg)"
    using config_Parse_parts [OF p] by simp_all
qed

text \<open>Whatever passes the daemon's checks passes those of the client and of the update check, for the node
  both the configuration and the key name: neither can fail later for a reason that was there at the start.\<close>

lemma started_connects:
  assumes "daemon_start parseURL stat file mode keys = Some (cfg, m, i)"
  shows "client_New parseURL i (cfgRevision cfg) (cfgEndpoint cfg) = Some newClient \<and> idAgentID i = cfgAgentID cfg \<and>
    maintenance_url parseURL (cfgEndpoint cfg) \<noteq> None"
proof -
  have l: "app_Load parseURL stat file = Some (cfg, m)" "identity_Load mode keys = Some i" "idAgentID i = cfgAgentID cfg"
    using assms by (auto simp: daemon_start_def split: option.splits if_splits)
  have v: "identity_Validate i"
    using l(2) by (auto simp: identity_Load_def split: if_splits sum.splits option.splits)
  have "maintenance_url parseURL (cfgEndpoint cfg) \<noteq> None"
    using app_Load_parts(4) [OF l(1)] by (auto simp: control_url_def maintenance_url_def split: option.splits)
  then show ?thesis
    using v l(3) app_Load_parts(2,4) [OF l(1)] by (simp add: client_New_def)
qed

text \<open>The runtime that is built is a start of the agent's steps.\<close>

lemma built_boots: "BuildRuntime stateFile f e rs m = Some (j, w, a) \<Longrightarrow> agent_reach w pt (control_start a) \<and> build e m = Some w"
  by (auto simp: BuildRuntime_def intro: agent_reach.boots split: sum.splits option.splits)

end
