(* ===== verification/Log_Run.thy ===== *)
theory Log_Run
  imports Log_Follow Xray_Process
begin

text \<open>
  The loop that reads the access log: \<open>Run\<close> of \<open>src/internal/xray/accesslog/accesslog.go\<close>, one iteration at a
  time. It joins finding the log (\<open>Xray_Process\<close>), following it (\<open>Log_Follow\<close>) and turning its entries into
  lines (\<open>Access_Log\<close>). What an iteration meets, the clock, the processes, the panel's list and the files,
  is an argument.
\<close>

section \<open>One iteration\<close>

definition locateEvery :: duration where "locateEvery = 5 * minute"
definition locateRetry :: duration where "locateRetry = 10 * second"
definition relistEvery :: duration where "relistEvery = 10 * second"

datatype log_error = NotReadYet | NotLocated locate_error | InboundsUnavailable | LogUnreadable

record log_reader =
  lrFollower :: "(string \<times> log_follower) option"
  lrInbounds :: "(string, inbound) gomap option"
  lrBlackholes :: "string list"
  lrUnlisted :: "string list"
  lrLocateAt :: gotime
  lrRelistAt :: gotime
  lrErr :: "log_error option"

definition newLog :: log_reader where
  "newLog = \<lparr>lrFollower = None, lrInbounds = None, lrBlackholes = [], lrUnlisted = [], lrLocateAt = 0, lrRelistAt = 0, lrErr = Some NotReadYet\<rparr>"

record log_input =
  lwNow :: gotime
  lwFound :: "locate_error + running"
  lwList :: "Inbound list option"
  lwRelist :: "Inbound list option"
  lwFiles :: "string \<Rightarrow> log_files"
  lwLinesAt :: gotime

definition newFollower :: log_follower where
  "newFollower = \<lparr>lfText = fresh_text, lfOpen = None, lfOff = 0, lfMark = None\<rparr>"

text \<open>Finding the log: the error of the attempt and the lists after it.\<close>

definition locate_error_of :: "log_input \<Rightarrow> log_reader \<Rightarrow> log_error option" where
  "locate_error_of e r = (case lwFound e of Inl err \<Rightarrow> Some (NotLocated err)
     | Inr _ \<Rightarrow> if lwList e = None \<and> lrInbounds r = None then Some InboundsUnavailable else None)"

definition listed :: "log_input \<Rightarrow> log_reader \<Rightarrow> log_reader" where
  "listed e r = (case (lwFound e, lwList e) of
      (Inr _, Some list) \<Rightarrow> r\<lparr>lrInbounds := Some (index list), lrUnlisted := []\<rparr> | _ \<Rightarrow> r)"

definition followed :: "log_input \<Rightarrow> log_reader \<Rightarrow> log_reader" where
  "followed e r = (case locate_error_of e r of
      Some err \<Rightarrow> (listed e r)\<lparr>lrFollower := None, lrErr := Some err\<rparr>
    | None \<Rightarrow> (case lwFound e of Inl _ \<Rightarrow> r
        | Inr found \<Rightarrow> (listed e r)\<lparr>lrBlackholes := ruBlackholes found,
            lrFollower := (case lrFollower r of
                Some (p, f) \<Rightarrow> if p = ruLog found then Some (p, f) else Some (ruLog found, newFollower)
              | None \<Rightarrow> Some (ruLog found, newFollower))\<rparr>))"

definition locate_phase :: "log_input \<Rightarrow> log_reader \<Rightarrow> log_reader" where
  "locate_phase e r =
     (if Before (lwNow e) (lrLocateAt r) then r
      else (let r1 = followed e r in
        r1\<lparr>lrLocateAt := lwNow e + (if lrFollower r1 = None then locateRetry else locateEvery)\<rparr>))"

text \<open>Reading it: the entries of a poll, the listing again when an entry names an unknown inbound, the
  lines passed on.\<close>

definition entries_of :: "(string \<Rightarrow> gotime option) \<Rightarrow> (string \<times> bool) list \<Rightarrow> entry list" where
  "entries_of stampTime raws = List.map_filter (\<lambda>(l, backlog). map_option (\<lambda>x. x\<lparr>eBacklog := backlog\<rparr>) (parse stampTime l)) raws"

definition known :: "log_reader \<Rightarrow> (string, inbound) gomap" where
  "known r = (case lrInbounds r of None \<Rightarrow> [] | Some m \<Rightarrow> m)"

definition relist :: "log_input \<Rightarrow> entry list \<Rightarrow> log_reader \<Rightarrow> log_reader" where
  "relist e es r =
     (if unknown es (known r) (lrUnlisted r) \<and> \<not> Before (lwNow e) (lrRelistAt r) then
        (let r1 = (case lwRelist e of None \<Rightarrow> r
                   | Some list \<Rightarrow> r\<lparr>lrInbounds := Some (index list),
                       lrUnlisted := lrUnlisted r @ filter (\<lambda>t. \<not> gm_has (index list) t) (map eTag es)\<rparr>)
         in r1\<lparr>lrRelistAt := lwNow e + relistEvery\<rparr>)
      else r)"

definition poll_phase :: "(string \<Rightarrow> gotime option) \<Rightarrow> log_input \<Rightarrow> log_reader \<Rightarrow> Line list \<times> log_reader" where
  "poll_phase stampTime e r = (case lrFollower r of None \<Rightarrow> ([], r)
     | Some (p, f) \<Rightarrow> (case poll_log (lwFiles e p) f of
         None \<Rightarrow> ([], r\<lparr>lrErr := Some LogUnreadable, lrFollower := None, lrLocateAt := lwNow e + locateRetry\<rparr>)
       | Some (raws, f') \<Rightarrow>
           (let es = entries_of stampTime raws; r1 = relist e es r in
            (lines (lwLinesAt e) es (known r1) (lrBlackholes r1), r1\<lparr>lrFollower := Some (p, f'), lrErr := None\<rparr>))))"

definition log_iteration :: "(string \<Rightarrow> gotime option) \<Rightarrow> log_input \<Rightarrow> log_reader \<Rightarrow> Line list \<times> log_reader" where
  "log_iteration stampTime e r = poll_phase stampTime e (locate_phase e r)"

fun log_iterations :: "(string \<Rightarrow> gotime option) \<Rightarrow> log_input list \<Rightarrow> log_reader \<Rightarrow> Line list \<times> log_reader" where
  "log_iterations stampTime [] r = ([], r)"
| "log_iterations stampTime (e # es) r =
     (case log_iteration stampTime e r of (ls, r1) \<Rightarrow> (case log_iterations stampTime es r1 of (ms, r2) \<Rightarrow> (ls @ ms, r2)))"

section \<open>What an error of the log means\<close>

text \<open>
  The log reports no error exactly while it is followed, it is then of the inbounds of some listing, and a
  log that is not followed is looked for again within ten seconds of the last iteration.
\<close>

definition log_inv :: "log_reader \<Rightarrow> bool" where
  "log_inv r \<longleftrightarrow> (lrErr r = None \<longleftrightarrow> lrFollower r \<noteq> None) \<and> (lrFollower r \<noteq> None \<longrightarrow> lrInbounds r \<noteq> None)"

definition log_due :: "gotime \<Rightarrow> log_reader \<Rightarrow> bool" where
  "log_due now r \<longleftrightarrow> (lrFollower r = None \<longrightarrow> lrLocateAt r \<le> now + locateRetry) \<and> lrLocateAt r \<le> now + locateEvery"

lemma relist_keeps [simp]:
  "lrFollower (relist e es r) = lrFollower r" "lrErr (relist e es r) = lrErr r" "lrLocateAt (relist e es r) = lrLocateAt r"
  "lrBlackholes (relist e es r) = lrBlackholes r" "lrInbounds r \<noteq> None \<Longrightarrow> lrInbounds (relist e es r) \<noteq> None"
  by (auto simp: relist_def Let_def split: option.splits)

lemma followed_known: "lrFollower r \<noteq> None \<longrightarrow> lrInbounds r \<noteq> None \<Longrightarrow> lrFollower (followed e r) \<noteq> None \<Longrightarrow> lrInbounds (followed e r) \<noteq> None"
  by (auto simp: followed_def locate_error_of_def listed_def split: sum.splits option.splits if_splits)

lemma followed_error: "lrFollower (followed e r) = None \<Longrightarrow> lrErr (followed e r) \<noteq> None"
  by (auto simp: followed_def locate_error_of_def split: sum.splits option.splits if_splits)

text \<open>Before the poll an error of an earlier time may still stand beside a new follower.\<close>

lemma locate_phase_inv:
  assumes "log_inv r"
  shows "(lrFollower (locate_phase e r) = None \<longrightarrow> lrErr (locate_phase e r) \<noteq> None) \<and>
    (lrFollower (locate_phase e r) \<noteq> None \<longrightarrow> lrInbounds (locate_phase e r) \<noteq> None)"
  using assms followed_known [of r e] followed_error [of e r] by (auto simp: log_inv_def locate_phase_def Let_def)

lemma log_inv_iteration:
  assumes "log_inv r"
  shows "log_inv (snd (log_iteration stampTime e r))"
proof (cases "lrFollower (locate_phase e r)")
  case None
  then show ?thesis
    using locate_phase_inv [OF assms, of e] by (simp add: log_iteration_def poll_phase_def log_inv_def)
next
  case (Some x)
  then obtain p f where pf: "lrFollower (locate_phase e r) = Some (p, f)"
    by (cases x) auto
  then have "lrInbounds (locate_phase e r) \<noteq> None"
    using locate_phase_inv [OF assms, of e] by simp
  then have known: "lrInbounds (relist e es (locate_phase e r)) \<noteq> None" for es
    by (rule relist_keeps(5))
  show ?thesis
  proof (cases "poll_log (lwFiles e p) f")
    case None
    then show ?thesis
      using pf by (simp add: log_iteration_def poll_phase_def log_inv_def)
  next
    case (Some x)
    then show ?thesis
      using pf known by (cases x) (simp add: log_iteration_def poll_phase_def log_inv_def Let_def)
  qed
qed

lemma locate_phase_due:
  assumes "log_due before r" and "before \<le> lwNow e"
  shows "log_due (lwNow e) (locate_phase e r)"
  using assms by (auto simp: log_due_def locate_phase_def Let_def locateEvery_def locateRetry_def time_units)

lemma log_due_iteration:
  assumes "log_due before r" and "before \<le> lwNow e"
  shows "log_due (lwNow e) (snd (log_iteration stampTime e r))"
  using locate_phase_due [OF assms]
  by (auto simp: log_iteration_def poll_phase_def log_due_def Let_def locateEvery_def locateRetry_def time_units split: option.splits)

text \<open>
  Over any iterations with a clock that does not go back: the log reports no error exactly while it is
  followed, and when it is not, it is looked for again at most ten seconds after the last iteration.
\<close>

theorem log_recovers:
  assumes "sorted (map lwNow es)" and "es \<noteq> []" and "0 \<le> lwNow (hd es)" and "log_iterations stampTime es newLog = (ls, r)"
  shows "(lrErr r = None \<longleftrightarrow> lrFollower r \<noteq> None) \<and> (lrFollower r = None \<longrightarrow> lrLocateAt r \<le> lwNow (last es) + locateRetry)"
proof -
  have step: "log_inv (snd (log_iterations stampTime es r)) \<and> log_due (last (before # map lwNow es)) (snd (log_iterations stampTime es r))"
    if "log_inv r" "log_due before r" "sorted (before # map lwNow es)" for before es r
    using that
  proof (induction es arbitrary: r before)
    case Nil
    then show ?case
      by simp
  next
    case (Cons e es)
    have "log_inv (snd (log_iteration stampTime e r))" "log_due (lwNow e) (snd (log_iteration stampTime e r))"
      using Cons.prems log_inv_iteration [of r] log_due_iteration [of before r e] by simp_all
    then have "log_inv (snd (log_iterations stampTime es (snd (log_iteration stampTime e r)))) \<and>
        log_due (last (lwNow e # map lwNow es)) (snd (log_iterations stampTime es (snd (log_iteration stampTime e r))))"
      using Cons.prems(3) by (intro Cons.IH) simp_all
    moreover have "snd (log_iterations stampTime (e # es) r) = snd (log_iterations stampTime es (snd (log_iteration stampTime e r)))"
      by (simp split: prod.split)
    ultimately show ?case
      by simp
  qed
  have "log_inv newLog" "log_due 0 newLog"
    by (simp_all add: log_inv_def log_due_def newLog_def locateRetry_def locateEvery_def time_units)
  moreover have "sorted (0 # map lwNow es)"
    using assms(1-3) by (cases es) auto
  ultimately have "log_inv r \<and> log_due (last (0 # map lwNow es)) r"
    using step [of newLog 0 es] assms(4) by simp
  then show ?thesis
    using assms(2) by (simp add: log_inv_def log_due_def last_map)
qed

section \<open>Whose lines are passed on\<close>

text \<open>Every line passed on was read from the log in this iteration and is for an inbound of the list in
  force.\<close>

definition line_of :: "(string, inbound) gomap \<Rightarrow> Line \<Rightarrow> entry \<Rightarrow> bool" where
  "line_of m l x \<longleftrightarrow> (\<exists>ib. map_of m (eTag x) = Some ib \<and> lEmail l = eEmail x \<and> lConn l = \<lparr>cPort = port ib, cRemote = eAddr x\<rparr>)"

lemma lines_of_entries: "l \<in> set (lines now es m b) \<Longrightarrow> \<exists>x \<in> set es. line_of m l x"
proof (induction es)
  case (Cons x es)
  show ?case
  proof (cases "l \<in> set (lines now es m b)")
    case True
    then show ?thesis
      using Cons.IH by auto
  next
    case False
    then have "line_of m l x"
      using Cons.prems by (auto simp: line_of_def split: option.splits if_splits)
    then show ?thesis
      by simp
  qed
qed simp

lemma iteration_lines:
  assumes "log_iteration stampTime e r = (ls, r')" and "l \<in> set ls"
  shows "\<exists>p f raws f' x. poll_log (lwFiles e p) f = Some (raws, f') \<and> x \<in> set (entries_of stampTime raws) \<and> line_of (known r') l x"
proof -
  obtain p f where pf: "lrFollower (locate_phase e r) = Some (p, f)"
    using assms by (cases "lrFollower (locate_phase e r)") (auto simp: log_iteration_def poll_phase_def)
  then obtain raws f' where poll: "poll_log (lwFiles e p) f = Some (raws, f')"
    using assms by (cases "poll_log (lwFiles e p) f") (auto simp: log_iteration_def poll_phase_def)
  let ?es = "entries_of stampTime raws"
  let ?r1 = "relist e ?es (locate_phase e r)"
  have ls: "ls = lines (lwLinesAt e) ?es (known ?r1) (lrBlackholes ?r1)" "known r' = known ?r1"
    using assms(1) pf poll by (auto simp: log_iteration_def poll_phase_def Let_def known_def)
  then show ?thesis
    using lines_of_entries [of l "lwLinesAt e" ?es "known ?r1"] assms(2) poll by metis
qed

end
