(* ===== verification/Routing_Cli.thy ===== *)
theory Routing_Cli
  imports Routing Xray_Process Node_Config
begin

text \<open>
  How the routing module runs the binary of the Xray that 3x-ui started:
  \<open>src/internal/modules/routing/xray.go\<close>. A run of the binary is its arguments, working directory, environment
  and input; what it answers is an argument.
\<close>

section \<open>The running Xray\<close>

record xrayRun =
  xrPid :: string
  xrBinary :: string
  xrCwd :: string
  xrEnv :: "string list"
  xrApi :: string
  xrConfig :: "(string, json) gomap"

definition api_inbound :: "json \<Rightarrow> (string \<times> string \<times> int) option" where
  "api_inbound j = (case j of
      JNull \<Rightarrow> Some ([], [], 0)
    | JObj kvs \<Rightarrow> (case (field [] as_string kvs ''tag'', field [] as_string kvs ''listen'', field 0 as_int kvs ''port'') of
          (Some t, Some l, Some p) \<Rightarrow> Some (t, l, p) | _ \<Rightarrow> None)
    | _ \<Rightarrow> None)"

definition api_inbounds :: "json option \<Rightarrow> (string \<times> string \<times> int) list option" where
  "api_inbounds j = (case j of
      Some JNull \<Rightarrow> Some []
    | Some (JArr js) \<Rightarrow> if list_all (\<lambda>x. api_inbound x \<noteq> None) js then Some (List.map_filter api_inbound js) else None
    | _ \<Rightarrow> None)"

fun first_api :: "(string \<times> string \<times> int) list \<Rightarrow> string option" where
  "first_api [] = None"
| "first_api ((tag, listen, p) # ibs) =
     (if tag \<noteq> ''api'' then first_api ibs
      else (case ParseAddr listen of None \<Rightarrow> None
        | Some ip \<Rightarrow> if \<not> IsLoopback ip \<or> p < 1 \<or> p > 65535 then None else Some (JoinHostPort listen (Itoa p))))"

definition apiAddress :: "(string, json) gomap \<Rightarrow> string option" where
  "apiAddress config = Option.bind (api_inbounds (map_of config ''inbounds'')) first_api"

definition cli_locate :: "int \<Rightarrow> proc_entry list option \<Rightarrow> (string \<Rightarrow> raw option) \<Rightarrow> xrayRun option" where
  "cli_locate pid dirs read = (case Find pid dirs of Inl e \<Rightarrow> None
     | Inr x \<Rightarrow> (case (Binary x, process_Config x) of
         (Some binary, Inr path) \<Rightarrow> (case read path of
             Some (Doc (JObj kvs)) \<Rightarrow>
               (let config = foldl (\<lambda>m (k, v). AList.update k v m) [] kvs in
                case (AssetEnv x, apiAddress config) of
                  (Some env, Some api) \<Rightarrow> Some \<lparr>xrPid = PID x, xrBinary = binary, xrCwd = xCwd x, xrEnv = env, xrApi = api, xrConfig = config\<rparr>
                | _ \<Rightarrow> None)
           | _ \<Rightarrow> None)
       | _ \<Rightarrow> None))"

section \<open>The commands\<close>

datatype cli_call =
  CliTest json | CliOutbounds | CliAddOutbounds "json list" | CliRemoveOutbounds "string list" | CliReplaceRules "json list" | CliRules

record cli_run =
  crBinary :: string
  crArgs :: "string list"
  crDir :: string
  crEnv :: "string list"
  crInput :: string

definition cli_exec :: "xrayRun \<Rightarrow> string \<Rightarrow> string list \<Rightarrow> cli_run" where
  "cli_exec p input args = \<lparr>crBinary = xrBinary p, crArgs = args, crDir = xrCwd p, crEnv = xrEnv p, crInput = input\<rparr>"

definition cli_api :: "xrayRun \<Rightarrow> string \<Rightarrow> string \<Rightarrow> string list \<Rightarrow> cli_run" where
  "cli_api p input command args = cli_exec p input ([''api'', command, ''--server='' @ xrApi p, ''-timeout=10''] @ args)"

fun run_of :: "xrayRun \<Rightarrow> cli_call \<Rightarrow> cli_run" where
  "run_of p (CliTest config) = cli_exec p (json_text config) [''run'', ''-test'', ''-c'', ''stdin:'']"
| "run_of p CliOutbounds = cli_api p [] ''lso'' []"
| "run_of p (CliAddOutbounds os) = cli_api p (json_text (JObj [(''outbounds'', JArr os)])) ''ado'' [''stdin:'']"
| "run_of p (CliRemoveOutbounds tags) = cli_api p [] ''rmo'' tags"
| "run_of p (CliReplaceRules rs) = cli_api p (json_text (JObj [(''routing'', JObj [(''rules'', JArr rs)])])) ''adrules'' [''stdin:'']"
| "run_of p CliRules = cli_api p [] ''lsrules'' []"

text \<open>How a run ends: with its output, with another exit status than zero, or not at all.\<close>

datatype cli_end = Output raw | ExitStatus | NotRun

definition test_of :: "cli_end \<Rightarrow> test_result" where
  "test_of e = (case e of Output _ \<Rightarrow> TestOk | ExitStatus \<Rightarrow> TestInvalid | NotRun \<Rightarrow> TestError)"

definition outbound_tag :: "json \<Rightarrow> string option" where
  "outbound_tag j = (case j of JNull \<Rightarrow> Some [] | JObj kvs \<Rightarrow> field [] as_string kvs ''tag'' | _ \<Rightarrow> None)"

definition outbound_tags :: "json \<Rightarrow> string list option" where
  "outbound_tags j = (case j of
      JArr js \<Rightarrow> if list_all (\<lambda>x. outbound_tag x \<noteq> None) js then Some (List.map_filter outbound_tag js) else None
    | _ \<Rightarrow> None)"

definition outbounds_of :: "cli_end \<Rightarrow> string list option" where
  "outbounds_of e = (case e of
      Output (Doc JNull) \<Rightarrow> Some []
    | Output (Doc (JObj kvs)) \<Rightarrow> field [] outbound_tags kvs ''outbounds''
    | _ \<Rightarrow> None)"

section \<open>The commands stay on the machine\<close>

definition local_address :: "string \<Rightarrow> bool" where
  "local_address a \<longleftrightarrow> (\<exists>l p ip. a = JoinHostPort l (Itoa p) \<and> ParseAddr l = Some ip \<and> IsLoopback ip \<and> 1 \<le> p \<and> p \<le> 65535)"

lemma first_api_loopback: "first_api ibs = Some a \<Longrightarrow> local_address a"
proof (induction ibs rule: first_api.induct)
  case (2 tag listen p ibs)
  show ?case
  proof (cases "tag = ''api''")
    case True
    then obtain ip where "ParseAddr listen = Some ip" "IsLoopback ip" "1 \<le> p" "p \<le> 65535" "a = JoinHostPort listen (Itoa p)"
      using "2.prems" by (auto split: option.splits if_splits)
    then show ?thesis
      unfolding local_address_def by blast
  next
    case False
    with 2 show ?thesis
      by simp
  qed
qed simp

text \<open>Every call runs the binary of the one Xray process 3x-ui started, and every api command asks a
  loopback address with a valid port.\<close>

lemma calls_stay_local:
  assumes "cli_locate pid dirs read = Some p"
  shows "crBinary (run_of p c) = xrBinary p \<and>
    local_address (xrApi p) \<and>
    (case c of CliTest _ \<Rightarrow> True | _ \<Rightarrow> crArgs (run_of p c) ! 2 = ''--server='' @ xrApi p) \<and>
    (\<exists>x. Find pid dirs = Inr x \<and> Binary x = Some (xrBinary p) \<and> PID x = xrPid p)"
proof -
  obtain x where x: "Find pid dirs = Inr x" "Binary x = Some (xrBinary p)" "PID x = xrPid p" and a: "apiAddress (xrConfig p) = Some (xrApi p)"
    using assms by (auto simp: cli_locate_def Let_def split: sum.splits option.splits raw.splits json.splits)
  have "local_address (xrApi p)"
    using a first_api_loopback by (auto simp: apiAddress_def bind_eq_Some_conv)
  then show ?thesis
    using x by (cases c) (simp_all add: cli_exec_def cli_api_def)
qed

end
