(* ===== verification/Spec2Isabelle.thy ===== *)
theory Spec2Isabelle
  imports Lifecycle Executor Desired Change_Ip Ledger Transport Xui_Confirm Connection_Records Rate_Limit Routing Runtime
    Deployment Log_Follow Diagnostics Sock_Diag Panel_Client Ip_Observer Xray_Process Startup Log_Run Routing_Cli
begin

text \<open>
  \<^bold>\<open>A verification development of the Akastr Agent.\<close> The Agent (\<open>src/\<close>, Go) runs on a node and serves a
  control service, Cloud: it executes commands at most once, keeps Cloud's targets applied in the
  local 3x-ui panel, in Xray and in the kernel, reports what it observes, answers diagnostics, and
  replaces itself with newer releases. This theory holds the properties of the agent as a whole; the other
  theories model its parts, one theory or group of theories per component.

  \<^bold>\<open>Parts and how they interact.\<close> One control connection (\<open>internal/transport\<close>) reads messages and passes
  them to the runtime (\<open>internal/app\<close>), which hands commands to the executor and its journal
  (\<open>internal/operation\<close>), targets to the engine of target states (\<open>internal/desired\<close>), acknowledgements to
  the modules that report and queries to the one that answers. Modules are under \<open>internal/modules\<close>.
  The access log (\<open>internal/xray/accesslog\<close>) and the kernel's sockets (\<open>internal/sockdiag\<close>) feed one account
  of connections (\<open>internal/xray/ledger\<close>), which serves the snapshots, the download limits and the
  connection records. The gate (\<open>internal/lifecycle\<close>) keeps commands and updates (\<open>internal/update\<close>,
  \<open>internal/daemon\<close>, \<open>internal/install\<close>, \<open>internal/layout\<close>) apart.

  \<^bold>\<open>Foundations.\<close>
  \<^item> \<open>Prelude\<close>: times, Go maps as association lists, strings; \<open>Strconv\<close>, \<open>Text_Tools\<close>, \<open>Base64\<close>, \<open>Utf8\<close>, \<open>Bytes\<close>:
    the library functions the code uses on text and bytes, with their round trips.
  \<^item> \<open>Json\<close>: documents as values, with Go's reading of structures (case-insensitive keys, null, duplicates)
    and the printer. \<open>Json_File\<close>: \<open>state/json_file.go\<close>, the atomic file every durable state rests on, as the
    locale \<open>atomic_store\<close>.
  \<^item> \<open>Protocol\<close>: \<open>protocol/protocol.go\<close>, message bodies and strict decoders.

  \<^bold>\<open>Commands.\<close> \<open>Journal\<close> (\<open>operation/engine.go\<close>): the journal, its invariant, its durability. \<open>Executor\<close>
  (\<open>operation/executor.go\<close>): one execution, and the step relation \<open>xstep\<close> of any number of interleaved
  executions, failing saves and restarts: at most one run per command, exclusive groups. \<open>Lifecycle\<close>
  (\<open>lifecycle/gate.go\<close>): leases, as the locale \<open>lease_gate\<close> with two interpretations. \<open>Change_Ip\<close>
  (\<open>modules/changeip\<close>) over the locale \<open>change_reconciler\<close>, interpreted on \<open>Ip_Monitor\<close>
  (\<open>modules/ipwatch/monitor.go\<close>): evidence for every outcome, and that outcomes survive. \<open>Ip_Observer\<close>
  (\<open>observer.go\<close>) and \<open>Net_Policy\<close> (\<open>netpolicy\<close>): which addresses count. \<open>Ip_Quality\<close>
  (\<open>modules/ipqualityrunner\<close>): which script runs and when its report counts.

  \<^bold>\<open>Targets.\<close> \<open>Desired\<close> (\<open>desired/engine.go\<close>): messages, passes and their interleaving. \<open>Xui_Target\<close>, \<open>Xui_State\<close>,
  \<open>Xui_Plan\<close>, \<open>Xui_Apply\<close>, \<open>Xui_Confirm\<close> (\<open>modules/xui\<close>): decoding, durable marks, the plan of writes, \<open>Apply\<close>
  against a panel and disk that may fail anywhere, and what a reported success means; the locale
  \<open>xui_world_property\<close> carries an invariant through a whole run. \<open>Panel_Client\<close> (\<open>panel/panel.go\<close>): requests and
  answers. \<open>Routing_Template\<close>, \<open>Routing\<close>, \<open>Routing_Cli\<close> (\<open>modules/routing\<close>): the template written, one pass, and
  the calls of the Xray binary. \<open>Rate_Rules\<close>, \<open>Rate_Table\<close>, \<open>Rate_Limit\<close> (\<open>modules/ratelimit\<close>): the rules wanted
  and what \<open>tc\<close> was told.

  \<^bold>\<open>Observation.\<close> \<open>Xray_Process\<close> (\<open>xray/process\<close>, \<open>accesslog/proc.go\<close>): the one process and its log. \<open>Access_Log\<close>,
  \<open>Log_Follow\<close>, \<open>Log_Run\<close> (\<open>accesslog\<close>): parsing that a client cannot forge, following over rotations, and the
  loop that joins them. \<open>Sock_Diag\<close> (\<open>sockdiag\<close>): netlink messages. \<open>Ledger\<close> (\<open>ledger.go\<close>): who a connection
  belongs to, with the locale \<open>connection_account\<close>. \<open>Connection_Records\<close>, \<open>Xui_Snapshot\<close>: the reports made of
  it. \<open>Runtime\<close> (\<open>app/runtime.go\<close>): reporters as the locale \<open>reporter\<close>, interpreted on all three and on their
  union. \<open>Diagnostics\<close> (\<open>modules/diagnostics\<close>): scripts and answers that fit one message.

  \<^bold>\<open>The node.\<close> \<open>Node_Config\<close> (\<open>config\<close>, \<open>app/modules.go\<close>): sections, modules, wiring. \<open>Node_Identity\<close>
  (\<open>identity\<close>, \<open>install\<close>): the key, enrollment, the sealed configuration, whose machine it is. \<open>Update_Target\<close>,
  \<open>Update_Download\<close>, \<open>Update_Check\<close>, \<open>Updater\<close> (\<open>update\<close>), \<open>Layout\<close> (\<open>layout\<close>) and \<open>Deployment\<close> (\<open>install\<close>, \<open>daemon\<close>): a
  step relation of the node in which checks, downloads, candidates, installations, crashes and restarts
  interleave. \<open>Transport\<close> (\<open>transport/client.go\<close>): the handshake and the step relation \<open>tstep\<close> of sessions,
  executions, leases, queries and updates. \<open>Agent\<close>: the runtime as what \<open>Transport\<close> calls, and the agent's own
  steps; \<open>Startup\<close> (\<open>daemon/run.go\<close>): the checks before they begin.

  \<^bold>\<open>State and effects.\<close> A structure is a record, a Go map an association list whose order is one iteration
  order, an error a value; every handler takes and returns its state. Mutexes are honoured by making
  what runs under one lock one step, and splitting a function where it drops the lock (a pass of
  \<open>desired\<close>, an offer of the transport, an execution).

  \<^bold>\<open>Parameters.\<close> What is outside the repository is an argument: SHA-256, HMAC, AES-GCM, Ed25519, the text
  parsers of JSON, times, URLs and floating-point numbers, the panel, Xray, \<open>tc\<close>, systemd, the network and
  the outcome of each system call. A hypothesis about one of them states documented behaviour and is
  met by an example in a witness.

  \<^bold>\<open>Bounds and fuel.\<close> Loops over data are recursive functions with a measure. The shortening of an answer in
  \<open>Diagnostics\<close> is a partial function over options, and it is proved that it returns. The restart loop of
  \<open>Routing\<close> makes as many polls as its deadline allows. Step relations have no bound: their theorems are about every
  reachable state. Integers are mathematical where the code keeps them in range, words for addresses
  and bytes, and \<open>int64\<close> saturation is written out where times are subtracted.

  \<^bold>\<open>What modelling showed.\<close> A failed save can lose the mark of a pending Xray restart; an IPv6 address with a
  zone passes as public; a session that becomes ready during a pass may not be told of a status; an
  installation that gives up can replace the files of a waiting candidate; an answer can exceed the
  message limit by the length of a time; lines are lost when 3x-ui creates its copy at the first rotation.

  \<^bold>\<open>Not modelled.\<close> Websocket, HTTP and netlink sockets, starting and killing processes, file descriptors,
  timers, goroutine scheduling within a step, logging and command-line parsing: they are I/O, and their outcomes are
  parameters. The heartbeat of a connection and \<open>sd_notify\<close> have no state of their own. The systemd unit's
  text is data.
\<close>

section \<open>The agent as a whole\<close>

text \<open>
  C10. What Cloud's messages say is what the modules are told. In every state the agent can reach, however
  sessions come and go, messages are refused, commands, acknowledgements and the modules' own work
  interleave, the record of a module's targets is exactly what the state messages received say, read
  backwards from the newest: a key has its newest target that the module's own check accepts since a key
  list last omitted it, it is marked invalid exactly when its newest target is refused, and the module may
  be applied exactly when a key list for it has arrived.
\<close>

theorem wire_targets:
  assumes "agent_reach w pt s" and "name \<in> set (wDesired w)"
  shows "\<exists>u. map_of (agDesired (truntime s)) name = Some u \<and>
    (\<forall>k. map_of (targets u) k = wanted (module_valid name) (state_events name (received s)) k \<and>
         map_of (invalid u) k = rejected (module_valid name) (state_events name (received s)) k) \<and>
    (complete u \<longleftrightarrow> (\<exists>ks. EvKeys ks \<in> set (state_events name (received s))))"
  using targets_inv_reach [OF assms] targets_refine [of "module_valid name" "state_events name (received s)"]
  by (auto simp: targets_inv_def core_of_def core_def)

theorem wire_targets_witness:
  "\<exists>s u. agent_reach ex_wiring Protocol.ex_time s \<and> received s = [(0, ex_keys_env)] \<and> map_of (agDesired (truntime s)) ''xui'' = Some u \<and> complete u"
proof -
  obtain s where s: "agent_reach ex_wiring Protocol.ex_time s" "received s = [(0, ex_keys_env)]"
    using ex_keys_reach by blast
  have "''xui'' \<in> set (wDesired ex_wiring)"
    by (simp add: ex_wiring_def)
  then obtain u where u: "map_of (agDesired (truntime s)) ''xui'' = Some u"
      "complete u \<longleftrightarrow> (\<exists>ks. EvKeys ks \<in> set (state_events ''xui'' (received s)))"
    using wire_targets [OF s(1)] by blast
  have "event_of ''xui'' ex_keys_env = Some (EvKeys [])"
    by (simp add: event_of_def ex_keys_decodes) (simp add: ex_keys_env_def ex_envelope_def)
  then have "complete u"
    using u(2) by (simp add: s(2) state_events_def map_filter_simps)
  with s u(1) show ?thesis
    by blast
qed

text \<open>
  C11. Only commands the configuration enables run, with payloads their modules accept. In every state the
  agent can reach, a command that executes is a ChangeIP command on a node whose configuration has
  the ChangeIP module and the IP monitor that confirms it, naming a public IPv4 address; or an IP quality
  check on a node with the runner module, naming a public IPv4 address and a port.
\<close>

theorem executes_enabled_only:
  assumes "build e m = Some w" and "agent_reach w pt s" and "off \<in> set (executing s)"
  shows "(CommandType off = ''changeip.execute'' \<and> mChangeIP m \<noteq> None \<and> mIpWatch m \<noteq> None \<and>
      (\<exists>ip. Change_Ip.DecodePayload (Payload off) = Some ip \<and> PublicIPv4 ip)) \<or>
    (CommandType off = ''ipquality.execute'' \<and> mRunner m \<noteq> None \<and>
      (\<exists>p. quality_DecodePayload (Payload off) = Some p \<and> PublicIPv4 (qpExpectedIPv4 p) \<and> 1 \<le> qpProxyPort p \<and> qpProxyPort p \<le> 65535))"
proof -
  have ok: "command_ok w off"
    using commands_inv_reach [OF assms(2)] assms(3) by (simp add: commands_inv_def)
  then show ?thesis
    using command_ok_payload [OF ok] build_commands [OF assms(1), of "CommandType off"] by (auto simp: command_ok_def)
qed

theorem executes_enabled_only_witness:
  "\<exists>s. agent_reach ex_runner Protocol.ex_time s \<and> executing s = [ex_run_offer] \<and> mRunner (noModules\<lparr>mRunner := Some ()\<rparr>) \<noteq> None \<and>
     (\<exists>p. quality_DecodePayload (Payload ex_run_offer) = Some p \<and> PublicIPv4 (qpExpectedIPv4 p))"
proof -
  obtain s where s: "agent_reach ex_runner Protocol.ex_time s" "executing s = [ex_run_offer]"
    using ex_run_reach by blast
  have b: "build \<lparr>bePanel = True, beObserver = True, beMonitor = True, beProvider = True, beScript = True\<rparr> (noModules\<lparr>mRunner := Some ()\<rparr>) = Some ex_runner"
    by (simp add: build_def noModules_def ex_runner_def enabled_def)
  have "ex_run_offer \<in> set (executing s)"
    by (simp add: s(2))
  moreover have "CommandType ex_run_offer = ''ipquality.execute''"
    by (simp add: ex_run_offer_def ex_quality_offer_def)
  ultimately show ?thesis
    using executes_enabled_only [OF b s(1)] s by (auto simp: noModules_def)
qed

end
